(* ===== verification/SwitchPrelude.thy ===== *)
theory SwitchPrelude
  imports Complex_Main "HOL-Library.List_Lexorder" "HOL-Library.Char_ord"
begin

text \<open>
  Shared vocabulary of the payment switch model: the collections of facts that the
  component proofs use, money values with the two-decimal rounding of
  \<^verbatim>\<open>std::round(x * 100.0) / 100.0\<close> and of the \<^verbatim>\<open>DECIMAL(_,2)\<close> columns,
  number and text conversions of the C++ standard library, and lemmas on tables
  represented as lists of rows.
\<close>

named_theorems wp_simps \<open>weakest-precondition equations of the session monad\<close>
named_theorems val_simps \<open>what a run of the session monad that returns did\<close>
named_theorems row_simps \<open>lookup and update laws of tables\<close>
named_theorems op_defs \<open>definitions of the statements a handler issues\<close>

type_synonym money = real

section \<open>Two-decimal money\<close>

text \<open>
  \<^verbatim>\<open>std::round\<close> rounds half away from zero, and so does a \<^verbatim>\<open>DECIMAL(_,2)\<close>
  column when a value with more decimals is stored in it.
\<close>

definition dec2 :: "money \<Rightarrow> money" where
  "dec2 x = (if x < 0 then - (of_int \<lfloor>- x * 100 + 1/2\<rfloor> / 100)
             else of_int \<lfloor>x * 100 + 1/2\<rfloor> / 100)"

definition is_cents :: "money \<Rightarrow> bool" where
  "is_cents x \<longleftrightarrow> dec2 x = x"

lemma floor_of_int_half: "\<lfloor>(of_int n :: real) + 1/2\<rfloor> = n"
  by linarith

lemma dec2_of_int [simp]: "dec2 (of_int n / 100) = of_int n / 100"
proof (cases "n < 0")
  case True
  have "\<lfloor>- (of_int n / 100) * 100 + 1/2 :: real\<rfloor> = - n"
    by (simp add: floor_eq_iff)
  with True show ?thesis by (simp add: dec2_def)
next
  case False
  have "\<lfloor>(of_int n / 100) * 100 + 1/2 :: real\<rfloor> = n"
    by (simp add: floor_eq_iff)
  with False show ?thesis by (simp add: dec2_def)
qed

lemma dec2_form: "\<exists>n::int. dec2 x = of_int n / 100"
proof (cases "x < 0")
  case True
  then have "dec2 x = of_int (- \<lfloor>- x * 100 + 1/2\<rfloor>) / 100"
    by (simp add: dec2_def)
  then show ?thesis by blast
next
  case False
  then show ?thesis by (auto simp: dec2_def)
qed

lemma is_cents_iff: "is_cents x \<longleftrightarrow> (\<exists>n::int. x = of_int n / 100)"
  unfolding is_cents_def using dec2_form [of x] by (metis dec2_of_int)

lemma is_cents_dec2 [simp]: "is_cents (dec2 x)"
  using dec2_form is_cents_iff by blast

lemma dec2_cents [simp]: "is_cents x \<Longrightarrow> dec2 x = x"
  by (simp add: is_cents_def)

lemma dec2_0 [simp]: "dec2 0 = 0"
  by (simp add: dec2_def)

lemma is_cents_0 [simp]: "is_cents 0"
  by (simp add: is_cents_def)

lemma is_cents_add [simp]: "is_cents x \<Longrightarrow> is_cents y \<Longrightarrow> is_cents (x + y)"
  unfolding is_cents_iff by (metis add_divide_distrib of_int_add)

lemma is_cents_diff [simp]: "is_cents x \<Longrightarrow> is_cents y \<Longrightarrow> is_cents (x - y)"
  unfolding is_cents_iff by (metis diff_divide_distrib of_int_diff)

lemma is_cents_uminus [simp]: "is_cents x \<Longrightarrow> is_cents (- x)"
  using is_cents_diff [of 0 x] by simp

lemma is_cents_numeral [simp]: "is_cents (numeral n)"
proof -
  have "(numeral n :: real) = of_int (numeral n * 100) / 100" by (simp only: of_int_mult) simp
  then show ?thesis unfolding is_cents_iff by blast
qed

lemma is_cents_1 [simp]: "is_cents 1"
proof -
  have "(1 :: real) = of_int 100 / 100" by simp
  then show ?thesis unfolding is_cents_iff by blast
qed

lemma dec2_nonneg: "0 \<le> x \<Longrightarrow> 0 \<le> dec2 x"
proof -
  assume "0 \<le> x"
  then have "0 \<le> \<lfloor>x * 100 + 1/2\<rfloor>" by simp
  with \<open>0 \<le> x\<close> show ?thesis by (simp add: dec2_def)
qed

lemma dec2_nonpos: "x \<le> 0 \<Longrightarrow> dec2 x \<le> 0"
proof (cases "x < 0")
  case True
  then have "0 \<le> \<lfloor>- x * 100 + 1/2\<rfloor>" by simp
  with True show ?thesis by (simp add: dec2_def)
qed simp

lemma dec2_mono: "x \<le> y \<Longrightarrow> dec2 x \<le> dec2 y"
proof -
  assume le: "x \<le> y"
  consider "x < 0 \<and> y < 0" | "x < 0 \<and> 0 \<le> y" | "0 \<le> x \<and> 0 \<le> y"
    using le by linarith
  then show ?thesis
  proof cases
    case 1
    then have "\<lfloor>- y * 100 + 1/2\<rfloor> \<le> \<lfloor>- x * 100 + 1/2\<rfloor>"
      using le by (intro floor_mono) simp
    with 1 show ?thesis by (simp add: dec2_def)
  next
    case 2
    then show ?thesis
      using dec2_nonpos [of x] dec2_nonneg [of y] by linarith
  next
    case 3
    then have "\<lfloor>x * 100 + 1/2\<rfloor> \<le> \<lfloor>y * 100 + 1/2\<rfloor>"
      using le by (intro floor_mono) simp
    with 3 show ?thesis by (simp add: dec2_def)
  qed
qed

lemma dec2_error: "\<bar>dec2 x - x\<bar> \<le> 1/200"
proof (cases "x < 0")
  case True
  define f where "f = (of_int \<lfloor>- x * 100 + 1/2\<rfloor> :: real)"
  have "- x * 100 + 1/2 - 1 < f" and "f \<le> - x * 100 + 1/2" unfolding f_def by linarith+
  moreover have "dec2 x = - (f / 100)" using True by (simp add: dec2_def f_def)
  ultimately show ?thesis by (simp only: abs_le_iff) linarith
next
  case False
  define f where "f = (of_int \<lfloor>x * 100 + 1/2\<rfloor> :: real)"
  have "x * 100 + 1/2 - 1 < f" and "f \<le> x * 100 + 1/2" unfolding f_def by linarith+
  moreover have "dec2 x = f / 100" using False by (simp add: dec2_def f_def)
  ultimately show ?thesis by (simp only: abs_le_iff) linarith
qed

section \<open>Numbers as text\<close>

text \<open>\<^verbatim>\<open>std::to_string\<close> on integers and on \<^verbatim>\<open>double\<close> (format \<^verbatim>\<open>%f\<close>: six decimals).\<close>

definition digit_char :: "nat \<Rightarrow> char" where
  "digit_char d = char_of (48 + d)"

fun nat_str :: "nat \<Rightarrow> string" where
  "nat_str n = (if n < 10 then [digit_char n] else nat_str (n div 10) @ [digit_char (n mod 10)])"

declare nat_str.simps [simp del]

definition int_str :: "int \<Rightarrow> string" where
  "int_str i = (if i < 0 then ''-'' @ nat_str (nat (- i)) else nat_str (nat i))"

fun pad_zeros :: "nat \<Rightarrow> string \<Rightarrow> string" where
  "pad_zeros n s = replicate (n - length s) CHR ''0'' @ s"

definition double_str :: "real \<Rightarrow> string" where
  "double_str x = (let m = nat \<lfloor>\<bar>x\<bar> * 1000000 + 1/2\<rfloor>
     in (if x < 0 then ''-'' else []) @ nat_str (m div 1000000) @ ''.'' @
        pad_zeros 6 (nat_str (m mod 1000000)))"

section \<open>Text\<close>

text \<open>The UTF-8 bytes of the dash in the program's messages.\<close>

definition em_dash :: string where
  "em_dash = [CHR '' '', CHR 0xE2, CHR 0x80, CHR 0x94, CHR '' '']"

text \<open>\<^verbatim>\<open>std::string::find(needle) != npos\<close>.\<close>

fun contains_str :: "string \<Rightarrow> string \<Rightarrow> bool" where
  "contains_str needle [] = (needle = [])"
| "contains_str needle (c # cs) = (take (length needle) (c # cs) = needle \<or> contains_str needle cs)"

text \<open>\<^verbatim>\<open>std::tolower\<close> and \<^verbatim>\<open>std::toupper\<close> in the C locale.\<close>

definition tolower :: "char \<Rightarrow> char" where
  "tolower c = (let n = of_char c :: nat in if 65 \<le> n \<and> n \<le> 90 then char_of (n + 32) else c)"

definition toupper :: "char \<Rightarrow> char" where
  "toupper c = (let n = of_char c :: nat in if 97 \<le> n \<and> n \<le> 122 then char_of (n - 32) else c)"

definition isspace :: "char \<Rightarrow> bool" where
  "isspace c = (let n = of_char c :: nat in n = 32 \<or> (9 \<le> n \<and> n \<le> 13))"

definition isdigit :: "char \<Rightarrow> bool" where
  "isdigit c = (let n = of_char c :: nat in 48 \<le> n \<and> n \<le> 57)"

definition isalpha :: "char \<Rightarrow> bool" where
  "isalpha c = (let n = of_char c :: nat in (65 \<le> n \<and> n \<le> 90) \<or> (97 \<le> n \<and> n \<le> 122))"

definition trim_space :: "string \<Rightarrow> string" where
  "trim_space v = rev (dropWhile isspace (rev (dropWhile isspace v)))"

text \<open>\<^verbatim>\<open>std::stoi\<close>: blanks, a sign, digits; \<open>None\<close> where it throws.\<close>

definition digits_value :: "string \<Rightarrow> int" where
  "digits_value s = foldl (\<lambda>n c. 10 * n + (int (of_char c) - 48)) 0 s"

definition stoi :: "string \<Rightarrow> int option" where
  "stoi s = (let s = dropWhile isspace s;
       (neg, s) = (case s of c # cs \<Rightarrow> if c = CHR ''-'' then (True, cs) else if c = CHR ''+'' then (False, cs) else (False, s)
                   | [] \<Rightarrow> (False, s));
       ds = takeWhile isdigit s;
       n = (if neg then - digits_value ds else digits_value ds)
     in if ds = [] \<or> n < - (2 ^ 31) \<or> n \<ge> 2 ^ 31 then None else Some n)"

text \<open>Printing a number and reading its digits back.\<close>

lemma digit_char_laws:
  assumes "n < 10" shows "isdigit (digit_char n)" "\<not> isspace (digit_char n)" "int (of_char (digit_char n)) = 48 + int n"
  using assms by (simp_all add: digit_char_def isdigit_def isspace_def Let_def)

lemma digits_value_snoc: "digits_value (s @ [c]) = 10 * digits_value s + (int (of_char c) - 48)"
  by (simp add: digits_value_def)

lemma digits_value_single: "digits_value [c] = int (of_char c) - 48"
  by (simp add: digits_value_def)

lemma nat_str_value: "digits_value (nat_str n) = int n \<and> list_all isdigit (nat_str n) \<and> nat_str n \<noteq> []"
proof (induction n rule: nat_str.induct)
  case (1 n)
  have "10 * int (n div 10) + int (n mod 10) = int n" by presburger
  with 1 show ?case
    by (subst (1 2 3) nat_str.simps) (auto simp: digits_value_snoc digits_value_single digit_char_laws)
qed

section \<open>Tables as lists of rows\<close>

definition upd_rows :: "('r \<Rightarrow> bool) \<Rightarrow> ('r \<Rightarrow> 'r) \<Rightarrow> 'r list \<Rightarrow> 'r list" where
  "upd_rows P f xs = map (\<lambda>r. if P r then f r else r) xs"

definition next_id :: "('r \<Rightarrow> nat) \<Rightarrow> 'r list \<Rightarrow> nat" where
  "next_id rid xs = Suc (fold max (map rid xs) 0)"

lemma fold_max_acc: "(a::nat) \<le> fold max xs a"
proof (induction xs arbitrary: a)
  case (Cons y ys)
  have "a \<le> max y a" by simp
  also have "\<dots> \<le> fold max ys (max y a)" by (rule Cons.IH)
  finally show ?case by simp
qed simp

lemma fold_max_ge: "x \<in> set xs \<Longrightarrow> x \<le> fold max xs (a::nat)"
proof (induction xs arbitrary: a)
  case (Cons y ys)
  show ?case
  proof (cases "x = y")
    case True
    have "y \<le> max y a" by simp
    also have "\<dots> \<le> fold max ys (max y a)" by (rule fold_max_acc)
    finally show ?thesis using True by simp
  next
    case False
    with Cons show ?thesis by simp
  qed
qed simp

lemma next_id_fresh: "r \<in> set xs \<Longrightarrow> rid r < next_id rid xs"
  unfolding next_id_def using fold_max_ge [of "rid r" "map rid xs" 0] by (simp add: less_Suc_eq_le)

lemma set_upd_rows: "set (upd_rows P f xs) = (\<lambda>r. if P r then f r else r) ` set xs"
  by (simp add: upd_rows_def)

lemma length_upd_rows [simp]: "length (upd_rows P f xs) = length xs"
  by (simp add: upd_rows_def)

lemma map_upd_rows_frame:
  "(\<And>r. P r \<Longrightarrow> g (f r) = g r) \<Longrightarrow> map g (upd_rows P f xs) = map g xs"
  by (simp add: upd_rows_def)

lemma find_upd_rows_same:
  "(\<And>r. P (f r) = P r) \<Longrightarrow> List.find P (upd_rows P f xs) = map_option f (List.find P xs)"
  by (induction xs) (auto simp: upd_rows_def)

lemma find_upd_rows_other:
  "(\<And>r. P r \<Longrightarrow> \<not> Q r) \<Longrightarrow> (\<And>r. P r \<Longrightarrow> \<not> Q (f r)) \<Longrightarrow>
   List.find Q (upd_rows P f xs) = List.find Q xs"
  by (induction xs) (auto simp: upd_rows_def)

lemma upd_rows_absent: "\<forall>r\<in>set xs. \<not> P r \<Longrightarrow> upd_rows P f xs = xs"
  by (simp add: upd_rows_def map_idI)

text \<open>The total of a column after one row of a table with a unique key is rewritten.\<close>

lemma sum_upd_rows_unique:
  fixes g :: "'r \<Rightarrow> money"
  assumes "distinct (map k xs)" and "r \<in> set xs"
  shows "sum_list (map g (upd_rows (\<lambda>x. k x = k r) f xs)) = sum_list (map g xs) - g r + g (f r)"
  using assms
proof (induction xs)
  case Nil
  then show ?case by simp
next
  case (Cons x xs)
  show ?case
  proof (cases "k x = k r")
    case True
    with Cons.prems have "x = r" and notin: "\<forall>y\<in>set xs. k y \<noteq> k r"
      by (auto simp: rev_image_eqI)
    then have "upd_rows (\<lambda>x. k x = k r) f xs = xs"
      by (auto intro: upd_rows_absent)
    then show ?thesis by (simp add: upd_rows_def \<open>x = r\<close>)
  next
    case False
    with Cons show ?thesis by (auto simp: upd_rows_def)
  qed
qed

end
