(* ===== verification/Json.thy ===== *)
theory Json
  imports SwitchPrelude
begin

text \<open>
  The part of the JSON library (\<^verbatim>\<open>include/json.hpp\<close>) that the switch uses: values,
  \<^verbatim>\<open>contains\<close>, the const \<^verbatim>\<open>operator[]\<close>, \<^verbatim>\<open>value(key, default)\<close>, the typed
  \<^verbatim>\<open>get\<close>s and assignment to a key. A C++ call either returns (\<open>Val\<close>), throws a
  \<^verbatim>\<open>std::exception\<close> (\<open>Exn\<close>), or fails the \<^verbatim>\<open>JSON_ASSERT\<close> of the const
  \<^verbatim>\<open>operator[]\<close> on a missing key, which ends the process (\<open>Abort\<close>).
  Objects are association lists sorted by key, as the library's \<^verbatim>\<open>std::map\<close> is.
\<close>

datatype exn = RuntimeErr string | InvalidArg string | JsonErr string | DbErr string

text \<open>\<^verbatim>\<open>e.what()\<close>\<close>

fun what :: "exn \<Rightarrow> string" where
  "what (RuntimeErr s) = s"
| "what (InvalidArg s) = s"
| "what (JsonErr s) = s"
| "what (DbErr s) = s"

datatype 'a outcome = Val 'a | Exn exn | Abort

fun obind :: "'a outcome \<Rightarrow> ('a \<Rightarrow> 'b outcome) \<Rightarrow> 'b outcome" where
  "obind (Val x) f = f x"
| "obind (Exn e) f = Exn e"
| "obind Abort f = Abort"

datatype json =
    JNull
  | JBool bool
  | JInt int
  | JNum real
  | JStr string
  | JArr "json list"
  | JObj "(string \<times> json) list"

fun type_name :: "json \<Rightarrow> string" where
  "type_name JNull = ''null''"
| "type_name (JBool _) = ''boolean''"
| "type_name (JInt _) = ''number''"
| "type_name (JNum _) = ''number''"
| "type_name (JStr _) = ''string''"
| "type_name (JArr _) = ''array''"
| "type_name (JObj _) = ''object''"

fun is_object :: "json \<Rightarrow> bool" where
  "is_object (JObj _) = True"
| "is_object _ = False"

fun is_string :: "json \<Rightarrow> bool" where
  "is_string (JStr _) = True"
| "is_string _ = False"

fun is_number :: "json \<Rightarrow> bool" where
  "is_number (JInt _) = True"
| "is_number (JNum _) = True"
| "is_number _ = False"

section \<open>Reading\<close>

text \<open>\<^verbatim>\<open>find\<close> and \<^verbatim>\<open>contains\<close>: no key is found in a value that is not an object.\<close>

fun jfind :: "json \<Rightarrow> string \<Rightarrow> json option" where
  "jfind (JObj kvs) k = map_of kvs k"
| "jfind _ k = None"

definition jcontains :: "json \<Rightarrow> string \<Rightarrow> bool" where
  "jcontains j k \<longleftrightarrow> jfind j k \<noteq> None"

definition type_error_302 :: "string \<Rightarrow> json \<Rightarrow> exn" where
  "type_error_302 want j =
     JsonErr (''[json.exception.type_error.302] type must be '' @ want @ '', but is '' @ type_name j)"

fun get_str :: "json \<Rightarrow> string outcome" where
  "get_str (JStr s) = Val s"
| "get_str j = Exn (type_error_302 ''string'' j)"

fun get_num :: "json \<Rightarrow> real outcome" where
  "get_num (JInt i) = Val (of_int i)"
| "get_num (JNum x) = Val x"
| "get_num j = Exn (type_error_302 ''number'' j)"

fun jat :: "json \<Rightarrow> string \<Rightarrow> json outcome" where
  "jat (JObj kvs) k = (case map_of kvs k of Some v \<Rightarrow> Val v | None \<Rightarrow> Abort)"
| "jat j k = Exn (JsonErr (''[json.exception.type_error.305] cannot use operator[] with a string argument with ''
       @ type_name j))"

definition jvalue :: "(json \<Rightarrow> 'a outcome) \<Rightarrow> json \<Rightarrow> string \<Rightarrow> 'a \<Rightarrow> 'a outcome" where
  "jvalue get j k d = (case j of
      JObj kvs \<Rightarrow> (case map_of kvs k of Some v \<Rightarrow> get v | None \<Rightarrow> Val d)
    | _ \<Rightarrow> Exn (JsonErr (''[json.exception.type_error.306] cannot use value() with '' @ type_name j)))"

abbreviation jvalue_str :: "json \<Rightarrow> string \<Rightarrow> string \<Rightarrow> string outcome" where
  "jvalue_str \<equiv> jvalue get_str"

abbreviation jvalue_num :: "json \<Rightarrow> string \<Rightarrow> real \<Rightarrow> real outcome" where
  "jvalue_num \<equiv> jvalue get_num"

text \<open>\<^verbatim>\<open>data[k].get<T>()\<close> on a const value.\<close>

definition jat_str :: "json \<Rightarrow> string \<Rightarrow> string outcome" where
  "jat_str j k = obind (jat j k) get_str"

definition jat_num :: "json \<Rightarrow> string \<Rightarrow> real outcome" where
  "jat_num j k = obind (jat j k) get_num"

lemma jvalue_obj [simp]:
  "jvalue get (JObj kvs) k d = (case map_of kvs k of Some v \<Rightarrow> get v | None \<Rightarrow> Val d)"
  by (simp add: jvalue_def)

lemma get_not_abort [simp]: "get_str v \<noteq> Abort" "get_num v \<noteq> Abort"
  by (cases v; simp)+

lemma jvalue_not_abort: "(\<And>v. get v \<noteq> Abort) \<Longrightarrow> jvalue get j k d \<noteq> Abort"
  by (auto simp: jvalue_def split: json.split option.split)

section \<open>Writing\<close>

fun ins_key :: "string \<Rightarrow> json \<Rightarrow> (string \<times> json) list \<Rightarrow> (string \<times> json) list" where
  "ins_key k v [] = [(k, v)]"
| "ins_key k v ((k', v') # kvs) =
     (if k = k' then (k, v) # kvs
      else if k < k' then (k, v) # (k', v') # kvs
      else (k', v') # ins_key k v kvs)"

text \<open>\<^verbatim>\<open>j[k] = v\<close>: a null value becomes an object first; any other value that is not an
  object throws, which no caller of the switch can reach (each one writes to an object or to a
  default-constructed value) and is left unchanged here.\<close>

fun jset :: "json \<Rightarrow> string \<Rightarrow> json \<Rightarrow> json" where
  "jset (JObj kvs) k v = JObj (ins_key k v kvs)"
| "jset JNull k v = JObj [(k, v)]"
| "jset j k v = j"

definition jobj :: "(string \<times> json) list \<Rightarrow> json" where
  "jobj kvs = JObj (fold (\<lambda>(k, v) m. ins_key k v m) kvs [])"

lemma map_of_ins_key [simp]: "map_of (ins_key k v kvs) = (map_of kvs)(k \<mapsto> v)"
  by (induction kvs) auto

lemma jfind_jset [simp]: "jfind (jset (JObj kvs) k v) k' = (if k' = k then Some v else map_of kvs k')"
  by simp

lemma map_of_fold_ins:
  "map_of (fold (\<lambda>(k, v) m. ins_key k v m) kvs acc) = map_of acc ++ map_of (rev kvs)"
  by (induction kvs arbitrary: acc) (auto simp: map_add_def fun_eq_iff split: option.splits)

lemma jfind_jobj: "jfind (jobj kvs) k = map_of (rev kvs) k"
  by (simp add: jobj_def map_of_fold_ins)

lemma jobj_is_object [simp]: "is_object (jobj kvs)"
  by (simp add: jobj_def)

lemma jset_jobj_find: "jfind (jset (jobj kvs) k v) k' = (if k' = k then Some v else jfind (jobj kvs) k')"
  by (simp add: jobj_def)

text \<open>The \<^verbatim>\<open>errorCode\<close> and \<^verbatim>\<open>status\<close> members every handler answers with.\<close>

definition has_status :: "string \<Rightarrow> json \<Rightarrow> bool" where
  "has_status s j \<longleftrightarrow> jfind j ''status'' = Some (JStr s)"

definition has_error :: "string \<Rightarrow> json \<Rightarrow> bool" where
  "has_error c j \<longleftrightarrow> jfind j ''errorCode'' = Some (JStr c)"

end
