(* ===== verification/Priority.thy ===== *)
theory Priority
  imports SwitchPrelude
begin

text \<open>
  \<^verbatim>\<open>TxnPriority\<close> of \<^verbatim>\<open>include/AccountLockManager.h\<close> with the order that
  \<^verbatim>\<open>CompareNode\<close> gives it: the lower value comes first, so a credit before a debit.
\<close>

datatype TxnPriority = CREDIT | DEBIT

fun prio_value :: "TxnPriority \<Rightarrow> nat" where
  "prio_value CREDIT = 0"
| "prio_value DEBIT = 1"

lemma prio_value_inject [simp]: "prio_value p = prio_value q \<longleftrightarrow> p = q"
  by (cases p; cases q) simp_all

instantiation TxnPriority :: linorder
begin

definition less_eq_TxnPriority :: "TxnPriority \<Rightarrow> TxnPriority \<Rightarrow> bool" where
  "p \<le> q \<longleftrightarrow> prio_value p \<le> prio_value q"

definition less_TxnPriority :: "TxnPriority \<Rightarrow> TxnPriority \<Rightarrow> bool" where
  "p < q \<longleftrightarrow> prio_value p < prio_value q"

instance
  by standard (auto simp: less_eq_TxnPriority_def less_TxnPriority_def)

end

lemma priority_order [simp]: "CREDIT \<le> p" "p \<le> DEBIT" "DEBIT \<le> p \<longleftrightarrow> p = DEBIT" "p \<le> CREDIT \<longleftrightarrow> p = CREDIT"
  by (cases p; simp add: less_eq_TxnPriority_def)+

end
