(* ===== verification/Session.thy ===== *)
theory Session
  imports Json Priority "HOL-Library.Word"
begin

text \<open>
  The database session a handler works on and the effects of a handler: the tables of
  \<^verbatim>\<open>Create DB.sql\<close> as lists of rows, the statements of one session with autocommit and
  explicit transactions, exceptions, and a ghost log of the account locks taken.

  A statement may fail for reasons outside the program (\<open>fault e n\<close> for the \<open>n\<close>-th
  statement of a run), so that every \<^verbatim>\<open>catch\<close> of the source is exercised. The clock
  \<open>now e\<close> is the time of the request and does not move while one handler runs.
\<close>

section \<open>Tables\<close>

record account_row =
  acc_id :: nat
  acc_no :: string
  acc_balance :: money
  acc_country :: string
  acc_frozen :: bool
  acc_currency :: nat

record card_row =
  card_pan :: string
  card_masked :: string
  card_encrypted :: string
  card_scheme :: "string option"
  card_type :: "string option"
  card_expiry :: string
  card_cvv :: "string option"
  card_holder :: string
  card_acc :: string
  card_status :: string
  card_priority :: string
  card_block :: "string option"
  card_daily :: "money option"
  card_monthly :: "money option"
  card_last :: "nat option"

record currency_row =
  cur_id :: nat
  cur_code :: string
  cur_name :: string

text \<open>
  One row type serves the seven channel tables (\<^verbatim>\<open>transaction_atm\<close>, \<open>\<dots>\<close>,
  \<^verbatim>\<open>transaction_iccw\<close>), which the code names by strings: the columns some statement
  reads back are fields, the remaining ones are kept in \<open>t_extra\<close> by column name.
\<close>

record txn_row =
  t_id :: nat
  t_txn_id :: string
  t_client_id :: string
  t_acc :: string
  t_amount :: money
  t_fee :: money
  t_status :: string
  t_message :: string
  t_created :: nat
  t_merchant :: "string option"
  t_pan :: "string option"
  t_refunded :: "money option"
  t_flag :: "string option"
  t_orig :: "nat option"
  t_reversal :: string
  t_extra :: "(string \<times> string) list"

record master_row =
  m_table :: string
  m_ref :: nat
  m_status :: string

record ledger_account =
  la_id :: nat
  la_number :: string
  la_name :: string
  la_type :: string
  la_balance :: money

record ledger_entry =
  le_txn :: string
  le_ledger :: nat
  le_amount :: money
  le_type :: string
  le_desc :: string

record idem_row =
  ik_key :: string
  ik_path :: string
  ik_status :: string
  ik_code :: "int option"
  ik_body :: "json option"

record tds_row =
  td_id :: string
  td_otp :: string
  td_data :: json
  td_channel :: string
  td_status :: string
  td_expires :: nat

record api_row =
  ak_key :: string
  ak_role :: string
  ak_owner :: string
  ak_active :: "int option"

record token_row =
  tk_token :: string
  tk_pan :: string
  tk_acc :: string
  tk_status :: string
  tk_expires :: "nat option"

record falcon_row =
  f_id :: nat
  f_txn :: string
  f_client :: string
  f_device :: string
  f_mobile :: string
  f_acc :: string
  f_amount :: money
  f_reason :: string
  f_status :: string

record reversal_row =
  r_id :: nat
  r_txn :: string
  r_client :: string
  r_orig_txn :: string
  r_orig_table :: string
  r_orig_ref :: int
  r_channel :: string
  r_acc :: string
  r_amount :: money
  r_fee :: money
  r_pan :: string
  r_scheme :: string
  r_reason :: string
  r_status :: string
  r_message :: string

record drop_row =
  d_reversal :: string
  d_orig_txn :: string
  d_orig_table :: string
  d_orig_ref :: int
  d_channel :: string
  d_acc :: string
  d_amount :: money
  d_fee :: money
  d_reason :: string
  d_payload :: json
  d_retry :: string

record db =
  accounts :: "account_row list"
  cards :: "card_row list"
  currencies :: "currency_row list"
  txns :: "string \<Rightarrow> txn_row list"
  master :: "master_row list"
  ledger_accs :: "ledger_account list"
  ledger_entries :: "ledger_entry list"
  fx_rates :: "((string \<times> string) \<times> money) list"
  idem :: "idem_row list"
  tds :: "tds_row list"
  api_keys :: "api_row list"
  tokens :: "token_row list"
  falcon_log :: "falcon_row list"
  reversals :: "reversal_row list"
  drops :: "drop_row list"

section \<open>World and environment\<close>

datatype lock_event = Acquire string TxnPriority | Release string TxnPriority

text \<open>A node of Falcon's recency list; \<open>cn_id\<close> is the identity of the list node.\<close>

record cache_node =
  cn_id :: nat
  cn_key :: string
  cn_stamp :: int

record lru_cache =
  lru_list :: "cache_node list"
  lru_map :: "(string \<times> nat) list"
  lru_next :: nat

text \<open>The static variables of the router: the rate buckets by address with the counter of their
  eviction, and the request counters.\<close>

record rate_bucket =
  rb_count :: nat
  rb_start :: nat

record gate_state =
  rate_buckets :: "string \<Rightarrow> rate_bucket option"
  eviction_counter :: nat
  total_requests :: int
  active_requests :: int
  ok_responses :: int
  fail_responses :: int

record world =
  committed :: db
  working :: "db option"
  tick :: nat
  lock_log :: "lock_event list"
  lru :: lru_cache
  gate :: gate_state

text \<open>
  What a run depends on beside its input: statement failures, clocks, the thread's
  correlation UUID, random draws, whether the caller's \<^verbatim>\<open>wait_for\<close> times out, the
  OpenSSL functions with the configured secrets, two conversions between numbers and
  text that depend on the C locale and on the JSON library's float printer, and the message of
  the connector's exception when NULL, or a row that is not there, is read, and the year and month
  that \<^verbatim>\<open>std::localtime\<close> gives for a time. Parsing and printing JSON text are the library's;
  \<open>parse_json\<close> is \<open>None\<close> where \<^verbatim>\<open>json::parse\<close> throws.
\<close>

record env =
  fault :: "nat \<Rightarrow> string option"
  now :: nat
  steady_ms :: int
  cur_uuid :: string
  draw :: "nat \<Rightarrow> nat"
  timed_out :: bool
  engine_shutdown :: bool
  rand_bytes :: "nat \<Rightarrow> string"
  b64_encode :: "string \<Rightarrow> string"
  b64_decode :: "string \<Rightarrow> string option"
  gcm_seal :: "string \<Rightarrow> string \<Rightarrow> string \<Rightarrow> string \<times> string"
  gcm_open :: "string \<Rightarrow> string \<Rightarrow> string \<Rightarrow> string \<Rightarrow> string option"
  hmac_sha256 :: "string \<Rightarrow> string \<Rightarrow> 8 word list"
  pin_secret :: string
  str_to_double :: "string \<Rightarrow> real option"
  num_dump :: "json \<Rightarrow> string"
  null_msg :: string
  local_date :: "nat \<Rightarrow> nat \<times> nat"
  jwt_secret :: string
  parse_json :: "string \<Rightarrow> json option"
  dump_json :: "json \<Rightarrow> string"

type_synonym 'a M = "env \<Rightarrow> world \<Rightarrow> 'a outcome \<times> world"

section \<open>The monad of handlers\<close>

definition mret :: "'a \<Rightarrow> 'a M" where
  "mret x = (\<lambda>e w. (Val x, w))"

definition mthrow :: "exn \<Rightarrow> 'a M" where
  "mthrow x = (\<lambda>e w. (Exn x, w))"

definition mlift :: "'a outcome \<Rightarrow> 'a M" where
  "mlift r = (\<lambda>e w. (r, w))"

definition mbind :: "'a M \<Rightarrow> ('a \<Rightarrow> 'b M) \<Rightarrow> 'b M" where
  "mbind m f = (\<lambda>e w. case m e w of
      (Val x, w') \<Rightarrow> f x e w'
    | (Exn x, w') \<Rightarrow> (Exn x, w')
    | (Abort, w') \<Rightarrow> (Abort, w'))"

text \<open>\<^verbatim>\<open>catch (const std::exception&)\<close>; \<^verbatim>\<open>catch (...)\<close> does the same here, since
  everything the code throws is a \<^verbatim>\<open>std::exception\<close>.\<close>

definition mcatch :: "'a M \<Rightarrow> (exn \<Rightarrow> 'a M) \<Rightarrow> 'a M" where
  "mcatch m h = (\<lambda>e w. case m e w of
      (Exn x, w') \<Rightarrow> h x e w'
    | r \<Rightarrow> r)"

definition asks :: "(env \<Rightarrow> 'a) \<Rightarrow> 'a M" where
  "asks f = (\<lambda>e w. (Val (f e), w))"

definition mthen :: "'a M \<Rightarrow> 'b M \<Rightarrow> 'b M" where
  "mthen m n = mbind m (\<lambda>_. n)"

lemma mbind_ret [simp]: "mbind (mret x) f = f x"
  by (simp add: mbind_def mret_def)

lemma mbind_ret_right: "mbind m mret = m"
  by (auto simp: mbind_def mret_def fun_eq_iff split: prod.splits outcome.splits)

lemma mbind_assoc: "mbind (mbind m f) g = mbind m (\<lambda>x. mbind (f x) g)"
  by (auto simp: mbind_def fun_eq_iff split: prod.splits outcome.splits)

section \<open>Statements of a session\<close>

definition cur :: "world \<Rightarrow> db" where
  "cur w = (case working w of Some d \<Rightarrow> d | None \<Rightarrow> committed w)"

definition put :: "db \<Rightarrow> world \<Rightarrow> world" where
  "put d w = (case working w of Some _ \<Rightarrow> w\<lparr>working := Some d\<rparr> | None \<Rightarrow> w\<lparr>committed := d\<rparr>)"

definition step_tick :: "world \<Rightarrow> world" where
  "step_tick w = w\<lparr>tick := Suc (tick w)\<rparr>"

text \<open>
  One statement: it may fail, otherwise it reads and writes the open transaction, or the
  committed tables when none is open (autocommit). \<open>Inl\<close> is an error the statement raises
  itself, such as a value out of the range of its column.
\<close>

definition sql :: "(env \<Rightarrow> db \<Rightarrow> string + ('a \<times> db)) \<Rightarrow> 'a M" where
  "sql f = (\<lambda>e w. case fault e (tick w) of
      Some msg \<Rightarrow> (Exn (DbErr msg), step_tick w)
    | None \<Rightarrow> (case f e (cur w) of
        Inl msg \<Rightarrow> (Exn (DbErr msg), step_tick w)
      | Inr (x, d) \<Rightarrow> (Val x, put d (step_tick w))))"

definition query :: "(env \<Rightarrow> db \<Rightarrow> 'a) \<Rightarrow> 'a M" where
  "query f = sql (\<lambda>e d. Inr (f e d, d))"

text \<open>\<^verbatim>\<open>START TRANSACTION\<close> commits a transaction that is still open, as MySQL does.\<close>

definition startTransaction :: "unit M" where
  "startTransaction = (\<lambda>e w. case fault e (tick w) of
      Some msg \<Rightarrow> (Exn (DbErr msg), step_tick w)
    | None \<Rightarrow> (Val (), (step_tick w)\<lparr>committed := cur w, working := Some (cur w)\<rparr>))"

definition commit :: "unit M" where
  "commit = (\<lambda>e w. case fault e (tick w) of
      Some msg \<Rightarrow> (Exn (DbErr msg), step_tick w)
    | None \<Rightarrow> (Val (), (step_tick w)\<lparr>committed := cur w, working := None\<rparr>))"

definition rollback :: "unit M" where
  "rollback = (\<lambda>e w. case fault e (tick w) of
      Some msg \<Rightarrow> (Exn (DbErr msg), step_tick w)
    | None \<Rightarrow> (Val (), (step_tick w)\<lparr>working := None\<rparr>))"

text \<open>\<^verbatim>\<open>Database::ScopedConnection sc;\<close> throws when the pool has no session to give.\<close>

definition scopedConnection :: "unit M" where
  "scopedConnection = (\<lambda>e w. case fault e (tick w) of
      Some msg \<Rightarrow> (Exn (RuntimeErr msg), step_tick w)
    | None \<Rightarrow> (Val (), step_tick w))"

text \<open>\<^verbatim>\<open>AccountLockManager::ScopedLock\<close>: taken on construction, given back on every way
  out of the scope. The ghost log records the order.\<close>

definition log_lock :: "lock_event \<Rightarrow> world \<Rightarrow> world" where
  "log_lock ev w = w\<lparr>lock_log := lock_log w @ [ev]\<rparr>"

definition withLock :: "string \<Rightarrow> TxnPriority \<Rightarrow> 'a M \<Rightarrow> 'a M" where
  "withLock acc p m = (\<lambda>e w. case m e (log_lock (Acquire acc p) w) of
      (r, w') \<Rightarrow> (r, log_lock (Release acc p) w'))"

text \<open>A critical section of \<^verbatim>\<open>lruMutex_\<close>.\<close>

definition with_lru :: "(env \<Rightarrow> lru_cache \<Rightarrow> 'a outcome \<times> lru_cache) \<Rightarrow> 'a M" where
  "with_lru f = (\<lambda>e w. case f e (lru w) of (r, c) \<Rightarrow> (r, w\<lparr>lru := c\<rparr>))"

text \<open>A step on the router's static variables, under their mutex or atomic.\<close>

definition with_gate :: "(env \<Rightarrow> gate_state \<Rightarrow> 'a \<times> gate_state) \<Rightarrow> 'a M" where
  "with_gate f = (\<lambda>e w. case f e (gate w) of (x, g) \<Rightarrow> (Val x, w\<lparr>gate := g\<rparr>))"

section \<open>Weakest preconditions\<close>

definition wp :: "env \<Rightarrow> 'a M \<Rightarrow> ('a outcome \<Rightarrow> world \<Rightarrow> bool) \<Rightarrow> world \<Rightarrow> bool" where
  "wp e m Q w = (case m e w of (r, w') \<Rightarrow> Q r w')"

lemma wp_ret [wp_simps]: "wp e (mret x) Q w = Q (Val x) w"
  by (simp add: wp_def mret_def)

lemma wp_throw [wp_simps]: "wp e (mthrow x) Q w = Q (Exn x) w"
  by (simp add: wp_def mthrow_def)

lemma wp_lift [wp_simps]: "wp e (mlift r) Q w = Q r w"
  by (simp add: wp_def mlift_def)

lemma wp_asks [wp_simps]: "wp e (asks f) Q w = Q (Val (f e)) w"
  by (simp add: wp_def asks_def)

lemma wp_bind [wp_simps]:
  "wp e (mbind m f) Q w = wp e m (\<lambda>r w'. case r of
      Val x \<Rightarrow> wp e (f x) Q w' | Exn x \<Rightarrow> Q (Exn x) w' | Abort \<Rightarrow> Q Abort w') w"
  by (simp add: wp_def mbind_def split: prod.splits outcome.splits)

lemma wp_then [wp_simps]:
  "wp e (mthen m n) Q w = wp e m (\<lambda>r w'. case r of
      Val x \<Rightarrow> wp e n Q w' | Exn x \<Rightarrow> Q (Exn x) w' | Abort \<Rightarrow> Q Abort w') w"
  by (simp add: mthen_def wp_bind)

lemma wp_catch [wp_simps]:
  "wp e (mcatch m h) Q w = wp e m (\<lambda>r w'. case r of
      Val x \<Rightarrow> Q (Val x) w' | Exn x \<Rightarrow> wp e (h x) Q w' | Abort \<Rightarrow> Q Abort w') w"
  by (simp add: wp_def mcatch_def split: prod.splits outcome.splits)

lemma wp_sql [wp_simps]:
  "wp e (sql f) Q w = (case fault e (tick w) of
      Some msg \<Rightarrow> Q (Exn (DbErr msg)) (step_tick w)
    | None \<Rightarrow> (case f e (cur w) of
        Inl msg \<Rightarrow> Q (Exn (DbErr msg)) (step_tick w)
      | Inr (x, d) \<Rightarrow> Q (Val x) (put d (step_tick w))))"
  by (simp add: wp_def sql_def split: option.split sum.split prod.split)

lemma wp_start [wp_simps]:
  "wp e startTransaction Q w = (case fault e (tick w) of
      Some msg \<Rightarrow> Q (Exn (DbErr msg)) (step_tick w)
    | None \<Rightarrow> Q (Val ()) ((step_tick w)\<lparr>committed := cur w, working := Some (cur w)\<rparr>))"
  by (simp add: wp_def startTransaction_def split: option.split)

lemma wp_commit [wp_simps]:
  "wp e commit Q w = (case fault e (tick w) of
      Some msg \<Rightarrow> Q (Exn (DbErr msg)) (step_tick w)
    | None \<Rightarrow> Q (Val ()) ((step_tick w)\<lparr>committed := cur w, working := None\<rparr>))"
  by (simp add: wp_def commit_def split: option.split)

lemma wp_rollback [wp_simps]:
  "wp e rollback Q w = (case fault e (tick w) of
      Some msg \<Rightarrow> Q (Exn (DbErr msg)) (step_tick w)
    | None \<Rightarrow> Q (Val ()) ((step_tick w)\<lparr>working := None\<rparr>))"
  by (simp add: wp_def rollback_def split: option.split)

lemma wp_with_lru [wp_simps]:
  "wp e (with_lru f) Q w = (case f e (lru w) of (r, c) \<Rightarrow> Q r (w\<lparr>lru := c\<rparr>))"
  by (simp add: wp_def with_lru_def split: prod.split)

lemma wp_with_gate [wp_simps]:
  "wp e (with_gate f) Q w = (case f e (gate w) of (x, g) \<Rightarrow> Q (Val x) (w\<lparr>gate := g\<rparr>))"
  by (simp add: wp_def with_gate_def split: prod.split)

lemma wp_conn [wp_simps]:
  "wp e scopedConnection Q w = (case fault e (tick w) of
      Some msg \<Rightarrow> Q (Exn (RuntimeErr msg)) (step_tick w)
    | None \<Rightarrow> Q (Val ()) (step_tick w))"
  by (simp add: wp_def scopedConnection_def split: option.split)

lemma wp_withLock [wp_simps]:
  "wp e (withLock acc p m) Q w =
   wp e m (\<lambda>r w'. Q r (log_lock (Release acc p) w')) (log_lock (Acquire acc p) w)"
  by (simp add: wp_def withLock_def split: prod.split)

lemma wp_mono: "wp e m Q w \<Longrightarrow> (\<And>r w'. Q r w' \<Longrightarrow> Q' r w') \<Longrightarrow> wp e m Q' w"
  by (auto simp: wp_def split: prod.splits)

lemma wpD: "wp e m Q w \<Longrightarrow> m e w = (r, w') \<Longrightarrow> Q r w'"
  by (simp add: wp_def)

text \<open>
  Runs that return: what the last statement of a run, its value and its final state say of
  the statements before it.
\<close>

lemma bind_Val [val_simps]: "mbind m f e w = (Val x, w') \<longleftrightarrow>
    (\<exists>y w1. m e w = (Val y, w1) \<and> f y e w1 = (Val x, w'))"
  by (auto simp: mbind_def split: prod.splits outcome.splits)

lemma then_Val [val_simps]: "mthen m n e w = (Val x, w') \<longleftrightarrow>
    (\<exists>y w1. m e w = (Val y, w1) \<and> n e w1 = (Val x, w'))"
  by (simp add: mthen_def bind_Val)

lemma ret_Val [val_simps]: "mret y e w = (Val x, w') \<longleftrightarrow> x = y \<and> w' = w"
  by (auto simp: mret_def)

lemma throw_Val [val_simps]: "mthrow y e w \<noteq> (Val x, w')"
  by (simp add: mthrow_def)

lemma lift_Val [val_simps]: "mlift r e w = (Val x, w') \<longleftrightarrow> r = Val x \<and> w' = w"
  by (auto simp: mlift_def)

lemma asks_Val [val_simps]: "asks f e w = (Val x, w') \<longleftrightarrow> x = f e \<and> w' = w"
  by (auto simp: asks_def)

lemma catch_Val [val_simps]: "mcatch m h e w = (Val x, w') \<longleftrightarrow>
    m e w = (Val x, w') \<or> (\<exists>ex w1. m e w = (Exn ex, w1) \<and> h ex e w1 = (Val x, w'))"
  by (auto simp: mcatch_def split: prod.splits outcome.splits)

lemma sql_Val [val_simps]: "sql f e w = (Val x, w') \<longleftrightarrow>
    fault e (tick w) = None \<and> (\<exists>d. f e (cur w) = Inr (x, d) \<and> w' = put d (step_tick w))"
  by (auto simp: sql_def split: option.splits sum.splits prod.splits)

lemma put_cur [simp]: "put (cur w) w = w" "put (cur w) (step_tick w) = step_tick w"
  by (cases w; simp add: put_def cur_def step_tick_def split: option.split)+

lemma query_Val [val_simps]: "query f e w = (Val x, w') \<longleftrightarrow>
    fault e (tick w) = None \<and> x = f e (cur w) \<and> w' = step_tick w"
  unfolding query_def sql_Val by auto

lemma start_Val [val_simps]: "startTransaction e w = (Val x, w') \<longleftrightarrow>
    fault e (tick w) = None \<and> w' = (step_tick w)\<lparr>committed := cur w, working := Some (cur w)\<rparr>"
  by (auto simp: startTransaction_def split: option.splits)

lemma commit_Val [val_simps]: "commit e w = (Val x, w') \<longleftrightarrow>
    fault e (tick w) = None \<and> w' = (step_tick w)\<lparr>committed := cur w, working := None\<rparr>"
  by (auto simp: commit_def split: option.splits)

lemma rollback_Val [val_simps]: "rollback e w = (Val x, w') \<longleftrightarrow>
    fault e (tick w) = None \<and> w' = (step_tick w)\<lparr>working := None\<rparr>"
  by (auto simp: rollback_def split: option.splits)

lemma conn_Val [val_simps]: "scopedConnection e w = (Val x, w') \<longleftrightarrow>
    fault e (tick w) = None \<and> w' = step_tick w"
  by (auto simp: scopedConnection_def split: option.splits)

lemma withLock_Val [val_simps]: "withLock acc p m e w = (Val x, w') \<longleftrightarrow>
    (\<exists>w1. m e (log_lock (Acquire acc p) w) = (Val x, w1) \<and> w' = log_lock (Release acc p) w1)"
  by (auto simp: withLock_def split: prod.splits)

lemma with_lru_Val [val_simps]: "with_lru f e w = (Val x, w') \<longleftrightarrow>
    (\<exists>c. f e (lru w) = (Val x, c) \<and> w' = w\<lparr>lru := c\<rparr>)"
  by (auto simp: with_lru_def split: prod.splits)

lemma with_gate_Val [val_simps]: "with_gate f e w = (Val x, w') \<longleftrightarrow>
    (\<exists>g. f e (gate w) = (x, g) \<and> w' = w\<lparr>gate := g\<rparr>)"
  by (auto simp: with_gate_def split: prod.splits)

lemma if_Val [val_simps]: "(if b then m else n) e w = (Val x, w') \<longleftrightarrow>
    (b \<and> m e w = (Val x, w')) \<or> (\<not> b \<and> n e w = (Val x, w'))"
  by simp

lemma option_Val [val_simps]: "(case y of None \<Rightarrow> m | Some z \<Rightarrow> f z) e w = (Val x, w') \<longleftrightarrow>
    (y = None \<and> m e w = (Val x, w')) \<or> (\<exists>z. y = Some z \<and> f z e w = (Val x, w'))"
  by (cases y) simp_all

lemma prod_Val [val_simps]: "(case y of (a, b) \<Rightarrow> f a b) e w = (Val x, w') \<longleftrightarrow>
    (\<exists>a b. y = (a, b) \<and> f a b e w = (Val x, w'))"
  by (cases y) simp

lemma let_Val [val_simps]: "(let y = z in f y) e w = (Val x, w') \<longleftrightarrow> f z e w = (Val x, w')"
  by simp

lemma wpI: "(\<And>r w'. m e w = (r, w') \<Longrightarrow> Q r w') \<Longrightarrow> wp e m Q w"
  by (simp add: wp_def split: prod.split)

end
