(* ===== verification/Triples.thy ===== *)
theory Triples
  imports Session
begin

text \<open>
  Hoare triples over the session monad, with separate postconditions for a returned value,
  an exception and a process abort, and the three phases a session is in while a handler
  runs: no transaction open (\<open>Idle\<close>), inside one (\<open>InTx\<close>), or left behind
  after an error (\<open>Safe\<close>). The books are the tables that hold money: accounts, channel
  rows, ledger and reversals.
\<close>

section \<open>Triples\<close>

fun outp :: "('a \<Rightarrow> world \<Rightarrow> bool) \<Rightarrow> (world \<Rightarrow> bool) \<Rightarrow> (world \<Rightarrow> bool) \<Rightarrow> 'a outcome \<Rightarrow> world \<Rightarrow> bool" where
  "outp Q R A (Val x) w = Q x w"
| "outp Q R A (Exn x) w = R w"
| "outp Q R A Abort w = A w"

definition triple ::
  "env \<Rightarrow> (world \<Rightarrow> bool) \<Rightarrow> 'a M \<Rightarrow> ('a \<Rightarrow> world \<Rightarrow> bool) \<Rightarrow> (world \<Rightarrow> bool) \<Rightarrow> (world \<Rightarrow> bool) \<Rightarrow> bool" where
  "triple e P m Q R A \<longleftrightarrow> (\<forall>w. P w \<longrightarrow> wp e m (outp Q R A) w)"

definition keeps :: "env \<Rightarrow> (world \<Rightarrow> bool) \<Rightarrow> 'a M \<Rightarrow> bool" where
  "keeps e I m \<longleftrightarrow> triple e I m (\<lambda>_. I) I I"

named_theorems keeps_intros \<open>what keeps an assertion whatever its outcome\<close>

lemma outp_const [simp]: "outp (\<lambda>_. I) I I r w = I w"
  by (cases r) simp_all

lemma outp_mono:
  "outp Q R A r w \<Longrightarrow> (\<And>x. Q x w \<Longrightarrow> Q' x w) \<Longrightarrow> (R w \<Longrightarrow> R' w) \<Longrightarrow> (A w \<Longrightarrow> A' w) \<Longrightarrow> outp Q' R' A' r w"
  by (cases r) simp_all

lemma tripleD: "triple e P m Q R A \<Longrightarrow> P w \<Longrightarrow> m e w = (r, w') \<Longrightarrow> outp Q R A r w'"
  unfolding triple_def by (auto dest: wpD)

lemma t_conseq:
  assumes "triple e P m Q R A" and "\<And>w. P' w \<Longrightarrow> P w" and "\<And>x w. Q x w \<Longrightarrow> Q' x w"
    and "\<And>w. R w \<Longrightarrow> R' w" and "\<And>w. A w \<Longrightarrow> A' w"
  shows "triple e P' m Q' R' A'"
  unfolding triple_def
proof (intro allI impI)
  fix w
  assume "P' w"
  then have "wp e m (outp Q R A) w" using assms(1,2) by (simp add: triple_def)
  then show "wp e m (outp Q' R' A') w"
    by (rule wp_mono) (erule outp_mono; simp add: assms)
qed

lemma t_ret: "(\<And>w. P w \<Longrightarrow> Q x w) \<Longrightarrow> triple e P (mret x) Q R A"
  by (simp add: triple_def wp_simps)

lemma t_throw: "(\<And>w. P w \<Longrightarrow> R w) \<Longrightarrow> triple e P (mthrow x) Q R A"
  by (simp add: triple_def wp_simps)

lemma t_lift:
  "(\<And>x w. r = Val x \<Longrightarrow> P w \<Longrightarrow> Q x w) \<Longrightarrow> (\<And>w. P w \<Longrightarrow> R w) \<Longrightarrow> (\<And>w. P w \<Longrightarrow> A w) \<Longrightarrow>
   triple e P (mlift r) Q R A"
  by (cases r) (simp_all add: triple_def wp_simps)

lemma t_asks: "(\<And>w. P w \<Longrightarrow> Q (f e) w) \<Longrightarrow> triple e P (asks f) Q R A"
  by (simp add: triple_def wp_simps)

lemma t_bind:
  assumes "triple e P m S R A" and "\<And>x. triple e (S x) (f x) Q R A"
  shows "triple e P (mbind m f) Q R A"
  unfolding triple_def
proof (intro allI impI)
  fix w
  assume "P w"
  with assms(1) have "wp e m (outp S R A) w" by (simp add: triple_def)
  then show "wp e (mbind m f) (outp Q R A) w"
    unfolding wp_bind
  proof (rule wp_mono)
    fix r w'
    assume "outp S R A r w'"
    then show "case r of Val x \<Rightarrow> wp e (f x) (outp Q R A) w' | Exn x \<Rightarrow> outp Q R A (Exn x) w'
        | Abort \<Rightarrow> outp Q R A Abort w'"
      using assms(2) by (cases r) (simp_all add: triple_def)
  qed
qed

lemma t_then:
  "triple e P m (\<lambda>_. S) R A \<Longrightarrow> triple e S n Q R A \<Longrightarrow> triple e P (mthen m n) Q R A"
  unfolding mthen_def by (rule t_bind)

lemma t_catch:
  assumes "triple e P m Q R' A" and "\<And>x. triple e R' (h x) Q R A"
  shows "triple e P (mcatch m h) Q R A"
  unfolding triple_def
proof (intro allI impI)
  fix w
  assume "P w"
  with assms(1) have "wp e m (outp Q R' A) w" by (simp add: triple_def)
  then show "wp e (mcatch m h) (outp Q R A) w"
    unfolding wp_catch
  proof (rule wp_mono)
    fix r w'
    assume "outp Q R' A r w'"
    then show "case r of Val x \<Rightarrow> outp Q R A (Val x) w' | Exn x \<Rightarrow> wp e (h x) (outp Q R A) w'
        | Abort \<Rightarrow> outp Q R A Abort w'"
      using assms(2) by (cases r) (simp_all add: triple_def)
  qed
qed

lemma t_if:
  "(b \<Longrightarrow> triple e P m Q R A) \<Longrightarrow> (\<not> b \<Longrightarrow> triple e P n Q R A) \<Longrightarrow> triple e P (if b then m else n) Q R A"
  by simp

lemma t_option:
  "(x = None \<Longrightarrow> triple e P m Q R A) \<Longrightarrow> (\<And>y. x = Some y \<Longrightarrow> triple e P (f y) Q R A) \<Longrightarrow>
   triple e P (case x of None \<Rightarrow> m | Some y \<Rightarrow> f y) Q R A"
  by (cases x) simp_all

lemma t_prod: "(\<And>a b. x = (a, b) \<Longrightarrow> triple e P (f a b) Q R A) \<Longrightarrow>
   triple e P (case x of (a, b) \<Rightarrow> f a b) Q R A"
  by (cases x) simp

lemma t_let: "triple e P (f x) Q R A \<Longrightarrow> triple e P (let y = x in f y) Q R A"
  by simp

lemma t_withLock:
  assumes "triple e P m Q R A"
    and "\<And>w ev. P w \<Longrightarrow> P (log_lock ev w)" and "\<And>x w ev. Q x w \<Longrightarrow> Q x (log_lock ev w)"
    and "\<And>w ev. R w \<Longrightarrow> R (log_lock ev w)" and "\<And>w ev. A w \<Longrightarrow> A (log_lock ev w)"
  shows "triple e P (withLock acc p m) Q R A"
  unfolding triple_def wp_withLock
proof (intro allI impI)
  fix w
  assume "P w"
  then have "P (log_lock (Acquire acc p) w)" by (rule assms(2))
  with assms(1) have "wp e m (outp Q R A) (log_lock (Acquire acc p) w)" by (simp add: triple_def)
  then show "wp e m (\<lambda>r w'. outp Q R A r (log_lock (Release acc p) w')) (log_lock (Acquire acc p) w)"
  proof (rule wp_mono)
    fix r w'
    assume "outp Q R A r w'"
    then show "outp Q R A r (log_lock (Release acc p) w')"
      using assms(3-5) by (cases r) simp_all
  qed
qed

section \<open>Kept assertions\<close>

lemma keepsD: "keeps e I m \<Longrightarrow> I w \<Longrightarrow> m e w = (r, w') \<Longrightarrow> I w'"
  unfolding keeps_def by (drule (2) tripleD) simp

lemma keepsI: "(\<And>w. I w \<Longrightarrow> wp e m (\<lambda>_. I) w) \<Longrightarrow> keeps e I m"
  unfolding keeps_def triple_def by (simp add: wp_def)

lemma keeps_triple: "keeps e I m \<Longrightarrow> triple e I m (\<lambda>_. I) I I"
  by (simp add: keeps_def)

lemma keeps_ret [keeps_intros]: "keeps e I (mret x)"
  and keeps_throw [keeps_intros]: "keeps e I (mthrow x')"
  and keeps_lift [keeps_intros]: "keeps e I (mlift r)"
  and keeps_asks [keeps_intros]: "keeps e I (asks f)"
  by (auto intro!: keepsI simp: wp_simps)

lemma keeps_bind [keeps_intros]:
  "keeps e I m \<Longrightarrow> (\<And>x. keeps e I (f x)) \<Longrightarrow> keeps e I (mbind m f)"
  unfolding keeps_def by (rule t_bind)

lemma keeps_then [keeps_intros]: "keeps e I m \<Longrightarrow> keeps e I n \<Longrightarrow> keeps e I (mthen m n)"
  unfolding keeps_def by (rule t_then)

lemma keeps_catch [keeps_intros]:
  "keeps e I m \<Longrightarrow> (\<And>x. keeps e I (h x)) \<Longrightarrow> keeps e I (mcatch m h)"
  unfolding keeps_def by (rule t_catch)

lemma keeps_if [keeps_intros]:
  "(b \<Longrightarrow> keeps e I m) \<Longrightarrow> (\<not> b \<Longrightarrow> keeps e I n) \<Longrightarrow> keeps e I (if b then m else n)"
  by simp

lemma keeps_option [keeps_intros]:
  "keeps e I m \<Longrightarrow> (\<And>y. keeps e I (f y)) \<Longrightarrow> keeps e I (case x of None \<Rightarrow> m | Some y \<Rightarrow> f y)"
  by (cases x) simp_all

lemma keeps_let [keeps_intros]: "keeps e I (f x) \<Longrightarrow> keeps e I (let y = x in f y)"
  by simp

lemma keeps_prod [keeps_intros]: "(\<And>a b. keeps e I (f a b)) \<Longrightarrow> keeps e I (case x of (a, b) \<Rightarrow> f a b)"
  by (cases x) simp

section \<open>Phases of a session\<close>

type_synonym books =
  "account_row list \<times> (string \<Rightarrow> txn_row list) \<times> ledger_account list \<times> ledger_entry list \<times> reversal_row list"

definition books :: "db \<Rightarrow> books" where
  "books d = (accounts d, txns d, ledger_accs d, ledger_entries d, reversals d)"

definition Idle :: "books \<Rightarrow> world \<Rightarrow> bool" where
  "Idle c w \<longleftrightarrow> working w = None \<and> books (committed w) = c"

definition InTx :: "books \<Rightarrow> world \<Rightarrow> bool" where
  "InTx c w \<longleftrightarrow> working w \<noteq> None \<and> books (committed w) = c"

text \<open>The committed books are untouched; an open transaction can only be one whose last
  statement (the rollback) failed.\<close>

definition Safe :: "env \<Rightarrow> books \<Rightarrow> world \<Rightarrow> bool" where
  "Safe e c w \<longleftrightarrow> books (committed w) = c \<and> (working w = None \<or> fault e (tick w - 1) \<noteq> None)"

definition Unchanged :: "books \<Rightarrow> world \<Rightarrow> bool" where
  "Unchanged c w \<longleftrightarrow> books (committed w) = c"

lemma Idle_Safe: "Idle c w \<Longrightarrow> Safe e c w"
  and Idle_Unchanged: "Idle c w \<Longrightarrow> Unchanged c w"
  and InTx_Unchanged: "InTx c w \<Longrightarrow> Unchanged c w"
  and Safe_Unchanged: "Safe e c w \<Longrightarrow> Unchanged c w"
  by (auto simp: Idle_def Safe_def Unchanged_def InTx_def)

lemma put_simps [simp]:
  "working w = None \<Longrightarrow> put d w = w\<lparr>committed := d\<rparr>"
  "working w = Some d' \<Longrightarrow> put d w = w\<lparr>working := Some d\<rparr>"
  by (simp_all add: put_def)

lemma cur_simps [simp]:
  "working w = None \<Longrightarrow> cur w = committed w"
  "working w = Some d' \<Longrightarrow> cur w = d'"
  by (simp_all add: cur_def)

lemma step_tick_simps [simp]:
  "committed (step_tick w) = committed w" "working (step_tick w) = working w"
  "lock_log (step_tick w) = lock_log w" "tick (step_tick w) = Suc (tick w)"
  "cur (step_tick w) = cur w"
  by (simp_all add: step_tick_def cur_def split: option.split)

lemma log_lock_simps [simp]:
  "committed (log_lock ev w) = committed w" "working (log_lock ev w) = working w"
  "tick (log_lock ev w) = tick w" "lock_log (log_lock ev w) = lock_log w @ [ev]"
  "cur (log_lock ev w) = cur w"
  by (simp_all add: log_lock_def cur_def split: option.split)

lemma cur_put [simp]: "cur (put d w) = d"
  by (simp add: cur_def put_def split: option.split)

lemma put_fields [simp]:
  "tick (put d w) = tick w" "lru (put d w) = lru w" "lock_log (put d w) = lock_log w"
  by (auto simp: put_def split: option.split)

lemma working_simps [simp]:
  "cur (w\<lparr>committed := d, working := None\<rparr>) = d" "cur (w\<lparr>committed := d, working := Some d'\<rparr>) = d'"
  by (simp_all add: cur_def)

lemma put_open [simp]: "put d (w\<lparr>working := Some d'\<rparr>) = w\<lparr>working := Some d\<rparr>"
  "put d (w\<lparr>committed := c, working := Some d'\<rparr>) = w\<lparr>committed := c, working := Some d\<rparr>"
  by (simp_all add: put_def)

lemma cur_lru [simp]: "cur (w\<lparr>lru := c\<rparr>) = cur w"
  and cur_gate [simp]: "cur (w\<lparr>gate := g\<rparr>) = cur w"
  by (simp_all add: cur_def cong: option.case_cong)

lemma phase_log_lock [simp]:
  "Idle c (log_lock ev w) = Idle c w" "InTx c (log_lock ev w) = InTx c w"
  "Safe e c (log_lock ev w) = Safe e c w" "Unchanged c (log_lock ev w) = Unchanged c w"
  by (simp_all add: Idle_def InTx_def Safe_def Unchanged_def)

lemma keeps_withLock_Idle [keeps_intros]: "keeps e (Idle c) m \<Longrightarrow> keeps e (Idle c) (withLock a p m)"
  unfolding keeps_def by (rule t_withLock) auto

lemma keeps_query_Idle [keeps_intros]: "keeps e (Idle c) (query f)"
  by (rule keepsI) (auto simp: query_def wp_simps Idle_def split: option.split)

lemma keeps_query_InTx [keeps_intros]: "keeps e (InTx c) (query f)"
  by (rule keepsI) (auto simp: query_def wp_simps InTx_def split: option.split)

lemma keeps_sql_InTx [keeps_intros]: "keeps e (InTx c) (sql f)"
  by (rule keepsI) (auto simp: wp_simps InTx_def split: option.split sum.split prod.split)

lemma keeps_sql_Idle:
  "(\<And>d x d'. f e d = Inr (x, d') \<Longrightarrow> books d' = books d) \<Longrightarrow> keeps e (Idle c) (sql f)"
  by (rule keepsI) (auto simp: wp_simps Idle_def split: option.split sum.split prod.split)

lemma keeps_conn_Idle [keeps_intros]: "keeps e (Idle c) scopedConnection"
  by (rule keepsI) (auto simp: scopedConnection_def wp_def Idle_def split: option.split)

lemma keeps_lru_Idle [keeps_intros]: "keeps e (Idle c) (with_lru f)"
  and keeps_lru_InTx [keeps_intros]: "keeps e (InTx c) (with_lru f)"
  and keeps_gate_Idle [keeps_intros]: "keeps e (Idle c) (with_gate g)"
  by (auto intro!: keepsI simp: wp_simps Idle_def InTx_def split: prod.split)

lemma t_start: "triple e (Idle c) startTransaction (\<lambda>_. InTx c) (Idle c) A"
  by (auto simp: triple_def wp_simps Idle_def InTx_def split: option.split)

lemma t_rollback: "triple e (InTx c) rollback (\<lambda>_. Idle c) (Safe e c) A"
  by (auto simp: triple_def wp_simps Idle_def InTx_def Safe_def split: option.split)

lemma t_rollback_again: "triple e (Idle c) rollback (\<lambda>_. Idle c) (Safe e c) A"
  by (auto simp: triple_def wp_simps Idle_def Safe_def split: option.split)

text \<open>\<^verbatim>\<open>try { sess.rollback(); } catch (...) {}\<close> and the plain \<^verbatim>\<open>rollback\<close> of an
  error branch, from any state a failed statement can leave.\<close>

lemma t_rollback_safe: "triple e (Unchanged c) rollback (\<lambda>_. Idle c) (Safe e c) A"
  by (auto simp: triple_def wp_simps Idle_def Unchanged_def Safe_def split: option.split)

section \<open>Readers\<close>

text \<open>Code that changes neither the tables nor the transaction nor the locks.\<close>

definition same_db :: "world \<Rightarrow> world \<Rightarrow> bool" where
  "same_db w w' \<longleftrightarrow> committed w' = committed w \<and> working w' = working w \<and> lock_log w' = lock_log w"

definition reader :: "'a M \<Rightarrow> bool" where
  "reader m \<longleftrightarrow> (\<forall>e w. wp e m (\<lambda>_ w'. same_db w w') w)"

named_theorems reader_intros \<open>code that only reads\<close>

lemma same_db_refl [simp]: "same_db w w"
  and same_db_tick [simp]: "same_db w (step_tick w')  = same_db w w'"
  and same_db_lru [simp]: "same_db w (w'\<lparr>lru := c\<rparr>) = same_db w w'"
  and same_db_gate [simp]: "same_db w (w'\<lparr>gate := g\<rparr>) = same_db w w'"
  by (simp_all add: same_db_def)

lemma same_db_trans: "same_db w w' \<Longrightarrow> same_db w' w'' \<Longrightarrow> same_db w w''"
  by (simp add: same_db_def)

lemma readerD: "reader m \<Longrightarrow> m e w = (r, w') \<Longrightarrow> same_db w w'"
  unfolding reader_def by (blast dest: wpD)

lemmas run_reader = readerD [rotated]

lemma reader_basic [reader_intros]:
  "reader (mret x)" "reader (mthrow x')" "reader (mlift r)" "reader (asks f)" "reader (query g)"
  "reader (with_lru h)" "reader scopedConnection" "reader (with_gate k)"
  by (auto simp: reader_def wp_simps query_def split: option.split prod.split)

lemma reader_bind [reader_intros]:
  assumes "reader m" and "\<And>x. reader (f x)"
  shows "reader (mbind m f)"
  unfolding reader_def wp_bind
proof (intro allI)
  fix e w
  have "wp e m (\<lambda>_ w'. same_db w w') w" using assms(1) by (simp add: reader_def)
  then show "wp e m (\<lambda>r w'. case r of Val x \<Rightarrow> wp e (f x) (\<lambda>_ w'. same_db w w') w'
      | Exn x \<Rightarrow> same_db w w' | Abort \<Rightarrow> same_db w w') w"
  proof (rule wp_mono)
    fix r w'
    assume s: "same_db w w'"
    have "wp e (f x) (\<lambda>_ w2. same_db w w2) w'" for x
      using assms(2) [of x] s unfolding reader_def by (blast intro: wp_mono same_db_trans)
    with s show "case r of Val x \<Rightarrow> wp e (f x) (\<lambda>_ w'. same_db w w') w'
      | Exn x \<Rightarrow> same_db w w' | Abort \<Rightarrow> same_db w w'" by (simp split: outcome.split)
  qed
qed

lemma reader_then [reader_intros]: "reader m \<Longrightarrow> reader n \<Longrightarrow> reader (mthen m n)"
  unfolding mthen_def by (rule reader_bind)

lemma reader_catch [reader_intros]:
  assumes "reader m" and "\<And>x. reader (h x)"
  shows "reader (mcatch m h)"
  unfolding reader_def wp_catch
proof (intro allI)
  fix e w
  have "wp e m (\<lambda>_ w'. same_db w w') w" using assms(1) by (simp add: reader_def)
  then show "wp e m (\<lambda>r w'. case r of Val x \<Rightarrow> same_db w w'
      | Exn x \<Rightarrow> wp e (h x) (\<lambda>_ w'. same_db w w') w' | Abort \<Rightarrow> same_db w w') w"
  proof (rule wp_mono)
    fix r w'
    assume s: "same_db w w'"
    have "wp e (h x) (\<lambda>_ w2. same_db w w2) w'" for x
      using assms(2) [of x] s unfolding reader_def by (blast intro: wp_mono same_db_trans)
    with s show "case r of Val x \<Rightarrow> same_db w w'
      | Exn x \<Rightarrow> wp e (h x) (\<lambda>_ w'. same_db w w') w' | Abort \<Rightarrow> same_db w w'" by (simp split: outcome.split)
  qed
qed

lemma reader_if [reader_intros]: "(b \<Longrightarrow> reader m) \<Longrightarrow> (\<not> b \<Longrightarrow> reader n) \<Longrightarrow> reader (if b then m else n)"
  by simp

lemma reader_option [reader_intros]:
  "reader m \<Longrightarrow> (\<And>y. reader (f y)) \<Longrightarrow> reader (case x of None \<Rightarrow> m | Some y \<Rightarrow> f y)"
  by (cases x) simp_all

lemma reader_let [reader_intros]: "reader (f x) \<Longrightarrow> reader (let y = x in f y)"
  by simp

lemma reader_keeps_Idle: "reader m \<Longrightarrow> keeps e (Idle c) m"
  and reader_keeps_InTx: "reader m \<Longrightarrow> keeps e (InTx c) m"
  by (auto intro!: keepsI wpI dest!: readerD simp: same_db_def Idle_def InTx_def)

end
