(* ===== verification/Queries.thy ===== *)
theory Queries
  imports Triples
begin

text \<open>
  \<^verbatim>\<open>DatabaseQueries.cpp\<close>: one definition per query function, over the tables of
  \<open>Session\<close>; and the row inserts the handlers share. Values go through the
  \<^verbatim>\<open>DECIMAL\<close> column they are stored in: rounded to two decimals, and refused when they
  do not fit.
\<close>

section \<open>Columns\<close>

text \<open>\<^verbatim>\<open>DECIMAL(p,2)\<close>\<close>

definition dec_col :: "nat \<Rightarrow> money \<Rightarrow> string + money" where
  "dec_col p x = (if \<bar>dec2 x\<bar> < 10 ^ (p - 2) then Inr (dec2 x)
                  else Inl ''Out of range value for column'')"

lemma dec_col_Inr: "dec_col p x = Inr y \<longleftrightarrow> y = dec2 x \<and> \<bar>dec2 x\<bar> < 10 ^ (p - 2)"
  by (auto simp: dec_col_def)

definition day_of :: "nat \<Rightarrow> nat" where
  "day_of t = t div 86400"

section \<open>Authentication\<close>

text \<open>The columns of \<^verbatim>\<open>api_keys\<close> read by \<^verbatim>\<open>getApiKeyDetails\<close>: role, owner, active flag.\<close>

definition getApiKeyDetails :: "string \<Rightarrow> (string \<times> string \<times> bool) option M" where
  "getApiKeyDetails key = query (\<lambda>e d. map_option
     (\<lambda>r. (ak_role r, ak_owner r, case ak_active r of None \<Rightarrow> False | Some n \<Rightarrow> n \<noteq> 0))
     (List.find (\<lambda>r. ak_key r = key) (api_keys d)))"

section \<open>Accounts\<close>

definition find_account :: "string \<Rightarrow> db \<Rightarrow> account_row option" where
  "find_account acc d = List.find (\<lambda>r. acc_no r = acc) (accounts d)"

definition currency_code :: "db \<Rightarrow> account_row \<Rightarrow> string option" where
  "currency_code d r = map_option cur_code (List.find (\<lambda>c. cur_id c = acc_currency r) (currencies d))"

text \<open>The inner join drops an account whose currency is not in the currency table.\<close>

definition getAccountBalanceAndCurrency :: "string \<Rightarrow> (money \<times> string) option M" where
  "getAccountBalanceAndCurrency acc = query (\<lambda>e d.
     case find_account acc d of None \<Rightarrow> None
     | Some r \<Rightarrow> map_option (\<lambda>c. (acc_balance r, c)) (currency_code d r))"

definition getAccountBalance :: "string \<Rightarrow> money option M" where
  "getAccountBalance acc = query (\<lambda>e d. map_option acc_balance (find_account acc d))"

definition set_balance :: "string \<Rightarrow> money \<Rightarrow> account_row list \<Rightarrow> account_row list" where
  "set_balance acc x = upd_rows (\<lambda>r. acc_no r = acc) (\<lambda>r. r\<lparr>acc_balance := x\<rparr>)"

definition updateAccountBalance :: "string \<Rightarrow> money \<Rightarrow> unit M" where
  "updateAccountBalance acc newBalance = sql (\<lambda>e d. case dec_col 12 newBalance of
      Inl msg \<Rightarrow> Inl msg
    | Inr y \<Rightarrow> Inr ((), d\<lparr>accounts := set_balance acc y (accounts d)\<rparr>))"

definition checkAccountExistsForUpdate :: "string \<Rightarrow> bool M" where
  "checkAccountExistsForUpdate acc = query (\<lambda>e d. find_account acc d \<noteq> None)"

definition updateFreezeStatus :: "string \<Rightarrow> bool \<Rightarrow> unit M" where
  "updateFreezeStatus acc frozen = sql (\<lambda>e d. Inr ((), d\<lparr>accounts :=
     upd_rows (\<lambda>r. acc_no r = acc) (\<lambda>r. r\<lparr>acc_frozen := frozen\<rparr>) (accounts d)\<rparr>))"

section \<open>Sums over channel rows\<close>

definition sum_amounts :: "(txn_row \<Rightarrow> bool) \<Rightarrow> txn_row list \<Rightarrow> money" where
  "sum_amounts P rows = sum_list (map t_amount (filter P rows))"

definition getMobileDailySpent :: "string \<Rightarrow> money M" where
  "getMobileDailySpent acc = query (\<lambda>e d. sum_amounts
     (\<lambda>r. t_acc r = acc \<and> t_status r = ''SUCCESS'' \<and> day_of (t_created r) = day_of (now e))
     (txns d ''transaction_mobile''))"

definition getMobileHourlySpent :: "string \<Rightarrow> money M" where
  "getMobileHourlySpent acc = query (\<lambda>e d. sum_amounts
     (\<lambda>r. t_acc r = acc \<and> t_status r = ''SUCCESS'' \<and> now e \<le> t_created r + 3600)
     (txns d ''transaction_mobile''))"

section \<open>Idempotency keys\<close>

definition find_idem :: "string \<Rightarrow> db \<Rightarrow> idem_row option" where
  "find_idem key d = List.find (\<lambda>r. ik_key r = key) (idem d)"

definition getIdempotencyRecord :: "string \<Rightarrow> (string \<times> int \<times> json option) option M" where
  "getIdempotencyRecord key = query (\<lambda>e d. map_option
     (\<lambda>r. (ik_status r, (case ik_code r of None \<Rightarrow> 0 | Some n \<Rightarrow> n), ik_body r))
     (find_idem key d))"

definition insertIdempotencyRecord :: "string \<Rightarrow> string \<Rightarrow> unit M" where
  "insertIdempotencyRecord key path = sql (\<lambda>e d.
     if find_idem key d \<noteq> None then Inl (''Duplicate entry '' @ key)
     else Inr ((), d\<lparr>idem := idem d @ [\<lparr>ik_key = key, ik_path = path, ik_status = ''IN_PROGRESS'',
                                        ik_code = None, ik_body = None\<rparr>]\<rparr>))"

definition updateIdempotencyRecord :: "string \<Rightarrow> string \<Rightarrow> int \<Rightarrow> json \<Rightarrow> unit M" where
  "updateIdempotencyRecord key status code body = sql (\<lambda>e d. Inr ((), d\<lparr>idem :=
     upd_rows (\<lambda>r. ik_key r = key)
       (\<lambda>r. r\<lparr>ik_status := status, ik_code := Some code, ik_body := Some body\<rparr>) (idem d)\<rparr>))"

section \<open>3-D Secure challenges\<close>

definition get3DSChallenge :: "string \<Rightarrow> (string \<times> json \<times> string \<times> nat) option M" where
  "get3DSChallenge cid = query (\<lambda>e d. map_option
     (\<lambda>r. (td_otp r, td_data r, td_status r, td_expires r))
     (List.find (\<lambda>r. td_id r = cid) (tds d)))"

definition insert3DSChallenge :: "string \<Rightarrow> string \<Rightarrow> json \<Rightarrow> string \<Rightarrow> nat \<Rightarrow> unit M" where
  "insert3DSChallenge cid otp data channel expiresSec = sql (\<lambda>e d. Inr ((), d\<lparr>tds := tds d @
     [\<lparr>td_id = cid, td_otp = otp, td_data = data, td_channel = channel, td_status = ''PENDING'',
       td_expires = now e + expiresSec\<rparr>]\<rparr>))"

definition update3DSChallengeStatus :: "string \<Rightarrow> string \<Rightarrow> unit M" where
  "update3DSChallengeStatus cid status = sql (\<lambda>e d. Inr ((), d\<lparr>tds :=
     upd_rows (\<lambda>r. td_id r = cid) (\<lambda>r. r\<lparr>td_status := status\<rparr>) (tds d)\<rparr>))"

section \<open>Exchange rates\<close>

definition getExchangeRate :: "string \<Rightarrow> real option M" where
  "getExchangeRate base = query (\<lambda>e d. map_of (fx_rates d) (base, ''AUD''))"

section \<open>Purchases looked up for a refund\<close>

definition find_ecom_purchase :: "string \<Rightarrow> db \<Rightarrow> txn_row option" where
  "find_ecom_purchase client d = List.find
     (\<lambda>r. t_client_id r = client \<and> t_message r = ''ECOM purchase success'') (txns d ''transaction_ecom'')"

text \<open>Identifier, amount, refunded amount (NULL is 0) and flag (NULL is \<^verbatim>\<open>N\<close>).\<close>

definition getEcomPurchaseForUpdate :: "string \<Rightarrow> (nat \<times> money \<times> money \<times> string) option M" where
  "getEcomPurchaseForUpdate client = query (\<lambda>e d. map_option
     (\<lambda>r. (t_id r, t_amount r, (case t_refunded r of None \<Rightarrow> 0 | Some x \<Rightarrow> x),
           (case t_flag r of None \<Rightarrow> ''N'' | Some f \<Rightarrow> f)))
     (find_ecom_purchase client d))"

definition find_qr_purchase :: "string \<Rightarrow> db \<Rightarrow> txn_row option" where
  "find_qr_purchase client d = List.find
     (\<lambda>r. t_client_id r = client \<and> t_message r = ''QR purchase successful'') (txns d ''transaction_qrcode'')"

definition getQrPurchaseForUpdate :: "string \<Rightarrow> (nat \<times> money \<times> string) option M" where
  "getQrPurchaseForUpdate client = query (\<lambda>e d. map_option
     (\<lambda>r. (t_id r, t_amount r, t_acc r)) (find_qr_purchase client d))"

definition qr_refunded :: "nat \<Rightarrow> db \<Rightarrow> bool" where
  "qr_refunded pid d \<longleftrightarrow> (\<exists>r\<in>set (txns d ''transaction_qrcode'').
     t_orig r = Some pid \<and> t_message r = ''QR refund successful'')"

definition checkQrAlreadyRefunded :: "nat \<Rightarrow> bool M" where
  "checkQrAlreadyRefunded pid = query (\<lambda>e d. qr_refunded pid d)"

section \<open>Ledger\<close>

text \<open>
  \<^verbatim>\<open>INSERT IGNORE\<close> and \<^verbatim>\<open>SELECT\<close> are two statements. The error for an account
  that is still missing after the insert cannot happen in one session; the branch is kept.
\<close>

definition find_ledger :: "string \<Rightarrow> db \<Rightarrow> ledger_account option" where
  "find_ledger acc d = List.find (\<lambda>r. la_number r = acc) (ledger_accs d)"

definition getOrCreateLedgerAccount :: "string \<Rightarrow> string \<Rightarrow> string \<Rightarrow> nat M" where
  "getOrCreateLedgerAccount acc name ty =
     mthen (sql (\<lambda>e d. Inr ((), if find_ledger acc d \<noteq> None then d
        else d\<lparr>ledger_accs := ledger_accs d @ [\<lparr>la_id = next_id la_id (ledger_accs d),
                 la_number = acc, la_name = name, la_type = ty, la_balance = 0\<rparr>]\<rparr>)))
     (mbind (query (\<lambda>e d. find_ledger acc d)) (\<lambda>res. case res of
        None \<Rightarrow> mthrow (RuntimeErr (''ledger account not found after INSERT IGNORE for: '' @ acc))
      | Some r \<Rightarrow> mret (la_id r)))"

text \<open>The journal entry, then the running balance of the ledger account.\<close>

definition postLedgerEntry :: "string \<Rightarrow> nat \<Rightarrow> money \<Rightarrow> string \<Rightarrow> money \<Rightarrow> string \<Rightarrow> unit M" where
  "postLedgerEntry txnId ledgerId amount entryType balanceDelta description =
     mthen (sql (\<lambda>e d. case dec_col 15 amount of Inl msg \<Rightarrow> Inl msg
        | Inr a \<Rightarrow> Inr ((), d\<lparr>ledger_entries := ledger_entries d @ [\<lparr>le_txn = txnId,
            le_ledger = ledgerId, le_amount = a, le_type = entryType, le_desc = description\<rparr>]\<rparr>)))
     (sql (\<lambda>e d. Inr ((), d\<lparr>ledger_accs := upd_rows (\<lambda>r. la_id r = ledgerId)
        (\<lambda>r. r\<lparr>la_balance := dec2 (la_balance r + balanceDelta)\<rparr>) (ledger_accs d)\<rparr>)))"

section \<open>Inserts the handlers share\<close>

text \<open>A row with the column defaults of the schema, and its insert: the id is the next one,
  the creation time is now, amount and fee go through their \<^verbatim>\<open>DECIMAL\<close> columns.\<close>

definition new_txn :: "string \<Rightarrow> string \<Rightarrow> string \<Rightarrow> money \<Rightarrow> money \<Rightarrow> string \<Rightarrow> string \<Rightarrow> txn_row" where
  "new_txn txnId clientId acc amount fee status msg =
     \<lparr>t_id = 0, t_txn_id = txnId, t_client_id = clientId, t_acc = acc, t_amount = amount,
      t_fee = fee, t_status = status, t_message = msg, t_created = 0, t_merchant = None,
      t_pan = None, t_refunded = Some 0, t_flag = Some ''N'', t_orig = None, t_reversal = ''NA'',
      t_extra = []\<rparr>"

definition stored_txn :: "nat \<Rightarrow> nat \<Rightarrow> txn_row \<Rightarrow> txn_row" where
  "stored_txn i t r = r\<lparr>t_id := i, t_created := t, t_amount := dec2 (t_amount r), t_fee := dec2 (t_fee r)\<rparr>"

definition add_txn :: "string \<Rightarrow> txn_row \<Rightarrow> (string \<Rightarrow> txn_row list) \<Rightarrow> (string \<Rightarrow> txn_row list)" where
  "add_txn tbl r ts = ts(tbl := ts tbl @ [r])"

definition insert_txn :: "string \<Rightarrow> nat \<Rightarrow> txn_row \<Rightarrow> nat M" where
  "insert_txn tbl p row = sql (\<lambda>e d. case (dec_col p (t_amount row), dec_col 10 (t_fee row)) of
      (Inr _, Inr _) \<Rightarrow> (let i = next_id t_id (txns d tbl)
         in Inr (i, d\<lparr>txns := add_txn tbl (stored_txn i (now e) row) (txns d)\<rparr>))
    | _ \<Rightarrow> Inl ''Out of range value for column'')"

definition insert_master :: "string \<Rightarrow> nat \<Rightarrow> string \<Rightarrow> unit M" where
  "insert_master tbl ref status = sql (\<lambda>e d. Inr ((), d\<lparr>master := master d @
     [\<lparr>m_table = tbl, m_ref = ref, m_status = status\<rparr>]\<rparr>))"

definition find_card :: "string \<Rightarrow> db \<Rightarrow> card_row option" where
  "find_card pan d = List.find (\<lambda>c. card_pan c = pan) (cards d)"

definition select_card :: "string \<Rightarrow> card_row option M" where
  "select_card pan = query (\<lambda>e d. find_card pan d)"

text \<open>The best-effort \<^verbatim>\<open>UPDATE cards SET last_transaction_time = NOW()\<close>; its errors are
  swallowed.\<close>

definition touch_card :: "(card_row \<Rightarrow> bool) \<Rightarrow> unit M" where
  "touch_card P = mcatch (sql (\<lambda>e d. Inr ((), d\<lparr>cards := upd_rows P (\<lambda>c. c\<lparr>card_last := Some (now e)\<rparr>) (cards d)\<rparr>)))
     (\<lambda>_. mret ())"

section \<open>Lookup and update laws\<close>

lemma find_set_balance [row_simps]:
  "List.find (\<lambda>r. acc_no r = a) (set_balance b x rows) =
   (if a = b then map_option (\<lambda>r. r\<lparr>acc_balance := x\<rparr>) (List.find (\<lambda>r. acc_no r = a) rows)
    else List.find (\<lambda>r. acc_no r = a) rows)"
  by (auto simp: set_balance_def find_upd_rows_same intro!: find_upd_rows_other)

lemma set_balance_acc_no [simp]: "map acc_no (set_balance a x rows) = map acc_no rows"
  by (simp add: set_balance_def map_upd_rows_frame)

lemma sum_set_balance:
  assumes "distinct (map acc_no rows)" and "List.find (\<lambda>r. acc_no r = a) rows = Some r"
  shows "sum_list (map acc_balance (set_balance a x rows)) =
         sum_list (map acc_balance rows) - acc_balance r + x"
proof -
  from assms(2) have "r \<in> set rows" and "acc_no r = a"
    by (auto simp: find_Some_iff)
  with sum_upd_rows_unique [OF assms(1), of r acc_balance "\<lambda>r. r\<lparr>acc_balance := x\<rparr>"]
  show ?thesis by (simp add: set_balance_def)
qed

lemmas query_defs [op_defs] =
  getApiKeyDetails_def getAccountBalanceAndCurrency_def getAccountBalance_def
  checkAccountExistsForUpdate_def getMobileDailySpent_def getMobileHourlySpent_def
  getIdempotencyRecord_def get3DSChallenge_def getExchangeRate_def getEcomPurchaseForUpdate_def
  getQrPurchaseForUpdate_def checkQrAlreadyRefunded_def select_card_def

lemmas write_defs [op_defs] =
  updateAccountBalance_def updateFreezeStatus_def insert_txn_def insert_master_def

lemma keeps_touch_card [keeps_intros]: "keeps e (Idle c) (touch_card P)"
  unfolding touch_card_def
  by (intro keeps_intros keeps_sql_Idle) (auto simp: books_def)

lemma keeps_insert_master [keeps_intros]: "keeps e (Idle c) (insert_master t r s)"
  unfolding insert_master_def by (rule keeps_sql_Idle) (auto simp: books_def)

end
