(* ===== verification/PanService.thy ===== *)
theory PanService
  imports Session
begin

text \<open>
  \<^verbatim>\<open>panencrypted.cpp\<close>: the payload layout \<^verbatim>\<open>IV (12) | TAG (16) | CIPHERTEXT\<close>, its
  checks, and the masking of card numbers. The cipher and base64 are OpenSSL's and are
  parameters of the environment: \<open>gcm_seal key iv plaintext\<close> is the pair of ciphertext
  and tag, \<open>gcm_open key iv tag ciphertext\<close> is \<open>None\<close> when the tag does not verify,
  \<open>b64_decode\<close> is \<open>None\<close> when \<^verbatim>\<open>BIO_read\<close> returns no bytes.
\<close>

definition IV_LEN :: nat where "IV_LEN = 12"
definition TAG_LEN :: nat where "TAG_LEN = 16"

definition AES_KEY :: string where
  "AES_KEY = ''12345678901234567890123456789012''"

definition base64_decode :: "env \<Rightarrow> string \<Rightarrow> string outcome" where
  "base64_decode e input = (case b64_decode e input of
      None \<Rightarrow> Exn (RuntimeErr ''Base64 decode failed'')
    | Some s \<Rightarrow> Val s)"

text \<open>The nonce is \<open>iv\<close>, drawn by \<^verbatim>\<open>RAND_bytes\<close>.\<close>

definition encryptPAN :: "env \<Rightarrow> string \<Rightarrow> string \<Rightarrow> string" where
  "encryptPAN e iv plaintext = (case gcm_seal e AES_KEY iv plaintext of
     (ciphertext, tag) \<Rightarrow> b64_encode e (iv @ tag @ ciphertext))"

definition decryptPAN :: "env \<Rightarrow> string \<Rightarrow> string outcome" where
  "decryptPAN e encoded = obind (base64_decode e encoded) (\<lambda>decoded.
     if length decoded < IV_LEN + TAG_LEN then Exn (RuntimeErr ''Invalid encrypted PAN'')
     else let iv = take IV_LEN decoded;
              tag = take TAG_LEN (drop IV_LEN decoded);
              ciphertext = drop (IV_LEN + TAG_LEN) decoded
          in case gcm_open e AES_KEY iv tag ciphertext of
               None \<Rightarrow> Exn (RuntimeErr ''PAN decryption failed: GCM authentication tag mismatch'')
             | Some plaintext \<Rightarrow> Val plaintext)"

definition maskPAN :: "string \<Rightarrow> string" where
  "maskPAN pan = (if length pan < 10 then pan
     else map (\<lambda>i. if 4 \<le> i \<and> i < length pan - 4 then CHR ''*'' else pan ! i) [0..<length pan])"

section \<open>Laws\<close>

lemma decryptPAN_not_abort [simp]: "decryptPAN e s \<noteq> Abort"
  by (auto simp: decryptPAN_def base64_decode_def Let_def split: option.split)

text \<open>What the code relies on of OpenSSL: a sealed payload opens, with a 16-byte tag, and
  base64 decoding inverts encoding on non-empty input.\<close>

definition crypto_ok :: "env \<Rightarrow> string \<Rightarrow> string \<Rightarrow> bool" where
  "crypto_ok e iv pt \<longleftrightarrow>
     (case gcm_seal e AES_KEY iv pt of (ct, tag) \<Rightarrow>
        length tag = TAG_LEN \<and> gcm_open e AES_KEY iv tag ct = Some pt \<and>
        b64_decode e (b64_encode e (iv @ tag @ ct)) = Some (iv @ tag @ ct))"

lemma decrypt_encrypt:
  "length iv = IV_LEN \<Longrightarrow> crypto_ok e iv pan \<Longrightarrow> decryptPAN e (encryptPAN e iv pan) = Val pan"
  by (auto simp: decryptPAN_def encryptPAN_def crypto_ok_def base64_decode_def Let_def
        split: prod.splits)

text \<open>A payload is only accepted when the tag in it verifies.\<close>

lemma decryptPAN_Val:
  assumes "decryptPAN e enc = Val pan"
  obtains d where "b64_decode e enc = Some d" "IV_LEN + TAG_LEN \<le> length d"
    "gcm_open e AES_KEY (take IV_LEN d) (take TAG_LEN (drop IV_LEN d)) (drop (IV_LEN + TAG_LEN) d) = Some pan"
  using assms by (auto simp: decryptPAN_def base64_decode_def Let_def split: option.splits if_splits)

lemma maskPAN_length [simp]: "length (maskPAN pan) = length pan"
  by (simp add: maskPAN_def)

lemma maskPAN_middle:
  "10 \<le> length pan \<Longrightarrow> 4 \<le> i \<Longrightarrow> i < length pan - 4 \<Longrightarrow> maskPAN pan ! i = CHR ''*''"
  by (simp add: maskPAN_def)

lemma maskPAN_ends:
  "i < length pan \<Longrightarrow> i < 4 \<or> length pan - 4 \<le> i \<Longrightarrow> maskPAN pan ! i = pan ! i"
  by (auto simp: maskPAN_def)

lemma maskPAN_cong:
  assumes "length p = length q" and "10 \<le> length p" and "take 4 p = take 4 q"
    and "drop (length p - 4) p = drop (length q - 4) q"
  shows "maskPAN p = maskPAN q"
proof (rule nth_equalityI)
  fix i
  assume i: "i < length (maskPAN p)"
  show "maskPAN p ! i = maskPAN q ! i"
  proof (cases "4 \<le> i \<and> i < length p - 4")
    case True
    with assms show ?thesis by (simp add: maskPAN_middle)
  next
    case False
    have "p ! i = q ! i"
    proof (cases "i < 4")
      case True
      with assms(3) show ?thesis by (metis nth_take)
    next
      case False
      with \<open>\<not> (4 \<le> i \<and> i < length p - 4)\<close> have ge: "length p - 4 \<le> i" by simp
      have "drop (length p - 4) p ! (i - (length p - 4)) = drop (length q - 4) q ! (i - (length p - 4))"
        using assms(4) by simp
      with ge i assms(1) show ?thesis by simp
    qed
    with False i assms(1,2) show ?thesis by (auto simp: maskPAN_def)
  qed
qed (simp add: assms)

section \<open>Properties\<close>

text \<open>A card number encrypted with a 12-byte nonce decrypts to itself, given that OpenSSL's
  GCM opens what it sealed and that its base64 decoder inverts its encoder on the payload.\<close>

theorem pan_roundtrip:
  assumes "length iv = 12" and "crypto_ok e iv pan"
  shows "decryptPAN e (encryptPAN e iv pan) = Val pan"
  using assms by (simp add: decrypt_encrypt IV_LEN_def)

lemma pan_roundtrip_witness:
  "\<exists>e. decryptPAN e (encryptPAN e ''abcdefghijkl'' ''5500004249929296'') = Val ''5500004249929296''"
proof -
  define e :: env where "e = undefined\<lparr>b64_encode := (\<lambda>s. s), b64_decode := Some,
    gcm_seal := (\<lambda>k iv p. (p, replicate 16 CHR ''t'')), gcm_open := (\<lambda>k iv t c. Some c)\<rparr>"
  have "crypto_ok e ''abcdefghijkl'' ''5500004249929296''" by (simp add: crypto_ok_def e_def TAG_LEN_def)
  then have "decryptPAN e (encryptPAN e ''abcdefghijkl'' ''5500004249929296'') = Val ''5500004249929296''"
    by (intro pan_roundtrip) simp
  then show ?thesis by blast
qed

text \<open>No payload is accepted unless it decodes to at least nonce and tag, and the tag it
  carries verifies over the ciphertext it carries under the service's key.\<close>

theorem pan_authentic:
  assumes "decryptPAN e enc = Val pan"
  shows "\<exists>iv tag ct. b64_decode e enc = Some (iv @ tag @ ct) \<and> length iv = 12 \<and> length tag = 16 \<and>
    gcm_open e AES_KEY iv tag ct = Some pan"
proof -
  from decryptPAN_Val [OF assms] obtain d where d: "b64_decode e enc = Some d" "28 \<le> length d"
    "gcm_open e AES_KEY (take 12 d) (take 16 (drop 12 d)) (drop 28 d) = Some pan"
    by (auto simp: IV_LEN_def TAG_LEN_def)
  moreover have "take 12 d @ take 16 (drop 12 d) @ drop 28 d = d"
    using append_take_drop_id [of 12 d] append_take_drop_id [of 16 "drop 12 d"] by (simp only: drop_drop) simp
  ultimately show ?thesis by (intro exI [of _ "take 12 d"] exI [of _ "take 16 (drop 12 d)"] exI [of _ "drop 28 d"]) simp
qed

lemma pan_authentic_witness:
  "\<exists>e enc pan. decryptPAN e enc = Val pan \<and> (\<exists>iv tag ct. gcm_open e AES_KEY iv tag ct = Some pan)"
proof -
  define e :: env where "e = undefined\<lparr>b64_decode := Some, gcm_open := (\<lambda>k iv t c. Some c)\<rparr>"
  have "decryptPAN e (replicate 28 CHR ''x'' @ ''4111'') = Val ''4111''"
    by (simp add: decryptPAN_def base64_decode_def e_def IV_LEN_def TAG_LEN_def)
  with pan_authentic [OF this] show ?thesis by blast
qed

text \<open>Masking keeps the length, shows at most the first and last four characters, and two
  numbers of ten or more characters that agree there have the same mask, so nothing else of the
  number can be read off it. Shorter numbers are returned as they are.\<close>

theorem mask_hides_middle:
  "length (maskPAN p) = length p \<and>
   (\<forall>i. 10 \<le> length p \<and> 4 \<le> i \<and> i < length p - 4 \<longrightarrow> maskPAN p ! i = CHR ''*'') \<and>
   (\<forall>q. 10 \<le> length p \<and> length p = length q \<and> take 4 p = take 4 q \<and>
      drop (length p - 4) p = drop (length q - 4) q \<longrightarrow> maskPAN p = maskPAN q) \<and>
   (length p < 10 \<longrightarrow> maskPAN p = p)"
proof (intro conjI [of "_ = _"] conjI [of "All _"] allI impI; (elim conjE)?)
  show "length (maskPAN p) = length p" by simp
  show "maskPAN p ! i = CHR ''*''" if "10 \<le> length p" "4 \<le> i" "i < length p - 4" for i
    using that by (rule maskPAN_middle)
  show "maskPAN p = maskPAN q" if "10 \<le> length p" "length p = length q" "take 4 p = take 4 q"
      "drop (length p - 4) p = drop (length q - 4) q" for q
    using that by (intro maskPAN_cong)
  show "maskPAN p = p" if "length p < 10" using that by (simp add: maskPAN_def)
qed

lemma mask_hides_middle_witness: "maskPAN ''5500004249929296'' ! 7 = CHR ''*''"
  by (rule mask_hides_middle [THEN conjunct2, THEN conjunct1, rule_format]) simp

end
