(* ===== verification/PinService.thy ===== *)
theory PinService
  imports Session
begin

unbundle bit_operations_syntax

text \<open>
  \<^verbatim>\<open>pin.cpp\<close>: PINs derived from the card number by HMAC-SHA256 (a parameter,
  OpenSSL's) and 64-bit mixing. Every \<^verbatim>\<open>catch\<close> wraps the message of the exception it
  rethrows, as the source does.
\<close>

type_synonym u64 = "64 word"

definition rotl :: "u64 \<Rightarrow> nat \<Rightarrow> u64" where
  "rotl x r = push_bit r x OR drop_bit (64 - r) x"

definition avalanche :: "u64 \<Rightarrow> u64" where
  "avalanche x0 =
     (let x1 = x0 XOR drop_bit 33 x0;
          x2 = x1 * 0xff51afd7ed558ccd;
          x3 = x2 XOR drop_bit 33 x2;
          x4 = x3 * 0xc4ceb9fe1a85ec53
      in x4 XOR drop_bit 33 x4)"

definition wrap :: "string \<Rightarrow> 'a outcome \<Rightarrow> 'a outcome" where
  "wrap f r = (case r of Exn x \<Rightarrow> Exn (RuntimeErr (f @ '' failed: '' @ what x)) | _ \<Rightarrow> r)"

definition hmacSha256 :: "env \<Rightarrow> string \<Rightarrow> 8 word list outcome" where
  "hmacSha256 e data = wrap ''hmacSha256''
     (if pin_secret e = [] then Exn (RuntimeErr ''Secret key is empty'')
      else if data = [] then Exn (InvalidArg ''Input data is empty'')
      else Val (hmac_sha256 e (pin_secret e) data))"

fun compress_from :: "nat \<Rightarrow> u64 \<Rightarrow> 8 word list \<Rightarrow> u64" where
  "compress_from i acc [] = acc"
| "compress_from i acc (b # bs) =
     compress_from (Suc i) (avalanche (rotl (acc XOR push_bit ((i mod 8) * 8) (ucast b)) 13)) bs"

definition compress :: "8 word list \<Rightarrow> u64" where
  "compress v = compress_from 0 0 v"

fun derive_loop :: "env \<Rightarrow> nat \<Rightarrow> string \<Rightarrow> u64 list \<Rightarrow> u64 list outcome" where
  "derive_loop e 0 state blocks = Val blocks"
| "derive_loop e (Suc n) state blocks = obind (hmacSha256 e state) (\<lambda>d.
     let val = compress d in derive_loop e n (nat_str (unat val) @ state) (blocks @ [val]))"

definition derive :: "env \<Rightarrow> string \<Rightarrow> u64 list outcome" where
  "derive e pan = wrap ''derive'' (derive_loop e 6 pan [])"

definition pin_pool :: string where
  "pin_pool = ''ABCDEFGHIJKLMNOPQRSTUVWXYZ'' @ ''abcdefghijklmnopqrstuvwxyz'' @ ''0123456789'' @
     ''!@#$%^&*()-_=+[]{}|;:,.<>?/''"

definition fold_blocks :: "u64 list \<Rightarrow> u64" where
  "fold_blocks blocks = fold (\<lambda>b state. state XOR avalanche b) blocks 0"

text \<open>\<open>n\<close> more characters, the next one at index \<open>i\<close>.\<close>

fun pin_loop :: "nat \<Rightarrow> nat \<Rightarrow> u64 \<Rightarrow> string \<Rightarrow> u64 \<times> string" where
  "pin_loop 0 i state result = (state, result)"
| "pin_loop (Suc n) i state result =
     (let s1 = rotl (state XOR (of_nat i * 0x9e3779b97f4a7c15)) 7;
          s2 = avalanche s1
      in pin_loop n (Suc i) s2 (result @ [pin_pool ! (unat s2 mod length pin_pool)]))"

definition enforce :: "u64 \<Rightarrow> string \<Rightarrow> string" where
  "enforce state r =
     (((r[0 := char_of (65 + unat state mod 26)])
        [1 := char_of (97 + unat (drop_bit 3 state) mod 26)])
        [2 := char_of (48 + unat (drop_bit 5 state) mod 10)])
        [3 := ''!@#$%^&*'' ! (unat state mod 8)]"

definition generatePIN :: "env \<Rightarrow> string \<Rightarrow> nat \<Rightarrow> string outcome" where
  "generatePIN e pan len = wrap ''generatePIN''
     (if length pan \<noteq> 16 then Exn (InvalidArg ''PAN must be 16 digits'')
      else if len < 4 then Exn (InvalidArg ''PIN length must be at least 4'')
      else obind (derive e pan) (\<lambda>blocks.
        case pin_loop len 0 (fold_blocks blocks) [] of (state, r) \<Rightarrow> Val (enforce state r)))"

definition verifyPIN :: "env \<Rightarrow> string \<Rightarrow> string \<Rightarrow> bool outcome" where
  "verifyPIN e pan inputPin = wrap ''verifyPIN''
     (if inputPin = [] then Exn (InvalidArg ''Input PIN cannot be empty'')
      else obind (generatePIN e pan (length inputPin)) (\<lambda>generated. Val (generated = inputPin)))"

section \<open>Laws\<close>

lemma wrap_Val [simp]: "wrap f (Val x) = Val x"
  and wrap_eq_Val [simp]: "wrap f r = Val x \<longleftrightarrow> r = Val x"
  and wrap_eq_Abort [simp]: "wrap f r = Abort \<longleftrightarrow> r = Abort"
  by (simp_all add: wrap_def split: outcome.split)

lemma obind_Val_iff: "obind r f = Val y \<longleftrightarrow> (\<exists>x. r = Val x \<and> f x = Val y)"
  by (cases r) auto

lemma pin_loop_length: "length (snd (pin_loop n i s r)) = length r + n"
  by (induction n i s r rule: pin_loop.induct) (simp_all add: Let_def)

lemma derive_Val:
  assumes "pin_secret e \<noteq> []" and "pan \<noteq> []"
  shows "\<exists>bs. derive e pan = Val bs \<and> length bs = 6"
proof -
  have "s \<noteq> [] \<Longrightarrow> \<exists>bs. derive_loop e n s acc = Val bs \<and> length bs = length acc + n" for n s acc
  proof (induction n arbitrary: s acc)
    case 0
    then show ?case by simp
  next
    case (Suc n)
    let ?v = "compress (hmac_sha256 e (pin_secret e) s)"
    have "nat_str (unat ?v) @ s \<noteq> []" using Suc.prems by simp
    from Suc.IH [OF this, of "acc @ [?v]"] Suc.prems assms(1) show ?case
      by (simp add: hmacSha256_def Let_def)
  qed
  from this [of pan 6 "[]"] assms(2) show ?thesis by (auto simp: derive_def)
qed

lemma enforce_length [simp]: "length (enforce s r) = length r"
  by (simp add: enforce_def)

lemma enforce_nth:
  assumes "4 \<le> length r"
  shows "enforce s r ! 0 = char_of (65 + unat s mod 26)"
    and "enforce s r ! 1 = char_of (97 + unat (drop_bit 3 s) mod 26)"
    and "enforce s r ! 2 = char_of (48 + unat (drop_bit 5 s) mod 10)"
    and "enforce s r ! 3 = ''!@#$%^&*'' ! (unat s mod 8)"
proof -
  have "0 < length r" "1 < length r" "2 < length r" "3 < length r" using assms by linarith+
  then show "enforce s r ! 0 = char_of (65 + unat s mod 26)"
    and "enforce s r ! 1 = char_of (97 + unat (drop_bit 3 s) mod 26)"
    and "enforce s r ! 2 = char_of (48 + unat (drop_bit 5 s) mod 10)"
    and "enforce s r ! 3 = ''!@#$%^&*'' ! (unat s mod 8)"
    by (simp_all add: enforce_def del: length_greater_0_conv)
qed

lemma generatePIN_Val_iff:
  assumes "pin_secret e \<noteq> []"
  shows "(\<exists>p. generatePIN e pan n = Val p) \<longleftrightarrow> length pan = 16 \<and> 4 \<le> n"
proof (cases "length pan = 16 \<and> 4 \<le> n")
  case True
  then have "pan \<noteq> []" by auto
  with derive_Val [OF assms] obtain bs where "derive e pan = Val bs" by blast
  with True show ?thesis by (simp add: generatePIN_def split: prod.split)
qed (auto simp: generatePIN_def)

lemma generatePIN_shape:
  assumes "generatePIN e pan n = Val p"
  shows "length p = n \<and> 4 \<le> n \<and> length pan = 16 \<and>
    isalpha (p ! 0) \<and> toupper (p ! 0) = p ! 0 \<and> isalpha (p ! 1) \<and> tolower (p ! 1) = p ! 1 \<and>
    isdigit (p ! 2) \<and> p ! 3 \<in> set ''!@#$%^&*''"
proof -
  from assms obtain bs where n: "length pan = 16" "4 \<le> n"
    and bs: "(case pin_loop n 0 (fold_blocks bs) [] of (st, r) \<Rightarrow> Val (enforce st r)) = Val p"
    by (auto simp: generatePIN_def obind_Val_iff simp del: case_prod_conv split: if_splits)
  obtain st r where loop: "pin_loop n 0 (fold_blocks bs) [] = (st, r)" by fastforce
  with bs have p: "p = enforce st r" by simp
  have len: "length r = n"
    using pin_loop_length [of n 0 "fold_blocks bs" "[]"] loop by simp
  with n have "4 \<le> length r" by simp
  note nths = enforce_nth [OF this, of st]
  have code: "of_char (char_of (b + m mod k) :: char) = b + m mod k" if "0 < k" "b + k < 256" for b m k :: nat
  proof -
    have "b + m mod k < 256" using mod_less_divisor [OF that(1), of m] that(2) by linarith
    then show ?thesis by simp
  qed
  note 0 = code [of 26 65 "unat st"] and 1 = code [of 26 97 "unat (drop_bit 3 st)"]
    and 2 = code [of 10 48 "unat (drop_bit 5 st)"]
  have 3: "''!@#$%^&*'' ! (unat st mod 8) \<in> set ''!@#$%^&*''"
    by (rule nth_mem) simp
  have "unat st mod 26 < 26" "unat (drop_bit 3 st) mod 26 < 26" "unat (drop_bit 5 st) mod 10 < 10"
    by simp_all
  then have "unat st mod 26 \<le> 25" "\<not> 32 \<le> unat st mod 26" "unat (drop_bit 3 st) mod 26 \<le> 25"
    "unat (drop_bit 5 st) mod 10 \<le> 9" by linarith+
  then show ?thesis
    unfolding p using n len nths 0 1 2 3
    by (simp add: isalpha_def isdigit_def toupper_def tolower_def Let_def)
qed

lemma verifyPIN_accepts_iff:
  "verifyPIN e pan p = Val True \<longleftrightarrow> generatePIN e pan (length p) = Val p"
  by (auto simp: verifyPIN_def obind_Val_iff generatePIN_def)

lemma verifyPIN_not_abort [simp]: "verifyPIN e pan p \<noteq> Abort"
proof -
  have h: "hmacSha256 e d \<noteq> Abort" for d by (simp add: hmacSha256_def)
  have "derive_loop e n s acc \<noteq> Abort" for n s acc
  proof (induction n arbitrary: s acc)
    case (Suc n)
    then show ?case using h [of s] by (cases "hmacSha256 e s") (simp_all add: Let_def)
  qed simp
  then have "derive e q \<noteq> Abort" for q by (simp add: derive_def)
  then have "generatePIN e q n \<noteq> Abort" for q n
    by (cases "derive e q") (auto simp: generatePIN_def split: prod.split)
  then show ?thesis
    by (cases "generatePIN e pan (length p)") (auto simp: verifyPIN_def)
qed

section \<open>Properties\<close>

text \<open>With a secret configured, a PIN is produced exactly for 16-character card numbers and
  lengths of at least four; it has the requested length and begins with an upper-case letter, a
  lower-case letter, a digit and one of eight symbols.\<close>

theorem pin_policy:
  assumes "pin_secret e \<noteq> []"
  shows "(\<exists>p. generatePIN e pan n = Val p) = (length pan = 16 \<and> 4 \<le> n) \<and>
    (\<forall>p. generatePIN e pan n = Val p \<longrightarrow> length p = n \<and>
      isalpha (p ! 0) \<and> toupper (p ! 0) = p ! 0 \<and> isalpha (p ! 1) \<and> tolower (p ! 1) = p ! 1 \<and>
      isdigit (p ! 2) \<and> p ! 3 \<in> set ''!@#$%^&*'')"
proof (intro conjI [of "_ = _"] allI impI)
  show "(\<exists>p. generatePIN e pan n = Val p) = (length pan = 16 \<and> 4 \<le> n)"
    by (rule generatePIN_Val_iff [OF assms])
qed (drule generatePIN_shape, elim conjE, (intro conjI)?, assumption+)+

lemma pin_policy_witness:
  "\<exists>e p. pin_secret e \<noteq> [] \<and> generatePIN e ''5500004249929296'' 6 = Val p \<and> length p = 6"
proof -
  define e :: env where "e = undefined\<lparr>pin_secret := ''k''\<rparr>"
  have s: "pin_secret e \<noteq> []" by (simp add: e_def)
  note pol = pin_policy [OF this, of "''5500004249929296''" 6]
  have "\<exists>p. generatePIN e ''5500004249929296'' 6 = Val p" by (simp add: pol [THEN conjunct1])
  then obtain p where p: "generatePIN e ''5500004249929296'' 6 = Val p" by (elim exE)
  have "length p = 6" using pol [THEN conjunct2, rule_format, OF p] by (elim conjE)
  with s p show ?thesis by (intro exI conjI)
qed

text \<open>Verification accepts a PIN exactly when it is the one generated for the card at its own
  length; at most one PIN of each length is accepted, and none shorter than four characters.\<close>

theorem pin_verify_unique:
  "(verifyPIN e pan p = Val True) = (generatePIN e pan (length p) = Val p) \<and>
   (verifyPIN e pan p = Val True \<and> verifyPIN e pan q = Val True \<and> length p = length q \<longrightarrow> p = q) \<and>
   (verifyPIN e pan p = Val True \<longrightarrow> 4 \<le> length p)"
proof -
  have "4 \<le> length p" if "generatePIN e pan (length p) = Val p"
    using generatePIN_shape [OF that] by (elim conjE)
  moreover have "p = q" if "generatePIN e pan (length p) = Val p" "generatePIN e pan (length q) = Val q"
      "length p = length q"
    using that by (metis outcome.inject(1))
  ultimately show ?thesis unfolding verifyPIN_accepts_iff by blast
qed

lemma pin_verify_unique_witness: "\<exists>e p. verifyPIN e ''5500004249929296'' p = Val True \<and> 4 \<le> length p"
proof -
  define e :: env where "e = undefined\<lparr>pin_secret := ''k''\<rparr>"
  have "pin_secret e \<noteq> []" by (simp add: e_def)
  with generatePIN_Val_iff [OF this, of "''5500004249929296''" 5] obtain p where
    p: "generatePIN e ''5500004249929296'' 5 = Val p" by auto
  have "length p = 5" using generatePIN_shape [OF p] by (elim conjE)
  with p have "verifyPIN e ''5500004249929296'' p = Val True"
    by (intro pin_verify_unique [THEN conjunct1, THEN iffD2]) (simp only:)
  with pin_verify_unique [of e "''5500004249929296''" p p] have "4 \<le> length p" by (elim conjE) (drule mp)
  then show ?thesis using \<open>verifyPIN e ''5500004249929296'' p = Val True\<close> by (intro exI conjI)
qed

end
