(* ===== verification/Handlers.thy ===== *)
theory Handlers
  imports Queries PanService PinService
begin

text \<open>
  What the channel handlers share: the correlation id, the transaction pattern
  \<^verbatim>\<open>startTransaction(); try { \<dots> } catch (...) { rollback; throw; }\<close>, and the contract
  every handler keeps. A handler that does not answer \<^verbatim>\<open>SUCCESS\<close> leaves the committed books
  as they were and gives the session back without an open transaction, unless the very last
  statement, its rollback, failed.
\<close>

section \<open>Shared code\<close>

text \<open>\<^verbatim>\<open>data.value("_correlationUuid", TransactionLogger::currentUuid())\<close>\<close>

definition correlation :: "json \<Rightarrow> string M" where
  "correlation data = mbind (asks cur_uuid) (\<lambda>u. mlift (jvalue_str data ''_correlationUuid'' u))"

text \<open>\<^verbatim>\<open>data.value(key, "")\<close> and \<^verbatim>\<open>data.value(key, 0.0)\<close>.\<close>

definition strval :: "json \<Rightarrow> string \<Rightarrow> string M" where
  "strval data k = mlift (jvalue_str data k [])"

definition numval :: "json \<Rightarrow> string \<Rightarrow> money M" where
  "numval data k = mlift (jvalue_num data k 0)"

definition try_rollback :: "unit M" where
  "try_rollback = mcatch rollback (\<lambda>_. mret ())"

definition in_txn :: "'a M \<Rightarrow> 'a M" where
  "in_txn body = mthen startTransaction (mcatch body (\<lambda>x. mthen try_rollback (mthrow x)))"

definition failed :: "string \<Rightarrow> string \<Rightarrow> json" where
  "failed code msg = jobj [(''status'', JStr ''FAILED''), (''errorCode'', JStr code), (''message'', JStr msg)]"

lemma failed_status [simp]: "has_status s (failed code msg) \<longleftrightarrow> s = ''FAILED''"
  by (auto simp: has_status_def failed_def jfind_jobj)

text \<open>The static \<^verbatim>\<open>err\<close> of the mobile handler, and of the others with the default message.\<close>

definition err :: "string \<Rightarrow> string \<Rightarrow> json" where
  "err code msg = jobj [(''errorCode'', JStr code), (''message'', JStr msg)]"

lemma err_status [simp]: "\<not> has_status s (err code msg)"
  by (simp add: has_status_def err_def jfind_jobj)

definition err0 :: "string \<Rightarrow> json" where
  "err0 code = jobj [(''errorCode'', JStr code)]"

lemma err0_status [simp]: "\<not> has_status s (err0 code)"
  by (simp add: has_status_def err0_def jfind_jobj)

text \<open>Their variant that leaves an empty message out.\<close>

definition errm :: "string \<Rightarrow> string \<Rightarrow> json" where
  "errm code msg = (if msg = [] then err0 code else err code msg)"

lemma errm_status [simp]: "\<not> has_status s (errm code msg)"
  by (simp add: errm_def)

text \<open>\<^verbatim>\<open>catch (...) { sess.rollback(); throw; }\<close> and
  \<^verbatim>\<open>catch (...) { sess.rollback(); return err(\<dots>); }\<close>, whose rollback may itself throw.\<close>

definition in_txn_throw :: "'a M \<Rightarrow> 'a M" where
  "in_txn_throw body = mthen startTransaction (mcatch body (\<lambda>x. mthen rollback (mthrow x)))"

definition in_txn_fail :: "'a \<Rightarrow> 'a M \<Rightarrow> 'a M" where
  "in_txn_fail j body = mthen startTransaction (mcatch body (\<lambda>x. mthen rollback (mret j)))"

text \<open>\<^verbatim>\<open>sess.rollback(); return j;\<close>\<close>

definition reject :: "json \<Rightarrow> json M" where
  "reject j = mthen rollback (mret j)"

text \<open>A call whose errors are an answer of the handler.\<close>

definition or_answer :: "'a M \<Rightarrow> (exn \<Rightarrow> json) \<Rightarrow> (json + 'a) M" where
  "or_answer m f = mcatch (mbind m (\<lambda>x. mret (Inr x))) (\<lambda>x. mret (Inl (f x)))"

abbreviation succeeded :: "json \<Rightarrow> bool" where
  "succeeded \<equiv> has_status ''SUCCESS''"

section \<open>The contract\<close>

definition success_or_safe :: "(json \<Rightarrow> bool) \<Rightarrow> env \<Rightarrow> books \<Rightarrow> json \<Rightarrow> world \<Rightarrow> bool" where
  "success_or_safe good e c res w \<longleftrightarrow> good res \<or> Safe e c w"

definition handler_code :: "(json \<Rightarrow> bool) \<Rightarrow> env \<Rightarrow> books \<Rightarrow> json M \<Rightarrow> bool" where
  "handler_code good e c m \<longleftrightarrow> triple e (Idle c) m (success_or_safe good e c) (Safe e c) (Unchanged c)"

definition txn_code :: "(json \<Rightarrow> bool) \<Rightarrow> env \<Rightarrow> books \<Rightarrow> json M \<Rightarrow> bool" where
  "txn_code good e c m \<longleftrightarrow> triple e (InTx c) m (success_or_safe good e c) (Unchanged c) (Unchanged c)"

named_theorems hc_intros \<open>code outside a transaction\<close>
named_theorems tx_intros \<open>code inside a transaction\<close>

lemma keeps_conseq:
  "keeps e I m \<Longrightarrow> (\<And>w. I w \<Longrightarrow> R w) \<Longrightarrow> (\<And>w. I w \<Longrightarrow> A w) \<Longrightarrow> triple e I m (\<lambda>_. I) R A"
  unfolding keeps_def by (rule t_conseq)

lemma hc_keeps: "keeps e (Idle c) m \<Longrightarrow> handler_code good e c m"
  unfolding handler_code_def keeps_def
  by (erule t_conseq) (auto simp: success_or_safe_def intro: Idle_Safe Idle_Unchanged)

lemma hc_ret [hc_intros]: "handler_code good e c (mret x)"
  and hc_throw [hc_intros]: "handler_code good e c (mthrow y)"
  by (rule hc_keeps; rule keeps_intros)+

lemma hc_bind [hc_intros]:
  assumes "keeps e (Idle c) m" and "\<And>x. handler_code good e c (f x)"
  shows "handler_code good e c (mbind m f)"
  unfolding handler_code_def
  by (rule t_bind [where S = "\<lambda>_. Idle c"])
    (use assms in \<open>auto intro!: keeps_conseq Idle_Safe Idle_Unchanged simp: handler_code_def\<close>)

lemma hc_then [hc_intros]:
  "keeps e (Idle c) m \<Longrightarrow> handler_code good e c n \<Longrightarrow> handler_code good e c (mthen m n)"
  unfolding mthen_def by (rule hc_bind)

lemma hc_if [hc_intros]:
  "(b \<Longrightarrow> handler_code good e c m) \<Longrightarrow> (\<not> b \<Longrightarrow> handler_code good e c n) \<Longrightarrow> handler_code good e c (if b then m else n)"
  by simp

lemma hc_option [hc_intros]:
  "handler_code good e c m \<Longrightarrow> (\<And>y. x = Some y \<Longrightarrow> handler_code good e c (f y)) \<Longrightarrow>
   handler_code good e c (case x of None \<Rightarrow> m | Some y \<Rightarrow> f y)"
  by (cases x) simp_all

lemma hc_prod [hc_intros]:
  "(\<And>a b. handler_code good e c (f a b)) \<Longrightarrow> handler_code good e c (case x of (a, b) \<Rightarrow> f a b)"
  by (cases x) simp

lemma hc_let [hc_intros]: "handler_code good e c (f x) \<Longrightarrow> handler_code good e c (let y = x in f y)"
  by simp

lemma hc_withLock [hc_intros]: "handler_code good e c m \<Longrightarrow> handler_code good e c (withLock a p m)"
  unfolding handler_code_def by (rule t_withLock) (auto simp: success_or_safe_def)

lemma hc_catch_ret [hc_intros]:
  assumes "handler_code good e c m"
  shows "handler_code good e c (mcatch m (\<lambda>x. mret (f x)))"
  unfolding handler_code_def
  by (rule t_catch [OF assms [unfolded handler_code_def]])
    (auto intro!: t_ret simp: success_or_safe_def)

lemma t_rollback_any: "triple e (Unchanged c) rollback (\<lambda>_. Safe e c) (Unchanged c) A"
  by (rule t_conseq [OF t_rollback_safe]) (auto intro: Idle_Safe Safe_Unchanged)

lemma t_rollback_answer:
  "triple e (Unchanged c) (mthen rollback (mret (Inl j)))
     (\<lambda>r w. case r of Inl j \<Rightarrow> Safe e c w | Inr x \<Rightarrow> InTx c w) (Unchanged c) (Unchanged c)"
  by (rule t_then [OF t_rollback_any]) (rule t_ret, simp)

lemma t_try_rollback: "triple e (Unchanged c) try_rollback (\<lambda>_. Safe e c) R A"
  unfolding try_rollback_def
proof (rule t_catch [where R' = "Safe e c"])
  show "triple e (Unchanged c) rollback (\<lambda>_. Safe e c) (Safe e c) A"
    by (rule t_conseq [OF t_rollback_safe]) (auto intro: Idle_Safe)
qed (rule t_ret, assumption)

lemma hc_txn [hc_intros]:
  assumes "txn_code good e c body"
  shows "handler_code good e c (in_txn body)"
  unfolding handler_code_def in_txn_def
proof (rule t_then [where S = "InTx c"])
  show "triple e (Idle c) startTransaction (\<lambda>_. InTx c) (Safe e c) (Unchanged c)"
    by (rule t_conseq [OF t_start]) (auto intro: Idle_Safe)
  show "triple e (InTx c) (mcatch body (\<lambda>x. mthen try_rollback (mthrow x)))
      (success_or_safe good e c) (Safe e c) (Unchanged c)"
    by (rule t_catch [OF assms [unfolded txn_code_def]])
      (auto intro!: t_then [OF t_try_rollback] t_throw)
qed

lemma t_rollback_throw: "triple e (Unchanged c) rollback (\<lambda>_. Safe e c) (Safe e c) A"
  by (rule t_conseq [OF t_rollback_safe]) (auto intro: Idle_Safe)

lemma hc_txn_throw [hc_intros]:
  assumes "txn_code good e c body"
  shows "handler_code good e c (in_txn_throw body)"
  unfolding handler_code_def in_txn_throw_def
proof (rule t_then [where S = "InTx c"])
  show "triple e (Idle c) startTransaction (\<lambda>_. InTx c) (Safe e c) (Unchanged c)"
    by (rule t_conseq [OF t_start]) (auto intro: Idle_Safe)
  show "triple e (InTx c) (mcatch body (\<lambda>x. mthen rollback (mthrow x))) (success_or_safe good e c) (Safe e c) (Unchanged c)"
    by (rule t_catch [OF assms [unfolded txn_code_def]])
      (auto intro!: t_then [OF t_rollback_throw] t_throw)
qed

lemma hc_txn_fail [hc_intros]:
  assumes "txn_code good e c body"
  shows "handler_code good e c (in_txn_fail j body)"
  unfolding handler_code_def in_txn_fail_def
proof (rule t_then [where S = "InTx c"])
  show "triple e (Idle c) startTransaction (\<lambda>_. InTx c) (Safe e c) (Unchanged c)"
    by (rule t_conseq [OF t_start]) (auto intro: Idle_Safe)
  show "triple e (InTx c) (mcatch body (\<lambda>x. mthen rollback (mret j))) (success_or_safe good e c) (Safe e c) (Unchanged c)"
    by (rule t_catch [OF assms [unfolded txn_code_def]])
      (auto intro!: t_then [OF t_rollback_throw] t_ret simp: success_or_safe_def)
qed

lemma hc_sum [hc_intros]: "(\<And>j. handler_code good e c (m j)) \<Longrightarrow> (\<And>x. handler_code good e c (n x)) \<Longrightarrow>
    handler_code good e c (case r of Inl j \<Rightarrow> m j | Inr x \<Rightarrow> n x)"
  by (cases r) simp_all

lemma keeps_sum [keeps_intros]: "(\<And>j. keeps e I (m j)) \<Longrightarrow> (\<And>x. keeps e I (n x)) \<Longrightarrow>
    keeps e I (case r of Inl j \<Rightarrow> m j | Inr x \<Rightarrow> n x)"
  by (cases r) simp_all

lemma reader_sum [reader_intros]: "(\<And>j. reader (m j)) \<Longrightarrow> (\<And>x. reader (n x)) \<Longrightarrow>
    reader (case r of Inl j \<Rightarrow> m j | Inr x \<Rightarrow> n x)"
  and reader_prod [reader_intros]: "(\<And>a b. reader (f a b)) \<Longrightarrow> reader (case p of (a, b) \<Rightarrow> f a b)"
  by (cases r, simp_all) (cases p, simp)

lemma reader_or_answer [reader_intros]: "reader m' \<Longrightarrow> reader (or_answer m' g)"
  unfolding or_answer_def by (intro reader_intros)

lemma keeps_or_answer [keeps_intros]: "keeps e I m \<Longrightarrow> keeps e I (or_answer m f)"
  unfolding or_answer_def by (intro keeps_intros)

text \<open>Inside the transaction.\<close>

lemma tx_bind [tx_intros]:
  assumes "keeps e (InTx c) m" and "\<And>x. txn_code good e c (f x)"
  shows "txn_code good e c (mbind m f)"
  unfolding txn_code_def
  by (rule t_bind [where S = "\<lambda>_. InTx c"])
    (use assms in \<open>auto intro!: keeps_conseq InTx_Unchanged simp: txn_code_def\<close>)

lemma tx_then [tx_intros]:
  "keeps e (InTx c) m \<Longrightarrow> txn_code good e c n \<Longrightarrow> txn_code good e c (mthen m n)"
  unfolding mthen_def by (rule tx_bind)

lemma tx_if [tx_intros]:
  "(b \<Longrightarrow> txn_code good e c m) \<Longrightarrow> (\<not> b \<Longrightarrow> txn_code good e c n) \<Longrightarrow> txn_code good e c (if b then m else n)"
  by simp

lemma tx_option [tx_intros]:
  "txn_code good e c m \<Longrightarrow> (\<And>y. txn_code good e c (f y)) \<Longrightarrow> txn_code good e c (case x of None \<Rightarrow> m | Some y \<Rightarrow> f y)"
  by (cases x) simp_all

lemma tx_prod [tx_intros]:
  "(\<And>a b. txn_code good e c (f a b)) \<Longrightarrow> txn_code good e c (case x of (a, b) \<Rightarrow> f a b)"
  by (cases x) simp

lemma tx_sum: "(\<And>j. txn_code good e c (m j)) \<Longrightarrow> (\<And>x. txn_code good e c (n x)) \<Longrightarrow>
    txn_code good e c (case r of Inl j \<Rightarrow> m j | Inr x \<Rightarrow> n x)"
  by (cases r) simp_all

lemma tx_let [tx_intros]: "txn_code good e c (f x) \<Longrightarrow> txn_code good e c (let y = x in f y)"
  by simp

lemma tx_throw [tx_intros]: "txn_code good e c (mthrow y)"
  unfolding txn_code_def by (rule t_throw) (rule InTx_Unchanged)

text \<open>Once rolled back, the code is outside again.\<close>

lemma tx_rollback [tx_intros]:
  assumes "handler_code good e c m"
  shows "txn_code good e c (mthen rollback m)"
  unfolding txn_code_def
  by (rule t_then [OF t_conseq [OF t_rollback [where A = "Unchanged c"]] t_conseq [OF assms [unfolded handler_code_def]]])
    (auto intro: Safe_Unchanged)

lemma tx_reject [tx_intros]: "txn_code good e c (reject j)"
  unfolding reject_def by (intro tx_intros hc_intros)

text \<open>After the commit nothing may fail, and the answer is a success.\<close>

definition quiet :: "env \<Rightarrow> (json \<Rightarrow> bool) \<Rightarrow> json M \<Rightarrow> bool" where
  "quiet e S m \<longleftrightarrow> triple e (\<lambda>_. True) m (\<lambda>r _. S r) (\<lambda>_. False) (\<lambda>_. False)"

lemma quiet_ret [tx_intros]: "S x \<Longrightarrow> quiet e S (mret x)"
  unfolding quiet_def by (rule t_ret) simp

lemma quiet_touch [tx_intros]: "quiet e S m \<Longrightarrow> quiet e S (mthen (touch_card P) m)"
  unfolding quiet_def touch_card_def
  by (rule t_then [where S = "\<lambda>_. True", OF t_catch [where R' = "\<lambda>_. True"]])
    (auto simp: triple_def wp_simps split: option.split intro!: t_ret)

lemma tx_commit [tx_intros]:
  assumes "quiet e good m"
  shows "txn_code good e c (mthen commit m)"
  unfolding txn_code_def
proof (rule t_then [where S = "\<lambda>_. True"])
  show "triple e (InTx c) commit (\<lambda>_ _. True) (Unchanged c) (Unchanged c)"
    by (auto simp: triple_def wp_simps InTx_def Unchanged_def split: option.split)
  show "triple e (\<lambda>_. True) m (success_or_safe good e c) (Unchanged c) (Unchanged c)"
    using assms unfolding quiet_def by (rule t_conseq) (auto simp: success_or_safe_def)
qed

text \<open>Code under an outer \<^verbatim>\<open>catch\<close> that rolls back: its exceptions may leave the
  transaction open.\<close>

definition loose_code :: "(json \<Rightarrow> bool) \<Rightarrow> env \<Rightarrow> books \<Rightarrow> json M \<Rightarrow> bool" where
  "loose_code good e c m \<longleftrightarrow> triple e (Idle c) m (success_or_safe good e c) (Unchanged c) (Unchanged c)"

named_theorems lc_intros \<open>code under a catch that rolls back\<close>

lemma lc_keeps: "keeps e (Idle c) m \<Longrightarrow> loose_code good e c m"
  unfolding loose_code_def keeps_def
  by (erule t_conseq) (auto simp: success_or_safe_def intro: Idle_Safe Idle_Unchanged)

lemma lc_ret [lc_intros]: "loose_code good e c (mret x)"
  and lc_throw [lc_intros]: "loose_code good e c (mthrow y)"
  by (rule lc_keeps; rule keeps_intros)+

lemma lc_bind [lc_intros]:
  assumes "keeps e (Idle c) m" and "\<And>x. loose_code good e c (f x)"
  shows "loose_code good e c (mbind m f)"
  unfolding loose_code_def
  by (rule t_bind [where S = "\<lambda>_. Idle c"])
    (use assms in \<open>auto intro!: keeps_conseq Idle_Unchanged simp: loose_code_def\<close>)

lemma lc_then [lc_intros]:
  "keeps e (Idle c) m \<Longrightarrow> loose_code good e c n \<Longrightarrow> loose_code good e c (mthen m n)"
  unfolding mthen_def by (rule lc_bind)

lemma lc_start [lc_intros]: "txn_code good e c m \<Longrightarrow> loose_code good e c (mthen startTransaction m)"
  unfolding loose_code_def txn_code_def
  by (rule t_then [OF t_conseq [OF t_start]]) (auto intro: Idle_Unchanged)

lemma lc_if [lc_intros]:
  "(b \<Longrightarrow> loose_code good e c m) \<Longrightarrow> (\<not> b \<Longrightarrow> loose_code good e c n) \<Longrightarrow> loose_code good e c (if b then m else n)"
  by simp

lemma lc_option [lc_intros]:
  "loose_code good e c m \<Longrightarrow> (\<And>y. x = Some y \<Longrightarrow> loose_code good e c (f y)) \<Longrightarrow>
   loose_code good e c (case x of None \<Rightarrow> m | Some y \<Rightarrow> f y)"
  by (cases x) simp_all

lemma lc_prod [lc_intros]:
  "(\<And>a b. loose_code good e c (f a b)) \<Longrightarrow> loose_code good e c (case x of (a, b) \<Rightarrow> f a b)"
  by (cases x) simp

lemma lc_let [lc_intros]: "loose_code good e c (f x) \<Longrightarrow> loose_code good e c (let y = x in f y)"
  by simp

lemma lc_sum [lc_intros]: "(\<And>j. loose_code good e c (m j)) \<Longrightarrow> (\<And>x. loose_code good e c (n x)) \<Longrightarrow>
    loose_code good e c (case r of Inl j \<Rightarrow> m j | Inr x \<Rightarrow> n x)"
  by (cases r) simp_all

lemma lc_withLock [lc_intros]: "loose_code good e c m \<Longrightarrow> loose_code good e c (withLock a p m)"
  unfolding loose_code_def by (rule t_withLock) (auto simp: success_or_safe_def)

lemma hc_catch_rollback [hc_intros]:
  assumes "loose_code good e c m"
  shows "handler_code good e c (mcatch m (\<lambda>x. mthen try_rollback (mret (f x))))"
  unfolding handler_code_def
  by (rule t_catch [OF assms [unfolded loose_code_def]])
    (auto intro!: t_then [OF t_try_rollback] t_ret simp: success_or_safe_def)

lemma tx_catch_reject:
  assumes "txn_code good e c m"
  shows "txn_code good e c (mcatch m (\<lambda>_. reject j))"
  unfolding txn_code_def reject_def
  by (rule t_catch [OF assms [unfolded txn_code_def] t_then [OF t_rollback_any t_ret]])
    (simp add: success_or_safe_def)

text \<open>A step inside the transaction that may already have rolled back and answered.\<close>

lemma tx_early [tx_intros]:
  assumes "triple e (InTx c) m (\<lambda>r w. case r of Inl j \<Rightarrow> Safe e c w | Inr x \<Rightarrow> InTx c w) (Unchanged c) (Unchanged c)"
    and "\<And>x. txn_code good e c (f x)"
  shows "txn_code good e c (mbind m (\<lambda>r. case r of Inl j \<Rightarrow> mret j | Inr x \<Rightarrow> f x))"
  unfolding txn_code_def
proof (rule t_bind [OF assms(1)])
  show "triple e (\<lambda>w. case r of Inl j \<Rightarrow> Safe e c w | Inr x \<Rightarrow> InTx c w)
      (case r of Inl j \<Rightarrow> mret j | Inr x \<Rightarrow> f x) (success_or_safe good e c) (Unchanged c) (Unchanged c)" for r
    using assms(2) by (cases r) (auto simp: success_or_safe_def txn_code_def intro!: t_ret)
qed

text \<open>Code that may leave its transaction open, but keeps the committed books.\<close>

definition books_code :: "(json \<Rightarrow> bool) \<Rightarrow> env \<Rightarrow> books \<Rightarrow> json M \<Rightarrow> bool" where
  "books_code good e c m \<longleftrightarrow> triple e (Idle c) m (\<lambda>res w. good res \<or> Unchanged c w) (Unchanged c) (Unchanged c)"

named_theorems bc_intros \<open>code that keeps the committed books\<close>

lemma bc_loose: "loose_code good e c m \<Longrightarrow> books_code good e c m"
  unfolding loose_code_def books_code_def
  by (erule t_conseq) (auto simp: success_or_safe_def intro: Safe_Unchanged)

lemma bc_handler: "handler_code good e c m \<Longrightarrow> books_code good e c m"
  unfolding handler_code_def books_code_def
  by (erule t_conseq) (auto simp: success_or_safe_def intro: Safe_Unchanged)

lemma bc_ret [bc_intros]: "books_code good e c (mret x)"
  and bc_throw [bc_intros]: "books_code good e c (mthrow y)"
  by (rule bc_handler, rule hc_intros)+

lemma bc_bind [bc_intros]:
  assumes "keeps e (Idle c) m" and "\<And>x. books_code good e c (f x)"
  shows "books_code good e c (mbind m f)"
  unfolding books_code_def
  by (rule t_bind [where S = "\<lambda>_. Idle c"])
    (use assms in \<open>auto intro!: keeps_conseq Idle_Unchanged simp: books_code_def\<close>)

lemma bc_then [bc_intros]:
  "keeps e (Idle c) m \<Longrightarrow> books_code good e c n \<Longrightarrow> books_code good e c (mthen m n)"
  unfolding mthen_def by (rule bc_bind)

lemma bc_if [bc_intros]:
  "(b \<Longrightarrow> books_code good e c m) \<Longrightarrow> (\<not> b \<Longrightarrow> books_code good e c n) \<Longrightarrow> books_code good e c (if b then m else n)"
  by simp

lemma bc_option [bc_intros]:
  "books_code good e c m \<Longrightarrow> (\<And>y. x = Some y \<Longrightarrow> books_code good e c (f y)) \<Longrightarrow>
   books_code good e c (case x of None \<Rightarrow> m | Some y \<Rightarrow> f y)"
  by (cases x) simp_all

lemma bc_catch [bc_intros]:
  assumes "books_code good e c m"
  shows "books_code good e c (mcatch m (\<lambda>x. mret (f x)))"
  unfolding books_code_def
  by (rule t_catch [OF assms [unfolded books_code_def]]) (auto intro!: t_ret)

lemma keeps_commit_Idle [keeps_intros]: "keeps e (Idle c) commit"
  by (rule keepsI) (auto simp: wp_simps Idle_def split: option.split)

lemma keeps_correlation [keeps_intros]: "keeps e I (correlation data)"
  and keeps_strval [keeps_intros]: "keeps e I (strval data k)"
  and keeps_numval [keeps_intros]: "keeps e I (numval data k)"
  unfolding correlation_def strval_def numval_def by (intro keeps_intros)+

section \<open>Card and account lookups\<close>

definition decrypt :: "string \<Rightarrow> string M" where
  "decrypt encPan = mbind (asks (\<lambda>e. decryptPAN e encPan)) mlift"

definition check_pin :: "string \<Rightarrow> string \<Rightarrow> bool M" where
  "check_pin pan pin = mbind (asks (\<lambda>e. verifyPIN e pan pin)) mlift"

text \<open>\<^verbatim>\<open>data["card"][key].get<std::string>()\<close>\<close>

definition card_str :: "json \<Rightarrow> string \<Rightarrow> string M" where
  "card_str data k = mlift (obind (jat data ''card'') (\<lambda>card. jat_str card k))"

text \<open>A PIN is verified only when the card object carries one.\<close>

definition optional_pin :: "json \<Rightarrow> string \<Rightarrow> bool M" where
  "optional_pin cardObj pan = (if jcontains cardObj ''pin''
     then mbind (mlift (jat_str cardObj ''pin'')) (check_pin pan) else mret True)"

text \<open>A column that may be NULL, read as the empty string then.\<close>

definition or_empty :: "string option \<Rightarrow> string" where
  "or_empty x = (case x of None \<Rightarrow> [] | Some s \<Rightarrow> s)"

text \<open>A column that is read as a string without a NULL test.\<close>

definition not_null :: "string option \<Rightarrow> string M" where
  "not_null x = (case x of Some s \<Rightarrow> mret s | None \<Rightarrow> mbind (asks null_msg) (\<lambda>msg. mthrow (DbErr msg)))"

text \<open>The balance read with a row lock, and the error when the account is missing.\<close>

definition balance_or_throw :: "string \<Rightarrow> string \<Rightarrow> money M" where
  "balance_or_throw msg acc = mbind (getAccountBalance acc) (\<lambda>b. case b of
      None \<Rightarrow> mthrow (RuntimeErr msg) | Some x \<Rightarrow> mret x)"

lemma reader_lookups [reader_intros]:
  "reader (correlation data)" "reader (strval data k)" "reader (numval data k)" "reader (decrypt s)"
  "reader (check_pin pan pin)" "reader (card_str data k)" "reader (select_card pan)"
  "reader (balance_or_throw msg acc)" "reader (optional_pin cardObj pan)" "reader (not_null col)"
  unfolding optional_pin_def not_null_def correlation_def strval_def numval_def decrypt_def check_pin_def card_str_def select_card_def
    balance_or_throw_def getAccountBalance_def
  by (intro reader_intros)+

lemma keeps_lookups [keeps_intros]:
  "keeps e I (decrypt s)" "keeps e I (check_pin pan pin)" "keeps e I (card_str data k)"
  "keeps e I (optional_pin cardObj pan)" "keeps e I (not_null col)"
  unfolding optional_pin_def not_null_def decrypt_def check_pin_def card_str_def by (intro keeps_intros)+

lemmas keeps_select_card [keeps_intros] =
  reader_keeps_Idle [OF reader_lookups(7)] reader_keeps_InTx [OF reader_lookups(7)]
  reader_keeps_Idle [OF reader_lookups(8)] reader_keeps_InTx [OF reader_lookups(8)]

lemma keeps_writes_InTx [keeps_intros]:
  "keeps e (InTx c) (updateAccountBalance acc x)" "keeps e (InTx c) (insert_txn tbl p row)"
  "keeps e (InTx c) (insert_master tbl r s)"
  unfolding updateAccountBalance_def insert_txn_def insert_master_def by (intro keeps_intros)+

lemma keeps_getAccountBalance [keeps_intros]: "keeps e (InTx c) (getAccountBalance acc)"
  unfolding getAccountBalance_def by (intro keeps_intros)

text \<open>Runs that return.\<close>

lemma sum_Val [val_simps]: "(case y of Inl a \<Rightarrow> m a | Inr b \<Rightarrow> n b) e w = (Val x, w') \<longleftrightarrow>
    (\<exists>a. y = Inl a \<and> m a e w = (Val x, w')) \<or> (\<exists>b. y = Inr b \<and> n b e w = (Val x, w'))"
  by (cases y) simp_all

lemma try_rollback_Val [val_simps]: "try_rollback e w = (Val u, w') \<longleftrightarrow>
    w' = (case fault e (tick w) of None \<Rightarrow> (step_tick w)\<lparr>working := None\<rparr> | Some _ \<Rightarrow> step_tick w)"
  by (auto simp: try_rollback_def mcatch_def rollback_def mret_def split: option.split)

lemma balance_Val [val_simps]: "balance_or_throw msg acc e w = (Val b, w') \<longleftrightarrow>
    fault e (tick w) = None \<and> (\<exists>r. find_account acc (cur w) = Some r \<and> b = acc_balance r) \<and> w' = step_tick w"
  by (auto simp: balance_or_throw_def getAccountBalance_def val_simps)

lemma update_Val [val_simps]: "updateAccountBalance acc x e w = (Val u, w') \<longleftrightarrow>
    fault e (tick w) = None \<and> \<bar>dec2 x\<bar> < 10 ^ 10 \<and>
    w' = put ((cur w)\<lparr>accounts := set_balance acc (dec2 x) (accounts (cur w))\<rparr>) (step_tick w)"
  by (auto simp: updateAccountBalance_def val_simps dec_col_def split: if_splits)

lemma insert_txn_Val [val_simps]: "insert_txn tbl p row e w = (Val i, w') \<longleftrightarrow>
    fault e (tick w) = None \<and> \<bar>dec2 (t_amount row)\<bar> < 10 ^ (p - 2) \<and> \<bar>dec2 (t_fee row)\<bar> < 10 ^ 8 \<and>
    i = next_id t_id (txns (cur w) tbl) \<and>
    w' = put ((cur w)\<lparr>txns := add_txn tbl (stored_txn i (now e) row) (txns (cur w))\<rparr>) (step_tick w)"
  by (auto simp: insert_txn_def val_simps dec_col_def Let_def split: if_splits)

lemma insert_master_Val [val_simps]: "insert_master tbl r s e w = (Val u, w') \<longleftrightarrow>
    fault e (tick w) = None \<and>
    w' = put ((cur w)\<lparr>master := master (cur w) @ [\<lparr>m_table = tbl, m_ref = r, m_status = s\<rparr>]\<rparr>) (step_tick w)"
  by (auto simp: insert_master_def val_simps)

lemma in_txn_Val [val_simps]: "in_txn body e w = (Val x, w') \<longleftrightarrow>
    fault e (tick w) = None \<and>
    body e ((step_tick w)\<lparr>committed := cur w, working := Some (cur w)\<rparr>) = (Val x, w')"
  by (auto simp: in_txn_def val_simps)

lemma in_txn_throw_Val [val_simps]: "in_txn_throw body e w = (Val x, w') \<longleftrightarrow>
    fault e (tick w) = None \<and>
    body e ((step_tick w)\<lparr>committed := cur w, working := Some (cur w)\<rparr>) = (Val x, w')"
  by (auto simp: in_txn_throw_def val_simps)

lemma reject_good [simp]: "succeeded res \<Longrightarrow> \<not> succeeded j \<Longrightarrow> reject j e w \<noteq> (Val res, w')"
  by (auto simp: reject_def val_simps)

lemma in_txn_fail_good [simp]: "succeeded res \<Longrightarrow> \<not> succeeded j \<Longrightarrow> in_txn_fail j body e w = (Val res, w') \<longleftrightarrow>
    fault e (tick w) = None \<and>
    body e ((step_tick w)\<lparr>committed := cur w, working := Some (cur w)\<rparr>) = (Val res, w')"
  by (auto simp: in_txn_fail_def val_simps)

lemma catch_reject_good [simp]: "succeeded res \<Longrightarrow> \<not> succeeded j \<Longrightarrow>
    mcatch m (\<lambda>_. reject j) e w = (Val res, w') \<longleftrightarrow> m e w = (Val res, w')"
  by (auto simp: catch_Val)

lemma not_null_Val [val_simps]: "not_null x e w = (Val s, w') \<longleftrightarrow> x = Some s \<and> w' = w"
  by (auto simp: not_null_def val_simps split: option.splits)

lemma or_answer_Inr: "or_answer m f e w = (Val (Inr x), w') \<longleftrightarrow> m e w = (Val x, w')"
  by (auto simp: or_answer_def val_simps)

text \<open>What a refund writes to the purchase it refunds.\<close>

definition set_refund :: "string \<Rightarrow> (money \<Rightarrow> string + money) \<Rightarrow> nat \<Rightarrow> money \<Rightarrow> string \<Rightarrow> unit M" where
  "set_refund tbl col i amount flag = sql (\<lambda>e d. case col amount of Inl msg \<Rightarrow> Inl msg
     | Inr x \<Rightarrow> Inr ((), d\<lparr>txns := (txns d)(tbl := upd_rows (\<lambda>r. t_id r = i)
         (\<lambda>r. r\<lparr>t_refunded := Some x, t_flag := Some flag\<rparr>) (txns d tbl))\<rparr>))"

definition mark_refunded :: "string \<Rightarrow> nat \<Rightarrow> money \<Rightarrow> string \<Rightarrow> (string \<Rightarrow> txn_row list) \<Rightarrow> (string \<Rightarrow> txn_row list)" where
  "mark_refunded tbl i x flag ts = ts(tbl := upd_rows (\<lambda>r. t_id r = i)
     (\<lambda>r. r\<lparr>t_refunded := Some x, t_flag := Some flag\<rparr>) (ts tbl))"

lemma set_refund_Val [val_simps]: "set_refund tbl col i x flag e w = (Val u, w') \<longleftrightarrow>
    fault e (tick w) = None \<and> (\<exists>y. col x = Inr y \<and>
    w' = put ((cur w)\<lparr>txns := mark_refunded tbl i y flag (txns (cur w))\<rparr>) (step_tick w))"
  by (auto simp: set_refund_def mark_refunded_def val_simps split: sum.splits)

lemma keeps_set_refund [keeps_intros]: "keeps e (InTx c) (set_refund tbl col i x f)"
  unfolding set_refund_def by (intro keeps_intros)

text \<open>The card touch changes the card table only.\<close>

definition same_money :: "world \<Rightarrow> world \<Rightarrow> bool" where
  "same_money w w' \<longleftrightarrow> books (committed w') = books (committed w) \<and> master (committed w') = master (committed w) \<and>
     working w' = working w \<and> lock_log w' = lock_log w"

lemma touch_Val:
  assumes "touch_card P e w = (Val u, w')" and "working w = None"
  shows "same_money w w'"
  using assms
  by (auto simp: touch_card_def mcatch_def sql_def mret_def same_money_def books_def
      split: option.splits prod.splits outcome.splits)

lemma touch_runs: "fault e = (\<lambda>_. None) \<Longrightarrow> \<exists>w1. touch_card P e w = (Val (), w1)"
  by (simp add: touch_card_def mcatch_def sql_def)

lemma row_exI: "P row \<Longrightarrow> \<exists>r. P r \<and> add_txn tbl row ts = add_txn tbl r ts"
  by blast

section \<open>The interface\<close>

locale books_handler =
  fixes handler :: "json \<Rightarrow> json M" and good :: "json \<Rightarrow> bool"
  assumes unchanged: "triple e (Idle c) (handler data) (\<lambda>res w. good res \<or> Unchanged c w) (Unchanged c) (Unchanged c)"
begin

text \<open>Whatever a run gives, other than a good answer: the committed books are untouched.\<close>

lemma atomic:
  assumes "handler data e w = (r, w')" and "working w = None" and "\<And>res. r = Val res \<Longrightarrow> \<not> good res"
  shows "books (committed w') = books (committed w)"
proof -
  have "Idle (books (committed w)) w" using assms(2) by (simp add: Idle_def)
  from tripleD [OF unchanged this assms(1)] assms(3) show ?thesis
    by (cases r) (auto simp: Unchanged_def)
qed

end

text \<open>A channel handler moreover gives its session back clean.\<close>

locale channel_handler =
  fixes handler :: "json \<Rightarrow> json M" and good :: "json \<Rightarrow> bool"
  assumes contract: "handler_code good e c (handler data)"
begin

lemma clean_session:
  assumes "handler data e w = (Val res, w')" and "working w = None" and "\<not> good res"
  shows "books (committed w') = books (committed w) \<and> (working w' = None \<or> fault e (tick w' - 1) \<noteq> None)"
proof -
  have "Idle (books (committed w)) w" using assms(2) by (simp add: Idle_def)
  from tripleD [OF contract [unfolded handler_code_def] this assms(1)] assms(3)
  show ?thesis by (simp add: success_or_safe_def Safe_def)
qed

end

sublocale channel_handler \<subseteq> books_handler
proof unfold_locales
  show "triple e (Idle c) (handler data) (\<lambda>res w. good res \<or> Unchanged c w) (Unchanged c) (Unchanged c)" for e c data
    using contract [of e c data] unfolding handler_code_def
    by (rule t_conseq) (auto simp: success_or_safe_def intro: Safe_Unchanged)
qed

section \<open>Where a success comes from\<close>

text \<open>
  \<open>leads good S e w m\<close>: when \<open>m\<close> gives a good answer from \<open>w\<close>, it only read before it
  handed over to one of the operations in \<open>S\<close>, which gave that answer.
\<close>

definition leads :: "(json \<Rightarrow> bool) \<Rightarrow> (json M \<Rightarrow> bool) \<Rightarrow> env \<Rightarrow> world \<Rightarrow> json M \<Rightarrow> bool" where
  "leads good S e w m \<longleftrightarrow> (\<forall>res w'. m e w = (Val res, w') \<longrightarrow> good res \<longrightarrow>
     (\<exists>n w1. S n \<and> same_db w w1 \<and> n e w1 = (Val res, w')))"

definition never :: "(json \<Rightarrow> bool) \<Rightarrow> json M \<Rightarrow> bool" where
  "never good m \<longleftrightarrow> (\<forall>e w res w'. m e w = (Val res, w') \<longrightarrow> \<not> good res)"

named_theorems leads_intros \<open>where a success comes from\<close>

lemma leadsD:
  "leads good S e w m \<Longrightarrow> m e w = (Val res, w') \<Longrightarrow> good res \<Longrightarrow>
   \<exists>n w1. S n \<and> same_db w w1 \<and> n e w1 = (Val res, w')"
  by (simp add: leads_def)

lemma leads_here: "S m \<Longrightarrow> leads good S e w m"
  unfolding leads_def using same_db_refl by blast

lemma never_ret [leads_intros]: "\<not> good x \<Longrightarrow> never good (mret x)"
  and never_bind [leads_intros]: "(\<And>x. never good (f x)) \<Longrightarrow> never good (mbind m f)"
  and never_then [leads_intros]: "never good n \<Longrightarrow> never good (mthen m' n)"
  unfolding never_def bind_Val then_Val ret_Val by blast+

lemma never_throw [leads_intros]: "never good (mthrow y)"
  by (simp add: never_def throw_Val)

lemma leads_never: "never good m \<Longrightarrow> leads good S e w m"
  unfolding never_def leads_def by blast

lemma leads_ret [leads_intros]: "\<not> good x \<Longrightarrow> leads good S e w (mret x)"
  and leads_throw [leads_intros]: "leads good S e w (mthrow y)"
  by (intro leads_never leads_intros; assumption)+

lemma leads_bind [leads_intros]:
  assumes "reader m" and "\<And>x w1. m e w = (Val x, w1) \<Longrightarrow> same_db w w1 \<Longrightarrow> leads good S e w1 (f x)"
  shows "leads good S e w (mbind m f)"
  unfolding leads_def
proof (intro allI impI)
  fix res w'
  assume "mbind m f e w = (Val res, w')" and g: "good res"
  then obtain x w1 where m: "m e w = (Val x, w1)" and f: "f x e w1 = (Val res, w')" by (auto simp: bind_Val)
  from readerD [OF assms(1) m] have s: "same_db w w1" .
  from leadsD [OF assms(2) [OF m s] f g] s
  show "\<exists>n w1. S n \<and> same_db w w1 \<and> n e w1 = (Val res, w')" by (meson same_db_trans)
qed

lemma leads_then [leads_intros]:
  "reader m \<Longrightarrow> (\<And>x w1. m e w = (Val x, w1) \<Longrightarrow> same_db w w1 \<Longrightarrow> leads good S e w1 n) \<Longrightarrow> leads good S e w (mthen m n)"
  unfolding mthen_def by (rule leads_bind)

lemma leads_catch [leads_intros]:
  "leads good S e w m \<Longrightarrow> (\<And>x. never good (h x)) \<Longrightarrow> leads good S e w (mcatch m h)"
  unfolding leads_def never_def catch_Val by metis

lemma leads_if [leads_intros]: "(b \<Longrightarrow> leads good S e w m) \<Longrightarrow> (\<not> b \<Longrightarrow> leads good S e w n) \<Longrightarrow>
    leads good S e w (if b then m else n)"
  by simp

lemma leads_option [leads_intros]: "(x = None \<Longrightarrow> leads good S e w m) \<Longrightarrow> (\<And>y. x = Some y \<Longrightarrow> leads good S e w (f y)) \<Longrightarrow>
    leads good S e w (case x of None \<Rightarrow> m | Some y \<Rightarrow> f y)"
  by (cases x) simp_all

lemma leads_prod [leads_intros]: "(\<And>a b. x = (a, b) \<Longrightarrow> leads good S e w (f a b)) \<Longrightarrow>
    leads good S e w (case x of (a, b) \<Rightarrow> f a b)"
  by (cases x) simp

lemma leads_sum [leads_intros]: "(\<And>j. r = Inl j \<Longrightarrow> leads good S e w (m j)) \<Longrightarrow>
    (\<And>x. r = Inr x \<Longrightarrow> leads good S e w (n x)) \<Longrightarrow> leads good S e w (case r of Inl j \<Rightarrow> m j | Inr x \<Rightarrow> n x)"
  by (cases r) simp_all

lemma leads_let [leads_intros]: "leads good S e w (f x) \<Longrightarrow> leads good S e w (let y = x in f y)"
  by simp

text \<open>\<open>early P m\<close>: an answer that \<open>m\<close> gives before its end satisfies \<open>P\<close>.\<close>

definition early :: "(json \<Rightarrow> bool) \<Rightarrow> (json + 'a) M \<Rightarrow> bool" where
  "early P m \<longleftrightarrow> (\<forall>e w j w'. m e w = (Val (Inl j), w') \<longrightarrow> P j)"

named_theorems early_intros \<open>answers given early\<close>

lemma earlyD: "early P m \<Longrightarrow> m e w = (Val (Inl j), w') \<Longrightarrow> P j"
  by (auto simp: early_def)

lemma early_left [early_intros]: "P j \<Longrightarrow> early P (mret (Inl j))"
  and early_right [early_intros]: "early P (mret (Inr x))"
  and early_throw [early_intros]: "early P (mthrow y)"
  by (simp_all add: early_def val_simps)

lemma early_bind [early_intros]: "(\<And>x. early P (f x)) \<Longrightarrow> early P (mbind m f)"
  unfolding early_def bind_Val by blast

lemma early_if [early_intros]: "early P m \<Longrightarrow> early P n \<Longrightarrow> early P (if b then m else n)"
  and early_let [early_intros]: "early P (f z) \<Longrightarrow> early P (let y = z in f y)"
  by simp_all

lemma early_option [early_intros]:
  "early P m \<Longrightarrow> (\<And>y. early P (f y)) \<Longrightarrow> early P (case x of None \<Rightarrow> m | Some y \<Rightarrow> f y)"
  by (cases x) simp_all

lemma early_or_answer [early_intros]: "(\<And>y. P (f y)) \<Longrightarrow> early P (or_answer m f)"
  unfolding early_def or_answer_def by (auto simp: val_simps)

lemma early_step: "early P m \<Longrightarrow> (\<And>x. early P (f x)) \<Longrightarrow>
    early P (mbind m (\<lambda>r. case r of Inl j \<Rightarrow> mret (Inl j) | Inr x \<Rightarrow> f x))"
  unfolding early_def by (auto simp: bind_Val sum_Val ret_Val) blast+

section \<open>Code that returns\<close>

definition returns :: "env \<Rightarrow> 'a M \<Rightarrow> bool" where
  "returns e m \<longleftrightarrow> (\<forall>w. \<exists>x w'. m e w = (Val x, w'))"

named_theorems returns_intros \<open>code that returns when no statement fails\<close>

lemma returnsD: "returns e m \<Longrightarrow> \<exists>x w'. m e w = (Val x, w')"
  by (simp add: returns_def)

lemma returns_ret [returns_intros]: "returns e (mret x)"
  and returns_asks [returns_intros]: "returns e (asks f)"
  by (simp_all add: returns_def val_simps)

lemma returns_bind [returns_intros]:
  "returns e m \<Longrightarrow> (\<And>x. returns e (f x)) \<Longrightarrow> returns e (mbind m f)"
  unfolding returns_def bind_Val by metis

lemma returns_then [returns_intros]: "returns e m \<Longrightarrow> returns e n \<Longrightarrow> returns e (mthen m n)"
  unfolding mthen_def by (rule returns_bind)

lemma returns_if [returns_intros]:
  "(b \<Longrightarrow> returns e m) \<Longrightarrow> (\<not> b \<Longrightarrow> returns e n) \<Longrightarrow> returns e (if b then m else n)"
  by simp

lemma returns_let [returns_intros]: "returns e (f x) \<Longrightarrow> returns e (let y = x in f y)"
  by simp

lemma returns_sql:
  "fault e = (\<lambda>_. None) \<Longrightarrow> (\<And>d. \<exists>x d'. f e d = Inr (x, d')) \<Longrightarrow> returns e (sql f)"
  by (simp add: returns_def val_simps)

lemma returns_query: "fault e = (\<lambda>_. None) \<Longrightarrow> returns e (query f)"
  by (simp add: returns_def val_simps)

text \<open>The statements of a run without failures, as equations.\<close>

lemma ok_runs:
  assumes "fault e = (\<lambda>_. None)"
  shows "query g e w = (Val (g e (cur w)), step_tick w)"
    and "startTransaction e w = (Val (), (step_tick w)\<lparr>committed := cur w, working := Some (cur w)\<rparr>)"
    and "commit e w = (Val (), (step_tick w)\<lparr>committed := cur w, working := None\<rparr>)"
    and "rollback e w = (Val (), (step_tick w)\<lparr>working := None\<rparr>)"
    and "scopedConnection e w = (Val (), step_tick w)"
    and "getAccountBalance acc e w = (Val (map_option acc_balance (find_account acc (cur w))), step_tick w)"
    and "\<bar>dec2 x\<bar> < 10 ^ 10 \<Longrightarrow> updateAccountBalance acc x e w =
      (Val (), put ((cur w)\<lparr>accounts := set_balance acc (dec2 x) (accounts (cur w))\<rparr>) (step_tick w))"
    and "\<bar>dec2 (t_amount row)\<bar> < 10 ^ (p - 2) \<Longrightarrow> \<bar>dec2 (t_fee row)\<bar> < 10 ^ 8 \<Longrightarrow> insert_txn tbl p row e w =
      (let i = next_id t_id (txns (cur w) tbl) in
       (Val i, put ((cur w)\<lparr>txns := add_txn tbl (stored_txn i (now e) row) (txns (cur w))\<rparr>) (step_tick w)))"
    and "insert_master tbl k s e w =
      (Val (), put ((cur w)\<lparr>master := master (cur w) @ [\<lparr>m_table = tbl, m_ref = k, m_status = s\<rparr>]\<rparr>) (step_tick w))"
    and "col x = Inr y \<Longrightarrow> set_refund tbl col i x flag e w =
      (Val (), put ((cur w)\<lparr>txns := mark_refunded tbl i y flag (txns (cur w))\<rparr>) (step_tick w))"
  using assms
  by (simp_all add: query_def sql_def startTransaction_def commit_def rollback_def scopedConnection_def
      getAccountBalance_def updateAccountBalance_def insert_txn_def insert_master_def set_refund_def
      mark_refunded_def dec_col_def Let_def)

lemmas run_flow = mbind_def mthen_def mret_def mlift_def mthrow_def mcatch_def asks_def withLock_def
  in_txn_def in_txn_throw_def in_txn_fail_def

section \<open>A small instance\<close>

text \<open>An environment without failures and with transparent cryptography, and a database with two
  accounts, on which the properties are applied.\<close>

definition demo_env :: env where
  "demo_env = \<lparr>fault = (\<lambda>_. None), now = 8640000, steady_ms = 0, cur_uuid = ''u1'', draw = (\<lambda>i. i),
     timed_out = False, engine_shutdown = False, rand_bytes = (\<lambda>n. replicate n CHR ''r''),
     b64_encode = (\<lambda>s. s), b64_decode = Some,
     gcm_seal = (\<lambda>k iv p. (p, replicate 16 CHR ''t'')), gcm_open = (\<lambda>k iv t c. Some c),
     hmac_sha256 = (\<lambda>k s. replicate 32 7), pin_secret = ''secret'',
     str_to_double = (\<lambda>s. None), num_dump = (\<lambda>j. []), null_msg = ''null'',
     local_date = (\<lambda>t. (2026, 3)), jwt_secret = ''key'', parse_json = (\<lambda>s. None), dump_json = (\<lambda>j. [])\<rparr>"

definition demo_account :: "nat \<Rightarrow> string \<Rightarrow> money \<Rightarrow> account_row" where
  "demo_account i no b = \<lparr>acc_id = i, acc_no = no, acc_balance = b, acc_country = ''AU'',
     acc_frozen = False, acc_currency = 1\<rparr>"

definition demo_db :: db where
  "demo_db = \<lparr>accounts = [demo_account 1 ''A'' 100, demo_account 2 ''B'' 50], cards = [],
     currencies = [\<lparr>cur_id = 1, cur_code = ''AUD'', cur_name = ''Australian Dollar''\<rparr>],
     txns = (\<lambda>_. []), master = [], ledger_accs = [], ledger_entries = [],
     fx_rates = [((''USD'', ''AUD''), 3 / 2)], idem = [], tds = [], api_keys = [], tokens = [],
     falcon_log = [], reversals = [], drops = []\<rparr>"

definition demo_world :: world where
  "demo_world = \<lparr>committed = demo_db, working = None, tick = 0, lock_log = [],
     lru = \<lparr>lru_list = [], lru_map = [], lru_next = 0\<rparr>,
     gate = \<lparr>rate_buckets = (\<lambda>_. None), eviction_counter = 0, total_requests = 0, active_requests = 0,
       ok_responses = 0, fail_responses = 0\<rparr>\<rparr>"

lemma demo_simps [simp]:
  "fault demo_env = (\<lambda>_. None)" "now demo_env = 8640000" "cur_uuid demo_env = ''u1''"
  "timed_out demo_env = False" "b64_decode demo_env = Some"
  "gcm_open demo_env = (\<lambda>k iv t c. Some c)" "draw demo_env = (\<lambda>i. i)"
  "working demo_world = None" "committed demo_world = demo_db" "tick demo_world = 0" "lock_log demo_world = []"
  "txns demo_db = (\<lambda>_. [])" "reversals demo_db = []" "ledger_accs demo_db = []" "ledger_entries demo_db = []"
  "cards demo_db = []" "fx_rates demo_db = [((''USD'', ''AUD''), 3 / 2)]" "idem demo_db = []"
  "find_account ''A'' demo_db = Some (demo_account 1 ''A'' 100)"
  "find_account ''B'' demo_db = Some (demo_account 2 ''B'' 50)"
  "acc_balance (demo_account i a b) = b" "acc_frozen (demo_account i a b) = False" "acc_no (demo_account i a b) = a"
  by (simp_all add: demo_env_def demo_world_def demo_db_def find_account_def demo_account_def)

lemma demo_currency [simp]: "currency_code demo_db (demo_account i a b) = Some ''AUD''"
  by (simp add: currency_code_def demo_db_def demo_account_def)

lemma demo_lru [simp]: "lru_map (lru demo_world) = []"
  by (simp add: demo_world_def)

definition demo_card :: card_row where
  "demo_card = \<lparr>card_pan = ''P'', card_masked = ''P'', card_encrypted = [], card_scheme = Some ''V'',
     card_type = None, card_expiry = ''1230'', card_cvv = None, card_holder = ''H'', card_acc = ''A'',
     card_status = ''ACTIVE'', card_priority = ''PRIMARY'', card_block = None, card_daily = None,
     card_monthly = None, card_last = None\<rparr>"

definition card_world :: world where
  "card_world = demo_world\<lparr>committed := demo_db\<lparr>cards := [demo_card]\<rparr>\<rparr>"

lemma card_world_simps [simp]:
  "working card_world = None" "lru_map (lru card_world) = []" "lock_log card_world = []"
  "find_card ''P'' (committed card_world) = Some demo_card"
  "find_account ''A'' (committed card_world) = Some (demo_account 1 ''A'' 100)"
  "txns (committed card_world) = (\<lambda>_. [])" "card_status demo_card = ''ACTIVE''" "card_acc demo_card = ''A''"
  by (simp_all add: card_world_def find_card_def find_account_def demo_card_def demo_account_def demo_db_def)

lemma demo_idle: "working demo_world = None"
  by simp

lemmas run_defs = mbind_def mthen_def mret_def mlift_def asks_def mthrow_def mcatch_def sql_def query_def
  startTransaction_def commit_def rollback_def scopedConnection_def withLock_def with_lru_def

lemmas demo_calc = val_simps correlation_def strval_def numval_def jat_num_def jat_str_def jobj_def
  stored_txn_def new_txn_def

lemmas demo_run = run_defs in_txn_def try_rollback_def correlation_def strval_def numval_def
  balance_or_throw_def getAccountBalance_def updateAccountBalance_def insert_txn_def insert_master_def
  touch_card_def dec_col_def new_txn_def jobj_def jat_num_def jat_str_def Let_def

end
