(* ===== verification/Machines.thy ===== *)
theory Machines
  imports SwitchPrelude
begin

text \<open>
  The interface of a component that is a state machine: start states, steps and an
  invariant. A component that proves the three laws gets the invariant in every reachable
  state and along every run.
\<close>

inductive reachable_by :: "('s \<Rightarrow> bool) \<Rightarrow> ('s \<Rightarrow> 's \<Rightarrow> bool) \<Rightarrow> 's \<Rightarrow> bool"
  for start :: "'s \<Rightarrow> bool" and step :: "'s \<Rightarrow> 's \<Rightarrow> bool" where
  init: "start s \<Longrightarrow> reachable_by start step s"
| next_state: "reachable_by start step s \<Longrightarrow> step s t \<Longrightarrow> reachable_by start step t"

locale machine =
  fixes start :: "'s \<Rightarrow> bool"
    and step :: "'s \<Rightarrow> 's \<Rightarrow> bool"
    and inv :: "'s \<Rightarrow> bool"
  assumes inv_start: "start s \<Longrightarrow> inv s"
    and inv_step: "inv s \<Longrightarrow> step s t \<Longrightarrow> inv t"
begin

lemma reachable_inv: "reachable_by start step s \<Longrightarrow> inv s"
  by (induction rule: reachable_by.induct) (auto intro: inv_start inv_step)

lemma steps_inv: "step\<^sup>*\<^sup>* s t \<Longrightarrow> inv s \<Longrightarrow> inv t"
  by (induction rule: rtranclp_induct) (auto intro: inv_step)

end

end
