(* ===== verification/Falcon.thy ===== *)
theory Falcon
  imports Queries Machines
begin

text \<open>
  \<^verbatim>\<open>falcon.cpp\<close>: the fraud engine. The local risk score over device, network and payload
  signals, the same-second check with its recency cache, the velocity rules, the amount
  spike rule, and \<^verbatim>\<open>checkFraud\<close> which runs them in order. The cache is a state machine
  of its own: its list nodes, and the map from cache keys to list nodes.
\<close>

datatype FalconChannel = F_ATM | F_MOBILE | F_POS | F_ECOM | F_QRCODE | F_RINGPAY | F_ICCW | F_ALL

definition FALCON_VELOCITY_LIMIT :: nat where "FALCON_VELOCITY_LIMIT = 5"
definition FALCON_VELOCITY_WINDOW :: nat where "FALCON_VELOCITY_WINDOW = 60"
definition FALCON_SPIKE_MULTIPLIER :: real where "FALCON_SPIKE_MULTIPLIER = 3"
definition FALCON_AI_DECLINE_SCORE :: int where "FALCON_AI_DECLINE_SCORE = 85"
definition MAX_CACHE_SIZE :: nat where "MAX_CACHE_SIZE = 10000"

section \<open>Reading the request\<close>

definition lowerAscii :: "string \<Rightarrow> string" where
  "lowerAscii s = map tolower s"

fun joinSignals :: "string list \<Rightarrow> string" where
  "joinSignals sigs = foldl (\<lambda>acc s. (if acc \<noteq> [] then acc @ '','' else acc) @ s) [] sigs"

text \<open>Score and signals in the order they were raised.\<close>

type_synonym risk = "int \<times> string list"

definition addRisk :: "int \<Rightarrow> string \<Rightarrow> risk \<Rightarrow> risk" where
  "addRisk points signal r = (case r of (score, signals) \<Rightarrow>
     (min 100 (score + points), if signal \<in> set signals then signals else signals @ [signal]))"

definition findObject :: "json \<Rightarrow> string \<Rightarrow> json option" where
  "findObject obj0 key = (case jfind obj0 key of
      Some v \<Rightarrow> if is_object v then Some v else None | None \<Rightarrow> None)"

definition stringValue :: "env \<Rightarrow> json \<Rightarrow> string \<Rightarrow> string" where
  "stringValue e obj0 key = (case jfind obj0 key of
      None \<Rightarrow> []
    | Some (JStr s) \<Rightarrow> s
    | Some (JBool b) \<Rightarrow> if b then ''true'' else ''false''
    | Some v \<Rightarrow> if is_number v then num_dump e v else [])"

definition nestedStringValue :: "env \<Rightarrow> json \<Rightarrow> string \<Rightarrow> string \<Rightarrow> string" where
  "nestedStringValue e obj0 obj key = (case findObject obj0 obj of
      None \<Rightarrow> [] | Some ob \<Rightarrow> stringValue e ob key)"

text \<open>The result is the value written to \<^verbatim>\<open>out\<close>, \<open>None\<close> when the call returns
  false and leaves \<^verbatim>\<open>out\<close> alone. An integer is cut to 32 bits before the test.\<close>

definition boolValue :: "json \<Rightarrow> string \<Rightarrow> bool option" where
  "boolValue obj0 key = (case jfind obj0 key of
      Some (JBool b) \<Rightarrow> Some b
    | Some (JInt i) \<Rightarrow> Some (i mod 4294967296 \<noteq> 0)
    | Some (JStr s) \<Rightarrow> (let v = lowerAscii s in
        if v \<in> {''true'', ''yes'', ''1'', ''detected'', ''fail'', ''failed''} then Some True
        else if v \<in> {''false'', ''no'', ''0'', ''clean'', ''pass'', ''passed''} then Some False
        else None)
    | _ \<Rightarrow> None)"

definition nestedBoolValue :: "json \<Rightarrow> string \<Rightarrow> string \<Rightarrow> bool option" where
  "nestedBoolValue obj0 obj key = (case findObject obj0 obj of None \<Rightarrow> None | Some ob \<Rightarrow> boolValue ob key)"

definition numberValue :: "env \<Rightarrow> json \<Rightarrow> string \<Rightarrow> real option" where
  "numberValue e obj0 key = (case jfind obj0 key of
      Some (JInt i) \<Rightarrow> Some (of_int i)
    | Some (JNum x) \<Rightarrow> Some x
    | Some (JStr s) \<Rightarrow> str_to_double e s
    | _ \<Rightarrow> None)"

definition nestedNumberValue :: "env \<Rightarrow> json \<Rightarrow> string \<Rightarrow> string \<Rightarrow> real option" where
  "nestedNumberValue e obj0 obj key = (case findObject obj0 obj of
      None \<Rightarrow> None | Some ob \<Rightarrow> numberValue e ob key)"

definition containsAny :: "string \<Rightarrow> string list \<Rightarrow> bool" where
  "containsAny txt markers = (let lowered = lowerAscii txt in \<exists>m\<in>set markers. contains_str m lowered)"

definition kPayloadMarkers :: "string list" where
  "kPayloadMarkers =
     [''<script'', ''javascript:'', ''onerror='', ''union select'', '' or 1=1'',
      ''drop table'', ''../'', ''..'' @ [CHR 0x5C], ''/etc/passwd'', ''cmd.exe'', ''powershell'',
      ''wget '', ''curl '', ''${jndi:'', ''base64,'', ''xp_cmdshell'', ''sleep('']"

text \<open>
  The scan of the request: at most \<open>rem\<close> more characters and four levels deep. The result is
  what is left of the budget and whether a marker was found.
\<close>

function (sequential) scanJson :: "json \<Rightarrow> nat \<Rightarrow> nat \<Rightarrow> nat \<times> bool"
  and scanArr :: "json list \<Rightarrow> nat \<Rightarrow> nat \<Rightarrow> nat \<times> bool"
  and scanObj :: "(string \<times> json) list \<Rightarrow> nat \<Rightarrow> nat \<Rightarrow> nat \<times> bool" where
  "scanJson v depth rem =
     (if depth > 4 \<or> rem = 0 then (rem, False)
      else (case v of
          JStr s \<Rightarrow> (let t = take rem s in (rem - length t, containsAny t kPayloadMarkers))
        | JArr vs \<Rightarrow> scanArr vs depth rem
        | JObj kvs \<Rightarrow> scanObj kvs depth rem
        | _ \<Rightarrow> (rem, False)))"
| "scanArr [] depth rem = (rem, False)"
| "scanArr (v # vs) depth rem = (case scanJson v (depth + 1) rem of (rem', hit) \<Rightarrow>
     if hit \<or> rem' = 0 then (rem', hit) else scanArr vs depth rem')"
| "scanObj [] depth rem = (rem, False)"
| "scanObj ((k, v) # kvs) depth rem =
     (if k \<noteq> [] \<and> hd k = CHR ''_'' then scanObj kvs depth rem
      else if containsAny k kPayloadMarkers then (rem, True)
      else (case scanJson v (depth + 1) rem of (rem', hit) \<Rightarrow>
        if hit \<or> rem' = 0 then (rem', hit) else scanObj kvs depth rem'))"
  by pat_completeness auto

termination
  by (relation "measure (\<lambda>x. case x of
       Inl (v, _) \<Rightarrow> 2 * size v + 1
     | Inr (Inl (vs, _)) \<Rightarrow> 2 * size_list size vs
     | Inr (Inr (kvs, _)) \<Rightarrow> 2 * size_list (size_prod (\<lambda>_. 0) size) kvs)") auto

declare scanJson.simps [simp del]

section \<open>The risk score\<close>

text \<open>The chain of lookups: the request itself, then three nested objects; the first that
  holds a usable value decides.\<close>

fun first_some :: "'a option list \<Rightarrow> 'a option" where
  "first_some [] = None"
| "first_some (Some x # xs) = Some x"
| "first_some (None # xs) = first_some xs"

definition contextBool :: "json \<Rightarrow> string \<Rightarrow> bool option" where
  "contextBool data key = first_some [boolValue data key, nestedBoolValue data ''security'' key,
     nestedBoolValue data ''device'' key, nestedBoolValue data ''_securityContext'' key]"

definition contextNumber :: "env \<Rightarrow> json \<Rightarrow> string \<Rightarrow> real option" where
  "contextNumber e data key = first_some [numberValue e data key, nestedNumberValue e data ''security'' key,
     nestedNumberValue e data ''device'' key, nestedNumberValue e data ''_securityContext'' key]"

definition addBoolRisk :: "json \<Rightarrow> string \<Rightarrow> int \<Rightarrow> string \<Rightarrow> risk \<Rightarrow> risk" where
  "addBoolRisk data key points signal r = (if contextBool data key = Some True then addRisk points signal r else r)"

definition addFalseRisk :: "json \<Rightarrow> string \<Rightarrow> int \<Rightarrow> string \<Rightarrow> risk \<Rightarrow> risk" where
  "addFalseRisk data key points signal r = (if contextBool data key = Some False then addRisk points signal r else r)"

definition laterFlagRisk :: "json \<Rightarrow> risk \<Rightarrow> risk" where
  "laterFlagRisk data =
    (
     addFalseRisk data ''deviceBindingValid'' 80 ''device_binding_failed'' \<circ>
     addFalseRisk data ''appSignatureValid'' 90 ''invalid_app_signature'' \<circ>
     addBoolRisk data ''vpnDetected'' 25 ''vpn_detected'' \<circ>
     addBoolRisk data ''proxyDetected'' 25 ''proxy_detected'' \<circ>
     addBoolRisk data ''emulator'' 35 ''emulator_device'' \<circ>
     addBoolRisk data ''jailbroken'' 45 ''jailbroken_device'' \<circ>
     addBoolRisk data ''rooted'' 45 ''rooted_device'' \<circ>
     addBoolRisk data ''debuggerDetected'' 75 ''debugger_detected'' \<circ>
     addBoolRisk data ''instrumentationDetected'' 85 ''instrumentation_detected'' \<circ>
     addBoolRisk data ''hookDetected'' 85 ''runtime_hook_detected'' \<circ>
     addBoolRisk data ''tamperDetected'' 85 ''app_tamper_detected'' \<circ>
     addBoolRisk data ''malware'' 95 ''malware_detected'')"

definition flagRisk :: "json \<Rightarrow> risk \<Rightarrow> risk" where
  "flagRisk data = laterFlagRisk data \<circ> addBoolRisk data ''malwareDetected'' 95 ''malware_detected''"

definition deviceIntegrity :: "env \<Rightarrow> json \<Rightarrow> string" where
  "deviceIntegrity e data =
     (let a = lowerAscii (stringValue e data ''deviceIntegrity'');
          b = (if a = [] then lowerAscii (nestedStringValue e data ''security'' ''deviceIntegrity'') else a);
          c = (if b = [] then lowerAscii (nestedStringValue e data ''device'' ''deviceIntegrity'') else b)
      in if c = [] then lowerAscii (nestedStringValue e data ''_securityContext'' ''deviceIntegrity'') else c)"

definition integrityRisk :: "env \<Rightarrow> json \<Rightarrow> risk \<Rightarrow> risk" where
  "integrityRisk e data r = (let integrity = deviceIntegrity e data in
     if integrity \<in> {''fail'', ''failed'', ''compromised'', ''unsafe'', ''low''}
     then addRisk 85 ''device_integrity_failed'' r
     else if integrity \<in> {''medium'', ''unknown''} then addRisk 25 ''weak_device_integrity'' r
     else r)"

definition reportedRisk :: "env \<Rightarrow> json \<Rightarrow> risk \<Rightarrow> risk" where
  "reportedRisk e data r = (case contextNumber e data ''riskScore'' of
      None \<Rightarrow> r
    | Some x \<Rightarrow> if x \<ge> 80 then addRisk 80 ''external_risk_score_high'' r
               else if x \<ge> 60 then addRisk 35 ''external_risk_score_elevated'' r else r)"

definition trustRisk :: "env \<Rightarrow> json \<Rightarrow> risk \<Rightarrow> risk" where
  "trustRisk e data r = (case contextNumber e data ''deviceTrustScore'' of
      None \<Rightarrow> r
    | Some x \<Rightarrow> if x < 30 then addRisk 70 ''device_trust_low'' r
               else if x < 50 then addRisk 35 ''device_trust_elevated'' r else r)"

definition agentRisk :: "env \<Rightarrow> json \<Rightarrow> risk \<Rightarrow> risk" where
  "agentRisk e data r = (let ua = nestedStringValue e data ''_securityContext'' ''userAgent'' in
     if containsAny ua [''sqlmap'', ''nikto'', ''nmap'', ''masscan'', ''metasploit'',
                        ''nuclei'', ''acunetix'', ''nessus'', ''wpscan'']
     then addRisk 90 ''attack_tool_user_agent'' r
     else if containsAny ua [''burp'', ''owasp zap'', ''python-requests'', ''curl/'', ''wget/'']
     then addRisk 55 ''automation_user_agent'' r
     else r)"

definition forwardedRisk :: "env \<Rightarrow> json \<Rightarrow> risk \<Rightarrow> risk" where
  "forwardedRisk e data r = (let f = nestedStringValue e data ''_securityContext'' ''forwardedFor'' in
     if f \<noteq> [] \<and> CHR '','' \<in> set f then addRisk 10 ''multi_hop_forwarded_for'' r else r)"

definition payloadRisk :: "json \<Rightarrow> risk \<Rightarrow> risk" where
  "payloadRisk data r = (if snd (scanJson data 0 4096) then addRisk 75 ''payload_attack_marker'' r else r)"

definition deviceIdRisk :: "env \<Rightarrow> json \<Rightarrow> FalconChannel \<Rightarrow> risk \<Rightarrow> risk" where
  "deviceIdRisk e data channel r =
     (if channel \<in> {F_MOBILE, F_RINGPAY} \<and> stringValue e data ''deviceId'' = []
      then addRisk 15 ''missing_device_id'' r else r)"

definition amountRisk :: "real \<Rightarrow> risk \<Rightarrow> risk" where
  "amountRisk amount r = (if amount \<ge> 100000 then addRisk 20 ''very_large_amount'' r
     else if amount \<ge> 50000 then addRisk 10 ''large_amount'' r else r)"

definition risk_of :: "env \<Rightarrow> json \<Rightarrow> real \<Rightarrow> FalconChannel \<Rightarrow> risk" where
  "risk_of e data amount channel =
     (amountRisk amount \<circ> deviceIdRisk e data channel \<circ> payloadRisk data \<circ> forwardedRisk e data \<circ>
      agentRisk e data \<circ> trustRisk e data \<circ> reportedRisk e data \<circ> integrityRisk e data \<circ> flagRisk data)
     (0, [])"

text \<open>\<open>Some reason\<close> when the score declines the transaction. No request data, or data that is
  no object, is never declined.\<close>

definition aiThreatScore :: "env \<Rightarrow> json option \<Rightarrow> real \<Rightarrow> FalconChannel \<Rightarrow> string option" where
  "aiThreatScore e req amount channel = (case req of
      None \<Rightarrow> None
    | Some data \<Rightarrow> if \<not> is_object data then None
        else (case risk_of e data amount channel of (score, signals) \<Rightarrow>
          if score \<ge> FALCON_AI_DECLINE_SCORE
          then Some (''Falcon AI security decline: high-risk device, network, or payload signal'' @
                     '' detected (score='' @ int_str score @ '', signals='' @ joinSignals signals @ '')'')
          else None))"

section \<open>The recency cache\<close>

datatype EvictionPolicy = LRU_POLICY | FIFO_POLICY

text \<open>
  The critical section at the head of \<^verbatim>\<open>sameSecond_\<close>: a fresh entry is a hit and moves to
  the front; a stale one leaves the map but its list node stays. Following an iterator whose
  node is gone would be undefined; the model ends the process there, and the invariant below
  shows that it does not happen.
\<close>

definition lru_lookup :: "EvictionPolicy \<Rightarrow> string \<Rightarrow> int \<Rightarrow> lru_cache \<Rightarrow> bool outcome \<times> lru_cache" where
  "lru_lookup policy key t c = (case map_of (lru_map c) key of
      None \<Rightarrow> (Val False, c)
    | Some i \<Rightarrow> (case List.find (\<lambda>n. cn_id n = i) (lru_list c) of
        None \<Rightarrow> (Abort, c)
      | Some n \<Rightarrow>
          if t - cn_stamp n \<le> 1000
          then (Val True, if policy = LRU_POLICY
                 then c\<lparr>lru_list := n # filter (\<lambda>n. cn_id n \<noteq> i) (lru_list c)\<rparr> else c)
          else (Val False, c\<lparr>lru_map := filter (\<lambda>(k, _). k \<noteq> key) (lru_map c)\<rparr>)))"

text \<open>The second critical section: a new node in front, and one eviction from the back once
  the map is over its bound.\<close>

definition lru_insert :: "string \<Rightarrow> int \<Rightarrow> lru_cache \<Rightarrow> lru_cache" where
  "lru_insert key t c =
     (let i = lru_next c;
          nodes = \<lparr>cn_id = i, cn_key = key, cn_stamp = t\<rparr> # lru_list c;
          entries = (key, i) # filter (\<lambda>(k, _). k \<noteq> key) (lru_map c)
      in if length entries > MAX_CACHE_SIZE
         then \<lparr>lru_list = butlast nodes,
               lru_map = filter (\<lambda>(k, _). k \<noteq> cn_key (last nodes)) entries, lru_next = Suc i\<rparr>
         else \<lparr>lru_list = nodes, lru_map = entries, lru_next = Suc i\<rparr>)"

definition empty_cache :: lru_cache where
  "empty_cache = \<lparr>lru_list = [], lru_map = [], lru_next = 0\<rparr>"

text \<open>Every map entry has a live node with its key.\<close>

definition cache_inv :: "lru_cache \<Rightarrow> bool" where
  "cache_inv c \<longleftrightarrow> distinct (map cn_id (lru_list c)) \<and> (\<forall>n\<in>set (lru_list c). cn_id n < lru_next c) \<and>
     distinct (map fst (lru_map c)) \<and>
     (\<forall>(k, i)\<in>set (lru_map c). \<exists>n\<in>set (lru_list c). cn_id n = i \<and> cn_key n = k)"

inductive cache_step :: "lru_cache \<Rightarrow> lru_cache \<Rightarrow> bool" where
  lookup: "lru_lookup policy key t c = (Val hit, c') \<Longrightarrow> cache_step c c'"
| insert: "cache_step c (lru_insert key t c)"

inductive_cases cache_stepE: "cache_step c c'"

lemma distinct_filter_fst: "distinct (map fst xs) \<Longrightarrow> distinct (map fst (filter P xs))"
  by (induction xs) auto

lemma find_id_iff:
  "distinct (map cn_id ns) \<Longrightarrow> List.find (\<lambda>n. cn_id n = i) ns = Some n \<longleftrightarrow> n \<in> set ns \<and> cn_id n = i"
  by (induction ns) (auto simp: rev_image_eqI)

lemma lookup_live: "cache_inv c \<Longrightarrow> fst (lru_lookup policy key t c) \<noteq> Abort"
  by (auto simp: lru_lookup_def cache_inv_def find_None_iff split: option.splits if_splits dest!: map_of_SomeD)

lemma lookup_inv:
  assumes inv: "cache_inv c" and look: "lru_lookup policy key t c = (r, c')"
  shows "cache_inv c'"
proof (cases "map_of (lru_map c) key")
  case None
  with assms show ?thesis by (simp add: lru_lookup_def)
next
  case (Some i)
  show ?thesis
  proof (cases "List.find (\<lambda>n. cn_id n = i) (lru_list c)")
    case None
    with Some assms show ?thesis by (simp add: lru_lookup_def)
  next
    case node: (Some n)
    then have n: "n \<in> set (lru_list c)" "cn_id n = i" by (auto simp: find_Some_iff)
    have rest: "m \<in> set (lru_list c) \<Longrightarrow> m = n \<or> cn_id m \<noteq> i" for m
      using n inv by (auto simp: cache_inv_def distinct_map dest: inj_onD)
    consider "c' = c" | "c' = c\<lparr>lru_list := n # filter (\<lambda>n. cn_id n \<noteq> i) (lru_list c)\<rparr>"
      | "c' = c\<lparr>lru_map := filter (\<lambda>(k, _). k \<noteq> key) (lru_map c)\<rparr>"
      using look Some node by (auto simp: lru_lookup_def split: if_splits)
    then show ?thesis
    proof cases
      case 1
      with inv show ?thesis by simp
    next
      case 2
      have "set (lru_list c') = set (lru_list c)" using 2 n rest by auto
      moreover have "distinct (map cn_id (lru_list c'))"
        using 2 n inv by (auto simp: cache_inv_def distinct_map intro: inj_on_subset)
      ultimately show ?thesis using inv 2 by (simp add: cache_inv_def)
    next
      case 3
      with inv show ?thesis by (auto simp: cache_inv_def distinct_filter_fst)
    qed
  qed
qed

lemma insert_inv:
  assumes inv: "cache_inv c"
  shows "cache_inv (lru_insert key t c)"
proof -
  define nd where "nd = \<lparr>cn_id = lru_next c, cn_key = key, cn_stamp = t\<rparr>"
  define ents where "ents = (key, lru_next c) # filter (\<lambda>(k, _). k \<noteq> key) (lru_map c)"
  define big where "big = \<lparr>lru_list = nd # lru_list c, lru_map = ents, lru_next = Suc (lru_next c)\<rparr>"
  have big: "cache_inv big"
    using inv unfolding cache_inv_def big_def ents_def nd_def
    by (auto simp: distinct_filter_fst less_SucI)
  define l where "l = last (nd # lru_list c)"
  have ap: "nd # lru_list c = butlast (nd # lru_list c) @ [l]" by (simp add: l_def)
  have small: "cache_inv \<lparr>lru_list = butlast (nd # lru_list c),
      lru_map = filter (\<lambda>(k, _). k \<noteq> cn_key l) ents, lru_next = Suc (lru_next c)\<rparr>"
    (is "cache_inv ?s")
  proof -
    have sub: "n \<in> set (butlast (nd # lru_list c)) \<or> n = l" if "n \<in> set (nd # lru_list c)" for n
      using that by (subst (asm) ap) auto
    have "distinct (map cn_id (butlast (nd # lru_list c)))"
    proof -
      have "distinct (map cn_id (nd # lru_list c))"
        using big unfolding cache_inv_def big_def by (simp only: lru_cache.simps)
      then show ?thesis by (metis distinct_butlast map_butlast)
    qed
    moreover have "\<forall>n\<in>set (butlast (nd # lru_list c)). cn_id n < Suc (lru_next c)"
      using big by (auto simp: cache_inv_def big_def dest: in_set_butlastD)
    moreover have "\<exists>n\<in>set (butlast (nd # lru_list c)). cn_id n = i \<and> cn_key n = k"
      if "(k, i) \<in> set ents" "k \<noteq> cn_key l" for k i
    proof -
      from big that(1) obtain n where "n \<in> set (nd # lru_list c)" "cn_id n = i" "cn_key n = k"
        unfolding cache_inv_def big_def by fastforce
      with sub that(2) show ?thesis by blast
    qed
    moreover have "distinct (map fst (filter (\<lambda>(k, _). k \<noteq> cn_key l) ents))"
      using big by (intro distinct_filter_fst) (simp add: cache_inv_def big_def)
    ultimately show ?thesis unfolding cache_inv_def by auto
  qed
  show ?thesis
    using big small by (simp add: lru_insert_def Let_def big_def nd_def ents_def l_def)
qed

interpretation lc: machine "\<lambda>c. c = empty_cache" cache_step cache_inv
proof unfold_locales
  show "cache_inv c" if "c = empty_cache" for c
    using that by (simp add: cache_inv_def empty_cache_def)
  show "cache_inv c'" if "cache_inv c" "cache_step c c'" for c c'
    using that(2,1) by (cases rule: cache_step.cases) (blast intro: lookup_inv insert_inv)+
qed

abbreviation cache_reachable :: "lru_cache \<Rightarrow> bool" where
  "cache_reachable \<equiv> reachable_by (\<lambda>c. c = empty_cache) cache_step"

section \<open>The rules\<close>

definition since :: "nat \<Rightarrow> string \<Rightarrow> env \<Rightarrow> db \<Rightarrow> string \<Rightarrow> txn_row list" where
  "since secs acc e d table = filter (\<lambda>r. t_acc r = acc \<and> now e \<le> t_created r + secs) (txns d table)"

text \<open>\<^verbatim>\<open>policy_\<close> keeps its initial value; the clock is read once per call.\<close>

definition sameSecond :: "string \<Rightarrow> string \<Rightarrow> bool M" where
  "sameSecond acc table = (let cacheKey = acc @ ''|'' @ table in
     mbind (with_lru (\<lambda>e. lru_lookup LRU_POLICY cacheKey (steady_ms e))) (\<lambda>hit.
     if hit then mret True
     else mcatch
       (mbind (query (\<lambda>e d. since 1 acc e d table \<noteq> [])) (\<lambda>matched.
        if matched then mthen (with_lru (\<lambda>e c. (Val (), lru_insert cacheKey (steady_ms e) c))) (mret True)
        else mret False))
       (\<lambda>_. mret False)))"

definition countRows :: "(env \<Rightarrow> db \<Rightarrow> nat) \<Rightarrow> nat M" where
  "countRows q = mcatch (query q) (\<lambda>_. mret 0)"

definition velocity :: "string \<Rightarrow> string \<Rightarrow> bool M" where
  "velocity acc table =
     mbind (countRows (\<lambda>e d. length (take FALCON_VELOCITY_LIMIT (since FALCON_VELOCITY_WINDOW acc e d table))))
     (\<lambda>cnt. mret (cnt \<ge> FALCON_VELOCITY_LIMIT))"

definition channel_tables :: "string list" where
  "channel_tables = [''transaction_atm'', ''transaction_mobile'', ''transaction_pos'', ''transaction_ecom'',
     ''transaction_qrcode'', ''transaction_ringpay'', ''transaction_iccw'']"

definition crossChannelVelocity :: "string \<Rightarrow> bool M" where
  "crossChannelVelocity acc = mcatch
     (mbind (query (\<lambda>e d. length (concat (map (since 60 acc e d) channel_tables))))
      (\<lambda>total. mret (total \<ge> FALCON_VELOCITY_LIMIT)))
     (\<lambda>_. mret False)"

text \<open>SQL's \<^verbatim>\<open>AVG\<close>: NULL over no rows.\<close>

definition average :: "real list \<Rightarrow> real option" where
  "average xs = (if xs = [] then None else Some (sum_list xs / of_nat (length xs)))"

definition history :: "string \<Rightarrow> env \<Rightarrow> db \<Rightarrow> real list" where
  "history acc e d = map t_amount (filter (\<lambda>r. t_status r = ''SUCCESS'')
     (concat (map (since (7 * 86400) acc e d) channel_tables)))"

definition amountSpike :: "string \<Rightarrow> real \<Rightarrow> bool M" where
  "amountSpike acc amount = mcatch
     (mbind (query (\<lambda>e d. average (history acc e d))) (\<lambda>row. case row of
        Some avg \<Rightarrow> mret (avg > 0 \<and> amount > FALCON_SPIKE_MULTIPLIER * avg)
      | None \<Rightarrow> mret False))
     (\<lambda>_. mret False)"

section \<open>The check\<close>

text \<open>The rows of \<^verbatim>\<open>TABLES\<close> that a channel selects.\<close>

fun falcon_tables :: "FalconChannel \<Rightarrow> string list" where
  "falcon_tables F_ATM = [''transaction_atm'']"
| "falcon_tables F_MOBILE = [''transaction_mobile'']"
| "falcon_tables F_POS = [''transaction_pos'']"
| "falcon_tables F_ECOM = [''transaction_ecom'']"
| "falcon_tables F_QRCODE = [''transaction_qrcode'']"
| "falcon_tables F_RINGPAY = [''transaction_ringpay'']"
| "falcon_tables F_ICCW = [''transaction_iccw'']"
| "falcon_tables F_ALL = channel_tables"

fun first_table :: "(string \<Rightarrow> bool M) \<Rightarrow> string list \<Rightarrow> string option M" where
  "first_table chk [] = mret None"
| "first_table chk (t # ts) = mbind (chk t) (\<lambda>hit. if hit then mret (Some t) else first_table chk ts)"

text \<open>The fraud reason, or \<open>None\<close> when the call returns false. The spike message holds the
  two bytes of a multiplication sign.\<close>

definition checkFraud :: "string \<Rightarrow> real \<Rightarrow> FalconChannel \<Rightarrow> json option \<Rightarrow> string option M" where
  "checkFraud acc amount channel req =
     mbind (asks (\<lambda>e. aiThreatScore e req amount channel)) (\<lambda>ai. case ai of
       Some reason \<Rightarrow> mret (Some reason)
     | None \<Rightarrow>
     mbind (first_table (sameSecond acc) (falcon_tables channel)) (\<lambda>same. case same of
       Some t \<Rightarrow> mret (Some ''Duplicate transaction detected within 1 second'')
     | None \<Rightarrow>
     mbind (first_table (velocity acc) (falcon_tables channel)) (\<lambda>vel. case vel of
       Some t \<Rightarrow> mret (Some (''Velocity limit exceeded: >'' @ nat_str FALCON_VELOCITY_LIMIT @
                            '' transactions in 60 seconds on '' @ t))
     | None \<Rightarrow>
     mbind (crossChannelVelocity acc) (\<lambda>cross.
     if cross then mret (Some (''Cross-channel velocity limit exceeded (>'' @ nat_str FALCON_VELOCITY_LIMIT @
                              '' txns across all channels in 60 sec)''))
     else
     mbind (amountSpike acc amount) (\<lambda>spike.
     if spike then mret (Some (''Amount spike detected: '' @ double_str amount @ '' exceeds '' @
                              double_str FALCON_SPIKE_MULTIPLIER @ [CHR 0xC3, CHR 0x97] @ '' 7-day average''))
     else mret None)))))"

text \<open>The constructor \<^verbatim>\<open>Falcon falcon(sess)\<close> runs \<^verbatim>\<open>USE bankingdb\<close>.\<close>

definition newFalcon :: "unit M" where
  "newFalcon = query (\<lambda>e d. ())"

definition logFraud :: "string \<Rightarrow> string \<Rightarrow> string \<Rightarrow> string \<Rightarrow> string \<Rightarrow> money \<Rightarrow> string \<Rightarrow> unit M" where
  "logFraud txnId clientTxnId deviceId mobileNo acc amount reason = mcatch
     (mbind (sql (\<lambda>e d. case dec_col 12 amount of Inl msg \<Rightarrow> Inl msg
        | Inr a \<Rightarrow> (let i = next_id f_id (falcon_log d) in Inr (i, d\<lparr>falcon_log := falcon_log d @
           [\<lparr>f_id = i, f_txn = txnId, f_client = clientTxnId, f_device = deviceId, f_mobile = mobileNo,
             f_acc = acc, f_amount = a, f_reason = reason, f_status = ''DECLINED''\<rparr>]\<rparr>))))
      (\<lambda>i. insert_master ''transaction_falcon'' i ''DECLINED''))
     (\<lambda>_. mret ())"

section \<open>Laws\<close>

lemma reader_first_table [reader_intros]: "(\<And>t. reader (chk t)) \<Longrightarrow> reader (first_table chk ts)"
  by (induction ts) (auto intro!: reader_intros)

lemma reader_checkFraud [reader_intros]: "reader (checkFraud acc amount channel req)"
  unfolding checkFraud_def sameSecond_def velocity_def countRows_def crossChannelVelocity_def
    amountSpike_def Let_def
  by (intro reader_intros)

lemma reader_newFalcon [reader_intros]: "reader newFalcon"
  unfolding newFalcon_def by (intro reader_intros)

lemmas keeps_checkFraud_Idle [keeps_intros] = reader_keeps_Idle [OF reader_checkFraud]
lemmas keeps_checkFraud_InTx [keeps_intros] = reader_keeps_InTx [OF reader_checkFraud]
lemmas keeps_newFalcon_Idle [keeps_intros] = reader_keeps_Idle [OF reader_newFalcon]
lemmas keeps_newFalcon_InTx [keeps_intros] = reader_keeps_InTx [OF reader_newFalcon]

lemma keeps_logFraud [keeps_intros]: "keeps e (Idle c) (logFraud a b d m acc x r)"
  unfolding logFraud_def
  by (intro keeps_intros keeps_sql_Idle)
    (auto simp: books_def Let_def split: sum.splits)

lemma keeps_logFraud_InTx [keeps_intros]: "keeps e (InTx c) (logFraud a b d m acc x r)"
  unfolding logFraud_def insert_master_def by (intro keeps_intros)

text \<open>The score stays in range and every rule can only raise it.\<close>

definition risk_ok :: "risk \<Rightarrow> bool" where
  "risk_ok r \<longleftrightarrow> 0 \<le> fst r \<and> fst r \<le> 100 \<and> distinct (snd r)"

definition raises :: "(risk \<Rightarrow> risk) \<Rightarrow> bool" where
  "raises f \<longleftrightarrow> (\<forall>r. risk_ok r \<longrightarrow> risk_ok (f r) \<and> fst r \<le> fst (f r))"

lemma raises_addRisk: "0 \<le> points \<Longrightarrow> raises (addRisk points signal)"
  by (auto simp: raises_def risk_ok_def addRisk_def)

lemma raises_id: "raises (\<lambda>r. r)"
  by (simp add: raises_def)

lemma raises_comp: "raises f \<Longrightarrow> raises g \<Longrightarrow> raises (f \<circ> g)"
  unfolding raises_def comp_def by (blast intro: order_trans)

lemma raises_if: "raises f \<Longrightarrow> raises g \<Longrightarrow> raises (\<lambda>r. if b then f r else g r)"
  by (simp add: raises_def)

lemma raises_option: "raises f \<Longrightarrow> (\<And>y. raises (g y)) \<Longrightarrow> raises (\<lambda>r. case x of None \<Rightarrow> f r | Some y \<Rightarrow> g y r)"
  by (cases x) simp_all

lemmas raises_intros = raises_if raises_option raises_id

lemma raises_later: "raises (laterFlagRisk data)"
  unfolding laterFlagRisk_def addBoolRisk_def [abs_def] addFalseRisk_def [abs_def]
  by (intro raises_comp raises_intros raises_addRisk) simp_all

lemma raises_flags: "raises (flagRisk data)"
  unfolding flagRisk_def addBoolRisk_def [abs_def]
  by (intro raises_comp raises_later raises_intros raises_addRisk) simp

lemma raises_rest:
  "raises (integrityRisk e data)" "raises (reportedRisk e data)" "raises (trustRisk e data)"
  "raises (agentRisk e data)" "raises (forwardedRisk e data)" "raises (payloadRisk data)"
  "raises (deviceIdRisk e data channel)" "raises (amountRisk amount)"
  unfolding integrityRisk_def [abs_def] reportedRisk_def [abs_def] trustRisk_def [abs_def]
    agentRisk_def [abs_def] forwardedRisk_def [abs_def] payloadRisk_def [abs_def]
    deviceIdRisk_def [abs_def] amountRisk_def [abs_def] Let_def
  by (intro raises_intros raises_addRisk; simp)+

lemma risk_of_ok: "risk_ok (risk_of e data amount channel)"
proof -
  have "raises (\<lambda>r. (amountRisk amount \<circ> deviceIdRisk e data channel \<circ> payloadRisk data \<circ> forwardedRisk e data \<circ>
      agentRisk e data \<circ> trustRisk e data \<circ> reportedRisk e data \<circ> integrityRisk e data \<circ> flagRisk data) r)"
    by (intro raises_comp raises_rest raises_flags)
  moreover have "risk_ok (0, [])" by (simp add: risk_ok_def)
  ultimately show ?thesis unfolding raises_def risk_of_def by blast
qed

lemma risk_of_flags: "fst (flagRisk data (0, [])) \<le> fst (risk_of e data amount channel)"
proof -
  have "raises (\<lambda>r. (amountRisk amount \<circ> deviceIdRisk e data channel \<circ> payloadRisk data \<circ> forwardedRisk e data \<circ>
      agentRisk e data \<circ> trustRisk e data \<circ> reportedRisk e data \<circ> integrityRisk e data) r)"
    by (intro raises_comp raises_rest)
  moreover have "risk_ok (flagRisk data (0, []))"
    using raises_flags by (simp add: raises_def risk_ok_def)
  ultimately show ?thesis unfolding raises_def risk_of_def comp_def by blast
qed


lemma flag_reaches:
  assumes "contextBool data ''malwareDetected'' = Some True"
  shows "95 \<le> fst (flagRisk data (0, []))"
proof -
  define top where "top = addBoolRisk data ''malwareDetected'' 95 ''malware_detected'' (0, [])"
  have top: "95 \<le> fst top" "risk_ok top"
    using assms by (simp_all add: top_def addBoolRisk_def addRisk_def risk_ok_def)
  then have "fst top \<le> fst (laterFlagRisk data top)"
    using raises_later [of data] unfolding raises_def by blast
  with top show ?thesis by (simp add: flagRisk_def top_def)
qed

text \<open>The rules without statement failures.\<close>

lemma cross_run:
  assumes "fault e = (\<lambda>_. None)"
  shows "crossChannelVelocity acc e w =
    (Val (FALCON_VELOCITY_LIMIT \<le> length (concat (map (since 60 acc e (cur w)) channel_tables))), step_tick w)"
  using assms by (simp add: crossChannelVelocity_def mcatch_def mbind_def query_def sql_def mret_def)

lemma velocity_run:
  assumes "fault e = (\<lambda>_. None)"
  shows "velocity acc table e w =
    (Val (FALCON_VELOCITY_LIMIT \<le> length (since FALCON_VELOCITY_WINDOW acc e (cur w) table)), step_tick w)"
  using assms by (simp add: velocity_def countRows_def mcatch_def mbind_def query_def sql_def mret_def)

lemma spike_run:
  assumes "fault e = (\<lambda>_. None)"
  shows "amountSpike acc amount e w =
    (Val (case average (history acc e (cur w)) of None \<Rightarrow> False
       | Some avg \<Rightarrow> 0 < avg \<and> FALCON_SPIKE_MULTIPLIER * avg < amount), step_tick w)"
  using assms
  by (auto simp: amountSpike_def mcatch_def mbind_def query_def sql_def mret_def split: option.split)

lemma same_db_cur: "same_db w w' \<Longrightarrow> cur w' = cur w"
  by (simp add: same_db_def cur_def cong: option.case_cong)

lemma sameSecond_no:
  assumes "fault e = (\<lambda>_. None)" and run: "sameSecond acc table e w = (Val False, w')"
  shows "since 1 acc e (cur w) table = []"
proof -
  from run obtain c where
    "mcatch (mbind (query (\<lambda>e d. since 1 acc e d table \<noteq> [])) (\<lambda>matched.
        if matched then mthen (with_lru (\<lambda>e c. (Val (), lru_insert (acc @ ''|'' @ table) (steady_ms e) c))) (mret True)
        else mret False)) (\<lambda>_. mret False) e (w\<lparr>lru := c\<rparr>) = (Val False, w')"
    unfolding sameSecond_def Let_def by (auto simp: bind_Val with_lru_Val if_Val ret_Val)
  then show ?thesis
    using assms(1)
    by (cases "since 1 acc e (cur w) table = []")
      (simp_all add: mcatch_def mbind_def query_def sql_def mthen_def with_lru_def mret_def split: prod.splits)
qed

lemma first_table_none:
  assumes "first_table chk ts e w = (Val None, w')" and "\<And>t. reader (chk t)" and "t \<in> set ts"
  shows "\<exists>w1 w2. same_db w w1 \<and> chk t e w1 = (Val False, w2)"
  using assms(1,3)
proof (induction ts arbitrary: w)
  case (Cons a ts)
  then obtain hit w1 where a: "chk a e w = (Val hit, w1)"
    and rest: "(if hit then mret (Some a) else first_table chk ts) e w1 = (Val None, w')"
    by (auto simp: val_simps)
  then have no: "\<not> hit" "first_table chk ts e w1 = (Val None, w')"
    by (auto simp: val_simps)
  have "same_db w w1" using assms(2) a by (rule readerD)
  show ?case
  proof (cases "t = a")
    case True
    with a no show ?thesis by (intro exI [of _ w] exI [of _ w1]) simp
  next
    case False
    with Cons.prems(2) have "t \<in> set ts" by simp
    from Cons.IH [OF no(2) this] \<open>same_db w w1\<close> show ?thesis by (meson same_db_trans)
  qed
qed simp

lemma reader_rules:
  "reader (sameSecond acc t)" "reader (velocity acc t)" "reader (crossChannelVelocity acc)"
  "reader (amountSpike acc x)"
  unfolding sameSecond_def velocity_def countRows_def crossChannelVelocity_def amountSpike_def Let_def
  by (intro reader_intros)+

lemma allow_parts:
  assumes "checkFraud acc amount channel req e w = (Val None, w')"
  obtains w1 w2 w3 w4 where "aiThreatScore e req amount channel = None"
    and "first_table (sameSecond acc) (falcon_tables channel) e w = (Val None, w1)"
    and "first_table (velocity acc) (falcon_tables channel) e w1 = (Val None, w2)"
    and "crossChannelVelocity acc e w2 = (Val False, w3)"
    and "amountSpike acc amount e w3 = (Val False, w4)"
    and "same_db w w1" and "same_db w w2" and "same_db w w3"
proof -
  from assms obtain w1 w2 w3 w4 where "aiThreatScore e req amount channel = None"
    and s: "first_table (sameSecond acc) (falcon_tables channel) e w = (Val None, w1)"
    and v: "first_table (velocity acc) (falcon_tables channel) e w1 = (Val None, w2)"
    and x: "crossChannelVelocity acc e w2 = (Val False, w3)"
    and "amountSpike acc amount e w3 = (Val False, w4)"
    unfolding checkFraud_def by (auto simp: val_simps)
  moreover have "same_db w w1" using s by (rule readerD [rotated]) (intro reader_intros reader_rules)
  moreover have "same_db w1 w2" using v by (rule readerD [rotated]) (intro reader_intros reader_rules)
  moreover have "same_db w2 w3" using x by (rule readerD [rotated]) (intro reader_rules)
  ultimately show thesis using that same_db_trans by blast
qed

section \<open>Properties\<close>

text \<open>C37: The fraud cache never follows a dangling iterator: in every state that any
  interleaving of its two critical sections can reach, a lookup finds the node of each map
  entry, the node carries the entry's key, and no key occurs twice.\<close>

theorem falcon_cache_safe:
  assumes "cache_reachable c"
  shows "fst (lru_lookup policy key t c) \<noteq> Abort \<and> distinct (map fst (lru_map c)) \<and>
    (\<forall>(k, i)\<in>set (lru_map c). \<exists>n\<in>set (lru_list c). cn_id n = i \<and> cn_key n = k)"
  using lc.reachable_inv [OF assms] lookup_live by (simp add: cache_inv_def)

lemma falcon_cache_safe_witness:
  "fst (lru_lookup LRU_POLICY ''A|t'' 500 (lru_insert ''A|t'' 0 empty_cache)) \<noteq> Abort"
proof -
  have "cache_reachable (lru_insert ''A|t'' 0 empty_cache)"
    by (rule next_state [OF init]) (simp, rule insert)
  from falcon_cache_safe [OF this] show ?thesis by blast
qed

text \<open>A stale entry leaves its list node behind, so the recency list is not bounded by the
  cache size: with one key in the map, lists of every length are reachable.\<close>

theorem falcon_cache_leak:
  "\<exists>c. cache_reachable c \<and> length (lru_map c) \<le> 1 \<and> length (lru_list c) = n"
proof -
  define node where "node i = \<lparr>cn_id = i, cn_key = ''K'', cn_stamp = 2000 * int i\<rparr>" for i
  define st where "st i = \<lparr>lru_list = map node (rev [0..<Suc i]), lru_map = [(''K'', i)], lru_next = Suc i\<rparr>" for i
  have first: "lru_insert ''K'' 0 empty_cache = st 0"
    by (simp add: lru_insert_def empty_cache_def st_def node_def MAX_CACHE_SIZE_def)
  have stale: "lru_lookup LRU_POLICY ''K'' (2000 * int (Suc i)) (st i) = (Val False, (st i)\<lparr>lru_map := []\<rparr>)" for i
    by (simp add: lru_lookup_def st_def node_def)
  have again: "lru_insert ''K'' (2000 * int (Suc i)) ((st i)\<lparr>lru_map := []\<rparr>) = st (Suc i)" for i
    by (simp add: lru_insert_def st_def node_def MAX_CACHE_SIZE_def)
  have "cache_reachable (st i)" for i
  proof (induction i)
    case 0
    show ?case unfolding first [symmetric] by (rule next_state [OF init]) (simp, rule insert)
  next
    case (Suc i)
    have "cache_reachable ((st i)\<lparr>lru_map := []\<rparr>)"
      using Suc by (rule next_state) (rule lookup [OF stale])
    then show ?case unfolding again [symmetric] by (rule next_state) (rule insert)
  qed
  moreover have "cache_reachable empty_cache" by (rule init) simp
  ultimately show ?thesis
    by (cases n) (auto simp: st_def empty_cache_def intro: exI [of _ empty_cache] exI [of _ "st (n - 1)"])
qed

text \<open>The risk score is a number from 0 to 100 and names every signal once; a request that
  reports detected malware is declined by the fraud check, whatever the database holds and
  without a statement being issued.\<close>

theorem falcon_malware_declines:
  assumes "is_object data" and "contextBool data ''malwareDetected'' = Some True"
  shows "risk_ok (risk_of e data amount channel) \<and>
    (\<exists>reason. checkFraud acc amount channel (Some data) e w = (Val (Some reason), w))"
proof -
  have "FALCON_AI_DECLINE_SCORE \<le> fst (risk_of e data amount channel)"
    using flag_reaches [OF assms(2)] risk_of_flags [of data e amount channel]
    by (simp add: FALCON_AI_DECLINE_SCORE_def)
  then obtain reason where "aiThreatScore e (Some data) amount channel = Some reason"
    using assms(1) by (cases "risk_of e data amount channel") (simp add: aiThreatScore_def)
  then show ?thesis
    using risk_of_ok by (auto simp: checkFraud_def mbind_def asks_def mret_def)
qed

lemma falcon_malware_declines_witness:
  "\<forall>e w. \<exists>reason. checkFraud ''ACC1'' 10 F_MOBILE
     (Some (jobj [(''security'', jobj [(''malwareDetected'', JInt 1)])])) e w = (Val (Some reason), w)"
  by (intro allI, rule falcon_malware_declines [THEN conjunct2])
    (simp_all add: contextBool_def nestedBoolValue_def findObject_def boolValue_def jobj_def)


lemma lru_tick [simp]: "lru (step_tick w) = lru w"
  by (simp add: step_tick_def)

lemma sameSecond_clear:
  assumes "fault e = (\<lambda>_. None)" and "map_of (lru_map (lru w)) (acc @ ''|'' @ t) = None"
    and "since 1 acc e (cur w) t = []"
  shows "sameSecond acc t e w = (Val False, step_tick (w\<lparr>lru := lru w\<rparr>))"
  using assms
  by (simp add: sameSecond_def Let_def mbind_def with_lru_def lru_lookup_def mcatch_def query_def sql_def mret_def)

text \<open>An account without rows of the last seven days in the channel tables, and without an entry in the cache, passes
  every rule on a request that carries no risk.\<close>

lemma first_table_clear:
  assumes "\<And>t v. cur v = cur w \<Longrightarrow> lru v = lru w \<Longrightarrow> \<exists>v'. chk t e v = (Val False, v') \<and> cur v' = cur v \<and> lru v' = lru v"
    and "cur v = cur w" and "lru v = lru w"
  shows "\<exists>v'. first_table chk ts e v = (Val None, v') \<and> cur v' = cur w \<and> lru v' = lru w"
  using assms(2,3)
proof (induction ts arbitrary: v)
  case Nil
  then show ?case by (simp add: mret_def)
next
  case (Cons t ts)
  from assms(1) [OF Cons.prems] obtain v1 where 1: "chk t e v = (Val False, v1)" "cur v1 = cur v" "lru v1 = lru v" by blast
  with Cons.prems have "cur v1 = cur w" "lru v1 = lru w" by simp_all
  from Cons.IH [OF this] 1(1) show ?case by (auto simp: mbind_def)
qed

lemma checkFraud_clear:
  assumes f: "fault e = (\<lambda>_. None)" and ai: "aiThreatScore e req amount channel = None"
    and l: "lru_map (lru w) = []"
    and old: "\<And>t. \<forall>r\<in>set (txns (cur w) t). t_acc r = acc \<longrightarrow> t_created r + 604800 < now e"
  shows "\<exists>w'. checkFraud acc amount channel req e w = (Val None, w') \<and> lru w' = lru w"
proof -
  have s: "since n acc e (cur w) t = []" if "n \<le> 604800" for n t
    using old [of t] that by (fastforce simp: since_def filter_empty_conv)
  have h: "history acc e (cur w) = []"
    by (simp add: history_def channel_tables_def s)
  have "\<exists>v'. sameSecond acc t e v = (Val False, v') \<and> cur v' = cur v \<and> lru v' = lru v"
    if "cur v = cur w" "lru v = lru w" for t v
    using sameSecond_clear [OF f, of v acc t] s [of 1 t] l that by simp
  from first_table_clear [of w "sameSecond acc", OF this refl refl] obtain w1 where
    1: "first_table (sameSecond acc) (falcon_tables channel) e w = (Val None, w1)" "cur w1 = cur w" "lru w1 = lru w" by blast
  have "\<exists>v'. velocity acc t e v = (Val False, v') \<and> cur v' = cur v \<and> lru v' = lru v" if "cur v = cur w" for t v
    using s [of FALCON_VELOCITY_WINDOW] that
    by (simp add: velocity_run [OF f] FALCON_VELOCITY_LIMIT_def FALCON_VELOCITY_WINDOW_def)
  from first_table_clear [of w "velocity acc", OF this 1(2,3)] obtain w2 where
    2: "first_table (velocity acc) (falcon_tables channel) e w1 = (Val None, w2)" "cur w2 = cur w" "lru w2 = lru w" by blast
  have 3: "crossChannelVelocity acc e w2 = (Val False, step_tick w2)"
    using s 2(2) by (simp add: cross_run [OF f] FALCON_VELOCITY_LIMIT_def channel_tables_def)
  have "amountSpike acc amount e (step_tick w2) = (Val False, step_tick (step_tick w2))"
    using h 2(2) by (simp add: spike_run [OF f] average_def)
  with 1 2 3 ai show ?thesis
    by (simp add: checkFraud_def mbind_def asks_def mret_def)
qed


end
