(* ===== verification/Reversal.thy ===== *)
theory Reversal
  imports Handlers Falcon
begin

text \<open>
  \<^verbatim>\<open>reversal.cpp\<close>: crediting a debit back whose answer never reached the client, with
  the drop-file queue as the fallback when the database does not answer. The second
  connection of the error path is the same session in the model.
\<close>

text \<open>\<^verbatim>\<open>get<long long>()\<close>\<close>

fun get_int :: "json \<Rightarrow> int outcome" where
  "get_int (JInt i) = Val i"
| "get_int (JNum x) = Val (if x < 0 then - \<lfloor>- x\<rfloor> else \<lfloor>x\<rfloor>)"
| "get_int (JBool b) = Val (if b then 1 else 0)"
| "get_int j = Exn (type_error_302 ''number'' j)"

text \<open>The clock value and the random number are draws of the environment.\<close>

definition makeReversalId :: "env \<Rightarrow> string" where
  "makeReversalId e = ''rev-'' @ nat_str (draw e 0) @ ''-'' @ nat_str (1000 + draw e 1 mod 9000)"

definition isDbAlive :: "bool M" where
  "isDbAlive = mcatch (mthen (query (\<lambda>e d. ())) (mret True)) (\<lambda>_. mret False)"

definition creditBack :: "string \<Rightarrow> money \<Rightarrow> money \<Rightarrow> unit M" where
  "creditBack acc amount fee =
     mbind (balance_or_throw (''Account not found: '' @ acc) acc) (\<lambda>current.
     updateAccountBalance acc (current + amount + fee))"

definition insertReversalTxn :: "reversal_row \<Rightarrow> nat M" where
  "insertReversalTxn row = sql (\<lambda>e d. case (dec_col 12 (r_amount row), dec_col 10 (r_fee row)) of
      (Inr a, Inr f) \<Rightarrow> (let i = next_id r_id (reversals d) in
        Inr (i, d\<lparr>reversals := reversals d @ [row\<lparr>r_id := i, r_amount := a, r_fee := f\<rparr>]\<rparr>))
    | _ \<Rightarrow> Inl ''Out of range value for column'')"

text \<open>The table name comes from the request; a table without the column is an error that is
  swallowed.\<close>

definition markOriginalReversed :: "string \<Rightarrow> int \<Rightarrow> unit M" where
  "markOriginalReversed tableName originalRefId = mcatch
     (sql (\<lambda>e d. if tableName \<notin> set channel_tables then Inl ''Unknown column reversal_status''
        else Inr ((), d\<lparr>txns := (txns d)(tableName := upd_rows (\<lambda>r. int (t_id r) = originalRefId)
               (\<lambda>r. r\<lparr>t_reversal := ''REVERSED''\<rparr>) (txns d tableName))\<rparr>)))
     (\<lambda>_. mret ())"

definition writeDropFile :: "drop_row \<Rightarrow> bool M" where
  "writeDropFile row = mcatch
     (mthen (sql (\<lambda>e d. case (dec_col 12 (d_amount row), dec_col 10 (d_fee row)) of
         (Inr a, Inr f) \<Rightarrow> Inr ((), d\<lparr>drops := drops d @ [row\<lparr>d_amount := a, d_fee := f\<rparr>]\<rparr>)
       | _ \<Rightarrow> Inl ''Out of range value for column''))
      (mret True))
     (\<lambda>_. mret False)"

section \<open>The request\<close>

record rev_req =
  q_txn :: string
  q_table :: string
  q_ref :: int
  q_acc :: string
  q_amount :: money
  q_fee :: money
  q_channel :: string
  q_reason :: string
  q_client :: string
  q_pan :: string
  q_scheme :: string

definition read_request :: "json \<Rightarrow> rev_req M" where
  "read_request data =
     mbind (strval data ''originalTransactionId'') (\<lambda>txn.
     mbind (strval data ''originalTableName'') (\<lambda>tbl.
     mbind (mlift (jvalue get_int data ''originalReferenceId'' 0)) (\<lambda>ref.
     mbind (strval data ''accountNumber'') (\<lambda>acc.
     mbind (numval data ''amount'') (\<lambda>amount.
     mbind (numval data ''fee'') (\<lambda>fee.
     mbind (mlift (jvalue_str data ''channel'' ''UNKNOWN'')) (\<lambda>channel.
     mbind (mlift (jvalue_str data ''reason'' ''TIMEOUT'')) (\<lambda>reason.
     mbind (strval data ''clientTxnId'') (\<lambda>client.
     mbind (strval data ''cardPan'') (\<lambda>pan.
     mbind (strval data ''cardScheme'') (\<lambda>scheme.
     mret \<lparr>q_txn = txn, q_table = tbl, q_ref = ref, q_acc = acc, q_amount = amount, q_fee = fee,
           q_channel = channel, q_reason = reason, q_client = client, q_pan = pan, q_scheme = scheme\<rparr>)))))))))))"

definition reversal_row_of :: "rev_req \<Rightarrow> string \<Rightarrow> reversal_row" where
  "reversal_row_of q revId = \<lparr>r_id = 0, r_txn = revId,
     r_client = (if q_client q = [] then revId else q_client q),
     r_orig_txn = q_txn q, r_orig_table = q_table q, r_orig_ref = q_ref q, r_channel = q_channel q,
     r_acc = q_acc q, r_amount = q_amount q, r_fee = q_fee q, r_pan = q_pan q, r_scheme = q_scheme q,
     r_reason = q_reason q, r_status = ''REVERSED'', r_message = ''Reversal applied'' @ em_dash @ q_reason q\<rparr>"

definition drop_row_of :: "rev_req \<Rightarrow> string \<Rightarrow> json \<Rightarrow> drop_row" where
  "drop_row_of q revId data = \<lparr>d_reversal = revId, d_orig_txn = q_txn q, d_orig_table = q_table q,
     d_orig_ref = q_ref q, d_channel = q_channel q, d_acc = q_acc q, d_amount = q_amount q,
     d_fee = q_fee q, d_reason = q_reason q, d_payload = data, d_retry = ''PENDING''\<rparr>"

definition queued :: "string \<Rightarrow> string \<Rightarrow> string \<Rightarrow> json" where
  "queued revId txn msg = jobj [(''reversalId'', JStr revId), (''originalTransactionId'', JStr txn),
     (''status'', JStr ''QUEUED''), (''message'', JStr msg), (''dropFileQueued'', JBool True)]"

definition reversal_failed :: "string \<Rightarrow> string \<Rightarrow> string \<Rightarrow> string \<Rightarrow> json" where
  "reversal_failed revId txn code msg = jobj [(''reversalId'', JStr revId), (''originalTransactionId'', JStr txn),
     (''status'', JStr ''FAILED''), (''errorCode'', JStr code), (''message'', JStr msg)]"

definition reversed :: "rev_req \<Rightarrow> string \<Rightarrow> json" where
  "reversed q revId = jobj [(''reversalId'', JStr revId), (''originalTransactionId'', JStr (q_txn q)),
     (''status'', JStr ''REVERSED''), (''channel'', JStr (q_channel q)), (''accountNumber'', JStr (q_acc q)),
     (''amountCredited'', JNum (q_amount q + q_fee q)),
     (''message'', JStr (''Reversal successful'' @ em_dash @ ''amount credited back''))]"

section \<open>The core\<close>

definition apply_reversal :: "rev_req \<Rightarrow> string \<Rightarrow> json M" where
  "apply_reversal q revId = withLock (q_acc q) CREDIT (in_txn
     (mthen (creditBack (q_acc q) (q_amount q) (q_fee q))
     (mbind (insertReversalTxn (reversal_row_of q revId)) (\<lambda>refId.
     mthen (insert_master ''transaction_reversal'' refId ''REVERSED'')
     (mthen (markOriginalReversed (q_table q) (q_ref q))
     (mthen commit
     (mret (reversed q revId))))))))"

definition queue_reversal :: "rev_req \<Rightarrow> string \<Rightarrow> json \<Rightarrow> json M" where
  "queue_reversal q revId data =
     mbind (writeDropFile (drop_row_of q revId data)) (\<lambda>saved.
     mret (if saved
       then queued revId (q_txn q) (''DB unavailable'' @ em_dash @ ''reversal stored in drop-file queue for retry'')
       else jset (reversal_failed revId (q_txn q) ''ERR_REVERSAL_DB_DOWN''
              (''DB is down and drop-file write also failed'' @ em_dash @ ''manual intervention required''))
              ''dropFileQueued'' (JBool False)))"

definition queue_after_error :: "rev_req \<Rightarrow> string \<Rightarrow> json \<Rightarrow> exn \<Rightarrow> json M" where
  "queue_after_error q revId data ex =
     mbind (mcatch (mthen scopedConnection (writeDropFile (drop_row_of q revId data))) (\<lambda>_. mret False)) (\<lambda>saved.
     mret (if saved
       then queued revId (q_txn q) (''DB error'' @ em_dash @ ''reversal stored in drop-file queue. Error: '' @ what ex)
       else reversal_failed revId (q_txn q) ''ERR_REVERSAL_DB'' (''Reversal failed: '' @ what ex)))"

definition processReversalCore :: "json \<Rightarrow> json M" where
  "processReversalCore data =
     mbind (strval data ''channel'') (\<lambda>_.
     mbind (read_request data) (\<lambda>q.
     if q_txn q = [] \<or> q_table q = [] \<or> q_acc q = [] \<or> q_amount q \<le> 0
     then mret (failed ''ERR_REVERSAL_MISSING_FIELDS''
       ''originalTransactionId, originalTableName, accountNumber and amount are required'')
     else mbind (asks makeReversalId) (\<lambda>revId.
       mcatch
         (mthen scopedConnection
          (mbind isDbAlive (\<lambda>alive.
           if \<not> alive then queue_reversal q revId data else apply_reversal q revId)))
         (queue_after_error q revId data))))"

definition reversal_timeout :: "string \<Rightarrow> json" where
  "reversal_timeout txn = jobj [(''status'', JStr ''TIMEOUT''), (''errorCode'', JStr ''ERR_REVERSAL_TIMEOUT''),
     (''originalTransactionId'', JStr txn),
     (''message'', JStr (''Reversal timed out'' @ em_dash @ ''check reversal_drop_file table for pending retry''))]"

text \<open>
  The entry point. On a timeout the destructor of the future still waits for the core, whose
  result is dropped.
\<close>

definition processReversal :: "json \<Rightarrow> json M" where
  "processReversal data =
     mbind (strval data ''channel'') (\<lambda>_.
     mbind (strval data ''originalTransactionId'') (\<lambda>txn.
     mbind (correlation data) (\<lambda>_.
     mbind (strval data ''accountNumber'') (\<lambda>_.
     mbind (numval data ''amount'') (\<lambda>_.
     mbind (strval data ''reason'') (\<lambda>_.
     mbind (asks timed_out) (\<lambda>late.
     if late then
       mthen (mcatch (processReversalCore data) (\<lambda>_. mret JNull)) (mret (reversal_timeout txn))
     else processReversalCore data)))))))"

section \<open>Laws\<close>

lemma keeps_reversal_parts [keeps_intros]:
  "keeps e (InTx c) (creditBack acc x f)" "keeps e (InTx c) (insertReversalTxn row)"
  "keeps e (InTx c) (markOriginalReversed t i)" "keeps e I (mbind (asks makeReversalId) mret)"
  unfolding creditBack_def insertReversalTxn_def markOriginalReversed_def by (intro keeps_intros)+

lemma keeps_alive [keeps_intros]: "keeps e (Idle c) isDbAlive"
  unfolding isDbAlive_def by (intro keeps_intros)

lemma keeps_read_request [keeps_intros]: "keeps e I (read_request data)"
  unfolding read_request_def by (intro keeps_intros)

lemma keeps_drop [keeps_intros]: "keeps e (Idle c) (writeDropFile row)"
  unfolding writeDropFile_def
  by (intro keeps_intros keeps_sql_Idle) (auto simp: books_def split: sum.splits)

text \<open>Also in a session whose rollback failed, the drop file leaves the books alone.\<close>

lemma keeps_sql_Unchanged:
  "(\<And>d x d'. f e d = Inr (x, d') \<Longrightarrow> books d' = books d) \<Longrightarrow> keeps e (Unchanged c) (sql f)"
  by (rule keepsI)
    (auto simp: wp_simps Unchanged_def put_def cur_def split: option.split sum.split prod.split)

lemma keeps_queue_Unchanged: "keeps e (Unchanged c) (queue_after_error q i data ex)"
proof -
  have "keeps e (Unchanged c) scopedConnection"
    by (rule keepsI) (auto simp: wp_simps Unchanged_def split: option.split)
  then show ?thesis
    unfolding queue_after_error_def writeDropFile_def
    by (intro keeps_intros keeps_sql_Unchanged) (auto simp: books_def split: sum.splits)
qed

abbreviation was_reversed :: "json \<Rightarrow> bool" where
  "was_reversed \<equiv> has_status ''REVERSED''"

lemma hc_apply_reversal: "handler_code was_reversed e c (apply_reversal q i)"
  unfolding apply_reversal_def
  by (intro hc_intros tx_intros keeps_intros) (simp add: reversed_def has_status_def jfind_jobj)

lemma core_unchanged:
  "triple e (Idle c) (processReversalCore data) (\<lambda>res w. was_reversed res \<or> Unchanged c w) (Unchanged c) (Unchanged c)"
proof -
  have core: "handler_code was_reversed e c
    (mthen scopedConnection (mbind isDbAlive (\<lambda>alive.
       if \<not> alive then queue_reversal q revId data else apply_reversal q revId)))" for q revId
    unfolding queue_reversal_def by (intro hc_intros keeps_intros hc_apply_reversal)
  have weak: "triple e (Idle c) m (\<lambda>res w. was_reversed res \<or> Unchanged c w) (Unchanged c) (Unchanged c)"
    if "handler_code was_reversed e c m" for m
    using that unfolding handler_code_def
    by (rule t_conseq) (auto simp: success_or_safe_def intro: Safe_Unchanged)
  have "triple e (Idle c) (mcatch (mthen scopedConnection (mbind isDbAlive (\<lambda>alive.
         if \<not> alive then queue_reversal q revId data else apply_reversal q revId)))
       (queue_after_error q revId data)) (\<lambda>res w. was_reversed res \<or> Unchanged c w) (Unchanged c) (Unchanged c)" for q revId
    by (rule t_catch [OF weak [OF core]])
      (rule t_conseq [OF keeps_triple [OF keeps_queue_Unchanged]], auto)
  then show ?thesis
    unfolding processReversalCore_def
    by (intro t_bind [where S = "\<lambda>_. Idle c"] t_if keeps_conseq keeps_intros t_ret)
      (auto intro: Idle_Unchanged)
qed

interpretation rev: books_handler processReversalCore was_reversed
  by unfold_locales (rule core_unchanged)

text \<open>What a successful run did.\<close>

lemma failed_not_reversed [simp]:
  "\<not> was_reversed (failed a b)" "\<not> was_reversed (queued i t m)" "\<not> was_reversed (reversal_failed i t c m)"
  "\<not> was_reversed (jset (reversal_failed i t c m) ''dropFileQueued'' v)"
  by (simp_all add: has_status_def failed_def queued_def reversal_failed_def jfind_jobj jset_jobj_find)

lemma queue_not_reversed: "queue_after_error q i data ex e w = (Val res, w') \<Longrightarrow> \<not> was_reversed res"
  by (auto simp: queue_after_error_def bind_Val ret_Val split: if_splits)

lemma core_parts:
  assumes "processReversalCore data e w = (Val res, w')" and "was_reversed res" and "working w = None"
  obtains q i w1 where "read_request data e w = (Val q, w)" and "0 < q_amount q"
    and "apply_reversal q i e w1 = (Val res, w')" and "same_db w w1"
proof -
  have rr: "\<And>q w1. read_request data e w = (Val q, w1) \<Longrightarrow> w1 = w"
    by (auto simp: read_request_def strval_def numval_def val_simps)
  from assms obtain q w1 where q: "read_request data e w = (Val q, w)" "0 < q_amount q"
    and m: "mcatch (mthen scopedConnection (mbind isDbAlive (\<lambda>alive.
        if \<not> alive then queue_reversal q (makeReversalId e) data else apply_reversal q (makeReversalId e))))
      (queue_after_error q (makeReversalId e) data) e w = (Val res, w')"
    using rr unfolding processReversalCore_def strval_def
    by (auto simp: bind_Val lift_Val if_Val ret_Val asks_Val not_le split: if_splits)
  have "mthen scopedConnection (mbind isDbAlive (\<lambda>alive.
        if \<not> alive then queue_reversal q (makeReversalId e) data else apply_reversal q (makeReversalId e))) e w = (Val res, w')"
    using m assms(2) queue_not_reversed by (auto simp: catch_Val)
  then obtain alive w1 where al: "isDbAlive e (step_tick w) = (Val alive, w1)"
    and br: "(if \<not> alive then queue_reversal q (makeReversalId e) data else apply_reversal q (makeReversalId e)) e w1 = (Val res, w')"
    by (auto simp: then_Val bind_Val conn_Val)
  have "same_db (step_tick w) w1" using al by (rule run_reader) (unfold isDbAlive_def, intro reader_intros)
  then have "same_db w w1" by (simp add: same_db_def)
  moreover have "apply_reversal q (makeReversalId e) e w1 = (Val res, w')"
    using br assms(2) by (auto simp: if_Val queue_reversal_def bind_Val ret_Val)
  ultimately show thesis using that q by blast
qed

lemma mark_Val:
  assumes "markOriginalReversed t i e w = (Val u, w')" and "working w = Some d"
  shows "accounts (cur w') = accounts d \<and> reversals (cur w') = reversals d \<and>
    master (cur w') = master d \<and> committed w' = committed w \<and> lock_log w' = lock_log w"
  using assms
  by (auto simp: markOriginalReversed_def mcatch_def sql_def mret_def put_def cur_def
      split: option.splits prod.splits outcome.splits sum.splits if_splits)

text \<open>The account, the reversal row and the lock of a reversal that was applied.\<close>

definition reversal_done :: "rev_req \<Rightarrow> world \<Rightarrow> world \<Rightarrow> bool" where
  "reversal_done q w w' \<longleftrightarrow> (\<exists>r. find_account (q_acc q) (committed w) = Some r \<and>
     accounts (committed w') =
       set_balance (q_acc q) (dec2 (acc_balance r + q_amount q + q_fee q)) (accounts (committed w))) \<and>
     (\<exists>row. reversals (committed w') = reversals (committed w) @ [row] \<and> r_acc row = q_acc q \<and>
        r_amount row = dec2 (q_amount q) \<and> r_fee row = dec2 (q_fee q) \<and> r_orig_txn row = q_txn q) \<and>
     working w' = None \<and>
     lock_log w' = lock_log w @ [Acquire (q_acc q) CREDIT, Release (q_acc q) CREDIT]"

lemma apply_Val:
  assumes "apply_reversal q i e w = (Val res, w')" and "working w = None"
  shows "reversal_done q w w'"
  using assms unfolding apply_reversal_def creditBack_def insertReversalTxn_def reversal_done_def
  by (clarsimp simp: val_simps dec_col_def Let_def reversal_row_of_def split: if_splits)
    (drule mark_Val, simp, clarsimp)+

text \<open>A reversal of an existing account goes through when no statement fails.\<close>

lemma apply_runs:
  assumes "fault e = (\<lambda>_. None)" and "working w = None" and "find_account (q_acc q) (committed w) = Some r"
    and "\<bar>dec2 (acc_balance r + q_amount q + q_fee q)\<bar> < 10 ^ 10" and "\<bar>dec2 (q_amount q)\<bar> < 10 ^ 10"
    and "\<bar>dec2 (q_fee q)\<bar> < 10 ^ 8"
  shows "\<exists>w'. apply_reversal q i e w = (Val (reversed q i), w')"
proof -
  have ins: "returns e (insertReversalTxn (reversal_row_of q i))"
    unfolding insertReversalTxn_def
    by (rule returns_sql [OF assms(1)]) (use assms in \<open>simp add: dec_col_def reversal_row_of_def Let_def\<close>)
  have mark: "returns e (markOriginalReversed t k)" for t k
    unfolding markOriginalReversed_def returns_def
    by (simp add: mcatch_def sql_def mret_def assms(1) split: sum.split prod.split)
  have master: "returns e (insert_master t k s)" for t k s
    unfolding insert_master_def by (rule returns_sql [OF assms(1)]) simp
  have "\<exists>w'. (mbind (insertReversalTxn (reversal_row_of q i)) (\<lambda>refId.
     mthen (insert_master ''transaction_reversal'' refId ''REVERSED'')
     (mthen (markOriginalReversed (q_table q) (q_ref q))
     (mthen commit (mret (reversed q i)))))) e v = (Val (reversed q i), w')" for v
  proof -
    have c: "returns e commit" by (simp add: returns_def val_simps assms(1))
    obtain refId w1 where 1: "insertReversalTxn (reversal_row_of q i) e v = (Val refId, w1)"
      using returnsD [OF ins] by metis
    obtain u w2 where 2: "insert_master ''transaction_reversal'' refId ''REVERSED'' e w1 = (Val u, w2)"
      using returnsD [OF master] by metis
    obtain u' w3 where 3: "markOriginalReversed (q_table q) (q_ref q) e w2 = (Val u', w3)"
      using returnsD [OF mark] by metis
    obtain u'' w4 where "commit e w3 = (Val u'', w4)" using returnsD [OF c] by metis
    with 1 2 3 show ?thesis by (simp add: mbind_def mthen_def mret_def)
  qed
  then show ?thesis
    using assms unfolding apply_reversal_def creditBack_def
    by (simp add: withLock_Val in_txn_Val then_Val bind_Val balance_Val update_Val)
qed

lemma core_runs:
  assumes "fault e = (\<lambda>_. None)" and "working w = None" and "find_account (q_acc q) (committed w) = Some r"
    and "\<bar>dec2 (acc_balance r + q_amount q + q_fee q)\<bar> < 10 ^ 10" and "\<bar>dec2 (q_amount q)\<bar> < 10 ^ 10"
    and "\<bar>dec2 (q_fee q)\<bar> < 10 ^ 8" and "jvalue_str data ''channel'' [] = Val ch"
    and "read_request data e w = (Val q, w)" and "q_txn q \<noteq> []" "q_table q \<noteq> []" "q_acc q \<noteq> []" "0 < q_amount q"
  shows "\<exists>res w'. processReversalCore data e w = (Val res, w') \<and> was_reversed res"
proof -
  let ?w = "step_tick (step_tick w)"
  have "\<exists>w'. apply_reversal q (makeReversalId e) e ?w = (Val (reversed q (makeReversalId e)), w')"
    using assms by (intro apply_runs) simp_all
  moreover have "was_reversed (reversed q i)" for i by (simp add: reversed_def has_status_def jfind_jobj)
  ultimately show ?thesis
    using assms(1,7-12)
    by (auto simp: processReversalCore_def strval_def isDbAlive_def run_defs)
qed

section \<open>Properties\<close>


definition demo_reversal :: json where
  "demo_reversal = jobj [(''originalTransactionId'', JStr ''t1''), (''originalTableName'', JStr ''transaction_atm''),
     (''originalReferenceId'', JInt 1), (''accountNumber'', JStr ''A''), (''amount'', JInt 10), (''fee'', JInt 1)]"

definition demo_request :: rev_req where
  "demo_request = \<lparr>q_txn = ''t1'', q_table = ''transaction_atm'', q_ref = 1, q_acc = ''A'', q_amount = 10,
     q_fee = 1, q_channel = ''UNKNOWN'', q_reason = ''TIMEOUT'', q_client = [], q_pan = [], q_scheme = []\<rparr>"

lemma demo_read: "read_request demo_reversal e w = (Val demo_request, w)"
  by (simp add: read_request_def demo_reversal_def demo_request_def strval_def numval_def mbind_def mlift_def
      mret_def jobj_def)

lemma demo_reversal_runs:
  assumes "working w = None" and "find_account ''A'' (committed w) = Some r" and "\<bar>dec2 (acc_balance r + 10 + 1)\<bar> < 10 ^ 10"
  shows "\<exists>res w'. processReversalCore demo_reversal demo_env w = (Val res, w') \<and> was_reversed res"
proof (rule core_runs [where q = demo_request and ch = "[]"])
  show "read_request demo_reversal demo_env w = (Val demo_request, w)" by (rule demo_read)
qed (use assms in \<open>simp_all add: demo_request_def demo_reversal_def jobj_def\<close>)


text \<open>Reversing is not idempotent. A second successful run of the same request finds the
  balance the first one left and credits amount and fee once more, and a second reversal row is
  written for the same original transaction.\<close>

theorem reversal_credits_again:
  assumes "processReversalCore data e w = (Val res1, w1)" and "was_reversed res1"
    and "processReversalCore data e w1 = (Val res2, w2)" and "was_reversed res2" and "working w = None"
    and "read_request data e w = (Val q, w)" and "find_account (q_acc q) (committed w) = Some r"
    and "is_cents (q_amount q)" and "is_cents (q_fee q)" and "is_cents (acc_balance r)"
  shows "find_account (q_acc q) (committed w2) =
      Some (r\<lparr>acc_balance := acc_balance r + 2 * (q_amount q + q_fee q)\<rparr>) \<and>
    length (reversals (committed w2)) = length (reversals (committed w)) + 2"
proof -
  have det: "read_request data e v = (Val q, v)" for v
    using assms(6) by (auto simp: read_request_def strval_def numval_def val_simps)
  have step: "reversal_done q v v'" if "processReversalCore data e v = (Val x, v')" "was_reversed x" "working v = None" for x v v'
  proof -
    from core_parts [OF that] obtain q' i v1 where "read_request data e v = (Val q', v)"
      and run: "apply_reversal q' i e v1 = (Val x, v')" and same: "same_db v v1" by blast
    with det have "q' = q" by simp
    with apply_Val [OF run] same that(3) show ?thesis by (simp add: reversal_done_def same_db_def)
  qed
  have d1: "reversal_done q w w1" by (rule step) (fact assms)+
  then have "working w1 = None" by (simp add: reversal_done_def)
  with step assms(3,4) have d2: "reversal_done q w1 w2" by blast
  have one: "find_account (q_acc q) (committed w1) = Some (r\<lparr>acc_balance := acc_balance r + q_amount q + q_fee q\<rparr>)"
    using d1 assms(7-10) by (auto simp: reversal_done_def find_account_def row_simps)
  have "is_cents (acc_balance r + q_amount q + q_fee q + q_amount q + q_fee q)"
    by (intro is_cents_add assms)
  then have "is_cents (2 * q_fee q + (2 * q_amount q + acc_balance r))"
    by (rule back_subst [of is_cents]) simp
  with one d2 have "find_account (q_acc q) (committed w2) =
      Some (r\<lparr>acc_balance := acc_balance r + q_amount q + q_fee q + q_amount q + q_fee q\<rparr>)"
    by (auto simp: reversal_done_def find_account_def row_simps)
  moreover have "length (reversals (committed w2)) = length (reversals (committed w)) + 2"
    using d1 d2 by (auto simp: reversal_done_def)
  ultimately show ?thesis by (simp add: algebra_simps)
qed

lemma reversal_credits_again_witness:
  "\<exists>res1 w1 res2 w2. processReversalCore demo_reversal demo_env demo_world = (Val res1, w1) \<and>
     processReversalCore demo_reversal demo_env w1 = (Val res2, w2) \<and>
     find_account ''A'' (committed w2) = Some ((demo_account 1 ''A'' 100)\<lparr>acc_balance := 122\<rparr>)"
proof -
  have "\<exists>res w'. processReversalCore demo_reversal demo_env demo_world = (Val res, w') \<and> was_reversed res"
    by (rule demo_reversal_runs, simp, simp, simp)
  then obtain res1 w1 where r1: "processReversalCore demo_reversal demo_env demo_world = (Val res1, w1)" "was_reversed res1"
    by blast
  from core_parts [OF r1 demo_idle] obtain q i v where
    "read_request demo_reversal demo_env demo_world = (Val q, demo_world)"
    "apply_reversal q i demo_env v = (Val res1, w1)" "same_db demo_world v" .
  then have ap: "apply_reversal demo_request i demo_env v = (Val res1, w1)" "same_db demo_world v"
    by (simp_all add: demo_read)
  from apply_Val [OF ap(1)] ap(2) have done1: "working w1 = None"
    "accounts (committed w1) = set_balance ''A'' 111 (accounts demo_db)"
    by (auto simp: reversal_done_def same_db_def demo_request_def)
  then have "find_account ''A'' (committed w1) = Some ((demo_account 1 ''A'' 100)\<lparr>acc_balance := 111\<rparr>)"
    by (simp add: find_account_def row_simps demo_db_def demo_account_def)
  with done1 have "\<exists>res w'. processReversalCore demo_reversal demo_env w1 = (Val res, w') \<and> was_reversed res"
    by (intro demo_reversal_runs, simp, simp, simp)
  then obtain res2 w2 where r2: "processReversalCore demo_reversal demo_env w1 = (Val res2, w2)" "was_reversed res2"
    by blast
  have acc: "find_account (q_acc demo_request) (committed demo_world) = Some (demo_account 1 ''A'' 100)"
    by (simp add: demo_request_def)
  have "is_cents (q_amount demo_request)" "is_cents (q_fee demo_request)" "is_cents (acc_balance (demo_account 1 ''A'' 100))"
    by (simp_all add: demo_request_def)
  note again = reversal_credits_again [OF r1 r2 demo_idle demo_read acc this]
  have "find_account ''A'' (committed w2) = Some ((demo_account 1 ''A'' 100)\<lparr>acc_balance := 122\<rparr>)"
    using again by (simp add: demo_request_def)
  with r1 r2 show ?thesis by blast
qed

end
