(* ===== verification/Constants.thy ===== *)
theory Constants
  imports SwitchPrelude
begin

text \<open>
  \<^verbatim>\<open>include/global_contant.h\<close>: the transaction types and channels and their names
  on the wire. An unknown name maps to \<^verbatim>\<open>UNKNOWN\<close>; \<^verbatim>\<open>CASH_WITHDRAWAL\<close> is a second
  spelling of \<^verbatim>\<open>WITHDRAWAL\<close>.
\<close>

datatype TransactionType =
    TT_UNKNOWN
  | TT_PURCHASE
  | TT_REFUND
  | TT_WITHDRAWAL
  | TT_DEPOSIT
  | TT_FUND_TRANSFER

definition stringToTransactionType :: "string \<Rightarrow> TransactionType" where
  "stringToTransactionType str =
    (if str = ''PURCHASE'' then TT_PURCHASE
     else if str = ''REFUND'' then TT_REFUND
     else if str = ''WITHDRAWAL'' \<or> str = ''CASH_WITHDRAWAL'' then TT_WITHDRAWAL
     else if str = ''DEPOSIT'' then TT_DEPOSIT
     else if str = ''FUND_TRANSFER'' then TT_FUND_TRANSFER
     else TT_UNKNOWN)"

fun transactionTypeToString :: "TransactionType \<Rightarrow> string" where
  "transactionTypeToString TT_PURCHASE = ''PURCHASE''"
| "transactionTypeToString TT_REFUND = ''REFUND''"
| "transactionTypeToString TT_WITHDRAWAL = ''WITHDRAWAL''"
| "transactionTypeToString TT_DEPOSIT = ''DEPOSIT''"
| "transactionTypeToString TT_FUND_TRANSFER = ''FUND_TRANSFER''"
| "transactionTypeToString TT_UNKNOWN = ''UNKNOWN''"

datatype ChannelType =
    CH_UNKNOWN
  | CH_ATM
  | CH_MOBILE
  | CH_POS
  | CH_ICCW
  | CH_ISSUER
  | CH_ECOM
  | CH_THREEDS_INITIATE
  | CH_QRCODE
  | CH_RINGPAY
  | CH_CARD_DETAILS
  | CH_CARD_ACTIVATE
  | CH_CARD_BLOCK
  | CH_CARD_SET_LIMIT
  | CH_CARD_RESET_PIN
  | CH_ADD_ACCOUNT
  | CH_ACCOUNT_DETAILS
  | CH_FREEZE_ACCOUNT
  | CH_UNFREEZE_ACCOUNT
  | CH_LIST_ACCOUNTS
  | CH_REVERSAL

definition stringToChannelType :: "string \<Rightarrow> ChannelType" where
  "stringToChannelType str =
    (if str = ''ATM'' then CH_ATM
     else if str = ''MOBILE'' then CH_MOBILE
     else if str = ''POS'' then CH_POS
     else if str = ''ICCW'' then CH_ICCW
     else if str = ''ISSUER'' then CH_ISSUER
     else if str = ''ECOM'' then CH_ECOM
     else if str = ''3DS_INITIATE'' then CH_THREEDS_INITIATE
     else if str = ''QRCODE'' then CH_QRCODE
     else if str = ''RINGPAY'' then CH_RINGPAY
     else if str = ''CARD_DETAILS'' then CH_CARD_DETAILS
     else if str = ''CARD_ACTIVATE'' then CH_CARD_ACTIVATE
     else if str = ''CARD_BLOCK'' then CH_CARD_BLOCK
     else if str = ''CARD_SET_LIMIT'' then CH_CARD_SET_LIMIT
     else if str = ''CARD_RESET_PIN'' then CH_CARD_RESET_PIN
     else if str = ''ADD_ACCOUNT'' then CH_ADD_ACCOUNT
     else if str = ''ACCOUNT_DETAILS'' then CH_ACCOUNT_DETAILS
     else if str = ''FREEZE_ACCOUNT'' then CH_FREEZE_ACCOUNT
     else if str = ''UNFREEZE_ACCOUNT'' then CH_UNFREEZE_ACCOUNT
     else if str = ''LIST_ACCOUNTS'' then CH_LIST_ACCOUNTS
     else if str = ''REVERSAL'' then CH_REVERSAL
     else CH_UNKNOWN)"

fun channelTypeToString :: "ChannelType \<Rightarrow> string" where
  "channelTypeToString CH_ATM = ''ATM''"
| "channelTypeToString CH_MOBILE = ''MOBILE''"
| "channelTypeToString CH_POS = ''POS''"
| "channelTypeToString CH_ICCW = ''ICCW''"
| "channelTypeToString CH_ISSUER = ''ISSUER''"
| "channelTypeToString CH_ECOM = ''ECOM''"
| "channelTypeToString CH_THREEDS_INITIATE = ''3DS_INITIATE''"
| "channelTypeToString CH_QRCODE = ''QRCODE''"
| "channelTypeToString CH_RINGPAY = ''RINGPAY''"
| "channelTypeToString CH_CARD_DETAILS = ''CARD_DETAILS''"
| "channelTypeToString CH_CARD_ACTIVATE = ''CARD_ACTIVATE''"
| "channelTypeToString CH_CARD_BLOCK = ''CARD_BLOCK''"
| "channelTypeToString CH_CARD_SET_LIMIT = ''CARD_SET_LIMIT''"
| "channelTypeToString CH_CARD_RESET_PIN = ''CARD_RESET_PIN''"
| "channelTypeToString CH_ADD_ACCOUNT = ''ADD_ACCOUNT''"
| "channelTypeToString CH_ACCOUNT_DETAILS = ''ACCOUNT_DETAILS''"
| "channelTypeToString CH_FREEZE_ACCOUNT = ''FREEZE_ACCOUNT''"
| "channelTypeToString CH_UNFREEZE_ACCOUNT = ''UNFREEZE_ACCOUNT''"
| "channelTypeToString CH_LIST_ACCOUNTS = ''LIST_ACCOUNTS''"
| "channelTypeToString CH_REVERSAL = ''REVERSAL''"
| "channelTypeToString CH_UNKNOWN = ''UNKNOWN''"

section \<open>Names and values\<close>

lemma transactionType_roundtrip [simp]: "stringToTransactionType (transactionTypeToString t) = t"
  by (cases t) (simp_all add: stringToTransactionType_def)

lemma channelType_roundtrip [simp]: "stringToChannelType (channelTypeToString c) = c"
  by (cases c) (simp_all add: stringToChannelType_def)

lemma channelTypeToString_inject: "channelTypeToString c = channelTypeToString d \<longleftrightarrow> c = d"
  by (metis channelType_roundtrip)

lemma stringToTransactionType_known:
  "stringToTransactionType s = t \<Longrightarrow> t \<noteq> TT_UNKNOWN \<Longrightarrow>
   s = transactionTypeToString t \<or> (t = TT_WITHDRAWAL \<and> s = ''CASH_WITHDRAWAL'')"
  by (auto simp: stringToTransactionType_def split: if_splits)

lemma stringToChannelType_known:
  "stringToChannelType s \<noteq> CH_UNKNOWN \<Longrightarrow> channelTypeToString (stringToChannelType s) = s"
  by (simp add: stringToChannelType_def split: if_splits)

end
