(* ===== verification/Atm.thy ===== *)
theory Atm
  imports Reversal Constants
begin

text \<open>
  \<^verbatim>\<open>atm.cpp\<close>: withdrawal and deposit, the card checks before them, and the entry point
  with its six-second wait and the reversal it fires on a timeout.
\<close>

definition ATM_DAILY_WITHDRAWAL_LIMIT :: money where "ATM_DAILY_WITHDRAWAL_LIMIT = 5000"
definition ATM_DAILY_DEPOSIT_LIMIT :: money where "ATM_DAILY_DEPOSIT_LIMIT = 10000"
definition ATM_TIMEOUT_SECONDS :: nat where "ATM_TIMEOUT_SECONDS = 6"

section \<open>Repository\<close>

definition atm_today :: "string \<Rightarrow> string \<Rightarrow> env \<Rightarrow> db \<Rightarrow> txn_row list" where
  "atm_today acc word e d = filter (\<lambda>r. t_acc r = acc \<and> day_of (t_created r) = day_of (now e) \<and>
     t_status r = ''SUCCESS'' \<and> contains_str word (t_message r)) (txns d ''transaction_atm'')"

definition atm_withdrawn :: "string \<Rightarrow> env \<Rightarrow> db \<Rightarrow> money" where
  "atm_withdrawn acc e d = sum_list (map (\<lambda>r. t_amount r + t_fee r) (atm_today acc ''WITHDRAWAL'' e d))"

definition atm_deposited :: "string \<Rightarrow> env \<Rightarrow> db \<Rightarrow> money" where
  "atm_deposited acc e d = sum_list (map t_amount (atm_today acc ''DEPOSIT'' e d))"

definition getTodayWithdrawalTotal :: "string \<Rightarrow> money M" where
  "getTodayWithdrawalTotal acc = query (atm_withdrawn acc)"

definition getTodayDepositTotal :: "string \<Rightarrow> money M" where
  "getTodayDepositTotal acc = query (atm_deposited acc)"

definition insertATMTransaction ::
  "string \<Rightarrow> string \<Rightarrow> string \<Rightarrow> string \<Rightarrow> string \<Rightarrow> string \<Rightarrow> money \<Rightarrow> money \<Rightarrow> string \<Rightarrow> string \<Rightarrow> string \<Rightarrow> string \<Rightarrow> nat M" where
  "insertATMTransaction txnId clientId atmId terminalId location acc amount fee pan scheme status msg =
     insert_txn ''transaction_atm'' 12
       ((new_txn txnId clientId acc amount fee status msg)\<lparr>t_pan := Some pan, t_extra :=
          [(''atm_id'', atmId), (''terminal_id'', terminalId), (''location'', location), (''card_scheme'', scheme)]\<rparr>)"

definition touchCard :: "string \<Rightarrow> unit M" where
  "touchCard pan = touch_card (\<lambda>c. card_pan c = pan)"

section \<open>Withdrawal and deposit\<close>

definition atm_success :: "string \<Rightarrow> money \<Rightarrow> string \<Rightarrow> json" where
  "atm_success txnId balance msg = jobj [(''transactionId'', JStr txnId), (''status'', JStr ''SUCCESS''),
     (''balanceAfter'', JNum balance), (''message'', JStr msg)]"

text \<open>Row, master row, commit, card touch, answer: the same tail for both types.\<close>

definition atm_record :: "json \<Rightarrow> string \<Rightarrow> money \<Rightarrow> money \<Rightarrow> string \<Rightarrow> string \<Rightarrow> string \<Rightarrow> (string \<Rightarrow> json) \<Rightarrow> json M" where
  "atm_record data acc amount fee pan scheme msg answer =
     mbind (correlation data) (\<lambda>txnId.
     mbind (mlift (jvalue_str data ''clientTxnId'' txnId)) (\<lambda>clientId.
     mbind (strval data ''atmId'') (\<lambda>atmId.
     mbind (strval data ''terminalId'') (\<lambda>terminalId.
     mbind (strval data ''location'') (\<lambda>location.
     mbind (insertATMTransaction txnId clientId atmId terminalId location acc amount fee pan scheme ''SUCCESS'' msg)
     (\<lambda>refId.
     mthen (insert_master ''transaction_atm'' refId ''SUCCESS'')
     (mthen commit
     (mthen (touchCard pan)
     (mret (answer txnId))))))))))"

definition handleWithdrawal :: "json \<Rightarrow> string \<Rightarrow> string \<Rightarrow> string \<Rightarrow> json M" where
  "handleWithdrawal data acc pan scheme = withLock acc DEBIT
     (mbind (mlift (jat_num data ''amount'')) (\<lambda>amount.
      mbind (mlift (jat_num data ''fee'')) (\<lambda>fee.
      in_txn
       (mbind (balance_or_throw ''Account not found'' acc) (\<lambda>balance.
        mbind (getTodayWithdrawalTotal acc) (\<lambda>todayW.
        if todayW + amount + fee > ATM_DAILY_WITHDRAWAL_LIMIT then
          mthen rollback (mthrow (RuntimeErr (''Daily ATM withdrawal limit of '' @
            double_str ATM_DAILY_WITHDRAWAL_LIMIT @ '' exceeded'')))
        else if balance < amount + fee then
          mthen rollback (mthrow (RuntimeErr ''Insufficient balance''))
        else
          mthen (updateAccountBalance acc (balance - amount - fee))
          (atm_record data acc amount fee pan scheme ''ATM WITHDRAWAL successful''
            (\<lambda>txnId. atm_success txnId (balance - amount - fee) ''ATM withdrawal successful''))))))))"

definition handleDeposit :: "json \<Rightarrow> string \<Rightarrow> string \<Rightarrow> string \<Rightarrow> json M" where
  "handleDeposit data acc pan scheme = withLock acc CREDIT
     (mbind (mlift (jat_num data ''amount'')) (\<lambda>amount.
      in_txn
       (mbind (getTodayDepositTotal acc) (\<lambda>todayD.
        if todayD + amount > ATM_DAILY_DEPOSIT_LIMIT then
          mthen rollback (mthrow (RuntimeErr (''Daily ATM deposit limit of '' @
            double_str ATM_DAILY_DEPOSIT_LIMIT @ '' exceeded'')))
        else
          mbind (balance_or_throw ''Account not found'' acc) (\<lambda>balance.
          mthen (updateAccountBalance acc (balance + amount))
          (atm_record data acc amount 0 pan scheme ''ATM DEPOSIT successful''
            (\<lambda>txnId. atm_success txnId (balance + amount) ''ATM deposit successful'')))))))"

fun ATM_DISPATCH :: "TransactionType \<Rightarrow> (json \<Rightarrow> string \<Rightarrow> string \<Rightarrow> string \<Rightarrow> json M) option" where
  "ATM_DISPATCH TT_WITHDRAWAL = Some handleWithdrawal"
| "ATM_DISPATCH TT_DEPOSIT = Some handleDeposit"
| "ATM_DISPATCH _ = None"

section \<open>The core\<close>

definition declined :: "string \<Rightarrow> string \<Rightarrow> json" where
  "declined txnId reason = jobj [(''transactionId'', JStr txnId), (''status'', JStr ''DECLINED''),
     (''errorCode'', JStr ''ERR_FRAUD''), (''message'', JStr reason)]"

definition atm_card_checks :: "json \<Rightarrow> string \<Rightarrow> card_row \<Rightarrow> (unit \<Rightarrow> json M) \<Rightarrow> json M" where
  "atm_card_checks data expiry row go =
     (if expiry \<noteq> card_expiry row then mret (failed ''ERR_INVALID_EXPIRY'' ''Wrong expiry date'')
      else
      mbind (mlift (jat data ''card'')) (\<lambda>card.
      mbind (if jcontains card ''cvv'' then
               mbind (mlift (jat_str card ''cvv'')) (\<lambda>reqCvv.
               mret (reqCvv = (case card_cvv row of None \<Rightarrow> [] | Some v \<Rightarrow> v)))
             else mret True) (\<lambda>cvvOk.
      if \<not> cvvOk then mret (failed ''ERR_INVALID_CVV'' ''Wrong CVV'')
      else if card_status row \<noteq> ''ACTIVE'' then mthrow (RuntimeErr ''Card is not active'')
      else go ())))"

definition atm_dispatch :: "json \<Rightarrow> string \<Rightarrow> string \<Rightarrow> card_row \<Rightarrow> json M" where
  "atm_dispatch data txnTypeStr pan row =
     (let acc = card_acc row;
          scheme = (case card_scheme row of None \<Rightarrow> [] | Some s \<Rightarrow> s)
      in mthen newFalcon
     (mbind (numval data ''amount'') (\<lambda>fAmount.
      mbind (checkFraud acc fAmount F_ATM (Some data)) (\<lambda>fraud. case fraud of
        Some reason \<Rightarrow>
          mbind (correlation data) (\<lambda>txnId.
          mbind (mlift (jvalue_str data ''clientTxnId'' txnId)) (\<lambda>clientId.
          mbind (strval data ''terminalId'') (\<lambda>terminalId.
          mthen (logFraud txnId clientId terminalId [] acc fAmount reason)
          (mret (declined txnId reason)))))
      | None \<Rightarrow> (case ATM_DISPATCH (stringToTransactionType txnTypeStr) of
          None \<Rightarrow> mthrow (RuntimeErr (''Unsupported ATM transaction type: '' @ txnTypeStr))
        | Some h \<Rightarrow> h data acc pan scheme)))))"

definition processATMCore :: "json \<Rightarrow> json M" where
  "processATMCore data =
     mbind (strval data ''transactionType'') (\<lambda>_.
     mthen scopedConnection
     (mcatch
       (mbind (strval data ''transactionType'') (\<lambda>txnTypeStr.
        mbind (card_str data ''pan'') (\<lambda>encPan.
        mbind (card_str data ''expiry'') (\<lambda>expiry.
        mbind (decrypt encPan) (\<lambda>pan.
        mthen (if jcontains data ''pin'' then
                 mbind (mlift (jat_str data ''pin'')) (\<lambda>pin.
                 mbind (check_pin pan pin) (\<lambda>ok.
                 if \<not> ok then mthrow (RuntimeErr ''PIN verification failed'') else mret ()))
               else mret ())
        (mbind (select_card pan) (\<lambda>cardOpt. case cardOpt of
           None \<Rightarrow> mret (failed ''ERR_CARD_NOT_FOUND'' ''Card not found'')
         | Some row \<Rightarrow> atm_card_checks data expiry row (\<lambda>_. atm_dispatch data txnTypeStr pan row))))))))
       (\<lambda>x. mret (failed ''ERR_ATM'' (what x)))))"

section \<open>The entry point\<close>

definition atm_timeout :: json where
  "atm_timeout = jobj [(''status'', JStr ''TIMEOUT''), (''errorCode'', JStr ''ERR_TIMEOUT''),
     (''message'', JStr (''ATM transaction timeout (>'' @ nat_str ATM_TIMEOUT_SECONDS @ ''s)'' @ em_dash @
        ''reversal initiated if debit was committed''))]"

text \<open>The reversal request of a timeout: the account is empty unless the request itself names
  a \<^verbatim>\<open>_resolvedAccountNumber\<close>.\<close>

definition atm_reversal :: "json \<Rightarrow> string \<Rightarrow> json M" where
  "atm_reversal data uuid =
     mbind (mlift (jvalue_str data ''clientTxnId'' (''atm-timeout-'' @ uuid))) (\<lambda>orig.
     mbind (numval data ''amount'') (\<lambda>amount.
     mbind (numval data ''fee'') (\<lambda>fee.
     mbind (strval data ''clientTxnId'') (\<lambda>client.
     mret (jobj [(''originalTransactionId'', JStr orig), (''originalTableName'', JStr ''transaction_atm''),
       (''originalReferenceId'', JInt 0), (''accountNumber'', JStr []),
       (''amount'', JNum amount), (''fee'', JNum fee), (''channel'', JStr ''ATM''), (''reason'', JStr ''TIMEOUT''),
       (''clientTxnId'', JStr client), (''cardPan'', JStr []), (''_correlationUuid'', JStr uuid),
       (''accountNumber'', case jfind data ''_resolvedAccountNumber'' of Some v \<Rightarrow> v | None \<Rightarrow> JStr [])])))))"

text \<open>A detached thread: its result is lost, and an exception that leaves it ends the process.\<close>

definition detached :: "'a M \<Rightarrow> unit M" where
  "detached m = (\<lambda>e w. case m e w of (Val _, w') \<Rightarrow> (Val (), w') | (_, w') \<Rightarrow> (Abort, w'))"

text \<open>
  On a timeout the core still runs to its end, because the destructor of the future waits for
  it; the model lets the detached reversal follow it.
\<close>

definition processATMTransaction :: "json \<Rightarrow> json M" where
  "processATMTransaction data =
     mbind (strval data ''transactionType'') (\<lambda>txnTypeStr.
     mbind (correlation data) (\<lambda>uuid.
     mbind (asks timed_out) (\<lambda>late.
     if \<not> late then processATMCore data
     else
       mthen (mcatch (mthen (processATMCore data) (mret ())) (\<lambda>_. mret ()))
       (mthen (if stringToTransactionType txnTypeStr = TT_WITHDRAWAL then
                 mbind (atm_reversal data uuid) (\<lambda>rev.
                 mbind (asks engine_shutdown) (\<lambda>down.
                 if down then mret () else detached (processReversal rev)))
               else mret ())
       (mret atm_timeout)))))"

section \<open>The contract\<close>

lemma reader_totals [reader_intros]:
  "reader (getTodayWithdrawalTotal acc)" "reader (getTodayDepositTotal acc)"
  unfolding getTodayWithdrawalTotal_def getTodayDepositTotal_def by (intro reader_intros)+

lemmas keeps_totals [keeps_intros] =
  reader_totals [THEN reader_keeps_InTx]

lemma keeps_insertATM [keeps_intros]:
  "keeps e (InTx c) (insertATMTransaction a b d f g acc x y p s st m)"
  unfolding insertATMTransaction_def by (intro keeps_intros)

lemma atm_success_ok [simp]: "has_status s (atm_success t b m) \<longleftrightarrow> s = ''SUCCESS''"
  by (auto simp: has_status_def atm_success_def jfind_jobj)

lemma declined_status [simp]: "has_status s (declined t m) \<longleftrightarrow> s = ''DECLINED''"
  by (auto simp: has_status_def declined_def jfind_jobj)

lemma tx_atm_record [tx_intros]:
  "(\<And>t. succeeded (answer t)) \<Longrightarrow> txn_code succeeded e c (atm_record data acc x f pan sch m answer)"
  unfolding atm_record_def touchCard_def by (intro tx_intros keeps_intros)

lemma hc_withdrawal [hc_intros]: "handler_code succeeded e c (handleWithdrawal data acc pan sch)"
  unfolding handleWithdrawal_def by (intro hc_intros tx_intros keeps_intros) simp

lemma hc_deposit [hc_intros]: "handler_code succeeded e c (handleDeposit data acc pan sch)"
  unfolding handleDeposit_def by (intro hc_intros tx_intros keeps_intros) simp

lemma hc_atm_dispatch: "handler_code succeeded e c (atm_dispatch data t pan row)"
  unfolding atm_dispatch_def
  by (intro hc_intros keeps_intros) (auto elim!: ATM_DISPATCH.elims intro!: hc_intros)

lemma hc_atm_checks:
  "handler_code succeeded e c (go ()) \<Longrightarrow> handler_code succeeded e c (atm_card_checks data x row go)"
  unfolding atm_card_checks_def by (intro hc_intros keeps_intros)

lemma hc_atm_core: "handler_code succeeded e c (processATMCore data)"
  unfolding processATMCore_def
  by (intro hc_intros keeps_intros hc_atm_checks hc_atm_dispatch)

interpretation atm: channel_handler processATMCore succeeded
  by unfold_locales (rule hc_atm_core)

section \<open>Runs that succeed\<close>

definition atm_row_ok :: "string \<Rightarrow> money \<Rightarrow> money \<Rightarrow> string \<Rightarrow> env \<Rightarrow> txn_row \<Rightarrow> bool" where
  "atm_row_ok acc amount fee msg e row \<longleftrightarrow> t_acc row = acc \<and> t_amount row = dec2 amount \<and>
     t_fee row = dec2 fee \<and> t_status row = ''SUCCESS'' \<and> t_message row = msg \<and> t_created row = now e"

lemma touchCard_Val:
  assumes "touchCard pan e w = (Val u, w')" and "working w = None"
  shows "same_money w w'"
  using assms unfolding touchCard_def by (rule touch_Val)

lemma record_Val:
  assumes "atm_record data acc amount fee pan sch msg answer e w = (Val res, w')" and "working w = Some d"
  shows "\<exists>txnId row. res = answer txnId \<and> atm_row_ok acc amount fee msg e row \<and> working w' = None \<and>
    lock_log w' = lock_log w \<and> books (committed w') =
      (accounts d, add_txn ''transaction_atm'' row (txns d), ledger_accs d, ledger_entries d, reversals d)"
  using assms unfolding atm_record_def insertATMTransaction_def correlation_def strval_def
  by (clarsimp simp: val_simps)
    (drule touchCard_Val, simp,
     clarsimp simp: same_money_def books_def stored_txn_def new_txn_def,
     intro conjI row_exI, blast, simp add: atm_row_ok_def)

text \<open>Without statement failures the tail runs through.\<close>

lemma record_runs:
  assumes "fault e = (\<lambda>_. None)" and "data = JObj kvs" and "\<bar>dec2 amount\<bar> < 10 ^ 10" and "\<bar>dec2 fee\<bar> < 10 ^ 8"
    and "\<forall>k\<in>{''_correlationUuid'', ''clientTxnId'', ''atmId'', ''terminalId'', ''location''}. map_of kvs k = None"
  shows "\<exists>res w'. atm_record data acc amount fee pan sch msg answer e w = (Val res, w')"
proof -
  have v: "jvalue_str data k x = Val x" if "map_of kvs k = None" for k x
    using that by (simp add: assms(2))
  show ?thesis
    using assms v touch_runs [OF assms(1)]
    unfolding atm_record_def insertATMTransaction_def correlation_def strval_def touchCard_def
    by (simp add: val_simps new_txn_def)
qed

text \<open>A fact about the day's total: a new row of today adds its amount.\<close>

lemma atm_today_add:
  assumes "atm_row_ok acc amount fee msg e row" and "contains_str word msg" and "txns d' = add_txn ''transaction_atm'' row (txns d)"
  shows "atm_today acc word e d' = atm_today acc word e d @ [row]"
  using assms by (auto simp: atm_today_def atm_row_ok_def add_txn_def)

text \<open>The raw effect of a withdrawal and of a deposit.\<close>

definition atm_effect :: "string \<Rightarrow> TxnPriority \<Rightarrow> money \<Rightarrow> txn_row \<Rightarrow> world \<Rightarrow> world \<Rightarrow> bool" where
  "atm_effect acc p newBalance row w w' \<longleftrightarrow>
    books (committed w') = (set_balance acc (dec2 newBalance) (accounts (committed w)),
       add_txn ''transaction_atm'' row (txns (committed w)),
       ledger_accs (committed w), ledger_entries (committed w), reversals (committed w)) \<and>
    working w' = None \<and> lock_log w' = lock_log w @ [Acquire acc p, Release acc p]"

lemma withdrawal_Val:
  assumes "handleWithdrawal data acc pan scheme e w = (Val res, w')" and "working w = None"
  shows "\<exists>amount fee r row. jat_num data ''amount'' = Val amount \<and> jat_num data ''fee'' = Val fee \<and>
    find_account acc (committed w) = Some r \<and> amount + fee \<le> acc_balance r \<and>
    atm_withdrawn acc e (committed w) + amount + fee \<le> 5000 \<and>
    atm_row_ok acc amount fee ''ATM WITHDRAWAL successful'' e row \<and>
    atm_effect acc DEBIT (acc_balance r - amount - fee) row w w'"
  using assms unfolding handleWithdrawal_def getTodayWithdrawalTotal_def ATM_DAILY_WITHDRAWAL_LIMIT_def
  by (clarsimp simp: val_simps not_less) (drule record_Val, simp, fastforce simp: atm_effect_def)

lemma deposit_Val:
  assumes "handleDeposit data acc pan scheme e w = (Val res, w')" and "working w = None"
  shows "\<exists>amount r row. jat_num data ''amount'' = Val amount \<and>
    find_account acc (committed w) = Some r \<and>
    atm_deposited acc e (committed w) + amount \<le> 10000 \<and>
    atm_row_ok acc amount 0 ''ATM DEPOSIT successful'' e row \<and>
    atm_effect acc CREDIT (acc_balance r + amount) row w w'"
  using assms unfolding handleDeposit_def getTodayDepositTotal_def ATM_DAILY_DEPOSIT_LIMIT_def
  by (clarsimp simp: val_simps not_less) (drule record_Val, simp, fastforce simp: atm_effect_def)

section \<open>Properties\<close>

text \<open>An ATM transaction that does not answer SUCCESS (wrong card data, inactive card, fraud
  decline, exceeded limit, missing funds, failing statements, an exception) leaves the committed
  accounts, channel rows, ledger and reversals as they were, and gives the session back without an
  open transaction unless its very last statement failed.\<close>

theorem atm_atomic:
  assumes "processATMCore data e w = (Val res, w')" and "working w = None" and "\<not> succeeded res"
  shows "books (committed w') = books (committed w) \<and> (working w' = None \<or> fault e (tick w' - 1) \<noteq> None)"
  using assms by (rule atm.clean_session)

lemma atm_atomic_witness:
  "\<exists>res w'. processATMCore (jobj [(''card'', jobj [(''pan'', JStr ''x''), (''expiry'', JStr ''12/30'')])])
      demo_env demo_world = (Val res, w') \<and> books (committed w') = books demo_db"
proof -
  let ?d = "jobj [(''card'', jobj [(''pan'', JStr ''x''), (''expiry'', JStr ''12/30'')])]"
  have "\<exists>res w'. processATMCore ?d demo_env demo_world = (Val res, w') \<and> \<not> succeeded res"
    by (simp add: demo_run processATMCore_def card_str_def decrypt_def decryptPAN_def base64_decode_def
        IV_LEN_def TAG_LEN_def)
  then obtain res w' where run: "processATMCore ?d demo_env demo_world = (Val res, w')" "\<not> succeeded res" by blast
  from atm_atomic [OF run(1) _ run(2)] run(1) show ?thesis by auto
qed

text \<open>C12: A withdrawal that succeeds was covered by the balance and by the daily limit, takes
  exactly amount and fee from the account, appends one row, keeps the day's total within the limit
  up to the rounding of the stored row, never overdraws the account, and holds the account's debit
  lock for its whole duration.\<close>

theorem atm_withdrawal_effect:
  assumes "handleWithdrawal data acc pan scheme e w = (Val res, w')" and "working w = None"
  shows "\<exists>amount fee r row. jat_num data ''amount'' = Val amount \<and> jat_num data ''fee'' = Val fee \<and>
    find_account acc (committed w) = Some r \<and>
    amount + fee \<le> acc_balance r \<and> 0 \<le> dec2 (acc_balance r - amount - fee) \<and>
    atm_withdrawn acc e (committed w) + amount + fee \<le> 5000 \<and>
    atm_withdrawn acc e (committed w') \<le> 5000 + 1 / 100 \<and>
    atm_row_ok acc amount fee ''ATM WITHDRAWAL successful'' e row \<and>
    atm_effect acc DEBIT (acc_balance r - amount - fee) row w w'"
proof -
  from withdrawal_Val [OF assms] obtain amount fee r row where
    j: "jat_num data ''amount'' = Val amount" "jat_num data ''fee'' = Val fee"
    and r: "find_account acc (committed w) = Some r" "amount + fee \<le> acc_balance r"
      "atm_withdrawn acc e (committed w) + amount + fee \<le> 5000"
    and row: "atm_row_ok acc amount fee ''ATM WITHDRAWAL successful'' e row"
    and eff: "atm_effect acc DEBIT (acc_balance r - amount - fee) row w w'" by blast
  have "atm_today acc ''WITHDRAWAL'' e (committed w') = atm_today acc ''WITHDRAWAL'' e (committed w) @ [row]"
    using eff by (intro atm_today_add [OF row]) (simp_all add: atm_effect_def books_def)
  then have "atm_withdrawn acc e (committed w') = atm_withdrawn acc e (committed w) + dec2 amount + dec2 fee"
    using row by (simp add: atm_withdrawn_def atm_row_ok_def)
  then have "atm_withdrawn acc e (committed w') \<le> 5000 + 1 / 100"
    using r(3) dec2_error [of amount] dec2_error [of fee] by (simp only: abs_le_iff) linarith
  moreover have "0 \<le> dec2 (acc_balance r - amount - fee)" using r(2) by (intro dec2_nonneg) simp
  ultimately show ?thesis using j r row eff by blast
qed

lemma atm_withdrawal_effect_witness:
  "\<exists>res w'. handleWithdrawal (jobj [(''amount'', JInt 10), (''fee'', JInt 1)]) ''A'' ''P'' ''S'' demo_env demo_world
      = (Val res, w') \<and> atm_withdrawn ''A'' demo_env (committed w') \<le> 5000 + 1 / 100"
proof -
  have "\<exists>res w'. handleWithdrawal (jobj [(''amount'', JInt 10), (''fee'', JInt 1)]) ''A'' ''P'' ''S'' demo_env demo_world
      = (Val res, w')"
    by (simp add: demo_calc handleWithdrawal_def
        getTodayWithdrawalTotal_def atm_withdrawn_def atm_today_def ATM_DAILY_WITHDRAWAL_LIMIT_def)
      (rule record_runs, simp, rule refl, simp_all)
  then obtain res w' where run: "handleWithdrawal (jobj [(''amount'', JInt 10), (''fee'', JInt 1)]) ''A'' ''P'' ''S''
      demo_env demo_world = (Val res, w')" by blast
  from atm_withdrawal_effect [OF run demo_idle] run show ?thesis by blast
qed

text \<open>A deposit that succeeds adds the amount to the account under its credit lock, appends one
  row, and keeps the day's deposits within their limit up to the rounding of the stored row.\<close>

theorem atm_deposit_effect:
  assumes "handleDeposit data acc pan scheme e w = (Val res, w')" and "working w = None"
  shows "\<exists>amount r row. jat_num data ''amount'' = Val amount \<and>
    find_account acc (committed w) = Some r \<and>
    atm_deposited acc e (committed w) + amount \<le> 10000 \<and>
    atm_deposited acc e (committed w') \<le> 10000 + 1 / 200 \<and>
    atm_row_ok acc amount 0 ''ATM DEPOSIT successful'' e row \<and>
    atm_effect acc CREDIT (acc_balance r + amount) row w w'"
proof -
  from deposit_Val [OF assms] obtain amount r row where
    j: "jat_num data ''amount'' = Val amount"
    and r: "find_account acc (committed w) = Some r" "atm_deposited acc e (committed w) + amount \<le> 10000"
    and row: "atm_row_ok acc amount 0 ''ATM DEPOSIT successful'' e row"
    and eff: "atm_effect acc CREDIT (acc_balance r + amount) row w w'" by blast
  have "atm_today acc ''DEPOSIT'' e (committed w') = atm_today acc ''DEPOSIT'' e (committed w) @ [row]"
    using eff by (intro atm_today_add [OF row]) (simp_all add: atm_effect_def books_def)
  then have "atm_deposited acc e (committed w') = atm_deposited acc e (committed w) + dec2 amount"
    using row by (simp add: atm_deposited_def atm_row_ok_def)
  then have "atm_deposited acc e (committed w') \<le> 10000 + 1 / 200"
    using r(2) dec2_error [of amount] by (simp only: abs_le_iff) linarith
  then show ?thesis using j r row eff by blast
qed

lemma atm_deposit_effect_witness:
  "\<exists>res w'. handleDeposit (jobj [(''amount'', JInt 10)]) ''A'' ''P'' ''S'' demo_env demo_world
      = (Val res, w') \<and> atm_deposited ''A'' demo_env (committed w') \<le> 10000 + 1 / 200"
proof -
  have "\<exists>res w'. handleDeposit (jobj [(''amount'', JInt 10)]) ''A'' ''P'' ''S'' demo_env demo_world = (Val res, w')"
    by (simp add: demo_calc handleDeposit_def
        getTodayDepositTotal_def atm_deposited_def atm_today_def ATM_DAILY_DEPOSIT_LIMIT_def)
      (rule record_runs, simp, rule refl, simp_all)
  then obtain res w' where run: "handleDeposit (jobj [(''amount'', JInt 10)]) ''A'' ''P'' ''S'' demo_env demo_world
      = (Val res, w')" by blast
  from atm_deposit_effect [OF run demo_idle] run show ?thesis by blast
qed

text \<open>The reversal that a timed-out withdrawal fires never credits anything: its request
  names no account, so it is refused for missing fields before a statement is issued.\<close>

theorem atm_timeout_reversal_refused:
  assumes "jfind data ''_resolvedAccountNumber'' = None" and "atm_reversal data uuid e w = (Val rq, w1)"
  shows "processReversalCore rq e w = (Val (failed ''ERR_REVERSAL_MISSING_FIELDS''
       ''originalTransactionId, originalTableName, accountNumber and amount are required''), w)"
proof -
  from assms(2) obtain orig amount fee client where
    rq: "rq = jobj [(''originalTransactionId'', JStr orig), (''originalTableName'', JStr ''transaction_atm''),
       (''originalReferenceId'', JInt 0), (''accountNumber'', JStr []),
       (''amount'', JNum amount), (''fee'', JNum fee), (''channel'', JStr ''ATM''), (''reason'', JStr ''TIMEOUT''),
       (''clientTxnId'', JStr client), (''cardPan'', JStr []), (''_correlationUuid'', JStr uuid),
       (''accountNumber'', JStr [])]"
    using assms(1) unfolding atm_reversal_def strval_def numval_def by (auto simp: val_simps)
  then show ?thesis
    unfolding processReversalCore_def read_request_def strval_def numval_def
    by (simp add: mbind_def mlift_def mret_def jobj_def)
qed

lemma atm_timeout_reversal_refused_witness:
  "\<exists>rq. processReversalCore rq demo_env demo_world = (Val (failed ''ERR_REVERSAL_MISSING_FIELDS''
       ''originalTransactionId, originalTableName, accountNumber and amount are required''), demo_world)"
proof -
  have "jfind (jobj [(''amount'', JInt 10)]) ''_resolvedAccountNumber'' = None" by (simp add: jfind_jobj)
  moreover have "\<exists>rq w1. atm_reversal (jobj [(''amount'', JInt 10)]) ''u'' demo_env demo_world = (Val rq, w1)"
    by (simp add: demo_run atm_reversal_def)
  ultimately show ?thesis using atm_timeout_reversal_refused by blast
qed

end
