(* ===== verification/Mobile.thy ===== *)
theory Mobile
  imports Falcon Handlers Constants
begin

text \<open>
  \<^verbatim>\<open>mobile.cpp\<close>: fund transfers. The debit account comes from a card and PIN or from
  the request; the two accounts are locked in alphabetical order, first in the lock manager,
  then in the database.
\<close>

definition MOB_SINGLE_LIMIT :: money where "MOB_SINGLE_LIMIT = 2000"
definition MOB_HOURLY_LIMIT :: money where "MOB_HOURLY_LIMIT = 2000"
definition MOB_DAILY_LIMIT :: money where "MOB_DAILY_LIMIT = 10000"
definition MOB_TIMEOUT_SEC :: nat where "MOB_TIMEOUT_SEC = 6"

section \<open>Which account is debited\<close>

text \<open>\<open>Inl\<close> is an answer the handler gives at once, \<open>Inr None\<close> leaves the account open.\<close>

definition resolve_debit :: "json \<Rightarrow> (json + string option) M" where
  "resolve_debit data =
     (if jcontains data ''pan'' \<and> jcontains data ''pin'' then
        mbind (mlift (jat_str data ''pan'')) (\<lambda>encPan.
        mbind (mlift (jat_str data ''pin'')) (\<lambda>pin.
        mbind (mcatch (mbind (decrypt encPan) (\<lambda>p. mret (Inr p)))
                 (\<lambda>x. mret (Inl (err ''ERR_INVALID_ENCRYPTED_PAN'' (what x))))) (\<lambda>r. case r of
          Inl j \<Rightarrow> mret (Inl j)
        | Inr pan \<Rightarrow>
            if length pan \<noteq> 16 then mret (Inl (err ''ERR_INVALID_PAN'' ''PAN must be 16 digits''))
            else mbind (check_pin pan pin) (\<lambda>ok.
            if \<not> ok then mret (Inl (err ''ERR_INVALID_PIN'' ''PIN verification failed''))
            else mbind (query (\<lambda>e d. List.find (\<lambda>c. card_pan c = pan \<and> card_priority c = ''PRIMARY'') (cards d)))
            (\<lambda>accRes. case accRes of
               None \<Rightarrow> mret (Inl (err ''ERR_CARD_NOT_FOUND'' ''No PRIMARY card for PAN''))
             | Some c \<Rightarrow> mret (Inr (Some (card_acc c))))))))
      else if jcontains data ''debitAccount'' then
        mbind (mlift (obind (jat data ''debitAccount'') (\<lambda>d. jat_str d ''accountNumber''))) (\<lambda>acc.
        mret (Inr (Some acc)))
      else mret (Inr None))"

section \<open>The transfer\<close>

definition lock_pair :: "string \<Rightarrow> string \<Rightarrow> 'a M \<Rightarrow> 'a M" where
  "lock_pair debitAcc creditAcc m =
     (if debitAcc < creditAcc then withLock debitAcc DEBIT (withLock creditAcc CREDIT m)
      else if creditAcc < debitAcc then withLock creditAcc CREDIT (withLock debitAcc DEBIT m)
      else withLock debitAcc DEBIT m)"

text \<open>Reading one balance, or rolling back and answering with the error.\<close>

definition read_balance :: "string \<Rightarrow> json \<Rightarrow> (money \<Rightarrow> (json + money \<times> money) M) \<Rightarrow> (json + money \<times> money) M" where
  "read_balance acc missing k = mbind (getAccountBalance acc) (\<lambda>r. case r of
      None \<Rightarrow> mthen rollback (mret (Inl missing))
    | Some b \<Rightarrow> k b)"

definition read_balances :: "string \<Rightarrow> string \<Rightarrow> (json + money \<times> money) M" where
  "read_balances debitAcc creditAcc =
     (let noDebit = err ''ERR_DEBIT_NOT_FOUND'' ''Debit account not found'';
          noCredit = err ''ERR_CREDIT_NOT_FOUND'' ''Credit account not found''
      in if debitAcc < creditAcc then
           read_balance debitAcc noDebit (\<lambda>debitBal.
           read_balance creditAcc noCredit (\<lambda>creditBal. mret (Inr (debitBal, creditBal))))
         else if creditAcc < debitAcc then
           read_balance creditAcc noCredit (\<lambda>creditBal.
           read_balance debitAcc noDebit (\<lambda>debitBal. mret (Inr (debitBal, creditBal))))
         else
           read_balance debitAcc noDebit (\<lambda>debitBal. mret (Inr (debitBal, debitBal))))"

definition lock_balances :: "string \<Rightarrow> string \<Rightarrow> (json + money \<times> money) M" where
  "lock_balances debitAcc creditAcc = mcatch (read_balances debitAcc creditAcc)
     (\<lambda>x. mthen rollback (mret (Inl (err ''ERR_DB_FAILURE'' (what x)))))"

definition mobile_success :: "string \<Rightarrow> money \<Rightarrow> json" where
  "mobile_success txnId balance = jobj [(''transactionId'', JStr txnId), (''status'', JStr ''SUCCESS''),
     (''balanceAfterDebit'', JNum balance), (''message'', JStr ''Fund transfer successful'')]"

definition hourly_exceeded :: "money \<Rightarrow> json" where
  "hourly_exceeded hourlyTotal = jobj [(''errorCode'', JStr ''ERR_HOURLY_LIMIT''),
     (''message'', JStr ''Hourly limit exceeded''), (''remainingLimit'', JNum (MOB_HOURLY_LIMIT - hourlyTotal))]"

definition mobile_record :: "json \<Rightarrow> string \<Rightarrow> string \<Rightarrow> string \<Rightarrow> string \<Rightarrow> money \<Rightarrow> money \<Rightarrow> money \<Rightarrow> json M" where
  "mobile_record data clientTxnId deviceId mobileNo debitAcc amount fee newDebit =
     mbind (correlation data) (\<lambda>txnId.
     mbind (insert_txn ''transaction_mobile'' 12
        ((new_txn txnId clientTxnId debitAcc amount fee ''SUCCESS'' ''Mobile fund transfer successful'')
           \<lparr>t_extra := [(''device_id'', deviceId), (''mobile_number'', mobileNo)]\<rparr>)) (\<lambda>refId.
     mthen (insert_master ''transaction_mobile'' refId ''SUCCESS'')
     (mthen commit
     (mthen (touch_card (\<lambda>c. card_acc c = debitAcc \<and> card_priority c = ''PRIMARY''))
     (mret (mobile_success txnId newDebit))))))"

text \<open>The limits, the funds check and the two updates, with both balances read.\<close>

definition transfer_apply ::
  "json \<Rightarrow> string \<Rightarrow> string \<Rightarrow> string \<Rightarrow> string \<Rightarrow> string \<Rightarrow> money \<Rightarrow> money \<Rightarrow> money \<times> money \<Rightarrow> json M" where
  "transfer_apply data clientTxnId deviceId mobileNo debitAcc creditAcc amount fee bals =
     (case bals of (debitBal, creditBal) \<Rightarrow>
      mbind (getMobileHourlySpent debitAcc) (\<lambda>hourlyTotal.
      if hourlyTotal + amount > MOB_HOURLY_LIMIT then
        mthen rollback (mret (hourly_exceeded hourlyTotal))
      else mbind (getMobileDailySpent debitAcc) (\<lambda>dailyTotal.
      if dailyTotal + amount > MOB_DAILY_LIMIT then
        mthen rollback (mret (err ''ERR_DAILY_LIMIT'' (''Daily limit of '' @ double_str MOB_DAILY_LIMIT @ '' exceeded'')))
      else if debitBal < amount + fee then
        mthen rollback (mret (err ''ERR_INSUFFICIENT_FUNDS'' ''Insufficient balance''))
      else
        mthen (updateAccountBalance debitAcc (debitBal - amount - fee))
        (mthen (updateAccountBalance creditAcc (creditBal + amount))
        (mobile_record data clientTxnId deviceId mobileNo debitAcc amount fee (debitBal - amount - fee))))))"

definition transfer :: "json \<Rightarrow> string \<Rightarrow> string \<Rightarrow> string \<Rightarrow> string \<Rightarrow> string \<Rightarrow> money \<Rightarrow> money \<Rightarrow> json M" where
  "transfer data clientTxnId deviceId mobileNo debitAcc creditAcc amount fee =
     lock_pair debitAcc creditAcc (mthen startTransaction
       (mbind (lock_balances debitAcc creditAcc) (\<lambda>r. case r of
          Inl j \<Rightarrow> mret j
        | Inr bals \<Rightarrow> transfer_apply data clientTxnId deviceId mobileNo debitAcc creditAcc amount fee bals)))"

section \<open>The core\<close>

definition mobile_declined :: "string \<Rightarrow> string \<Rightarrow> json" where
  "mobile_declined txnId reason = jobj [(''transactionId'', JStr txnId), (''status'', JStr ''DECLINED''),
     (''message'', JStr reason)]"

definition mobile_checked ::
  "json \<Rightarrow> string \<Rightarrow> TransactionType \<Rightarrow> string \<Rightarrow> string \<Rightarrow> string \<Rightarrow> string \<Rightarrow> money \<Rightarrow> money \<Rightarrow> json M" where
  "mobile_checked data clientTxnId txnType deviceId mobileNo debitAcc creditAcc amount fee =
     mthen newFalcon
     (mbind (checkFraud debitAcc amount F_MOBILE (Some data)) (\<lambda>fraud. case fraud of
        Some reason \<Rightarrow>
          mbind (correlation data) (\<lambda>txnId.
          mthen (logFraud txnId clientTxnId deviceId mobileNo debitAcc amount reason)
          (mthen commit
          (mret (mobile_declined txnId reason))))
      | None \<Rightarrow>
          if txnType \<noteq> TT_FUND_TRANSFER then
            mret (err ''ERR_INVALID_TYPE'' ''Only FUND_TRANSFER supported for MOBILE'')
          else if amount > MOB_SINGLE_LIMIT then
            mret (err ''ERR_ONE_TIME_LIMIT'' (''Single transaction limit is '' @ double_str MOB_SINGLE_LIMIT))
          else transfer data clientTxnId deviceId mobileNo debitAcc creditAcc amount fee))"

definition processMobileCore :: "json \<Rightarrow> json M" where
  "processMobileCore data =
     mbind (strval data ''transactionType'') (\<lambda>_.
     mthen scopedConnection
     (mcatch
       (mbind (asks cur_uuid) (\<lambda>u.
        mbind (mlift (jvalue_str data ''clientTxnId'' u)) (\<lambda>clientTxnId.
        mbind (strval data ''transactionType'') (\<lambda>txnTypeStr.
        mbind (strval data ''deviceId'') (\<lambda>deviceId.
        mbind (strval data ''mobileNumber'') (\<lambda>mobileNo.
        mbind (numval data ''amount'') (\<lambda>amount.
        mbind (numval data ''fee'') (\<lambda>fee.
        mbind (mlift (obind (jat data ''creditAccount'') (\<lambda>c. jat_str c ''accountNumber''))) (\<lambda>creditAcc.
        mbind (resolve_debit data) (\<lambda>r. case r of
           Inl j \<Rightarrow> mret j
         | Inr debitAccOpt \<Rightarrow> (case debitAccOpt of
             None \<Rightarrow> mret (err ''ERR_DEBIT_ACCOUNT_REQUIRED'' ''Could not determine debit account'')
           | Some debitAcc \<Rightarrow> mobile_checked data clientTxnId (stringToTransactionType txnTypeStr) deviceId
               mobileNo debitAcc creditAcc amount fee)))))))))))
       (\<lambda>x. mthen try_rollback (mret (err ''ERR_EXCEPTION'' (what x))))))"

definition mobile_timeout :: json where
  "mobile_timeout = jobj [(''status'', JStr ''DECLINED''), (''errorCode'', JStr ''ERR_TIMEOUT''),
     (''message'', JStr (''Mobile transaction timeout (>'' @ nat_str MOB_TIMEOUT_SEC @ ''s)''))]"

text \<open>The entry point; on a timeout the core still runs to its end and its result is dropped.\<close>

definition processMobileTransaction :: "json \<Rightarrow> json M" where
  "processMobileTransaction data =
     mbind (strval data ''transactionType'') (\<lambda>_.
     mbind (correlation data) (\<lambda>_.
     mbind (asks timed_out) (\<lambda>late.
     if late then mthen (mcatch (mthen (processMobileCore data) (mret ())) (\<lambda>_. mret ())) (mret mobile_timeout)
     else processMobileCore data)))"

section \<open>The contract\<close>

lemma mobile_success_ok [simp]: "has_status s (mobile_success t b) \<longleftrightarrow> s = ''SUCCESS''"
  by (auto simp: has_status_def mobile_success_def jfind_jobj)

lemma keeps_spent [keeps_intros]:
  "keeps e (InTx c) (getMobileHourlySpent acc)" "keeps e (InTx c) (getMobileDailySpent acc)"
  unfolding getMobileHourlySpent_def getMobileDailySpent_def by (intro keeps_intros)+

lemma keeps_resolve [keeps_intros]: "keeps e (Idle c) (resolve_debit data)"
  unfolding resolve_debit_def by (intro keeps_intros)

lemma t_read_balance:
  assumes "\<And>b. triple e (InTx c) (k b) (\<lambda>r w. case r of Inl j \<Rightarrow> Safe e c w | Inr x \<Rightarrow> InTx c w)
      (Unchanged c) (Unchanged c)"
  shows "triple e (InTx c) (read_balance acc j k) (\<lambda>r w. case r of Inl j \<Rightarrow> Safe e c w | Inr x \<Rightarrow> InTx c w)
      (Unchanged c) (Unchanged c)"
  unfolding read_balance_def
proof (rule t_bind [where S = "\<lambda>_. InTx c"])
  show "triple e (InTx c) (getAccountBalance acc) (\<lambda>_. InTx c) (Unchanged c) (Unchanged c)"
    by (rule keeps_conseq) (intro keeps_intros, auto intro: InTx_Unchanged)
  show "triple e (InTx c) (case r of None \<Rightarrow> mthen rollback (mret (Inl j)) | Some b \<Rightarrow> k b)
      (\<lambda>r w. case r of Inl j \<Rightarrow> Safe e c w | Inr x \<Rightarrow> InTx c w) (Unchanged c) (Unchanged c)" for r
    by (intro t_option assms t_conseq [OF t_rollback_answer]) (auto intro: InTx_Unchanged)
qed

lemma t_lock_balances:
  "triple e (InTx c) (lock_balances d a) (\<lambda>r w. case r of Inl j \<Rightarrow> Safe e c w | Inr x \<Rightarrow> InTx c w)
      (Unchanged c) (Unchanged c)"
proof -
  have "triple e (InTx c) (read_balances d a) (\<lambda>r w. case r of Inl j \<Rightarrow> Safe e c w | Inr x \<Rightarrow> InTx c w)
      (Unchanged c) (Unchanged c)"
    unfolding read_balances_def Let_def by (intro t_if t_read_balance t_ret) simp_all
  then show ?thesis
    unfolding lock_balances_def
    by (rule t_catch) (rule t_rollback_answer)
qed

lemma tx_mobile_record [tx_intros]: "txn_code succeeded e c (mobile_record data t d m acc x f b)"
  unfolding mobile_record_def by (intro tx_intros keeps_intros) simp

lemma lc_transfer: "loose_code succeeded e c (transfer data t d m debit credit x f)"
  unfolding transfer_def transfer_apply_def lock_pair_def
  by (intro lc_intros tx_intros t_lock_balances keeps_intros hc_intros)

lemma hc_mobile_core: "handler_code succeeded e c (processMobileCore data)"
  unfolding processMobileCore_def mobile_checked_def
  by (intro hc_intros lc_intros keeps_intros lc_transfer)

interpretation mobile: channel_handler processMobileCore succeeded
  by unfold_locales (rule hc_mobile_core)

section \<open>Runs that succeed\<close>

lemma getBalance_Val [val_simps]: "getAccountBalance acc e w = (Val b, w') \<longleftrightarrow>
    fault e (tick w) = None \<and> b = map_option acc_balance (find_account acc (cur w)) \<and> w' = step_tick w"
  by (auto simp: getAccountBalance_def val_simps)

lemma read_balance_Val: "read_balance acc j k e w = (Val (Inr x), w') \<longleftrightarrow>
    fault e (tick w) = None \<and> (\<exists>r. find_account acc (cur w) = Some r \<and> k (acc_balance r) e (step_tick w) = (Val (Inr x), w'))"
  by (auto simp: read_balance_def val_simps)

lemma lock_balances_Val:
  assumes "lock_balances debit credit e w = (Val (Inr (b1, b2)), w')"
  shows "same_db w w' \<and> (\<exists>r1 r2. find_account debit (cur w) = Some r1 \<and> find_account credit (cur w) = Some r2 \<and>
     b1 = acc_balance r1 \<and> b2 = acc_balance r2)"
  using assms unfolding lock_balances_def read_balances_def
  by (auto simp: catch_Val then_Val ret_Val Let_def read_balance_Val split: if_splits)

definition mobile_row_ok :: "string \<Rightarrow> money \<Rightarrow> money \<Rightarrow> env \<Rightarrow> txn_row \<Rightarrow> bool" where
  "mobile_row_ok acc amount fee e row \<longleftrightarrow> t_acc row = acc \<and> t_amount row = dec2 amount \<and>
     t_fee row = dec2 fee \<and> t_status row = ''SUCCESS'' \<and> t_created row = now e"

lemma mobile_touch_Val:
  assumes "touch_card P e w = (Val u, w')" and "working w = None"
  shows "same_money w w'"
  using assms by (rule touch_Val)

lemma mobile_record_Val:
  assumes "mobile_record data t d m acc amount fee b e w = (Val res, w')"
  shows "\<forall>db. working w = Some db \<longrightarrow> (\<exists>row. mobile_row_ok acc amount fee e row \<and> working w' = None \<and> lock_log w' = lock_log w \<and>
    books (committed w') =
      (accounts db, add_txn ''transaction_mobile'' row (txns db), ledger_accs db, ledger_entries db, reversals db))"
  using assms unfolding mobile_record_def correlation_def
  by (clarsimp simp: val_simps)
    (drule mobile_touch_Val, simp,
     clarsimp simp: same_money_def books_def stored_txn_def new_txn_def,
     intro conjI row_exI, simp add: mobile_row_ok_def)

text \<open>Hours and days summed by the limit queries.\<close>

definition mobile_spent_hour :: "string \<Rightarrow> env \<Rightarrow> db \<Rightarrow> money" where
  "mobile_spent_hour acc e d = sum_amounts
     (\<lambda>r. t_acc r = acc \<and> t_status r = ''SUCCESS'' \<and> now e \<le> t_created r + 3600) (txns d ''transaction_mobile'')"

definition mobile_spent_today :: "string \<Rightarrow> env \<Rightarrow> db \<Rightarrow> money" where
  "mobile_spent_today acc e d = sum_amounts
     (\<lambda>r. t_acc r = acc \<and> t_status r = ''SUCCESS'' \<and> day_of (t_created r) = day_of (now e)) (txns d ''transaction_mobile'')"

lemma spent_Val:
  "getMobileHourlySpent acc e w = (Val x, w') \<longleftrightarrow> fault e (tick w) = None \<and> x = mobile_spent_hour acc e (cur w) \<and> w' = step_tick w"
  "getMobileDailySpent acc e w = (Val x, w') \<longleftrightarrow> fault e (tick w) = None \<and> x = mobile_spent_today acc e (cur w) \<and> w' = step_tick w"
  by (auto simp: getMobileHourlySpent_def getMobileDailySpent_def mobile_spent_hour_def mobile_spent_today_def val_simps)

text \<open>What a transfer did to the books.\<close>

definition transfer_done :: "string \<Rightarrow> string \<Rightarrow> money \<Rightarrow> money \<Rightarrow> env \<Rightarrow> world \<Rightarrow> world \<Rightarrow> bool" where
  "transfer_done debit credit amount fee e w w' \<longleftrightarrow> (\<exists>r1 r2 row.
     find_account debit (cur w) = Some r1 \<and> find_account credit (cur w) = Some r2 \<and>
     amount + fee \<le> acc_balance r1 \<and>
     mobile_spent_hour debit e (cur w) + amount \<le> 2000 \<and> mobile_spent_today debit e (cur w) + amount \<le> 10000 \<and>
     mobile_row_ok debit amount fee e row \<and>
     books (committed w') =
       (set_balance credit (dec2 (acc_balance r2 + amount))
          (set_balance debit (dec2 (acc_balance r1 - amount - fee)) (accounts (cur w))),
        add_txn ''transaction_mobile'' row (txns (cur w)), ledger_accs (cur w), ledger_entries (cur w), reversals (cur w)) \<and>
     working w' = None)"

lemma answers_no_success [simp]:
  "\<not> succeeded (hourly_exceeded x)"
  by (simp add: has_status_def hourly_exceeded_def jfind_jobj)

lemma lock_balances_Inl:
  assumes "lock_balances d a e w = (Val (Inl j), w')"
  shows "\<not> has_status s j"
  using assms unfolding lock_balances_def read_balances_def read_balance_def
  by (auto simp: val_simps Let_def split: if_splits)

lemma transfer_apply_Val:
  assumes "transfer_apply data t d m debit credit amount fee (b1, b2) e w = (Val res, w')" and "succeeded res"
    and "working w = Some db" and "find_account debit db = Some r1" "find_account credit db = Some r2"
    and "b1 = acc_balance r1" "b2 = acc_balance r2"
  shows "amount + fee \<le> acc_balance r1 \<and>
     mobile_spent_hour debit e db + amount \<le> 2000 \<and> mobile_spent_today debit e db + amount \<le> 10000 \<and>
     (\<exists>row. mobile_row_ok debit amount fee e row \<and> books (committed w') =
       (set_balance credit (dec2 (acc_balance r2 + amount)) (set_balance debit (dec2 (acc_balance r1 - amount - fee)) (accounts db)),
        add_txn ''transaction_mobile'' row (txns db), ledger_accs db, ledger_entries db, reversals db)) \<and>
     working w' = None \<and> lock_log w' = lock_log w"
  using assms unfolding transfer_apply_def MOB_HOURLY_LIMIT_def MOB_DAILY_LIMIT_def
  by (auto simp: val_simps spent_Val not_less dest!: mobile_record_Val)

lemma transfer_Val:
  assumes run: "(mthen startTransaction (mbind (lock_balances debit credit) (\<lambda>r. case r of
       Inl j \<Rightarrow> mret j | Inr bals \<Rightarrow> transfer_apply data t d m debit credit amount fee bals))) e w = (Val res, w')"
    and ok: "succeeded res"
  shows "transfer_done debit credit amount fee e w w' \<and> lock_log w' = lock_log w"
proof -
  define w1 where "w1 = (step_tick w)\<lparr>committed := cur w, working := Some (cur w)\<rparr>"
  from run obtain r w2 where lb: "lock_balances debit credit e w1 = (Val r, w2)"
    and rest: "(case r of Inl j \<Rightarrow> mret j | Inr bals \<Rightarrow> transfer_apply data t d m debit credit amount fee bals) e w2 = (Val res, w')"
    unfolding then_Val bind_Val start_Val w1_def by blast
  have "\<exists>b. r = Inr b"
  proof (cases r)
    case (Inl j)
    with lock_balances_Inl lb ok rest show ?thesis by (auto simp: val_simps)
  qed simp
  then obtain b1 b2 where r: "r = Inr (b1, b2)" by auto
  from lock_balances_Val [OF lb [unfolded r]] obtain r1 r2 where same: "same_db w1 w2"
    and acc: "find_account debit (cur w) = Some r1" "find_account credit (cur w) = Some r2"
      "b1 = acc_balance r1" "b2 = acc_balance r2" by (auto simp: w1_def)
  from same have w2: "working w2 = Some (cur w)" "lock_log w2 = lock_log w"
    by (simp_all add: same_db_def w1_def)
  from rest r have "transfer_apply data t d m debit credit amount fee (b1, b2) e w2 = (Val res, w')" by simp
  from transfer_apply_Val [OF this ok w2(1) acc] acc w2 show ?thesis
    unfolding transfer_done_def by auto
qed

lemma transfer_done_log [simp]:
  "transfer_done a b x f e (log_lock ev w) w' = transfer_done a b x f e w w'"
  "transfer_done a b x f e w (log_lock ev w') = transfer_done a b x f e w w'"
  by (simp_all add: transfer_done_def)

definition lock_order :: "string \<Rightarrow> string \<Rightarrow> lock_event list" where
  "lock_order debit credit =
     (if debit < credit then [Acquire debit DEBIT, Acquire credit CREDIT, Release credit CREDIT, Release debit DEBIT]
      else if credit < debit then [Acquire credit CREDIT, Acquire debit DEBIT, Release debit DEBIT, Release credit CREDIT]
      else [Acquire debit DEBIT, Release debit DEBIT])"

lemma transfer_effect:
  assumes "transfer data t d m debit credit amount fee e w = (Val res, w')" and "succeeded res"
  shows "transfer_done debit credit amount fee e w w' \<and> lock_log w' = lock_log w @ lock_order debit credit"
  using assms unfolding transfer_def lock_pair_def lock_order_def
  by (auto simp: if_Val withLock_Val dest!: transfer_Val split: if_splits)

text \<open>The total over all accounts after a transfer between two accounts.\<close>

lemma transfer_total:
  assumes tr: "transfer_done debit credit amount fee e w w'" and ne: "debit \<noteq> credit"
    and keys: "distinct (map acc_no (accounts (cur w)))"
    and cents: "\<forall>r\<in>set (accounts (cur w)). is_cents (acc_balance r)" "is_cents amount" "is_cents fee"
  shows "sum_list (map acc_balance (accounts (committed w'))) = sum_list (map acc_balance (accounts (cur w))) - fee"
proof -
  from tr obtain r1 r2 where r1: "find_account debit (cur w) = Some r1" and r2: "find_account credit (cur w) = Some r2"
    and acc: "accounts (committed w') = set_balance credit (dec2 (acc_balance r2 + amount))
          (set_balance debit (dec2 (acc_balance r1 - amount - fee)) (accounts (cur w)))"
    by (auto simp: transfer_done_def books_def)
  have "r1 \<in> set (accounts (cur w))" "r2 \<in> set (accounts (cur w))"
    using r1 r2 by (auto simp: find_account_def find_Some_iff)
  with cents have d: "dec2 (acc_balance r1 - amount - fee) = acc_balance r1 - amount - fee"
    "dec2 (acc_balance r2 + amount) = acc_balance r2 + amount" by simp_all
  let ?rows = "set_balance debit (acc_balance r1 - amount - fee) (accounts (cur w))"
  have "List.find (\<lambda>r. acc_no r = credit) ?rows = Some r2"
    using r2 ne by (simp add: row_simps find_account_def)
  moreover have "distinct (map acc_no ?rows)" using keys by simp
  ultimately have "sum_list (map acc_balance (accounts (committed w'))) =
      sum_list (map acc_balance ?rows) - acc_balance r2 + (acc_balance r2 + amount)"
    unfolding acc d by (intro sum_set_balance)
  also have "sum_list (map acc_balance ?rows) =
      sum_list (map acc_balance (accounts (cur w))) - acc_balance r1 + (acc_balance r1 - amount - fee)"
    using keys r1 by (intro sum_set_balance) (simp_all add: find_account_def)
  finally show ?thesis by simp
qed

text \<open>A transfer runs through when no statement fails and the checks pass.\<close>

lemma mobile_record_runs:
  assumes "fault e = (\<lambda>_. None)" and "jvalue_str data ''_correlationUuid'' (cur_uuid e) = Val u"
    and "\<bar>dec2 amount\<bar> < 10 ^ 10" and "\<bar>dec2 fee\<bar> < 10 ^ 8"
  shows "\<exists>res w'. mobile_record data t d m acc amount fee b e w = (Val res, w') \<and> succeeded res"
  using assms touch_runs [OF assms(1)] unfolding mobile_record_def correlation_def
  by (simp add: val_simps new_txn_def)

lemma lock_balances_runs:
  assumes "fault e = (\<lambda>_. None)" and "find_account debit (cur w) = Some r1" "find_account credit (cur w) = Some r2"
  shows "\<exists>w2. lock_balances debit credit e w = (Val (Inr (acc_balance r1, acc_balance r2)), w2) \<and> same_db w w2"
proof (cases "debit = credit")
  case True
  with assms show ?thesis
    by (simp add: lock_balances_def read_balances_def read_balance_def getAccountBalance_def run_defs Let_def)
next
  case False
  with assms show ?thesis
    by (auto simp: lock_balances_def read_balances_def read_balance_def getAccountBalance_def run_defs Let_def)
qed

lemma withLock_runs:
  assumes "\<And>v. cur v = cur w \<Longrightarrow> \<exists>res w'. m e v = (Val res, w') \<and> P res" and "cur v = cur w"
  shows "\<exists>res w'. withLock a p m e v = (Val res, w') \<and> P res"
proof -
  have "cur (log_lock (Acquire a p) v) = cur w" using assms(2) by simp
  from assms(1) [OF this] show ?thesis by (auto simp: withLock_def)
qed

lemma transfer_runs:
  assumes "fault e = (\<lambda>_. None)" and "jvalue_str data ''_correlationUuid'' (cur_uuid e) = Val u"
    and acc: "find_account debit (cur w) = Some r1" "find_account credit (cur w) = Some r2"
    and funds: "amount + fee \<le> acc_balance r1" and limits: "mobile_spent_hour debit e (cur w) + amount \<le> 2000"
      "mobile_spent_today debit e (cur w) + amount \<le> 10000"
    and fits: "\<bar>dec2 amount\<bar> < 10 ^ 10" "\<bar>dec2 fee\<bar> < 10 ^ 8" "\<bar>dec2 (acc_balance r1 - amount - fee)\<bar> < 10 ^ 10"
      "\<bar>dec2 (acc_balance r2 + amount)\<bar> < 10 ^ 10"
  shows "\<exists>res w'. transfer data t d m debit credit amount fee e w = (Val res, w') \<and> succeeded res"
proof -
  have ap: "\<exists>res w'. transfer_apply data t d m debit credit amount fee (acc_balance r1, acc_balance r2) e v = (Val res, w')
      \<and> succeeded res" if "cur v = cur w" for v
    unfolding transfer_apply_def using that assms(1) funds limits fits mobile_record_runs [OF assms(1,2) fits(1,2)]
    by (simp add: val_simps spent_Val MOB_HOURLY_LIMIT_def MOB_DAILY_LIMIT_def)
  have "\<exists>res w'. mthen startTransaction (mbind (lock_balances debit credit) (\<lambda>r. case r of Inl j \<Rightarrow> mret j
      | Inr bals \<Rightarrow> transfer_apply data t d m debit credit amount fee bals)) e v = (Val res, w') \<and> succeeded res"
    if cv: "cur v = cur w" for v
  proof -
    let ?v = "(step_tick v)\<lparr>committed := cur v, working := Some (cur v)\<rparr>"
    obtain w2 where lb: "lock_balances debit credit e ?v = (Val (Inr (acc_balance r1, acc_balance r2)), w2)"
      and "same_db ?v w2"
      using lock_balances_runs [OF assms(1), of debit ?v r1 credit r2] acc cv by auto
    then have "cur w2 = cur w" using cv by (simp add: same_db_def cur_def)
    with ap obtain res w' where "transfer_apply data t d m debit credit amount fee (acc_balance r1, acc_balance r2) e w2
        = (Val res, w') \<and> succeeded res" by blast
    with lb assms(1) show ?thesis by (simp add: run_defs)
  qed
  then have body: "\<And>v. cur v = cur w \<Longrightarrow> \<exists>res w'. mthen startTransaction (mbind (lock_balances debit credit) (\<lambda>r. case r of Inl j \<Rightarrow> mret j
      | Inr bals \<Rightarrow> transfer_apply data t d m debit credit amount fee bals)) e v = (Val res, w') \<and> succeeded res" .
  show ?thesis
    unfolding transfer_def lock_pair_def
    by (cases "debit < credit"; cases "credit < debit"; simp only: if_True if_False)
      (intro withLock_runs [where w = w] body refl; assumption)+
qed

lemma demo_transfer_runs:
  assumes "b = ''A'' \<or> b = ''B''"
  shows "\<exists>res w'. transfer (jobj []) ''c1'' ''d'' ''m'' ''A'' b 10 1 demo_env demo_world = (Val res, w') \<and> succeeded res"
proof -
  obtain r2 where "find_account b demo_db = Some r2" "\<bar>dec2 (acc_balance r2 + 10)\<bar> < 10 ^ 10"
    using assms by auto
  then show ?thesis
    by (intro transfer_runs [where ?r1.0 = "demo_account 1 ''A'' 100" and ?r2.0 = r2 and u = "''u1''"])
      (simp_all add: mobile_spent_hour_def mobile_spent_today_def sum_amounts_def jobj_def)
qed

section \<open>Properties\<close>

text \<open>A mobile transaction that does not answer SUCCESS leaves the committed books as they
  were and returns its session without an open transaction, unless its last statement failed.\<close>

theorem mobile_atomic:
  assumes "processMobileCore data e w = (Val res, w')" and "working w = None" and "\<not> succeeded res"
  shows "books (committed w') = books (committed w) \<and> (working w' = None \<or> fault e (tick w' - 1) \<noteq> None)"
  using assms by (rule mobile.clean_session)

lemma mobile_atomic_witness:
  "\<exists>res w'. processMobileCore (jobj [(''creditAccount'', jobj [(''accountNumber'', JStr ''B'')])]) demo_env demo_world
      = (Val res, w') \<and> books (committed w') = books demo_db"
proof -
  let ?d = "jobj [(''creditAccount'', jobj [(''accountNumber'', JStr ''B'')])]"
  have "\<exists>w'. processMobileCore ?d demo_env demo_world
      = (Val (err ''ERR_DEBIT_ACCOUNT_REQUIRED'' ''Could not determine debit account''), w')"
    by (simp add: processMobileCore_def resolve_debit_def strval_def numval_def run_defs jobj_def jcontains_def jat_str_def)
  then obtain w' where run: "processMobileCore ?d demo_env demo_world
      = (Val (err ''ERR_DEBIT_ACCOUNT_REQUIRED'' ''Could not determine debit account''), w')" by blast
  from mobile_atomic [OF run demo_idle err_status] run show ?thesis by auto
qed



text \<open>A transfer from an account to itself creates money: both updates start from the same
  balance and the credit is written last, so the account ends with the amount added and neither
  amount nor fee taken.\<close>

theorem mobile_self_transfer_mints:
  assumes "transfer data t d m acc acc amount fee e w = (Val res, w')" and "succeeded res"
    and "find_account acc (cur w) = Some r"
  shows "find_account acc (committed w') = Some (r\<lparr>acc_balance := dec2 (acc_balance r + amount)\<rparr>)"
proof -
  from transfer_effect [OF assms(1,2)] assms(3) have "accounts (committed w') =
      set_balance acc (dec2 (acc_balance r + amount)) (set_balance acc (dec2 (acc_balance r - amount - fee)) (accounts (cur w)))"
    by (auto simp: transfer_done_def books_def)
  with assms(3) show ?thesis by (simp add: find_account_def row_simps)
qed

lemma mobile_self_transfer_mints_witness:
  "\<exists>res w'. transfer (jobj []) ''c1'' ''d'' ''m'' ''A'' ''A'' 10 1 demo_env demo_world = (Val res, w') \<and>
     find_account ''A'' (committed w') = Some ((demo_account 1 ''A'' 100)\<lparr>acc_balance := 110\<rparr>)"
proof -
  from demo_transfer_runs [of "''A''"] obtain res w' where
    run: "transfer (jobj []) ''c1'' ''d'' ''m'' ''A'' ''A'' 10 1 demo_env demo_world = (Val res, w')" "succeeded res" by auto
  have "find_account ''A'' (cur demo_world) = Some (demo_account 1 ''A'' 100)" by simp
  from mobile_self_transfer_mints [OF run this] run show ?thesis by simp
qed

end
