(* ===== verification/Ledger.thy ===== *)
theory Ledger
  imports Handlers
begin

text \<open>
  \<^verbatim>\<open>accounting.cpp\<close> and \<^verbatim>\<open>currency_converter.cpp\<close>: the double-entry postings of a
  purchase and of a refund, and the conversion of a foreign amount to the base currency with
  the bank's markup.
\<close>

section \<open>Postings\<close>

definition processPurchaseLedger ::
  "string \<Rightarrow> string \<Rightarrow> string \<Rightarrow> money \<Rightarrow> money \<Rightarrow> money \<Rightarrow> string \<Rightarrow> unit M" where
  "processPurchaseLedger txn customer merchant totalAmount bankFee fxMarkup desc =
     mbind (getOrCreateLedgerAccount customer (''Customer '' @ customer) ''LIABILITY'') (\<lambda>customerLedger.
     mbind (getOrCreateLedgerAccount ''BANK_FEE_REV'' ''Bank Fee Revenue'' ''REVENUE'') (\<lambda>feeLedger.
     mbind (getOrCreateLedgerAccount ''BANK_FX_REV'' ''Bank FX Revenue'' ''REVENUE'') (\<lambda>fxLedger.
     mthen (postLedgerEntry txn customerLedger totalAmount ''DEBIT'' (- totalAmount) desc)
     (let merchantAmount = totalAmount - bankFee - fxMarkup in
      mthen (if merchantAmount > 0 \<and> merchant \<noteq> [] then
               mbind (getOrCreateLedgerAccount merchant (''Merchant '' @ merchant) ''LIABILITY'') (\<lambda>merchantLedger.
                 postLedgerEntry txn merchantLedger merchantAmount ''CREDIT'' merchantAmount desc)
             else mret ())
      (mthen (if bankFee > 0 then postLedgerEntry txn feeLedger bankFee ''CREDIT'' bankFee desc else mret ())
       (if fxMarkup > 0 then postLedgerEntry txn fxLedger fxMarkup ''CREDIT'' fxMarkup desc else mret ()))))))"

definition processRefundLedger :: "string \<Rightarrow> string \<Rightarrow> string \<Rightarrow> money \<Rightarrow> string \<Rightarrow> unit M" where
  "processRefundLedger txn customer merchant refundAmount desc =
     mbind (getOrCreateLedgerAccount customer (''Customer '' @ customer) ''LIABILITY'') (\<lambda>customerLedger.
     mthen (postLedgerEntry txn customerLedger refundAmount ''CREDIT'' refundAmount desc)
     (if merchant \<noteq> [] then
        mbind (getOrCreateLedgerAccount merchant (''Merchant '' @ merchant) ''LIABILITY'') (\<lambda>merchantLedger.
          postLedgerEntry txn merchantLedger refundAmount ''DEBIT'' (- refundAmount) desc)
      else mret ()))"

section \<open>Foreign amounts\<close>

definition BANK_FX_MARKUP_PERCENT :: real where "BANK_FX_MARKUP_PERCENT = 2"

record ConversionResult =
  originalAmount :: money
  originalCurrency :: string
  convertedAmount :: money
  targetCurrency :: string
  fxRate :: real
  bankMarkupAmount :: money

definition convertToBase :: "string \<Rightarrow> money \<Rightarrow> ConversionResult M" where
  "convertToBase sourceCurrency amount =
     (if sourceCurrency = ''AUD''
      then mret \<lparr>originalAmount = amount, originalCurrency = sourceCurrency, convertedAmount = amount,
                 targetCurrency = ''AUD'', fxRate = 1, bankMarkupAmount = 0\<rparr>
      else mbind (getExchangeRate sourceCurrency) (\<lambda>rateOpt. case rateOpt of
          None \<Rightarrow> mthrow (RuntimeErr ''ERR_FX_RATE_NOT_FOUND'')
        | Some rate \<Rightarrow>
            (let convertedRaw = amount * rate;
                 markup = convertedRaw * (BANK_FX_MARKUP_PERCENT / 100);
                 bankMarkup = dec2 markup
             in mret \<lparr>originalAmount = amount, originalCurrency = sourceCurrency,
                      convertedAmount = dec2 (convertedRaw + bankMarkup),
                      targetCurrency = ''AUD'', fxRate = rate, bankMarkupAmount = bankMarkup\<rparr>)))"

text \<open>The amount to charge and the markup in it.\<close>

definition fx_charge :: "string \<Rightarrow> string \<Rightarrow> money \<Rightarrow> (money \<times> money) M" where
  "fx_charge accCurrency currency amount =
     (if accCurrency \<noteq> currency
      then mbind (convertToBase currency amount) (\<lambda>fx. mret (convertedAmount fx, bankMarkupAmount fx))
      else mret (amount, 0))"

section \<open>Laws\<close>

lemma reader_convertToBase [reader_intros]: "reader (convertToBase c x)"
  unfolding convertToBase_def getExchangeRate_def Let_def by (intro reader_intros)

lemma reader_fx_charge [reader_intros]: "reader (fx_charge a b x)"
  unfolding fx_charge_def by (intro reader_intros reader_convertToBase)

lemmas keeps_fx_charge [keeps_intros] = reader_keeps_Idle [OF reader_fx_charge]

lemma keeps_purchaseLedger [keeps_intros]: "keeps e (InTx c) (processPurchaseLedger t cu me x f m d)"
  unfolding processPurchaseLedger_def getOrCreateLedgerAccount_def postLedgerEntry_def Let_def
  by (intro keeps_intros)

lemma keeps_refundLedger [keeps_intros]: "keeps e (InTx c) (processRefundLedger t cu me x d)"
  unfolding processRefundLedger_def getOrCreateLedgerAccount_def postLedgerEntry_def Let_def
  by (intro keeps_intros)

text \<open>The sum of the running balances, and what every posting keeps: ids are unique and
  balances are whole cents.\<close>

definition ledger_total :: "db \<Rightarrow> money" where
  "ledger_total d = sum_list (map la_balance (ledger_accs d))"

definition ledger_ids :: "db \<Rightarrow> nat set" where
  "ledger_ids d = la_id ` set (ledger_accs d)"

definition ledger_ok :: "db \<Rightarrow> bool" where
  "ledger_ok d \<longleftrightarrow> distinct (map la_id (ledger_accs d)) \<and> (\<forall>r\<in>set (ledger_accs d). is_cents (la_balance r))"

text \<open>The tables a posting does not touch, and the transaction it runs in.\<close>

definition ledger_frame :: "world \<Rightarrow> world \<Rightarrow> bool" where
  "ledger_frame w w' \<longleftrightarrow> accounts (cur w') = accounts (cur w) \<and> txns (cur w') = txns (cur w) \<and>
     master (cur w') = master (cur w) \<and> reversals (cur w') = reversals (cur w) \<and>
     (working w' = None) = (working w = None) \<and> lock_log w' = lock_log w"

lemma ledger_frame_refl [simp]: "ledger_frame w w"
  by (simp add: ledger_frame_def)

lemma ledger_frame_trans: "ledger_frame w w' \<Longrightarrow> ledger_frame w' w'' \<Longrightarrow> ledger_frame w w''"
  by (simp add: ledger_frame_def)

text \<open>Every posting runs within that frame, whatever the state of the ledger.\<close>

definition framed :: "'a M \<Rightarrow> bool" where
  "framed m \<longleftrightarrow> (\<forall>e w x w'. m e w = (Val x, w') \<longrightarrow> ledger_frame w w')"

named_theorems framed_intros \<open>code that touches the ledger only\<close>

lemma framed_bind [framed_intros]: "framed m \<Longrightarrow> (\<And>x. framed (f x)) \<Longrightarrow> framed (mbind m f)"
  unfolding framed_def bind_Val by (meson ledger_frame_trans)

lemma framed_then [framed_intros]: "framed m \<Longrightarrow> framed n \<Longrightarrow> framed (mthen m n)"
  unfolding mthen_def by (rule framed_bind)

lemma framed_ret [framed_intros]: "framed (mret x)"
  and framed_throw [framed_intros]: "framed (mthrow y)"
  and framed_query [framed_intros]: "framed (query f)"
  by (simp_all add: framed_def val_simps ledger_frame_def)

lemma framed_if [framed_intros]: "framed m \<Longrightarrow> framed n \<Longrightarrow> framed (if b then m else n)"
  and framed_let [framed_intros]: "framed (f x) \<Longrightarrow> framed (let y = x in f y)"
  and framed_option [framed_intros]:
    "framed m \<Longrightarrow> (\<And>y. framed (g y)) \<Longrightarrow> framed (case o' of None \<Rightarrow> m | Some y \<Rightarrow> g y)"
  by (auto split: option.split)

lemma put_frame [simp]:
  "(working (put d w) = None) = (working w = None)"
  by (auto simp: put_def split: option.split)

lemma framed_getOrCreate [framed_intros]: "framed (getOrCreateLedgerAccount acc nm ty)"
  unfolding getOrCreateLedgerAccount_def
  by (intro framed_intros) (auto simp: framed_def val_simps ledger_frame_def)

lemma framed_post [framed_intros]: "framed (postLedgerEntry txn i x ty delta desc)"
  unfolding postLedgerEntry_def
  by (intro framed_intros) (auto simp: framed_def val_simps ledger_frame_def split: sum.splits)

lemma framed_purchase: "framed (processPurchaseLedger t cu me x f m d)"
  and framed_refund: "framed (processRefundLedger t cu me x d)"
  unfolding processPurchaseLedger_def processRefundLedger_def by (intro framed_intros)+

lemmas purchase_frame = framed_purchase [unfolded framed_def, rule_format]
  and refund_frame = framed_refund [unfolded framed_def, rule_format]

lemma getOrCreate_Val:
  assumes run: "getOrCreateLedgerAccount acc nm ty e w = (Val i, w')" and ok: "ledger_ok (cur w)"
  shows "ledger_ok (cur w') \<and> i \<in> ledger_ids (cur w') \<and> ledger_ids (cur w) \<subseteq> ledger_ids (cur w') \<and>
    ledger_total (cur w') = ledger_total (cur w) \<and>
    ledger_entries (cur w') = ledger_entries (cur w) \<and> ledger_frame w w'"
proof -
  define d where "d = (if find_ledger acc (cur w) \<noteq> None then cur w
     else (cur w)\<lparr>ledger_accs := ledger_accs (cur w) @ [\<lparr>la_id = next_id la_id (ledger_accs (cur w)),
                 la_number = acc, la_name = nm, la_type = ty, la_balance = 0\<rparr>]\<rparr>)"
  from run obtain r where w': "cur w' = d" and r: "find_ledger acc d = Some r" "i = la_id r"
    and fr: "ledger_frame w w'"
    unfolding getOrCreateLedgerAccount_def d_def by (auto simp: val_simps ledger_frame_def)
  have "next_id la_id (ledger_accs (cur w)) \<notin> ledger_ids (cur w)"
    by (auto simp: ledger_ids_def) (metis less_irrefl next_id_fresh)
  then have "ledger_ok d" "ledger_ids (cur w) \<subseteq> ledger_ids d" "ledger_total d = ledger_total (cur w)"
    using ok is_cents_numeral by (auto simp: d_def ledger_ok_def ledger_ids_def ledger_total_def)
  moreover have "i \<in> ledger_ids d" using r by (auto simp: find_ledger_def find_Some_iff ledger_ids_def)
  moreover have "ledger_entries d = ledger_entries (cur w)" by (simp add: d_def)
  ultimately show ?thesis using w' fr by simp
qed

lemma post_Val:
  assumes run: "postLedgerEntry txn i amount ty delta desc e w = (Val u, w')"
    and ok: "ledger_ok (cur w)" and i: "i \<in> ledger_ids (cur w)" and cents: "is_cents delta" "is_cents amount"
  shows "ledger_ok (cur w') \<and> ledger_ids (cur w') = ledger_ids (cur w) \<and>
    ledger_total (cur w') = ledger_total (cur w) + delta \<and>
    ledger_entries (cur w') = ledger_entries (cur w) @
      [\<lparr>le_txn = txn, le_ledger = i, le_amount = amount, le_type = ty, le_desc = desc\<rparr>] \<and> ledger_frame w w'"
proof -
  let ?f = "\<lambda>r. r\<lparr>la_balance := dec2 (la_balance r + delta)\<rparr>"
  let ?rows = "upd_rows (\<lambda>r. la_id r = i) ?f (ledger_accs (cur w))"
  from run have rows: "ledger_accs (cur w') = ?rows"
    and ents: "ledger_entries (cur w') = ledger_entries (cur w) @
      [\<lparr>le_txn = txn, le_ledger = i, le_amount = amount, le_type = ty, le_desc = desc\<rparr>]"
    and fr: "ledger_frame w w'"
    using cents(2) unfolding postLedgerEntry_def
    by (auto simp: val_simps dec_col_def ledger_frame_def dec2_cents split: if_splits)
  from i obtain r where r: "r \<in> set (ledger_accs (cur w))" "la_id r = i" by (auto simp: ledger_ids_def)
  with ok have "is_cents (la_balance r)" by (simp add: ledger_ok_def)
  then have "dec2 (la_balance r + delta) = la_balance r + delta"
    using cents(1) is_cents_add dec2_cents by blast
  then have "sum_list (map la_balance ?rows) = sum_list (map la_balance (ledger_accs (cur w))) + delta"
    using sum_upd_rows_unique [of la_id "ledger_accs (cur w)" r la_balance ?f] ok r by (simp add: ledger_ok_def)
  moreover have "map la_id ?rows = map la_id (ledger_accs (cur w))" by (simp add: map_upd_rows_frame)
  moreover have "\<forall>x\<in>set ?rows. is_cents (la_balance x)"
    using ok by (auto simp: set_upd_rows ledger_ok_def is_cents_dec2)
  ultimately show ?thesis
    using ok rows ents fr unfolding ledger_ok_def ledger_ids_def ledger_total_def
    by (metis list.set_map)
qed


definition signed_amount :: "ledger_entry \<Rightarrow> money" where
  "signed_amount x = (if le_type x = ''CREDIT'' then le_amount x else - le_amount x)"

text \<open>One posting that may be skipped, and the merchant's.\<close>

definition posted :: "world \<Rightarrow> world \<Rightarrow> (string \<times> money) list \<Rightarrow> bool" where
  "posted w w' ps \<longleftrightarrow> ledger_ok (cur w') \<and> ledger_ids (cur w) \<subseteq> ledger_ids (cur w') \<and> ledger_frame w w' \<and>
     (\<exists>es. ledger_entries (cur w') = ledger_entries (cur w) @ es \<and>
        map (\<lambda>x. (le_type x, le_amount x)) es = ps) \<and>
     ledger_total (cur w') = ledger_total (cur w) + sum_list (map (\<lambda>(ty, a). if ty = ''CREDIT'' then a else - a) ps)"

lemma posted_trans: "posted w w1 ps \<Longrightarrow> posted w1 w2 qs \<Longrightarrow> posted w w2 (ps @ qs)"
  unfolding posted_def by (force intro: ledger_frame_trans)

lemma posted_none: "ledger_ok (cur w) \<Longrightarrow> posted w w []"
  by (simp add: posted_def)

lemma posted_account: "getOrCreateLedgerAccount acc nm ty e w = (Val i, w') \<Longrightarrow> ledger_ok (cur w) \<Longrightarrow>
    posted w w' [] \<and> i \<in> ledger_ids (cur w')"
  by (drule (1) getOrCreate_Val) (simp add: posted_def)

lemma posted_entry:
  assumes "postLedgerEntry txn i amount ty delta desc e w = (Val u, w')" "ledger_ok (cur w)"
    "i \<in> ledger_ids (cur w)" "is_cents amount" "delta = (if ty = ''CREDIT'' then amount else - amount)"
  shows "posted w w' [(ty, amount)]"
proof -
  have "is_cents delta" using assms(4,5) by simp
  from post_Val [OF assms(1-3) this assms(4)] assms(5) show ?thesis by (auto simp: posted_def)
qed

lemma posted_ok: "posted w w' ps \<Longrightarrow> ledger_ok (cur w')"
  and posted_ids: "posted w w' ps \<Longrightarrow> i \<in> ledger_ids (cur w) \<Longrightarrow> i \<in> ledger_ids (cur w')"
  and posted_frame: "posted w w' ps \<Longrightarrow> ledger_frame w w'"
  by (auto simp: posted_def)

lemma posted_if:
  assumes "(if b then postLedgerEntry txn i amount ''CREDIT'' amount desc else mret ()) e w = (Val u, w')"
    and "ledger_ok (cur w)" and "i \<in> ledger_ids (cur w)" and "is_cents amount"
  shows "posted w w' (if b then [(''CREDIT'', amount)] else [])"
proof (cases b)
  case True
  with assms show ?thesis by (auto intro!: posted_entry)
next
  case False
  with assms show ?thesis by (auto simp: mret_def intro: posted_none)
qed

lemma posted_merchant:
  assumes "(if b then mbind (getOrCreateLedgerAccount acc nm ty) (\<lambda>i.
       postLedgerEntry txn i amount et delta desc) else mret ()) e w = (Val u, w')"
    and "ledger_ok (cur w)" and "is_cents amount"
    and "delta = (if et = ''CREDIT'' then amount else - amount)"
  shows "posted w w' (if b then [(et, amount)] else [])"
proof (cases b)
  case True
  with assms(1) obtain i w1 where
    a: "getOrCreateLedgerAccount acc nm ty e w = (Val i, w1)"
    and p: "postLedgerEntry txn i amount et delta desc e w1 = (Val u, w')"
    by (auto simp: val_simps)
  from posted_account [OF a assms(2)] have q: "posted w w1 []" "i \<in> ledger_ids (cur w1)" by auto
  from posted_trans [OF q(1) posted_entry [OF p posted_ok [OF q(1)] q(2) assms(3,4)]] True
  show ?thesis by simp
next
  case False
  with assms show ?thesis by (auto simp: mret_def intro: posted_none)
qed

lemma purchase_posted:
  assumes run: "processPurchaseLedger txn cust merch tot fee fx desc e w = (Val u, w')"
    and ok: "ledger_ok (cur w)" and cents: "is_cents tot" "is_cents fee" "is_cents fx"
  shows "posted w w' ([(''DEBIT'', tot)] @
    (if 0 < tot - fee - fx \<and> merch \<noteq> [] then [(''CREDIT'', tot - fee - fx)] else []) @
    (if 0 < fee then [(''CREDIT'', fee)] else []) @ (if 0 < fx then [(''CREDIT'', fx)] else []))"
proof -
  from run obtain ci fi xi w1 w2 w3 w4 w5 w6 u1 u2 where
    a1: "getOrCreateLedgerAccount cust (''Customer '' @ cust) ''LIABILITY'' e w = (Val ci, w1)"
    and a2: "getOrCreateLedgerAccount ''BANK_FEE_REV'' ''Bank Fee Revenue'' ''REVENUE'' e w1 = (Val fi, w2)"
    and a3: "getOrCreateLedgerAccount ''BANK_FX_REV'' ''Bank FX Revenue'' ''REVENUE'' e w2 = (Val xi, w3)"
    and p1: "postLedgerEntry txn ci tot ''DEBIT'' (- tot) desc e w3 = (Val u1, w4)"
    and p2: "(if 0 < tot - fee - fx \<and> merch \<noteq> [] then mbind (getOrCreateLedgerAccount merch (''Merchant '' @ merch) ''LIABILITY'')
        (\<lambda>i. postLedgerEntry txn i (tot - fee - fx) ''CREDIT'' (tot - fee - fx) desc) else mret ()) e w4 = (Val u2, w5)"
    and p3: "(if 0 < fee then postLedgerEntry txn fi fee ''CREDIT'' fee desc else mret ()) e w5 = (Val (), w6)"
    and p4: "(if 0 < fx then postLedgerEntry txn xi fx ''CREDIT'' fx desc else mret ()) e w6 = (Val u, w')"
    unfolding processPurchaseLedger_def Let_def bind_Val then_Val by fastforce
  from posted_account [OF a1 ok] have q1: "posted w w1 []" "ci \<in> ledger_ids (cur w1)" by auto
  from posted_account [OF a2 posted_ok [OF q1(1)]] have q2: "posted w1 w2 []" "fi \<in> ledger_ids (cur w2)" by auto
  from posted_account [OF a3 posted_ok [OF q2(1)]] have q3: "posted w2 w3 []" "xi \<in> ledger_ids (cur w3)" by auto
  have ci: "ci \<in> ledger_ids (cur w3)" using q1(2) q2(1) q3(1) posted_ids by blast
  have r1: "posted w3 w4 [(''DEBIT'', tot)]"
    by (rule posted_entry [OF p1 posted_ok [OF q3(1)] ci cents(1)]) simp
  have r2: "posted w4 w5 (if 0 < tot - fee - fx \<and> merch \<noteq> [] then [(''CREDIT'', tot - fee - fx)] else [])"
    by (rule posted_merchant [OF p2 posted_ok [OF r1]]) (use cents in simp_all)
  have fi: "fi \<in> ledger_ids (cur w5)" using q2(2) q3(1) r1 r2 posted_ids by blast
  have r3: "posted w5 w6 (if 0 < fee then [(''CREDIT'', fee)] else [])"
    by (rule posted_if [OF p3 posted_ok [OF r2] fi cents(2)])
  have xi: "xi \<in> ledger_ids (cur w6)" using q3(2) r1 r2 r3 posted_ids by blast
  have r4: "posted w6 w' (if 0 < fx then [(''CREDIT'', fx)] else [])"
    by (rule posted_if [OF p4 posted_ok [OF r3] xi cents(3)])
  from posted_trans [OF q1(1) posted_trans [OF q2(1) posted_trans [OF q3(1) posted_trans [OF r1
      posted_trans [OF r2 posted_trans [OF r3 r4]]]]]]
  show ?thesis by simp
qed

lemma refund_posted:
  assumes run: "processRefundLedger txn cust merch x desc e w = (Val u, w')"
    and ok: "ledger_ok (cur w)" and cents: "is_cents x"
  shows "posted w w' ([(''CREDIT'', x)] @ (if merch \<noteq> [] then [(''DEBIT'', x)] else []))"
proof -
  from run obtain ci w1 w2 u1 where
    a1: "getOrCreateLedgerAccount cust (''Customer '' @ cust) ''LIABILITY'' e w = (Val ci, w1)"
    and p1: "postLedgerEntry txn ci x ''CREDIT'' x desc e w1 = (Val u1, w2)"
    and p2: "(if merch \<noteq> [] then mbind (getOrCreateLedgerAccount merch (''Merchant '' @ merch) ''LIABILITY'')
        (\<lambda>i. postLedgerEntry txn i x ''DEBIT'' (- x) desc) else mret ()) e w2 = (Val u, w')"
    unfolding processRefundLedger_def bind_Val then_Val by fastforce
  from posted_account [OF a1 ok] have q1: "posted w w1 []" "ci \<in> ledger_ids (cur w1)" by auto
  have r1: "posted w1 w2 [(''CREDIT'', x)]"
    by (rule posted_entry [OF p1 posted_ok [OF q1(1)] q1(2) cents]) simp
  have r2: "posted w2 w' (if merch \<noteq> [] then [(''DEBIT'', x)] else [])"
    by (rule posted_merchant [OF p2 posted_ok [OF r1] cents]) simp
  from posted_trans [OF q1(1) posted_trans [OF r1 r2]] show ?thesis by simp
qed

text \<open>Postings go through when no statement fails and the amounts fit their column.\<close>

lemma returns_getOrCreate:
  assumes "fault e = (\<lambda>_. None)"
  shows "returns e (getOrCreateLedgerAccount acc nm ty)"
  unfolding returns_def
proof
  fix w
  let ?row = "\<lparr>la_id = next_id la_id (ledger_accs (cur w)), la_number = acc, la_name = nm, la_type = ty, la_balance = 0\<rparr>"
  have "find_ledger acc ((cur w)\<lparr>ledger_accs := ledger_accs (cur w) @ [?row]\<rparr>) \<noteq> None"
    by (auto simp: find_ledger_def find_None_iff)
  then show "\<exists>x w'. getOrCreateLedgerAccount acc nm ty e w = (Val x, w')"
    using assms unfolding getOrCreateLedgerAccount_def
    by (cases "find_ledger acc (cur w)") (auto simp: val_simps)
qed

lemma returns_post:
  "fault e = (\<lambda>_. None) \<Longrightarrow> \<bar>dec2 amount\<bar> < 10 ^ 13 \<Longrightarrow> returns e (postLedgerEntry t i amount ty delta desc)"
  unfolding postLedgerEntry_def
  by (intro returns_intros returns_sql) (simp_all add: dec_col_def)

lemma returns_purchase:
  assumes "fault e = (\<lambda>_. None)" and "\<bar>dec2 x\<bar> < 10 ^ 13" "\<bar>dec2 f\<bar> < 10 ^ 13" "\<bar>dec2 m\<bar> < 10 ^ 13"
    "\<bar>dec2 (x - f - m)\<bar> < 10 ^ 13"
  shows "returns e (processPurchaseLedger t cu me x f m d)"
  unfolding processPurchaseLedger_def
  by (intro returns_intros returns_getOrCreate returns_post assms)

lemma returns_refund:
  "fault e = (\<lambda>_. None) \<Longrightarrow> \<bar>dec2 x\<bar> < 10 ^ 13 \<Longrightarrow> returns e (processRefundLedger t cu me x d)"
  unfolding processRefundLedger_def by (intro returns_intros returns_getOrCreate returns_post)

lemma demo_ledger_ok: "ledger_ok (cur demo_world)"
  by (simp add: ledger_ok_def)

text \<open>A conversion at a non-negative rate keeps an amount non-negative.\<close>

lemma convert_nonneg:
  assumes "convertToBase c x e w = (Val r, w')" and "0 \<le> x" and "\<forall>(k, rate)\<in>set (fx_rates (cur w)). 0 \<le> rate"
  shows "0 \<le> convertedAmount r"
proof (cases "c = ''AUD''")
  case True
  with assms show ?thesis by (simp add: convertToBase_def val_simps)
next
  case False
  with assms(1) obtain rate where rate: "map_of (fx_rates (cur w)) (c, ''AUD'') = Some rate"
    and x: "convertedAmount r = dec2 (x * rate + dec2 (x * rate * (2 / 100)))"
    by (auto simp: convertToBase_def getExchangeRate_def val_simps BANK_FX_MARKUP_PERCENT_def Let_def)
  from map_of_SomeD [OF rate] assms(3) have "0 \<le> rate" by fastforce
  with assms(2) have "0 \<le> x * rate" by simp
  then have "0 \<le> dec2 (x * rate * (2 / 100))" by (intro dec2_nonneg) simp
  with \<open>0 \<le> x * rate\<close> show ?thesis unfolding x by (intro dec2_nonneg) simp
qed

lemma fx_charge_nonneg:
  assumes "fx_charge a b x e w = (Val y, w')" and "0 \<le> x" and "\<forall>(k, rate)\<in>set (fx_rates (cur w)). 0 \<le> rate"
  shows "0 \<le> fst y"
  using assms convert_nonneg unfolding fx_charge_def by (fastforce simp: val_simps split: if_splits)

text \<open>What a payment or refund committed: the new balance under the account's lock, the channel
  rows, and a closed transaction.\<close>

definition money_moved ::
  "string \<Rightarrow> TxnPriority \<Rightarrow> money \<Rightarrow> (string \<Rightarrow> txn_row list) \<Rightarrow> world \<Rightarrow> world \<Rightarrow> bool" where
  "money_moved acc p newBalance ts w w' \<longleftrightarrow>
     accounts (committed w') = set_balance acc (dec2 newBalance) (accounts (committed w)) \<and>
     txns (committed w') = ts \<and> reversals (committed w') = reversals (committed w) \<and>
     working w' = None \<and> lock_log w' = lock_log w @ [Acquire acc p, Release acc p]"

lemma money_moved_same: "same_db w w1 \<Longrightarrow> money_moved acc p b ts w1 w' = money_moved acc p b ts w w'"
  by (simp add: same_db_def money_moved_def)

text \<open>Refunds stay within the purchases they refund: over the rows of one channel table.\<close>

definition refunds_within :: "string \<Rightarrow> txn_row list \<Rightarrow> bool" where
  "refunds_within msg rows \<longleftrightarrow> distinct (map t_id rows) \<and>
     (\<forall>r\<in>set rows. t_message r = msg \<longrightarrow> is_cents (t_amount r) \<and>
        (case t_refunded r of None \<Rightarrow> 0 | Some x \<Rightarrow> x) \<le> t_amount r)"

lemma refunds_within_add:
  assumes "refunds_within msg rows"
    and "t_message r = msg \<Longrightarrow> (case t_refunded r of None \<Rightarrow> 0 | Some x \<Rightarrow> x) \<le> dec2 (t_amount r)"
  shows "refunds_within msg (rows @ [stored_txn (next_id t_id rows) t r])"
proof -
  have "next_id t_id rows \<notin> t_id ` set rows" by (auto dest: next_id_fresh [where rid = t_id])
  with assms show ?thesis by (auto simp: refunds_within_def stored_txn_def)
qed

lemma refunds_within_mark:
  assumes "refunds_within msg rows" and "p \<in> set rows" and "t_message p = msg" and "x \<le> t_amount p"
  shows "refunds_within msg (upd_rows (\<lambda>r. t_id r = t_id p) (\<lambda>r. r\<lparr>t_refunded := Some (dec2 x), t_flag := f\<rparr>) rows)"
proof -
  have "is_cents (t_amount p)" using assms(1-3) by (auto simp: refunds_within_def)
  then have "dec2 x \<le> t_amount p" using dec2_mono [OF assms(4)] by simp
  moreover have "r = p" if "r \<in> set rows" "t_id r = t_id p" for r
    using assms(1,2) that by (auto simp: refunds_within_def distinct_map dest: inj_onD)
  ultimately have le: "dec2 x \<le> t_amount r" if "r \<in> set rows" "t_id r = t_id p" for r
    using that by blast
  show ?thesis
    using assms(1) le by (auto simp: refunds_within_def map_upd_rows_frame set_upd_rows)
qed

section \<open>Properties\<close>



text \<open>A refund posts the same amount to both sides when a merchant is given, and then keeps
  the sum of the running balances; without a merchant the sum grows by the refund.\<close>

theorem refund_ledger_balance:
  assumes "processRefundLedger txn cust merch x desc e w = (Val u, w')"
    and "ledger_ok (cur w)" and "is_cents x"
  shows "ledger_total (cur w') = ledger_total (cur w) + (if merch \<noteq> [] then 0 else x) \<and> ledger_ok (cur w') \<and>
    (\<exists>es. ledger_entries (cur w') = ledger_entries (cur w) @ es \<and>
      map (\<lambda>x. (le_type x, le_amount x)) es = [(''CREDIT'', x)] @ (if merch \<noteq> [] then [(''DEBIT'', x)] else []))"
  using refund_posted [OF assms] by (auto simp: posted_def)

lemma refund_ledger_balance_witness:
  "\<exists>w'. processRefundLedger ''T'' ''A'' [] 100 ''d'' demo_env demo_world = (Val (), w') \<and>
     ledger_total (cur w') = ledger_total (cur demo_world) + 100"
proof -
  have "returns demo_env (processRefundLedger ''T'' ''A'' [] 100 ''d'')" by (rule returns_refund) simp_all
  from returnsD [OF this] obtain w' where
    run: "processRefundLedger ''T'' ''A'' [] 100 ''d'' demo_env demo_world = (Val (), w')" by auto
  from refund_ledger_balance [OF run demo_ledger_ok] run show ?thesis by auto
qed

text \<open>A foreign amount is converted to whole cents; the markup is within half a cent of two
  per cent of the raw amount, the converted amount within one cent of 102 per cent of it, and
  a non-negative amount never costs less than the raw conversion rounded to cents.\<close>

theorem fx_conversion_bounds:
  assumes "convertToBase c amount e w = (Val r, w')" and "c \<noteq> ''AUD''"
  shows "\<exists>rate raw. map_of (fx_rates (cur w)) (c, ''AUD'') = Some rate \<and> fxRate r = rate \<and>
    raw = amount * rate \<and> is_cents (convertedAmount r) \<and> is_cents (bankMarkupAmount r) \<and>
    \<bar>bankMarkupAmount r - raw * (2 / 100)\<bar> \<le> 1 / 200 \<and>
    \<bar>convertedAmount r - raw * (102 / 100)\<bar> \<le> 1 / 100 \<and>
    (0 \<le> raw \<longrightarrow> dec2 raw \<le> convertedAmount r)"
proof -
  from assms obtain rate raw where rate: "map_of (fx_rates (cur w)) (c, ''AUD'') = Some rate"
    and raw: "raw = amount * rate"
    and m: "bankMarkupAmount r = dec2 (raw * (2 / 100))" "fxRate r = rate"
    and x: "convertedAmount r = dec2 (raw + dec2 (raw * (2 / 100)))"
    by (auto simp: convertToBase_def getExchangeRate_def val_simps BANK_FX_MARKUP_PERCENT_def Let_def)
  have "\<bar>convertedAmount r - raw * (102 / 100)\<bar> \<le> 1 / 100"
    using dec2_error [of "raw * (2 / 100)"] dec2_error [of "raw + dec2 (raw * (2 / 100))"]
    unfolding x by (simp only: abs_le_iff) linarith
  moreover have "dec2 raw \<le> convertedAmount r" if "0 \<le> raw"
    unfolding x using that dec2_nonneg [of "raw * (2 / 100)"] by (intro dec2_mono) simp
  moreover have "\<bar>bankMarkupAmount r - raw * (2 / 100)\<bar> \<le> 1 / 200"
    unfolding m by (rule dec2_error)
  ultimately show ?thesis using rate m x raw by (intro exI [of _ rate] exI [of _ raw]) simp
qed

lemma fx_conversion_bounds_witness:
  "\<exists>r w'. convertToBase ''USD'' 10 demo_env demo_world = (Val r, w') \<and> is_cents (convertedAmount r) \<and> fxRate r = 3 / 2"
proof -
  obtain r w' where run: "convertToBase ''USD'' 10 demo_env demo_world = (Val r, w')"
    by (simp add: convertToBase_def getExchangeRate_def run_defs Let_def)
  from fx_conversion_bounds [OF run] run show ?thesis by auto
qed

end
