(* ===== verification/Ecom.thy ===== *)
theory Ecom
  imports Falcon Ledger Constants
begin

text \<open>
  \<^verbatim>\<open>ecom.cpp\<close>: purchases and refunds of the e-commerce channel. The account comes from a
  card or from the request, a foreign amount is converted first, a refund may come in parts
  until the purchase is used up.
\<close>

definition ECOM_TIMEOUT_SEC :: nat where "ECOM_TIMEOUT_SEC = 5"

section \<open>Which account\<close>

text \<open>Account number, decrypted card number and scheme.\<close>

definition ecom_resolve :: "json \<Rightarrow> (json + string \<times> string \<times> string) M" where
  "ecom_resolve data =
     (if jcontains data ''card'' then
        mbind (mlift (jat data ''card'')) (\<lambda>cardObj.
        if \<not> jcontains cardObj ''pan'' then mret (Inl (errm ''ERR_MISSING_PAN'' ''Card PAN is required''))
        else
        mbind (mlift (jat_str cardObj ''pan'')) (\<lambda>encPan.
        mbind (strval cardObj ''expiry'') (\<lambda>expiry.
        mbind (or_answer (decrypt encPan) (\<lambda>x. errm ''ERR_INVALID_ENCRYPTED_PAN'' (what x))) (\<lambda>r. case r of
          Inl j \<Rightarrow> mret (Inl j)
        | Inr cardPan \<Rightarrow>
          mbind (optional_pin cardObj cardPan) (\<lambda>ok.
          if \<not> ok then mret (Inl (errm ''ERR_INVALID_PIN'' ''PIN verification failed''))
          else
          mbind (select_card cardPan) (\<lambda>cardRes. case cardRes of
            None \<Rightarrow> mret (Inl (errm ''ERR_CARD_NOT_FOUND'' ''Card not found''))
          | Some row \<Rightarrow>
            if expiry \<noteq> [] \<and> expiry \<noteq> card_expiry row then
              mret (Inl (errm ''ERR_INVALID_EXPIRY'' ''Wrong expiry date''))
            else
            mbind (strval cardObj ''cvv'') (\<lambda>reqCvv.
            if reqCvv \<noteq> [] \<and> reqCvv \<noteq> or_empty (card_cvv row) then
              mret (Inl (errm ''ERR_INVALID_CVV'' ''Wrong CVV''))
            else if card_status row \<noteq> ''ACTIVE'' then
              mret (Inl (errm ''ERR_CARD_INACTIVE'' ''Card is not active''))
            else mret (Inr (card_acc row, cardPan, or_empty (card_scheme row))))))))))
      else mbind (strval data ''accountNumber'') (\<lambda>acc. mret (Inr (acc, [], []))))"

text \<open>What a request asks for, once read.\<close>

record ecom_req =
  eq_type :: TransactionType
  eq_amount :: money
  eq_currency :: string
  eq_client :: string
  eq_acc :: string
  eq_pan :: string
  eq_scheme :: string
  eq_merchant :: string
  eq_fee :: money
  eq_txn :: string
  eq_scope :: string
  eq_markup :: money

section \<open>Purchase\<close>

definition ecom_row :: "ecom_req \<Rightarrow> txn_row" where
  "ecom_row q = (new_txn (eq_txn q) (eq_client q) (eq_acc q) (eq_amount q) (eq_fee q) ''SUCCESS'' ''ECOM purchase success'')
     \<lparr>t_merchant := Some (eq_merchant q), t_pan := Some (eq_pan q),
      t_extra := [(''currency'', eq_currency q), (''transaction_scope'', eq_scope q), (''card_scheme'', eq_scheme q)]\<rparr>"

definition ecom_purchase :: "ecom_req \<Rightarrow> json M" where
  "ecom_purchase q = withLock (eq_acc q) DEBIT (in_txn_throw
     (mbind (getAccountBalance (eq_acc q)) (\<lambda>currentBalOpt. case currentBalOpt of
        None \<Rightarrow> reject (err0 ''ERR_ACCOUNT_NOT_FOUND'')
      | Some currentBalance \<Rightarrow>
        if currentBalance < eq_amount q + eq_fee q then
          reject (err0 ''ERR_INSUFFICIENT_FUNDS'')
        else
          (let newBal = currentBalance - eq_amount q - eq_fee q in
           mthen (updateAccountBalance (eq_acc q) newBal)
           (mbind (insert_txn ''transaction_ecom'' 12 (ecom_row q)) (\<lambda>refId.
            mthen (insert_master ''transaction_ecom'' refId ''SUCCESS'')
            (mthen (processPurchaseLedger (eq_txn q) (eq_acc q) (eq_merchant q) (eq_amount q) (eq_fee q)
                      (eq_markup q) ''ECOM Purchase'')
            (mthen commit
            (mret (jobj [(''transactionId'', JStr (eq_txn q)), (''status'', JStr ''SUCCESS''),
               (''balanceAfter'', JNum newBal), (''amountCharged'', JNum (eq_amount q)),
               (''scope'', JStr (eq_scope q))]))))))))))"

section \<open>Refund\<close>

definition ecom_refund_row :: "ecom_req \<Rightarrow> string \<Rightarrow> txn_row" where
  "ecom_refund_row q orig =
     (new_txn (eq_txn q) (eq_client q) (eq_acc q) (eq_amount q) 0 ''SUCCESS'' ''ECOM refund success'')
       \<lparr>t_extra := [(''currency'', eq_currency q), (''reference_txn_id'', orig)]\<rparr>"

definition ecom_refund_apply :: "ecom_req \<Rightarrow> string \<Rightarrow> json M" where
  "ecom_refund_apply q orig = withLock (eq_acc q) CREDIT (in_txn_throw
     (mbind (getEcomPurchaseForUpdate orig) (\<lambda>pInfo. case pInfo of
        None \<Rightarrow> reject (err0 ''ERR_ORIGINAL_NOT_FOUND'')
      | Some p \<Rightarrow> (case p of (refId, origAmt, refAmt, flag0) \<Rightarrow>
        (let flag = (if flag0 = [] then ''N'' else flag0) in
        if flag = ''RF'' then reject (err0 ''ERR_ALREADY_REFUNDED'')
        else if eq_amount q + refAmt > origAmt then reject (err0 ''ERR_REFUND_EXCEEDS'')
        else
        mbind (getAccountBalance (eq_acc q)) (\<lambda>balRes. case balRes of
          None \<Rightarrow> reject (err0 ''ERR_ACCOUNT_NOT_FOUND'')
        | Some currentBalance \<Rightarrow>
          (let newBal = currentBalance + eq_amount q;
               newFlag = (if eq_amount q + refAmt = origAmt then ''RF'' else ''PR'') in
           mthen (updateAccountBalance (eq_acc q) newBal)
           (mthen (set_refund ''transaction_ecom'' (dec_col 12) refId (eq_amount q + refAmt) newFlag)
           (mbind (insert_txn ''transaction_ecom'' 12 (ecom_refund_row q orig)) (\<lambda>insId.
            mthen (insert_master ''transaction_ecom'' insId ''SUCCESS'')
            (mthen (processRefundLedger (eq_txn q) (eq_acc q) (eq_merchant q) (eq_amount q) ''ECOM Refund'')
            (mthen commit
            (mret (jobj [(''transactionId'', JStr (eq_txn q)), (''status'', JStr ''SUCCESS''),
               (''flag'', JStr newFlag), (''balanceAfter'', JNum newBal)]))))))))))))))"

definition ecom_refund :: "json \<Rightarrow> ecom_req \<Rightarrow> json M" where
  "ecom_refund data q =
     (if \<not> jcontains data ''origClientTxnId'' then mret (err0 ''ERR_MISSING_ORIG_REF'')
      else mbind (mlift (jat_str data ''origClientTxnId'')) (ecom_refund_apply q))"

section \<open>The core\<close>

definition ecom_declined :: "string \<Rightarrow> string \<Rightarrow> json" where
  "ecom_declined txnId reason = jobj [(''transactionId'', JStr txnId), (''status'', JStr ''DECLINED''),
     (''message'', JStr reason)]"

definition ecom_decline :: "ecom_req \<Rightarrow> string \<Rightarrow> json M" where
  "ecom_decline q reason =
     mthen (logFraud (eq_txn q) (eq_client q) [] [] (eq_acc q) (eq_amount q) reason)
     (mret (ecom_declined (eq_txn q) reason))"

definition ecom_dispatch :: "json \<Rightarrow> ecom_req \<Rightarrow> json M" where
  "ecom_dispatch data q =
     mthen newFalcon
     (mbind (checkFraud (eq_acc q) (eq_amount q) F_ECOM (Some data)) (\<lambda>fraud. case fraud of
        Some reason \<Rightarrow> ecom_decline q reason
      | None \<Rightarrow>
          if eq_type q = TT_PURCHASE then ecom_purchase q
          else if eq_type q = TT_REFUND then ecom_refund data q
          else mret (errm ''ERR_INVALID_TYPE'' ''Unsupported transactionType'')))"

definition ecom_with_account ::
  "json \<Rightarrow> TransactionType \<Rightarrow> money \<Rightarrow> string \<Rightarrow> string \<Rightarrow> string \<times> string \<times> string \<Rightarrow> json M" where
  "ecom_with_account data txnType amount currency clientTxnId who = (case who of (acc, cardPan, cardScheme) \<Rightarrow>
     if acc = [] then mret (errm ''ERR_MISSING_ACCOUNT'' ''accountNumber or card data required'')
     else if txnType = TT_PURCHASE \<and> amount \<le> 0 then
       mret (errm ''ERR_INVALID_AMOUNT'' ''Amount must be > 0'')
     else
     mbind (mlift (jvalue_str data ''merchantId'' ''ECOM_MERCHANT'')) (\<lambda>merchantId.
     mbind (numval data ''fee'') (\<lambda>fee.
     mbind (getAccountBalanceAndCurrency acc) (\<lambda>accInfo. case accInfo of
        None \<Rightarrow> mret (err0 ''ERR_ACCOUNT_NOT_FOUND'')
      | Some info \<Rightarrow>
        (let accCurrency = (if snd info = [] then ''AUD'' else snd info) in
         mbind (correlation data) (\<lambda>txnId.
         mbind (fx_charge accCurrency currency amount) (\<lambda>charge.
         ecom_dispatch data \<lparr>eq_type = txnType, eq_amount = fst charge, eq_currency = currency,
            eq_client = clientTxnId, eq_acc = acc, eq_pan = cardPan, eq_scheme = cardScheme,
            eq_merchant = merchantId, eq_fee = fee, eq_txn = txnId,
            eq_scope = (if accCurrency = currency then ''DOMESTIC'' else ''INTERNATIONAL''),
            eq_markup = snd charge\<rparr>)))))))"

definition processECOMTransactionCore :: "json \<Rightarrow> json M" where
  "processECOMTransactionCore data =
     mbind (mlift (jvalue_str data ''transactionType'' ''PURCHASE'')) (\<lambda>_.
     mthen scopedConnection
     (mcatch
       (mbind (mlift (jvalue_str data ''transactionType'' ''PURCHASE'')) (\<lambda>txnTypeStr.
        mbind (numval data ''amount'') (\<lambda>amount.
        mbind (mlift (jvalue_str data ''currency'' ''INR'')) (\<lambda>currency.
        mbind (asks cur_uuid) (\<lambda>u.
        mbind (mlift (jvalue_str data ''clientTxnId'' u)) (\<lambda>clientTxnId.
        mbind (ecom_resolve data) (\<lambda>r. case r of
           Inl j \<Rightarrow> mret j
         | Inr who \<Rightarrow> ecom_with_account data (stringToTransactionType txnTypeStr) amount currency clientTxnId who)))))))
       (\<lambda>x. mret (errm ''ERR_EXCEPTION'' (what x)))))"

definition ecom_timeout :: json where
  "ecom_timeout = failed ''ERR_TIMEOUT'' ''ECOM transaction timeout''"

definition processECOMTransaction :: "json \<Rightarrow> json M" where
  "processECOMTransaction data =
     mbind (mlift (jvalue_str data ''transactionType'' ''PURCHASE'')) (\<lambda>_.
     mbind (correlation data) (\<lambda>_.
     mbind (asks timed_out) (\<lambda>late.
     if late then mthen (mcatch (mthen (processECOMTransactionCore data) (mret ())) (\<lambda>_. mret ())) (mret ecom_timeout)
     else processECOMTransactionCore data)))"

section \<open>The contract\<close>

lemma reader_ecom_resolve [reader_intros]: "reader (ecom_resolve data)"
  unfolding ecom_resolve_def by (intro reader_intros)

lemmas keeps_ecom_resolve [keeps_intros] = reader_keeps_Idle [OF reader_ecom_resolve]

lemma keeps_ecom_lookup [keeps_intros]:
  "keeps e (InTx c) (getEcomPurchaseForUpdate orig)" "keeps e (Idle c) (getAccountBalanceAndCurrency acc)"
  "keeps e (Idle c) (convertToBase cu x)"
  unfolding getEcomPurchaseForUpdate_def getAccountBalanceAndCurrency_def convertToBase_def getExchangeRate_def Let_def
  by (intro keeps_intros)+

lemma hc_ecom_purchase [hc_intros]: "handler_code succeeded e c (ecom_purchase q)"
  unfolding ecom_purchase_def
  by (intro hc_intros tx_intros keeps_intros) (simp add: has_status_def jfind_jobj)

lemma hc_ecom_refund [hc_intros]: "handler_code succeeded e c (ecom_refund data q)"
  unfolding ecom_refund_def ecom_refund_apply_def
  by (intro hc_intros tx_intros keeps_intros) (simp add: has_status_def jfind_jobj)

lemma hc_ecom_core: "handler_code succeeded e c (processECOMTransactionCore data)"
  unfolding processECOMTransactionCore_def ecom_with_account_def ecom_dispatch_def ecom_decline_def
  by (intro hc_intros keeps_intros)

interpretation ecom: channel_handler processECOMTransactionCore succeeded
  by unfold_locales (rule hc_ecom_core)

section \<open>Runs that succeed\<close>

lemma ecom_purchase_Val:
  assumes "ecom_purchase q e w = (Val res, w')" and "succeeded res" and "working w = None"
  shows "\<exists>r i. find_account (eq_acc q) (committed w) = Some r \<and> eq_amount q + eq_fee q \<le> acc_balance r \<and>
    i = next_id t_id (txns (committed w) ''transaction_ecom'') \<and>
    money_moved (eq_acc q) DEBIT (acc_balance r - eq_amount q - eq_fee q)
      (add_txn ''transaction_ecom'' (stored_txn i (now e) (ecom_row q)) (txns (committed w))) w w'"
  using assms unfolding ecom_purchase_def
  by (clarsimp simp: val_simps getAccountBalance_def Let_def not_less)
    (drule purchase_frame, simp add: money_moved_def ledger_frame_def)

text \<open>The ledger rows of a purchase.\<close>

lemma ecom_purchase_ledger:
  assumes "ecom_purchase q e w = (Val res, w')" and "succeeded res" and "working w = None"
    and "ledger_ok (committed w)" and "is_cents (eq_amount q)" "is_cents (eq_fee q)" "is_cents (eq_markup q)"
    and "eq_merchant q \<noteq> []" and "0 < eq_amount q - eq_fee q - eq_markup q" and "0 \<le> eq_fee q" "0 \<le> eq_markup q"
  shows "ledger_total (committed w') = ledger_total (committed w)"
proof -
  from assms(1-3) obtain w1 w2 u where run: "processPurchaseLedger (eq_txn q) (eq_acc q) (eq_merchant q) (eq_amount q)
      (eq_fee q) (eq_markup q) ''ECOM Purchase'' e w1 = (Val u, w2)"
    and w1: "ledger_accs (cur w1) = ledger_accs (committed w)" and w': "committed w' = cur w2"
    unfolding ecom_purchase_def by (clarsimp simp: val_simps getAccountBalance_def Let_def not_less)
  from w1 assms(4) have ok: "ledger_ok (cur w1)" by (simp add: ledger_ok_def)
  from purchase_posted [OF run ok assms(5-7)] assms(8-11) w1 w' show ?thesis
    by (auto simp: posted_def ledger_total_def)
qed

lemma ecom_refund_Val:
  assumes "ecom_refund_apply q orig e w = (Val res, w')" and "succeeded res" and "working w = None"
  shows "\<exists>p r refAmt. find_ecom_purchase orig (committed w) = Some p \<and> find_account (eq_acc q) (committed w) = Some r \<and>
    refAmt = (case t_refunded p of None \<Rightarrow> 0 | Some x \<Rightarrow> x) \<and>
    t_flag p \<noteq> Some ''RF'' \<and> eq_amount q + refAmt \<le> t_amount p \<and>
    money_moved (eq_acc q) CREDIT (acc_balance r + eq_amount q)
      (let ts = mark_refunded ''transaction_ecom'' (t_id p) (dec2 (eq_amount q + refAmt))
                  (if eq_amount q + refAmt = t_amount p then ''RF'' else ''PR'') (txns (committed w))
       in add_txn ''transaction_ecom'' (stored_txn (next_id t_id (ts ''transaction_ecom'')) (now e)
            (ecom_refund_row q orig)) ts) w w'"
  using assms unfolding ecom_refund_apply_def
  by (clarsimp simp: val_simps getEcomPurchaseForUpdate_def getAccountBalance_def Let_def not_less dec_col_Inr
      split del: if_split)
    (drule refund_frame, simp add: money_moved_def ledger_frame_def, rule notI, simp)

lemma ecom_early: "early (\<lambda>j. \<not> succeeded j) (ecom_resolve data)"
  unfolding ecom_resolve_def
  by (rule early_step early_intros | simp)+

text \<open>A success is a purchase with a non-negative charge or a refund.\<close>

lemma ecom_success:
  assumes "processECOMTransactionCore data e w = (Val res, w')" and "succeeded res" and "working w = None"
    and "\<forall>(k, rate)\<in>set (fx_rates (committed w)). 0 \<le> rate"
  shows "\<exists>n w1. ((\<exists>q. n = ecom_purchase q \<and> 0 \<le> eq_amount q) \<or> (\<exists>q orig. n = ecom_refund_apply q orig)) \<and>
     same_db w w1 \<and> n e w1 = (Val res, w')"
proof -
  let ?S = "\<lambda>n. (\<exists>q. n = ecom_purchase q \<and> 0 \<le> eq_amount q) \<or> (\<exists>q orig. n = ecom_refund_apply q orig)"
  have decline: "leads succeeded ?S e v (ecom_decline q reason)" for v q reason
    unfolding ecom_decline_def
    by (rule leads_never, intro leads_intros) (simp add: has_status_def ecom_declined_def jfind_jobj)
  have purchase: "leads succeeded ?S e v (ecom_purchase q)" if "0 \<le> eq_amount q" for v q
    by (rule leads_here) (use that in blast)
  have refund: "leads succeeded ?S e v (ecom_refund_apply q orig)" for v q orig
    by (rule leads_here) blast
  have dispatch: "leads succeeded ?S e v (ecom_dispatch data q)" if "eq_type q = TT_PURCHASE \<Longrightarrow> 0 \<le> eq_amount q" for v q
    unfolding ecom_dispatch_def ecom_refund_def
    by (intro leads_intros reader_intros decline purchase refund) (use that in simp_all)
  have account: "leads succeeded ?S e v (ecom_with_account data ty amount cc client who)" if sv: "same_db w v"
    for v ty amount cc client who
    unfolding ecom_with_account_def getAccountBalanceAndCurrency_def
  proof (intro leads_intros reader_intros dispatch, goal_cases)
    case (4 acc b pan sch m w1 fee w2 x w3 info txn w4 charge w5)
    then have "fx_rates (cur w4) = fx_rates (committed w)"
      using sv assms(3) by (simp add: same_db_def cur_def)
    with 4 assms(4) show ?case by (auto dest!: fx_charge_nonneg)
  qed simp_all
  have "leads succeeded ?S e w (processECOMTransactionCore data)"
    unfolding processECOMTransactionCore_def
  proof (intro leads_intros reader_intros account, goal_cases)
    case (3 x)
    then show ?case by simp
  qed (auto simp: same_db_def dest: earlyD [OF ecom_early])
  from leadsD [OF this assms(1,2)] show ?thesis .
qed

text \<open>Runs of the demonstration instance.\<close>

lemma ecom_purchase_runs:
  assumes f: "fault e = (\<lambda>_. None)" and "find_account (eq_acc q) (cur w) = Some r" and "eq_amount q + eq_fee q \<le> acc_balance r"
    and "\<bar>dec2 (acc_balance r - eq_amount q - eq_fee q)\<bar> < 10 ^ 10" and "\<bar>dec2 (eq_amount q)\<bar> < 10 ^ 10"
    and "\<bar>dec2 (eq_fee q)\<bar> < 10 ^ 8" and "\<bar>dec2 (eq_markup q)\<bar> < 10 ^ 13"
    and "\<bar>dec2 (eq_amount q - eq_fee q - eq_markup q)\<bar> < 10 ^ 13"
  shows "\<exists>res w'. ecom_purchase q e w = (Val res, w') \<and> succeeded res"
proof -
  have "returns e (processPurchaseLedger (eq_txn q) (eq_acc q) (eq_merchant q) (eq_amount q) (eq_fee q) (eq_markup q) d)" for d
    by (rule returns_purchase [OF f]) (use assms in simp_all)
  from returnsD [OF this] obtain g h where led: "\<And>d v. processPurchaseLedger (eq_txn q) (eq_acc q) (eq_merchant q)
      (eq_amount q) (eq_fee q) (eq_markup q) d e v = (Val (g d v), h d v)" by metis
  show ?thesis
    using assms(2-6) unfolding ecom_purchase_def run_flow
    by (simp add: ok_runs [OF f] led not_less Let_def ecom_row_def new_txn_def has_status_def jfind_jobj)
qed

definition demo_ecom :: json where
  "demo_ecom = jobj [(''accountNumber'', JStr ''A''), (''amount'', JInt 10), (''currency'', JStr ''AUD''), (''fee'', JInt 1)]"

lemma demo_ecom_score: "aiThreatScore demo_env (Some demo_ecom) 10 F_ECOM = None"
  by (simp add: aiThreatScore_def risk_of_def demo_ecom_def jobj_def flagRisk_def laterFlagRisk_def addBoolRisk_def
      addFalseRisk_def contextBool_def contextNumber_def boolValue_def nestedBoolValue_def findObject_def
      numberValue_def nestedNumberValue_def integrityRisk_def deviceIntegrity_def stringValue_def
      nestedStringValue_def lowerAscii_def reportedRisk_def trustRisk_def agentRisk_def forwardedRisk_def
      payloadRisk_def deviceIdRisk_def amountRisk_def containsAny_def FALCON_AI_DECLINE_SCORE_def Let_def
      addRisk_def)

text \<open>A world in which the demo purchase succeeds: the books of the small instance, whatever the
  other tables hold.\<close>

definition ecom_ready :: "world \<Rightarrow> bool" where
  "ecom_ready w \<longleftrightarrow> working w = None \<and> lru_map (lru w) = [] \<and> accounts (committed w) = accounts demo_db \<and>
     currencies (committed w) = currencies demo_db \<and> txns (committed w) = (\<lambda>_. [])"

lemma ecom_ready_find:
  assumes "ecom_ready w"
  shows "find_account ''A'' (cur w) = Some (demo_account 1 ''A'' 100)"
    and "currency_code (cur w) (demo_account i a b) = Some ''AUD''"
  using assms by (simp_all add: ecom_ready_def cur_def find_account_def currency_code_def demo_db_def demo_account_def)

lemma demo_ecom_from:
  assumes "ecom_ready w"
  shows "\<exists>res w'. processECOMTransactionCore demo_ecom demo_env w = (Val res, w') \<and> succeeded res"
proof -
  define q where "q = \<lparr>eq_type = TT_PURCHASE, eq_amount = 10, eq_currency = ''AUD'', eq_client = ''u1'', eq_acc = ''A'',
    eq_pan = [], eq_scheme = [], eq_merchant = ''ECOM_MERCHANT'', eq_fee = 1, eq_txn = ''u1'',
    eq_scope = ''DOMESTIC'', eq_markup = 0\<rparr>"
  let ?w = "step_tick (step_tick (step_tick w))"
  have l: "lru_map (lru ?w) = []" and empty: "txns (cur ?w) = (\<lambda>_. [])"
    using assms by (simp_all add: ecom_ready_def step_tick_def cur_def)
  from checkFraud_clear [OF demo_simps(1) demo_ecom_score l, of "''A''"] obtain w1 where
    fraud: "checkFraud ''A'' 10 F_ECOM (Some demo_ecom) demo_env ?w = (Val None, w1)" using empty by auto
  with readerD [OF reader_checkFraud fraud] have "cur w1 = cur w"
    by (simp add: same_db_def cur_def split: option.split)
  then obtain res w' where run: "ecom_purchase q demo_env w1 = (Val res, w')" "succeeded res"
    using ecom_purchase_runs [OF demo_simps(1), of q w1 "demo_account 1 ''A'' 100"] ecom_ready_find [OF assms]
    by (auto simp: q_def)
  have "ecom_dispatch demo_ecom q demo_env (step_tick (step_tick w)) = (Val res, w')"
    using fraud run by (simp add: ecom_dispatch_def newFalcon_def run_flow ok_runs q_def)
  then have "processECOMTransactionCore demo_ecom demo_env w = (Val res, w')"
    by (simp add: processECOMTransactionCore_def ecom_resolve_def ecom_with_account_def fx_charge_def run_flow
        strval_def numval_def correlation_def getAccountBalanceAndCurrency_def ok_runs ecom_ready_find [OF assms]
        demo_ecom_def jobj_def jcontains_def q_def stringToTransactionType_def Let_def)
  with run(2) show ?thesis by blast
qed

lemma demo_ecom_runs:
  "\<exists>res w'. processECOMTransactionCore demo_ecom demo_env demo_world = (Val res, w') \<and> succeeded res"
  by (rule demo_ecom_from) (simp add: ecom_ready_def)

section \<open>Properties\<close>

text \<open>An e-commerce request that does not answer SUCCESS (bad card data, missing account, fraud
  decline, missing funds, an excessive refund, a failing statement or posting) leaves the committed
  books as they were, and its session without an open transaction unless the last statement failed.\<close>

theorem ecom_atomic:
  assumes "processECOMTransactionCore data e w = (Val res, w')" and "working w = None" and "\<not> succeeded res"
  shows "books (committed w') = books (committed w) \<and> (working w' = None \<or> fault e (tick w' - 1) \<noteq> None)"
  using assms by (rule ecom.clean_session)

lemma demo_ecom_refused:
  "\<exists>w'. processECOMTransactionCore (jobj []) demo_env demo_world =
     (Val (errm ''ERR_MISSING_ACCOUNT'' ''accountNumber or card data required''), w')"
  by (simp add: processECOMTransactionCore_def ecom_resolve_def ecom_with_account_def run_flow
      strval_def numval_def ok_runs jobj_def jcontains_def)

lemma ecom_atomic_witness:
  "\<exists>w'. processECOMTransactionCore (jobj []) demo_env demo_world =
     (Val (errm ''ERR_MISSING_ACCOUNT'' ''accountNumber or card data required''), w') \<and> books (committed w') = books demo_db"
proof -
  from demo_ecom_refused obtain w' where run: "processECOMTransactionCore (jobj []) demo_env demo_world =
     (Val (errm ''ERR_MISSING_ACCOUNT'' ''accountNumber or card data required''), w')" by blast
  from ecom_atomic [OF run demo_idle] run show ?thesis by simp
qed

text \<open>C14: Refunds never exceed the purchase. Whatever a request asks for and however its run ends,
  the amount marked as refunded on every purchase row stays at most the amount of that purchase,
  over any number of partial refunds, and row identifiers stay unique.\<close>

theorem ecom_refunds_bounded:
  assumes "processECOMTransactionCore data e w = (r, w')" and "working w = None"
    and "\<forall>(k, rate)\<in>set (fx_rates (committed w)). 0 \<le> rate"
    and "refunds_within ''ECOM purchase success'' (txns (committed w) ''transaction_ecom'')"
  shows "refunds_within ''ECOM purchase success'' (txns (committed w') ''transaction_ecom'')"
proof (cases "\<exists>res. r = Val res \<and> succeeded res")
  case False
  with ecom.atomic [OF assms(1,2)] assms(4) show ?thesis by (auto simp: books_def)
next
  case True
  with assms(1) obtain res where "processECOMTransactionCore data e w = (Val res, w')" and ok: "succeeded res" by auto
  from ecom_success [OF this assms(2,3)] obtain n w1 where
    n: "(\<exists>q. n = ecom_purchase q \<and> 0 \<le> eq_amount q) \<or> (\<exists>q orig. n = ecom_refund_apply q orig)"
    and run: "n e w1 = (Val res, w')" and "same_db w w1" by blast
  then have w1: "working w1 = None" "committed w1 = committed w" using assms(2) by (simp_all add: same_db_def)
  from n show ?thesis
  proof (elim disjE exE conjE)
    fix q assume "n = ecom_purchase q" "0 \<le> eq_amount q"
    with ecom_purchase_Val [of q e w1 res w'] run ok w1 assms(4) show ?thesis
      by (auto simp: money_moved_def add_txn_def ecom_row_def new_txn_def dec2_nonneg intro!: refunds_within_add)
  next
    fix q orig assume "n = ecom_refund_apply q orig"
    with ecom_refund_Val [of q orig e w1 res w'] run ok w1 obtain p x flag row where
      p: "find_ecom_purchase orig (committed w) = Some p" and le: "x \<le> t_amount p"
      and t: "txns (committed w') ''transaction_ecom'' = upd_rows (\<lambda>r. t_id r = t_id p)
          (\<lambda>r. r\<lparr>t_refunded := Some (dec2 x), t_flag := Some flag\<rparr>) (txns (committed w) ''transaction_ecom'') @
          [stored_txn (next_id t_id (upd_rows (\<lambda>r. t_id r = t_id p)
          (\<lambda>r. r\<lparr>t_refunded := Some (dec2 x), t_flag := Some flag\<rparr>) (txns (committed w) ''transaction_ecom''))) (now e) row]"
      and row: "t_message row = ''ECOM refund success''"
      by (fastforce simp: money_moved_def add_txn_def mark_refunded_def Let_def ecom_refund_row_def new_txn_def)
    from p have "p \<in> set (txns (committed w) ''transaction_ecom'')" "t_message p = ''ECOM purchase success''"
      by (auto simp: find_ecom_purchase_def find_Some_iff)
    then show ?thesis
      unfolding t using le row assms(4) by (intro refunds_within_add refunds_within_mark) auto
  qed
qed

lemma ecom_refunds_bounded_witness:
  "\<exists>res w'. processECOMTransactionCore demo_ecom demo_env demo_world = (Val res, w') \<and> succeeded res \<and>
     refunds_within ''ECOM purchase success'' (txns (committed w') ''transaction_ecom'')"
proof -
  from demo_ecom_runs obtain res w' where run: "processECOMTransactionCore demo_ecom demo_env demo_world = (Val res, w')"
    "succeeded res" by blast
  from ecom_refunds_bounded [OF run(1) demo_idle] run show ?thesis by (auto simp: refunds_within_def)
qed

text \<open>A purchase that succeeds was covered by the balance, charges exactly amount and fee under
  the account's debit lock, appends one row with the request's data and commits; its ledger postings
  keep the sum of the running balances when a merchant is named and the amounts are whole cents.\<close>

theorem ecom_purchase_effect:
  assumes "ecom_purchase q e w = (Val res, w')" and "succeeded res" and "working w = None"
    and "ledger_ok (committed w)" and "is_cents (eq_amount q)" "is_cents (eq_fee q)" "is_cents (eq_markup q)"
    and "eq_merchant q \<noteq> []" and "0 < eq_amount q - eq_fee q - eq_markup q" and "0 \<le> eq_fee q" "0 \<le> eq_markup q"
  shows "(\<exists>r i. find_account (eq_acc q) (committed w) = Some r \<and> eq_amount q + eq_fee q \<le> acc_balance r \<and>
      i = next_id t_id (txns (committed w) ''transaction_ecom'') \<and>
      money_moved (eq_acc q) DEBIT (acc_balance r - eq_amount q - eq_fee q)
        (add_txn ''transaction_ecom'' (stored_txn i (now e) (ecom_row q)) (txns (committed w))) w w') \<and>
    ledger_total (committed w') = ledger_total (committed w)"
  using ecom_purchase_Val [OF assms(1-3)] ecom_purchase_ledger [OF assms] by blast

lemma ecom_purchase_effect_witness:
  "\<exists>q res w'. ecom_purchase q demo_env demo_world = (Val res, w') \<and> succeeded res \<and>
     ledger_total (committed w') = ledger_total demo_db"
proof -
  define q where "q = \<lparr>eq_type = TT_PURCHASE, eq_amount = 10, eq_currency = ''AUD'', eq_client = ''c'', eq_acc = ''A'',
    eq_pan = [], eq_scheme = [], eq_merchant = ''M'', eq_fee = 1, eq_txn = ''t'', eq_scope = ''DOMESTIC'', eq_markup = 0\<rparr>"
  obtain res w' where run: "ecom_purchase q demo_env demo_world = (Val res, w')" "succeeded res"
    using ecom_purchase_runs [OF demo_simps(1), of q demo_world "demo_account 1 ''A'' 100"] by (auto simp: q_def)
  from ecom_purchase_effect [OF run demo_idle] run demo_ledger_ok show ?thesis by (auto simp: q_def)
qed

end
