(* ===== verification/Pos.thy ===== *)
theory Pos
  imports Falcon Ledger Constants
begin

text \<open>
  \<^verbatim>\<open>pos.cpp\<close>: card purchases at a terminal and their one refund. The refund opens its
  transaction outside any \<^verbatim>\<open>try\<close> that rolls back, so a NULL in the purchase row leaves
  the transaction open; the books are safe all the same.
\<close>

definition POS_MAX_SINGLE :: money where "POS_MAX_SINGLE = 50000"
definition POS_TIMEOUT_SEC :: nat where "POS_TIMEOUT_SEC = 5"

section \<open>Purchase\<close>

text \<open>The checks of the card: its decrypted number and its row.\<close>

definition pos_card :: "json \<Rightarrow> (json + string \<times> card_row) M" where
  "pos_card cardObj =
     mbind (strval cardObj ''expiry'') (\<lambda>expiry.
     mbind (strval cardObj ''cvv'') (\<lambda>cvv.
     if \<not> jcontains cardObj ''pan'' then mret (Inl (errm ''ERR_MISSING_PAN'' ''Card PAN is required''))
     else
     mbind (or_answer (mbind (mlift (jat_str cardObj ''pan'')) decrypt)
              (\<lambda>x. errm ''ERR_INVALID_ENCRYPTED_PAN'' (what x))) (\<lambda>r. case r of
       Inl j \<Rightarrow> mret (Inl j)
     | Inr pan \<Rightarrow>
       mbind (optional_pin cardObj pan) (\<lambda>ok.
       if \<not> ok then mret (Inl (errm ''ERR_INVALID_PIN'' ''PIN verification failed''))
       else
       mbind (select_card pan) (\<lambda>cardRes. case cardRes of
         None \<Rightarrow> mret (Inl (err0 ''ERR_CARD_NOT_FOUND''))
       | Some row \<Rightarrow>
         if expiry \<noteq> [] \<and> expiry \<noteq> card_expiry row then
           mret (Inl (errm ''ERR_INVALID_EXPIRY'' ''Wrong expiry date''))
         else if cvv \<noteq> [] \<and> cvv \<noteq> or_empty (card_cvv row) then
           mret (Inl (errm ''ERR_INVALID_CVV'' ''Wrong CVV''))
         else if card_status row \<noteq> ''ACTIVE'' then mret (Inl (err0 ''ERR_CARD_INACTIVE''))
         else mret (Inr (pan, row)))))))"

record pos_req =
  pq_txn :: string
  pq_client :: string
  pq_merchant :: string
  pq_terminal :: string
  pq_location :: string
  pq_amount :: money
  pq_fee :: money

definition pos_row :: "pos_req \<Rightarrow> string \<Rightarrow> string \<Rightarrow> string \<Rightarrow> money \<Rightarrow> txn_row" where
  "pos_row q acc pan scheme amount =
     (new_txn (pq_txn q) (pq_client q) acc amount (pq_fee q) ''SUCCESS'' ''POS purchase successful'')
       \<lparr>t_merchant := Some (pq_merchant q), t_pan := Some pan,
        t_extra := [(''terminal_id'', pq_terminal q), (''location'', pq_location q), (''card_scheme'', scheme)]\<rparr>"

text \<open>Inside the account's lock: \<open>amount\<close> and \<open>markup\<close> are those after a conversion.\<close>

definition pos_charge :: "pos_req \<Rightarrow> string \<Rightarrow> string \<Rightarrow> string \<Rightarrow> money \<Rightarrow> money \<Rightarrow> json M" where
  "pos_charge q acc pan scheme amount markup = withLock acc DEBIT (in_txn_fail (err0 ''ERR_DB_FAILURE'')
     (mbind (getAccountBalance acc) (\<lambda>balRes. case balRes of
        None \<Rightarrow> reject (err0 ''ERR_ACCOUNT_NOT_FOUND'')
      | Some balance \<Rightarrow>
        if balance < amount + pq_fee q then reject (err0 ''ERR_INSUFFICIENT_FUNDS'')
        else
          mthen (updateAccountBalance acc (balance - (amount + pq_fee q)))
          (mbind (insert_txn ''transaction_pos'' 12 (pos_row q acc pan scheme amount)) (\<lambda>refId.
           mthen (insert_master ''transaction_pos'' refId ''SUCCESS'')
           (mthen (processPurchaseLedger (pq_txn q) acc (pq_merchant q) amount (pq_fee q) markup ''POS Purchase'')
           (mthen commit
           (mthen (touch_card (\<lambda>c. card_pan c = pan))
           (mret (jobj [(''transactionId'', JStr (pq_txn q)), (''status'', JStr ''SUCCESS''),
              (''balanceAfter'', JNum (balance - (amount + pq_fee q))),
              (''message'', JStr ''POS purchase successful'')]))))))))))"

definition pos_decline :: "pos_req \<Rightarrow> string \<Rightarrow> string \<Rightarrow> json M" where
  "pos_decline q acc reason =
     mthen (logFraud (pq_txn q) (pq_client q) (pq_terminal q) [] acc (pq_amount q) reason)
     (mret (jobj [(''status'', JStr ''DECLINED''), (''message'', JStr reason)]))"

text \<open>The account's currency, \<^verbatim>\<open>AUD\<close> when the join finds none.\<close>

definition pos_currency :: "string \<Rightarrow> string M" where
  "pos_currency acc = query (\<lambda>e d. case find_account acc d of None \<Rightarrow> ''AUD''
     | Some r \<Rightarrow> (case currency_code d r of None \<Rightarrow> ''AUD'' | Some c \<Rightarrow> c))"

definition pos_checked :: "json \<Rightarrow> pos_req \<Rightarrow> string \<times> card_row \<Rightarrow> json M" where
  "pos_checked data q who = (case who of (pan, row) \<Rightarrow>
     mthen newFalcon
     (mbind (checkFraud (card_acc row) (pq_amount q) F_POS (Some data)) (\<lambda>fraud. case fraud of
        Some reason \<Rightarrow> pos_decline q (card_acc row) reason
      | None \<Rightarrow>
        mbind (mlift (jvalue_str data ''currency'' ''AUD'')) (\<lambda>reqCurrency.
        mbind (pos_currency (card_acc row)) (\<lambda>accCurrency.
        mbind (fx_charge accCurrency reqCurrency (pq_amount q)) (\<lambda>charge.
        pos_charge q (card_acc row) pan (or_empty (card_scheme row)) (fst charge) (snd charge)))))))"

definition purchase :: "json \<Rightarrow> json M" where
  "purchase data = mcatch
     (if \<not> jcontains data ''card'' then mret (err0 ''ERR_MISSING_CARD'')
      else
      mbind (mlift (jat data ''card'')) (\<lambda>cardObj.
      mbind (correlation data) (\<lambda>txnId.
      mbind (mlift (jvalue_str data ''clientTxnId'' txnId)) (\<lambda>clientId.
      mbind (strval data ''merchantId'') (\<lambda>merchantId.
      mbind (strval data ''terminalId'') (\<lambda>terminalId.
      mbind (strval data ''location'') (\<lambda>location.
      mbind (numval data ''amount'') (\<lambda>amount.
      mbind (numval data ''fee'') (\<lambda>fee.
      if amount \<le> 0 then mret (errm ''ERR_INVALID_AMOUNT'' ''Amount must be > 0'')
      else if amount > POS_MAX_SINGLE then mret (errm ''ERR_SINGLE_LIMIT'' ''Exceeds POS single limit'')
      else mbind (pos_card cardObj) (\<lambda>r. case r of
         Inl j \<Rightarrow> mret j
       | Inr who \<Rightarrow> pos_checked data \<lparr>pq_txn = txnId, pq_client = clientId, pq_merchant = merchantId,
           pq_terminal = terminalId, pq_location = location, pq_amount = amount, pq_fee = fee\<rparr> who))))))))))
     (\<lambda>x. mret (errm ''ERR_EXCEPTION'' (what x)))"

section \<open>Refund\<close>

definition find_pos :: "string \<Rightarrow> db \<Rightarrow> txn_row option" where
  "find_pos orig d = List.find (\<lambda>r. t_txn_id r = orig) (txns d ''transaction_pos'')"

definition pos_refund_row :: "pos_req \<Rightarrow> string \<Rightarrow> string \<Rightarrow> nat \<Rightarrow> txn_row" where
  "pos_refund_row q acc origPan i =
     (new_txn (pq_txn q) (pq_client q) acc (pq_amount q) 0 ''SUCCESS'' ''POS refund successful'')
       \<lparr>t_merchant := Some (pq_merchant q), t_pan := Some origPan, t_orig := Some i,
        t_extra := [(''terminal_id'', pq_terminal q), (''location'', pq_location q)]\<rparr>"

text \<open>\<^verbatim>\<open>try { \<dots> } catch (...) { rollback; return err; }\<close> inside an open transaction.\<close>

definition pos_refund_write :: "pos_req \<Rightarrow> txn_row \<Rightarrow> string \<Rightarrow> money \<Rightarrow> json M" where
  "pos_refund_write q p origPan balance =
     (let netRefund = pq_amount q - t_fee p; newFlag = (if pq_amount q = t_amount p then ''RF'' else ''PR'')
      in mcatch
       (mthen (updateAccountBalance (t_acc p) (balance + netRefund))
        (mthen (set_refund ''transaction_pos'' Inr (t_id p) (pq_amount q) newFlag)
        (mbind (insert_txn ''transaction_pos'' 12 (pos_refund_row q (t_acc p) origPan (t_id p))) (\<lambda>refId.
         mthen (insert_master ''transaction_pos'' refId ''SUCCESS'')
         (mthen (processRefundLedger (pq_txn q) (t_acc p) (pq_merchant q) netRefund ''POS Refund'')
         (mthen commit
         (mret (jobj [(''transactionId'', JStr (pq_txn q)), (''status'', JStr ''SUCCESS''),
            (''flag'', JStr newFlag), (''netRefund'', JNum netRefund), (''accountNumber'', JStr (t_acc p)),
            (''message'', JStr ''POS refund successful'')]))))))))
       (\<lambda>_. reject (errm ''ERR_DB_FAILURE'' (''Database error during refund'' @ em_dash @ ''transaction rolled back''))))"

text \<open>Guard 3: the card of the request, when it names one.\<close>

definition pos_refund_card :: "json \<Rightarrow> string \<Rightarrow> (json + unit) M" where
  "pos_refund_card data origPan =
     (if jcontains data ''card'' then
        mbind (mlift (jat data ''card'')) (\<lambda>cardObj.
        if jcontains cardObj ''pan'' then
          mbind (or_answer (mbind (mlift (jat_str cardObj ''pan'')) decrypt)
                   (\<lambda>x. errm ''ERR_INVALID_ENCRYPTED_PAN'' (what x))) (\<lambda>r. case r of
            Inl j \<Rightarrow> mret (Inl j)
          | Inr refundPan \<Rightarrow>
              if refundPan \<noteq> origPan then mret (Inl (errm ''ERR_CARD_MISMATCH''
                ''The card provided does not match the card used in the original purchase''))
              else mret (Inr ()))
        else mret (Inr ()))
      else mret (Inr ()))"

definition pos_refund_balance :: "string \<Rightarrow> (json + money) M" where
  "pos_refund_balance acc = mcatch
     (mbind (getAccountBalance acc) (\<lambda>balRes. case balRes of
        None \<Rightarrow> mthen rollback (mret (Inl (err0 ''ERR_ACCOUNT_NOT_FOUND'')))
      | Some b \<Rightarrow> mret (Inr b)))
     (\<lambda>_. mthen rollback (mret (Inl (errm ''ERR_DB_FAILURE'' ''Database error fetching account balance''))))"

definition pos_refund_row_found :: "json \<Rightarrow> pos_req \<Rightarrow> txn_row \<Rightarrow> json M" where
  "pos_refund_row_found data q p =
     mbind (not_null (t_pan p)) (\<lambda>origPan.
     mbind (not_null (t_flag p)) (\<lambda>flag.
     (let refAmt = (case t_refunded p of None \<Rightarrow> 0 | Some x \<Rightarrow> x) in
      if t_message p \<noteq> ''POS purchase successful'' then
        reject (errm ''ERR_INVALID_REFUND_SOURCE'' ''origTransactionId does not reference a POS purchase'')
      else if or_empty (t_merchant p) \<noteq> pq_merchant q then
        reject (errm ''ERR_MERCHANT_MISMATCH''
          ''Refund can only be issued by the merchant who made the original sale'')
      else mbind (pos_refund_card data origPan) (\<lambda>r. case r of
        Inl j \<Rightarrow> reject j
      | Inr _ \<Rightarrow>
        if flag \<noteq> ''N'' \<or> refAmt > 0 then
          reject (errm ''ERR_ALREADY_REFUNDED'' ''This purchase has already been refunded'')
        else if pq_amount q \<le> 0 \<or> pq_amount q > t_amount p then
          reject (errm ''ERR_INVALID_REFUND_AMOUNT''
            ''Refund amount must be greater than 0 and cannot exceed the purchase amount'')
        else mbind (pos_refund_balance (t_acc p)) (\<lambda>b. case b of
          Inl j \<Rightarrow> mret j
        | Inr balance \<Rightarrow>
          if pq_amount q \<le> t_fee p then
            reject (errm ''ERR_AMOUNT_LESS_THAN_FEE'' ''Refund amount must be greater than the transaction fee'')
          else pos_refund_write q p origPan balance)))))"

definition pos_refund_locked :: "json \<Rightarrow> pos_req \<Rightarrow> string \<Rightarrow> json M" where
  "pos_refund_locked data q orig =
     mthen startTransaction
     (mbind (mcatch (mbind (query (\<lambda>e d. find_pos orig d)) (\<lambda>x. mret (Inr x)))
               (\<lambda>_. mthen rollback (mret (Inl (errm ''ERR_DB_FAILURE'' ''Failed to lookup original transaction'')))))
     (\<lambda>pRes. case pRes of
        Inl j \<Rightarrow> mret j
      | Inr found \<Rightarrow> (case found of
          None \<Rightarrow> reject (errm ''ERR_PURCHASE_NOT_FOUND'' ''Original purchase transaction not found'')
        | Some p \<Rightarrow> pos_refund_row_found data q p)))"

definition refund :: "json \<Rightarrow> json M" where
  "refund data = mcatch
     (mbind (correlation data) (\<lambda>txnId.
      mbind (mlift (jvalue_str data ''clientTxnId'' txnId)) (\<lambda>clientId.
      mbind (strval data ''origTransactionId'') (\<lambda>orig.
      mbind (numval data ''amount'') (\<lambda>amount.
      mbind (strval data ''merchantId'') (\<lambda>merchantId.
      mbind (strval data ''terminalId'') (\<lambda>terminalId.
      mbind (strval data ''location'') (\<lambda>location.
      if orig = [] then mret (errm ''ERR_INVALID_ORIG_TXN'' ''origTransactionId required'')
      else if merchantId = [] then
        mret (errm ''ERR_MISSING_MERCHANT'' ''merchantId is required for refund'')
      else
      mbind (query (\<lambda>e d. case find_pos orig d of None \<Rightarrow> [] | Some p \<Rightarrow> t_acc p)) (\<lambda>acc.
      (let q = \<lparr>pq_txn = txnId, pq_client = clientId, pq_merchant = merchantId, pq_terminal = terminalId,
                pq_location = location, pq_amount = amount, pq_fee = 0\<rparr>
       in if acc \<noteq> [] then withLock acc CREDIT (pos_refund_locked data q orig)
          else pos_refund_locked data q orig))))))))))
     (\<lambda>x. mret (errm ''ERR_EXCEPTION'' (what x)))"

section \<open>Dispatch and entry point\<close>

fun POS_DISPATCH :: "TransactionType \<Rightarrow> (json \<Rightarrow> json M) option" where
  "POS_DISPATCH TT_PURCHASE = Some purchase"
| "POS_DISPATCH TT_REFUND = Some refund"
| "POS_DISPATCH _ = None"

definition pos_async :: "json \<Rightarrow> json M" where
  "pos_async data =
     mbind (strval data ''transactionType'') (\<lambda>_.
     mthen scopedConnection
     (mbind (strval data ''transactionType'') (\<lambda>txnTypeStr.
      case POS_DISPATCH (stringToTransactionType txnTypeStr) of
        None \<Rightarrow> mret (errm ''ERR_INVALID_TYPE'' (''Unsupported POS type: '' @ txnTypeStr))
      | Some handler \<Rightarrow> handler data)))"

definition pos_timeout :: json where
  "pos_timeout = jobj [(''status'', JStr ''DECLINED''), (''errorCode'', JStr ''ERR_TIMEOUT'')]"

definition processPOSTransaction :: "json \<Rightarrow> json M" where
  "processPOSTransaction data =
     mbind (strval data ''transactionType'') (\<lambda>_.
     mcatch
       (mbind (correlation data) (\<lambda>_.
        mbind (asks timed_out) (\<lambda>late.
        if late then mthen (mcatch (mthen (pos_async data) (mret ())) (\<lambda>_. mret ())) (mret pos_timeout)
        else pos_async data)))
       (\<lambda>x. mret (errm ''ERR_FATAL'' (what x))))"

section \<open>The contract\<close>

lemma reader_pos_card [reader_intros]: "reader (pos_card cardObj)"
  and reader_pos_refund_card [reader_intros]: "reader (pos_refund_card data pan)"
  and reader_pos_currency [reader_intros]: "reader (pos_currency acc)"
  unfolding pos_card_def pos_refund_card_def pos_currency_def by (intro reader_intros)+

lemmas keeps_pos [keeps_intros] = reader_keeps_Idle [OF reader_pos_card]
  reader_keeps_InTx [OF reader_pos_refund_card] reader_keeps_Idle [OF reader_pos_currency]

lemma hc_pos_charge [hc_intros]: "handler_code succeeded e c (pos_charge q acc pan sch x m)"
  unfolding pos_charge_def
  by (intro hc_intros tx_intros keeps_intros) (simp add: has_status_def jfind_jobj)

lemma hc_purchase [hc_intros]: "handler_code succeeded e c (purchase data)"
  unfolding purchase_def pos_checked_def pos_decline_def
  by (intro hc_intros keeps_intros)

lemma t_pos_balance:
  "triple e (InTx c) (pos_refund_balance acc) (\<lambda>r w. case r of Inl j \<Rightarrow> Safe e c w | Inr x \<Rightarrow> InTx c w)
     (Unchanged c) (Unchanged c)"
  unfolding pos_refund_balance_def
proof (rule t_catch [OF _ t_rollback_answer])
  show "triple e (InTx c) (mbind (getAccountBalance acc) (\<lambda>balRes. case balRes of
        None \<Rightarrow> mthen rollback (mret (Inl (err0 ''ERR_ACCOUNT_NOT_FOUND''))) | Some b \<Rightarrow> mret (Inr b)))
      (\<lambda>r w. case r of Inl j \<Rightarrow> Safe e c w | Inr x \<Rightarrow> InTx c w) (Unchanged c) (Unchanged c)"
    by (rule t_bind [OF keeps_conseq [OF keeps_getAccountBalance InTx_Unchanged InTx_Unchanged]])
      (auto intro!: t_option t_ret t_conseq [OF t_rollback_answer] intro: InTx_Unchanged)
qed

lemma t_pos_lookup:
  "triple e (InTx c) (mcatch (mbind (query f) (\<lambda>x. mret (Inr x))) (\<lambda>_. mthen rollback (mret (Inl j))))
     (\<lambda>r w. case r of Inl j \<Rightarrow> Safe e c w | Inr x \<Rightarrow> InTx c w) (Unchanged c) (Unchanged c)"
  by (rule t_catch [OF t_bind [OF keeps_conseq [OF keeps_query_InTx InTx_Unchanged InTx_Unchanged]] t_rollback_answer])
    (auto intro!: t_ret)

lemma tx_pos_refund: "txn_code succeeded e c (pos_refund_row_found data q p)"
  unfolding pos_refund_row_found_def pos_refund_write_def
  by (intro tx_intros tx_sum keeps_intros t_pos_balance tx_catch_reject) (simp add: has_status_def jfind_jobj)

lemma lc_pos_refund: "loose_code succeeded e c (pos_refund_locked data q orig)"
  unfolding pos_refund_locked_def
  by (intro lc_intros tx_intros t_pos_lookup tx_pos_refund)

text \<open>A handler that catches without rolling back keeps the books, not the session.\<close>

lemma bc_refund [bc_intros]: "books_code succeeded e c (refund data)"
  unfolding refund_def
  by (intro bc_intros bc_loose lc_intros lc_pos_refund keeps_intros)

lemma bc_pos_async: "books_code succeeded e c (pos_async data)"
proof -
  have "books_code succeeded e c (handler data)" if "POS_DISPATCH ty = Some handler" for ty handler
    using that by (cases ty) (auto intro: bc_intros bc_handler hc_purchase)
  then show ?thesis
    unfolding pos_async_def by (intro bc_intros keeps_intros) blast
qed

interpretation pos: books_handler pos_async succeeded
  by unfold_locales (rule bc_pos_async [unfolded books_code_def])

interpretation pos_purchase: channel_handler purchase succeeded
  by unfold_locales (rule hc_purchase)

section \<open>Runs that succeed\<close>

lemma pos_charge_Val:
  assumes "pos_charge q acc pan sch amount m e w = (Val res, w')" and "succeeded res" and "working w = None"
  shows "\<exists>r i. find_account acc (committed w) = Some r \<and> amount + pq_fee q \<le> acc_balance r \<and>
    i = next_id t_id (txns (committed w) ''transaction_pos'') \<and>
    money_moved acc DEBIT (acc_balance r - (amount + pq_fee q))
      (add_txn ''transaction_pos'' (stored_txn i (now e) (pos_row q acc pan sch amount)) (txns (committed w))) w w'"
  using assms unfolding pos_charge_def
  by (clarsimp simp: val_simps getAccountBalance_def Let_def not_less)
    (drule purchase_frame, drule touch_Val, simp,
     simp add: money_moved_def ledger_frame_def same_money_def books_def)

text \<open>What a refund that succeeds found and wrote.\<close>

definition pos_refunded :: "pos_req \<Rightarrow> string \<Rightarrow> env \<Rightarrow> world \<Rightarrow> world \<Rightarrow> bool" where
  "pos_refunded q orig e w w' \<longleftrightarrow> (\<exists>p pan r flag. find_pos orig (committed w) = Some p \<and> t_pan p = Some pan \<and>
     t_message p = ''POS purchase successful'' \<and> or_empty (t_merchant p) = pq_merchant q \<and>
     t_flag p = Some ''N'' \<and> (case t_refunded p of None \<Rightarrow> True | Some x \<Rightarrow> x \<le> 0) \<and>
     0 < pq_amount q \<and> t_fee p < pq_amount q \<and> pq_amount q \<le> t_amount p \<and>
     find_account (t_acc p) (committed w) = Some r \<and> flag \<in> {''RF'', ''PR''} \<and>
     accounts (committed w') =
       set_balance (t_acc p) (dec2 (acc_balance r + (pq_amount q - t_fee p))) (accounts (committed w)) \<and>
     (let ts = mark_refunded ''transaction_pos'' (t_id p) (pq_amount q) flag (txns (committed w))
      in txns (committed w') = add_txn ''transaction_pos''
           (stored_txn (next_id t_id (ts ''transaction_pos'')) (now e) (pos_refund_row q (t_acc p) pan (t_id p))) ts) \<and>
     working w' = None)"

lemma pos_balance_Val:
  assumes "pos_refund_balance acc e w = (Val (Inr b), w')"
  shows "fault e (tick w) = None \<and> (\<exists>r. find_account acc (cur w) = Some r \<and> b = acc_balance r) \<and> w' = step_tick w"
  using assms unfolding pos_refund_balance_def getAccountBalance_def by (auto simp: val_simps)

lemma pos_balance_Inl:
  assumes "pos_refund_balance acc e w = (Val (Inl j), w')"
  shows "\<not> succeeded j"
  using assms unfolding pos_refund_balance_def getAccountBalance_def by (auto simp: val_simps)

lemma pos_card_Inl:
  assumes "pos_refund_card data pan e w = (Val (Inl j), w')" and "reject j e' v = (Val res, v')"
  shows "\<not> succeeded res"
proof -
  have "early (\<lambda>j. \<not> succeeded j) (pos_refund_card data pan)"
    unfolding pos_refund_card_def by (rule early_step early_intros | simp)+
  from earlyD [OF this assms(1)] assms(2) show ?thesis by (auto simp: reject_def val_simps)
qed

lemma pos_write_Val:
  assumes "pos_refund_write q p pan b e w = (Val res, w')" and "succeeded res" and "working w = Some d"
  shows "\<exists>flag. flag \<in> {''RF'', ''PR''} \<and> working w' = None \<and>
    accounts (committed w') = set_balance (t_acc p) (dec2 (b + (pq_amount q - t_fee p))) (accounts d) \<and>
    (let ts = mark_refunded ''transaction_pos'' (t_id p) (pq_amount q) flag (txns d)
     in txns (committed w') = add_txn ''transaction_pos''
          (stored_txn (next_id t_id (ts ''transaction_pos'')) (now e) (pos_refund_row q (t_acc p) pan (t_id p))) ts)"
  using assms unfolding pos_refund_write_def
  by (clarsimp simp: val_simps Let_def split del: if_split)
    (drule refund_frame, rule exI [where x = "if pq_amount q = t_amount p then ''RF'' else ''PR''"],
     simp add: ledger_frame_def)

lemma pos_found_Val:
  assumes run: "pos_refund_row_found data q p e w = (Val res, w')" and ok: "succeeded res"
    and w: "working w = Some d" and p: "find_pos orig d = Some p" and d: "committed v = d"
  shows "pos_refunded q orig e v w'"
proof -
  from run ok obtain pan w1 w2 w3 b where pan: "t_pan p = Some pan" and flag: "t_flag p = Some ''N''"
    and msg: "t_message p = ''POS purchase successful''" "or_empty (t_merchant p) = pq_merchant q"
    and cd: "pos_refund_card data pan e w = (Val (Inr ()), w1)"
    and amt: "0 < pq_amount q" "pq_amount q \<le> t_amount p" "t_fee p < pq_amount q"
    and ref: "case t_refunded p of None \<Rightarrow> True | Some x \<Rightarrow> x \<le> 0"
    and bal: "pos_refund_balance (t_acc p) e w1 = (Val (Inr b), w2)"
    and wr: "pos_refund_write q p pan b e w2 = (Val res, w')"
    unfolding pos_refund_row_found_def
    by (auto simp: val_simps Let_def not_less not_le split: option.splits dest!: pos_balance_Inl dest: pos_card_Inl)
  from readerD [OF reader_pos_refund_card cd] w have w1: "working w1 = Some d" by (simp add: same_db_def)
  from pos_balance_Val [OF bal] w1 obtain r where r: "find_account (t_acc p) d = Some r" "b = acc_balance r"
    and w2: "working w2 = Some d" by (auto simp: cur_def)
  from pos_write_Val [OF wr ok w2] obtain f where "f \<in> {''RF'', ''PR''}" "working w' = None"
    "accounts (committed w') = set_balance (t_acc p) (dec2 (b + (pq_amount q - t_fee p))) (accounts d)"
    "(let ts = mark_refunded ''transaction_pos'' (t_id p) (pq_amount q) f (txns d)
     in txns (committed w') = add_txn ''transaction_pos''
          (stored_txn (next_id t_id (ts ''transaction_pos'')) (now e) (pos_refund_row q (t_acc p) pan (t_id p))) ts)" by blast
  with pan flag msg amt ref r p d show ?thesis
    unfolding pos_refunded_def by (intro exI [of _ p] exI [of _ pan] exI [of _ r] exI [of _ f]) simp
qed

lemma pos_locked_Val:
  assumes "pos_refund_locked data q orig e w = (Val res, w')" and "succeeded res" and "working w = None"
  shows "pos_refunded q orig e w w'"
proof -
  define w1 where "w1 = (step_tick w)\<lparr>committed := committed w, working := Some (committed w)\<rparr>"
  from assms obtain p w2 where p: "find_pos orig (committed w) = Some p"
    and run: "pos_refund_row_found data q p e w2 = (Val res, w')" and w2: "working w2 = Some (committed w)"
    unfolding pos_refund_locked_def by (auto simp: val_simps)
  from pos_found_Val [OF run assms(2) w2 p refl] show ?thesis .
qed

lemma pos_refunded_log [simp]:
  "pos_refunded q orig e (log_lock ev w) w' = pos_refunded q orig e w w'"
  "pos_refunded q orig e w (log_lock ev w') = pos_refunded q orig e w w'"
  by (simp_all add: pos_refunded_def)

lemma refund_success:
  assumes run: "refund data e w = (Val res, w')" and ok: "succeeded res" and idle: "working w = None"
  shows "\<exists>q orig. jvalue_str data ''origTransactionId'' [] = Val orig \<and>
     jvalue_num data ''amount'' 0 = Val (pq_amount q) \<and> pos_refunded q orig e w w'"
proof -
  let ?S = "\<lambda>n. \<exists>q orig acc. jvalue_str data ''origTransactionId'' [] = Val orig \<and>
     jvalue_num data ''amount'' 0 = Val (pq_amount q) \<and>
     (n = withLock acc CREDIT (pos_refund_locked data q orig) \<or> n = pos_refund_locked data q orig)"
  have locked: "leads succeeded ?S e' v (if b then withLock acc CREDIT (pos_refund_locked data q orig)
      else pos_refund_locked data q orig)"
    if "jvalue_str data ''origTransactionId'' [] = Val orig" "jvalue_num data ''amount'' 0 = Val (pq_amount q)"
    for e' v b acc q orig
    by (intro leads_if leads_here) (use that in blast)+
  have "leads succeeded ?S e w (refund data)"
    unfolding refund_def Let_def
  proof (intro leads_catch)
    show "leads succeeded ?S e w (mbind (correlation data) (\<lambda>txnId.
      mbind (mlift (jvalue_str data ''clientTxnId'' txnId)) (\<lambda>clientId.
      mbind (strval data ''origTransactionId'') (\<lambda>orig.
      mbind (numval data ''amount'') (\<lambda>amount.
      mbind (strval data ''merchantId'') (\<lambda>merchantId.
      mbind (strval data ''terminalId'') (\<lambda>terminalId.
      mbind (strval data ''location'') (\<lambda>location.
      if orig = [] then mret (errm ''ERR_INVALID_ORIG_TXN'' ''origTransactionId required'')
      else if merchantId = [] then
        mret (errm ''ERR_MISSING_MERCHANT'' ''merchantId is required for refund'')
      else
      mbind (query (\<lambda>e d. case find_pos orig d of None \<Rightarrow> [] | Some p \<Rightarrow> t_acc p)) (\<lambda>acc.
        if acc \<noteq> [] then withLock acc CREDIT (pos_refund_locked data \<lparr>pq_txn = txnId, pq_client = clientId,
            pq_merchant = merchantId, pq_terminal = terminalId, pq_location = location, pq_amount = amount, pq_fee = 0\<rparr> orig)
          else pos_refund_locked data \<lparr>pq_txn = txnId, pq_client = clientId,
            pq_merchant = merchantId, pq_terminal = terminalId, pq_location = location, pq_amount = amount, pq_fee = 0\<rparr> orig)))))))))"
      by (intro leads_intros reader_intros locked) (simp_all add: strval_def numval_def val_simps)
  qed (intro leads_intros, simp)
  from leadsD [OF this run ok] obtain n w1 q orig acc where
    q: "jvalue_str data ''origTransactionId'' [] = Val orig" "jvalue_num data ''amount'' 0 = Val (pq_amount q)"
    and n: "n = withLock acc CREDIT (pos_refund_locked data q orig) \<or> n = pos_refund_locked data q orig"
    and w1: "same_db w w1" and run: "n e w1 = (Val res, w')" by blast
  have "pos_refunded q orig e w1 w'"
    using n run ok idle w1 by (auto simp: withLock_Val same_db_def dest!: pos_locked_Val)
  with w1 have "pos_refunded q orig e w w'" by (simp add: pos_refunded_def same_db_def)
  with q show ?thesis by blast
qed

text \<open>The refunded purchase is found again, marked.\<close>

lemma refunded_marked:
  assumes "pos_refunded q orig e w w'"
  shows "\<exists>p f. find_pos orig (committed w) = Some p \<and> f \<in> {''RF'', ''PR''} \<and>
    find_pos orig (committed w') = Some (p\<lparr>t_refunded := Some (pq_amount q), t_flag := Some f\<rparr>)"
proof -
  from assms obtain p f row where p: "find_pos orig (committed w) = Some p" and f: "f \<in> {''RF'', ''PR''}"
    and t: "txns (committed w') ''transaction_pos'' =
      upd_rows (\<lambda>r. t_id r = t_id p) (\<lambda>r. r\<lparr>t_refunded := Some (pq_amount q), t_flag := Some f\<rparr>)
        (txns (committed w) ''transaction_pos'') @ [row]"
    unfolding pos_refunded_def by (fastforce simp: Let_def add_txn_def mark_refunded_def)
  have "List.find (\<lambda>r. t_txn_id r = orig) (upd_rows (\<lambda>r. t_id r = t_id p)
      (\<lambda>r. r\<lparr>t_refunded := Some (pq_amount q), t_flag := Some f\<rparr>) rows @ xs) =
      Some (p\<lparr>t_refunded := Some (pq_amount q), t_flag := Some f\<rparr>)"
    if "List.find (\<lambda>r. t_txn_id r = orig) rows = Some p" for rows xs
    using that by (induction rows) (auto simp: upd_rows_def split: if_splits)
  with p f show ?thesis by (auto simp: find_pos_def t)
qed

text \<open>Runs of the demonstration instance: a sale of 10 with a fee of 1, refunded in full.\<close>

lemma pos_charge_runs:
  assumes f: "fault e = (\<lambda>_. None)" and "find_account acc (cur w) = Some r" and "amount + pq_fee q \<le> acc_balance r"
    and "\<bar>dec2 (acc_balance r - (amount + pq_fee q))\<bar> < 10 ^ 10" and "\<bar>dec2 amount\<bar> < 10 ^ 10"
    and "\<bar>dec2 (pq_fee q)\<bar> < 10 ^ 8" and "\<bar>dec2 m\<bar> < 10 ^ 13" and "\<bar>dec2 (amount - pq_fee q - m)\<bar> < 10 ^ 13"
  shows "\<exists>res w'. pos_charge q acc pan sch amount m e w = (Val res, w') \<and> succeeded res"
proof -
  have "returns e (processPurchaseLedger (pq_txn q) acc (pq_merchant q) amount (pq_fee q) m d)" for d
    by (rule returns_purchase [OF f]) (use assms in simp_all)
  from returnsD [OF this] obtain g h where led: "\<And>d v. processPurchaseLedger (pq_txn q) acc (pq_merchant q) amount
      (pq_fee q) m d e v = (Val (g d v), h d v)" by metis
  from touch_runs [OF f] obtain k where touch: "\<And>P v. touch_card P e v = (Val (), k P v)" by metis
  show ?thesis
    using assms(2-6) unfolding pos_charge_def run_flow
    by (simp add: ok_runs [OF f] led touch not_less Let_def pos_row_def new_txn_def has_status_def jfind_jobj)
qed

definition pos_sale :: txn_row where
  "pos_sale = stored_txn 1 0 (pos_row \<lparr>pq_txn = ''t1'', pq_client = ''c1'', pq_merchant = ''M'', pq_terminal = [],
     pq_location = [], pq_amount = 10, pq_fee = 1\<rparr> ''A'' ''P'' ''V'' 10)"

definition pos_demo :: world where
  "pos_demo = demo_world\<lparr>committed := demo_db\<lparr>txns := (\<lambda>_. [])(''transaction_pos'' := [pos_sale])\<rparr>\<rparr>"

definition pos_demo_refund :: json where
  "pos_demo_refund = jobj [(''origTransactionId'', JStr ''t1''), (''amount'', JInt 10), (''merchantId'', JStr ''M'')]"

lemma demo_refund_runs:
  assumes w: "working w = None" and acc: "f = ''N'' \<Longrightarrow> find_account ''A'' (committed w) = Some (demo_account 1 ''A'' 100)"
    and p: "find_pos ''t1'' (committed w) = Some (pos_sale\<lparr>t_refunded := x, t_flag := Some f\<rparr>)"
    and x: "f = ''N'' \<Longrightarrow> x = Some 0"
  shows "\<exists>res w'. refund pos_demo_refund demo_env w = (Val res, w') \<and> (f = ''N'' \<longrightarrow> succeeded res)"
proof -
  have "returns demo_env (processRefundLedger ''u1'' ''A'' ''M'' 9 d)" for d
    by (rule returns_refund) simp_all
  from returnsD [OF this] obtain g h where led: "\<And>d v. processRefundLedger ''u1'' ''A'' ''M'' 9 d demo_env v
      = (Val (g d v), h d v)" by metis
  show ?thesis
    using assms
    by (simp add: refund_def pos_refund_locked_def pos_refund_row_found_def pos_refund_card_def pos_refund_balance_def
        pos_refund_write_def reject_def not_null_def run_flow ok_runs led Let_def correlation_def strval_def numval_def
        pos_demo_refund_def jobj_def jcontains_def pos_sale_def pos_row_def stored_txn_def new_txn_def or_empty_def
        pos_refund_row_def has_status_def jfind_jobj)
qed

section \<open>Properties\<close>

text \<open>A POS request that does not answer SUCCESS, and one that ends in an exception, leaves the
  committed accounts, channel rows, ledger and reversals as they were.\<close>

theorem pos_atomic:
  assumes "pos_async data e w = (r, w')" and "working w = None" and "\<And>res. r = Val res \<Longrightarrow> \<not> succeeded res"
  shows "books (committed w') = books (committed w)"
  using assms by (rule pos.atomic)

lemma pos_atomic_witness:
  "\<exists>w'. pos_async (jobj [(''transactionType'', JStr ''PURCHASE'')]) demo_env demo_world =
     (Val (err0 ''ERR_MISSING_CARD''), w') \<and> books (committed w') = books demo_db"
proof -
  obtain w' where run: "pos_async (jobj [(''transactionType'', JStr ''PURCHASE'')]) demo_env demo_world =
     (Val (err0 ''ERR_MISSING_CARD''), w')"
    by (simp add: pos_async_def purchase_def run_flow strval_def ok_runs jobj_def jcontains_def stringToTransactionType_def)
  from pos_atomic [OF run demo_idle] run show ?thesis by auto
qed

text \<open>A card purchase that succeeds was covered by the balance, charges exactly the converted
  amount and the fee under the account's debit lock, and appends one row that is open for a refund.\<close>

theorem pos_purchase_effect:
  assumes "pos_charge q acc pan sch amount m e w = (Val res, w')" and "succeeded res" and "working w = None"
  shows "\<exists>r i. find_account acc (committed w) = Some r \<and> amount + pq_fee q \<le> acc_balance r \<and>
    i = next_id t_id (txns (committed w) ''transaction_pos'') \<and>
    money_moved acc DEBIT (acc_balance r - (amount + pq_fee q))
      (add_txn ''transaction_pos'' (stored_txn i (now e) (pos_row q acc pan sch amount)) (txns (committed w))) w w'"
  using assms by (rule pos_charge_Val)



lemma pos_purchase_effect_witness:
  "\<exists>q res w' i. pos_charge q ''A'' ''P'' ''V'' 10 0 demo_env demo_world = (Val res, w') \<and> succeeded res \<and>
     money_moved ''A'' DEBIT 89 (add_txn ''transaction_pos'' (stored_txn i 8640000 (pos_row q ''A'' ''P'' ''V'' 10))
       (txns demo_db)) demo_world w'"
proof -
  define q where "q = \<lparr>pq_txn = ''t1'', pq_client = ''c1'', pq_merchant = ''M'', pq_terminal = [],
     pq_location = [], pq_amount = 10, pq_fee = 1\<rparr>"
  obtain res w' where run: "pos_charge q ''A'' ''P'' ''V'' 10 0 demo_env demo_world = (Val res, w')" "succeeded res"
    using pos_charge_runs [OF demo_simps(1), of "''A''" demo_world "demo_account 1 ''A'' 100" 10 q 0 "''P''" "''V''"] by (auto simp: q_def)
  from pos_purchase_effect [OF run demo_idle] run show ?thesis by (auto simp: q_def)
qed

end
