(* ===== verification/Iccw.thy ===== *)
theory Iccw
  imports Pos
begin

text \<open>
  \<^verbatim>\<open>iccw.cpp\<close>: cardless and card withdrawals through the interoperable channel. The
  flow is that of a POS purchase, repeated in the source; the card checks and the currency
  lookup are textually the same there, and share their definitions here.
\<close>

definition ICCW_MAX_SINGLE :: money where "ICCW_MAX_SINGLE = 4000"
definition ICCW_TIMEOUT_SEC :: nat where "ICCW_TIMEOUT_SEC = 5"

text \<open>\<^verbatim>\<open>std::fmod\<close>: the remainder of a quotient cut towards zero.\<close>

definition fmod :: "real \<Rightarrow> real \<Rightarrow> real" where
  "fmod x y = x - y * of_int (if x / y < 0 then \<lceil>x / y\<rceil> else \<lfloor>x / y\<rfloor>)"

lemma fmod_0_iff: "y \<noteq> 0 \<Longrightarrow> fmod x y = 0 \<longleftrightarrow> (\<exists>n::int. x = y * of_int n)"
proof
  assume "y \<noteq> 0" "\<exists>n::int. x = y * of_int n"
  then obtain n :: int where "x = y * of_int n" by blast
  with \<open>y \<noteq> 0\<close> show "fmod x y = 0" by (simp add: fmod_def)
qed (auto simp: fmod_def split: if_splits)

section \<open>Withdrawal\<close>

definition iccw_card :: "json \<Rightarrow> (json + string \<times> card_row) M" where
  "iccw_card = pos_card"

definition iccw_currency :: "string \<Rightarrow> string M" where
  "iccw_currency = pos_currency"

definition iccw_row :: "pos_req \<Rightarrow> string \<Rightarrow> string \<Rightarrow> string \<Rightarrow> money \<Rightarrow> txn_row" where
  "iccw_row q acc pan scheme amount =
     (new_txn (pq_txn q) (pq_client q) acc amount (pq_fee q) ''SUCCESS'' ''ICCW withdrawal successful'')
       \<lparr>t_merchant := Some (pq_merchant q), t_pan := Some pan,
        t_extra := [(''terminal_id'', pq_terminal q), (''location'', pq_location q), (''card_scheme'', scheme)]\<rparr>"

definition iccw_charge :: "pos_req \<Rightarrow> string \<Rightarrow> string \<Rightarrow> string \<Rightarrow> money \<Rightarrow> money \<Rightarrow> json M" where
  "iccw_charge q acc pan scheme amount markup = withLock acc DEBIT (in_txn_fail (err0 ''ERR_DB_FAILURE'')
     (mbind (getAccountBalance acc) (\<lambda>balRes. case balRes of
        None \<Rightarrow> reject (err0 ''ERR_ACCOUNT_NOT_FOUND'')
      | Some balance \<Rightarrow>
        if balance < amount + pq_fee q then reject (err0 ''ERR_INSUFFICIENT_FUNDS'')
        else
          mthen (updateAccountBalance acc (balance - (amount + pq_fee q)))
          (mbind (insert_txn ''transaction_iccw'' 12 (iccw_row q acc pan scheme amount)) (\<lambda>refId.
           mthen (insert_master ''transaction_iccw'' refId ''SUCCESS'')
           (mthen (processPurchaseLedger (pq_txn q) acc (pq_merchant q) amount (pq_fee q) markup ''ICCW Withdrawal'')
           (mthen commit
           (mthen (touch_card (\<lambda>c. card_pan c = pan))
           (mret (jobj [(''transactionId'', JStr (pq_txn q)), (''status'', JStr ''SUCCESS''),
              (''balanceAfter'', JNum (balance - (amount + pq_fee q))),
              (''message'', JStr ''ICCW withdrawal successful'')]))))))))))"

definition iccw_decline :: "pos_req \<Rightarrow> string \<Rightarrow> string \<Rightarrow> json M" where
  "iccw_decline q acc reason =
     mthen (logFraud (pq_txn q) (pq_client q) (pq_terminal q) [] acc (pq_amount q) reason)
     (mret (jobj [(''status'', JStr ''DECLINED''), (''message'', JStr reason)]))"

definition iccw_checked :: "json \<Rightarrow> pos_req \<Rightarrow> string \<times> card_row \<Rightarrow> json M" where
  "iccw_checked data q who = (case who of (pan, row) \<Rightarrow>
     mthen newFalcon
     (mbind (checkFraud (card_acc row) (pq_amount q) F_ICCW (Some data)) (\<lambda>fraud. case fraud of
        Some reason \<Rightarrow> iccw_decline q (card_acc row) reason
      | None \<Rightarrow>
        mbind (mlift (jvalue_str data ''currency'' ''AUD'')) (\<lambda>reqCurrency.
        mbind (iccw_currency (card_acc row)) (\<lambda>accCurrency.
        mbind (fx_charge accCurrency reqCurrency (pq_amount q)) (\<lambda>charge.
        iccw_charge q (card_acc row) pan (or_empty (card_scheme row)) (fst charge) (snd charge)))))))"

definition withdrawal :: "json \<Rightarrow> json M" where
  "withdrawal data = mcatch
     (if \<not> jcontains data ''card'' then mret (err0 ''ERR_MISSING_CARD'')
      else
      mbind (mlift (jat data ''card'')) (\<lambda>cardObj.
      mbind (correlation data) (\<lambda>txnId.
      mbind (mlift (jvalue_str data ''clientTxnId'' txnId)) (\<lambda>clientId.
      mbind (strval data ''merchantId'') (\<lambda>merchantId.
      mbind (strval data ''terminalId'') (\<lambda>terminalId.
      mbind (strval data ''location'') (\<lambda>location.
      mbind (numval data ''amount'') (\<lambda>amount.
      mbind (numval data ''fee'') (\<lambda>fee.
      if amount \<le> 0 then mret (errm ''ERR_INVALID_AMOUNT'' ''Amount must be > 0'')
      else if amount > ICCW_MAX_SINGLE then mret (errm ''ERR_SINGLE_LIMIT'' ''Exceeds ICCW single limit'')
      else if fmod amount 100 \<noteq> 0 then
        mret (errm ''ERR_INVALID_AMOUNT_MULTIPLE'' ''Amount must be a multiple of 100'')
      else mbind (iccw_card cardObj) (\<lambda>r. case r of
         Inl j \<Rightarrow> mret j
       | Inr who \<Rightarrow> iccw_checked data \<lparr>pq_txn = txnId, pq_client = clientId, pq_merchant = merchantId,
           pq_terminal = terminalId, pq_location = location, pq_amount = amount, pq_fee = fee\<rparr> who))))))))))
     (\<lambda>x. mret (errm ''ERR_EXCEPTION'' (what x)))"

section \<open>Dispatch and entry point\<close>

fun ICCW_DISPATCH :: "TransactionType \<Rightarrow> (json \<Rightarrow> json M) option" where
  "ICCW_DISPATCH TT_WITHDRAWAL = Some withdrawal"
| "ICCW_DISPATCH TT_PURCHASE = Some withdrawal"
| "ICCW_DISPATCH _ = None"

definition iccw_async :: "json \<Rightarrow> json M" where
  "iccw_async data =
     mbind (strval data ''transactionType'') (\<lambda>_.
     mthen scopedConnection
     (mbind (mlift (jvalue_str data ''transactionType'' (transactionTypeToString TT_WITHDRAWAL))) (\<lambda>txnTypeStr.
      case ICCW_DISPATCH (stringToTransactionType txnTypeStr) of
        None \<Rightarrow> mret (errm ''ERR_INVALID_TYPE'' (''Unsupported ICCW type: '' @ txnTypeStr))
      | Some handler \<Rightarrow> handler data)))"

definition iccw_timeout :: json where
  "iccw_timeout = jobj [(''status'', JStr ''DECLINED''), (''errorCode'', JStr ''ERR_TIMEOUT'')]"

definition processICCWTransaction :: "json \<Rightarrow> json M" where
  "processICCWTransaction data =
     mbind (strval data ''transactionType'') (\<lambda>_.
     mcatch
       (mbind (correlation data) (\<lambda>_.
        mbind (asks timed_out) (\<lambda>late.
        if late then mthen (mcatch (mthen (iccw_async data) (mret ())) (\<lambda>_. mret ())) (mret iccw_timeout)
        else iccw_async data)))
       (\<lambda>x. mret (errm ''ERR_FATAL'' (what x))))"

section \<open>The contract\<close>

lemma reader_iccw [reader_intros]: "reader (iccw_card cardObj)" "reader (iccw_currency acc)"
  unfolding iccw_card_def iccw_currency_def by (intro reader_intros)+

lemmas keeps_iccw [keeps_intros] = reader_keeps_Idle [OF reader_iccw(1)] reader_keeps_Idle [OF reader_iccw(2)]

lemma hc_iccw_charge [hc_intros]: "handler_code succeeded e c (iccw_charge q acc pan sch x m)"
  unfolding iccw_charge_def
  by (intro hc_intros tx_intros keeps_intros) (simp add: has_status_def jfind_jobj)

lemma hc_iccw_withdrawal [hc_intros]: "handler_code succeeded e c (withdrawal data)"
  unfolding withdrawal_def iccw_checked_def iccw_decline_def
  by (intro hc_intros keeps_intros)

lemma hc_iccw_async: "handler_code succeeded e c (iccw_async data)"
proof -
  have "handler_code succeeded e c (handler data)" if "ICCW_DISPATCH ty = Some handler" for ty handler
    using that by (cases ty) (auto intro: hc_iccw_withdrawal)
  then show ?thesis
    unfolding iccw_async_def by (intro hc_intros keeps_intros) blast
qed

interpretation iccw: channel_handler iccw_async succeeded
  by unfold_locales (rule hc_iccw_async)

section \<open>Runs that succeed\<close>

lemma iccw_charge_Val:
  assumes "iccw_charge q acc pan sch amount m e w = (Val res, w')" and "succeeded res" and "working w = None"
  shows "\<exists>r i. find_account acc (committed w) = Some r \<and> amount + pq_fee q \<le> acc_balance r \<and>
    i = next_id t_id (txns (committed w) ''transaction_iccw'') \<and>
    money_moved acc DEBIT (acc_balance r - (amount + pq_fee q))
      (add_txn ''transaction_iccw'' (stored_txn i (now e) (iccw_row q acc pan sch amount)) (txns (committed w))) w w'"
  using assms unfolding iccw_charge_def
  by (clarsimp simp: val_simps getAccountBalance_def Let_def not_less)
    (drule purchase_frame, drule touch_Val, simp,
     simp add: money_moved_def ledger_frame_def same_money_def books_def)

text \<open>What a withdrawal has been checked for when it comes to charge the account.\<close>

definition iccw_admitted :: "json \<Rightarrow> pos_req \<Rightarrow> string \<Rightarrow> string \<Rightarrow> db \<Rightarrow> bool" where
  "iccw_admitted data q acc pan d \<longleftrightarrow> jvalue_num data ''amount'' 0 = Val (pq_amount q) \<and>
     (\<exists>n::nat. pq_amount q = 100 * real n \<and> 0 < n \<and> n \<le> 40) \<and>
     (\<exists>row. find_card pan d = Some row \<and> card_status row = ''ACTIVE'' \<and> card_acc row = acc)"

lemma hundreds: "0 < x \<Longrightarrow> x \<le> ICCW_MAX_SINGLE \<Longrightarrow> fmod x 100 = 0 \<Longrightarrow> \<exists>n::nat. x = 100 * real n \<and> 0 < n \<and> n \<le> 40"
proof -
  assume a: "0 < x" "x \<le> ICCW_MAX_SINGLE" "fmod x 100 = 0"
  then obtain n :: int where n: "x = 100 * of_int n" using fmod_0_iff [of 100 x] by auto
  with a have "0 < n" "n \<le> 40" by (simp_all add: ICCW_MAX_SINGLE_def)
  with n show ?thesis by (intro exI [of _ "nat n"]) auto
qed

lemma iccw_card_Inr:
  assumes "iccw_card cardObj e w = (Val (Inr (pan, row)), w')"
  shows "find_card pan (cur w) = Some row \<and> card_status row = ''ACTIVE''"
  using assms unfolding iccw_card_def pos_card_def
  by (auto simp: val_simps or_answer_Inr strval_def decrypt_def optional_pin_def check_pin_def select_card_def
      split: if_splits)

lemma iccw_early: "early (\<lambda>j. \<not> succeeded j) (iccw_card cardObj)"
  unfolding iccw_card_def pos_card_def
  by (rule early_step early_intros | simp)+

lemma withdrawal_success:
  assumes run: "withdrawal data e w = (Val res, w')" and ok: "succeeded res" and idle: "working w = None"
  shows "\<exists>q acc pan sch amount m w1. iccw_admitted data q acc pan (committed w) \<and> same_db w w1 \<and>
     iccw_charge q acc pan sch amount m e w1 = (Val res, w')"
proof -
  let ?S = "\<lambda>n. \<exists>q acc pan sch amount m. iccw_admitted data q acc pan (committed w) \<and>
     n = iccw_charge q acc pan sch amount m"
  have decline: "leads succeeded ?S e v (iccw_decline q acc reason)" for v q acc reason
    unfolding iccw_decline_def
    by (rule leads_never, intro leads_intros) (simp add: has_status_def jfind_jobj)
  have charge: "leads succeeded ?S e v (iccw_charge q acc pan sch amount m)"
    if "iccw_admitted data q acc pan (committed w)" for v q acc pan sch amount m
    by (rule leads_here) (use that in blast)
  have checked: "leads succeeded ?S e v (iccw_checked data q who)"
    if "iccw_admitted data q (card_acc (snd who)) (fst who) (committed w)" for v q who
    unfolding iccw_checked_def
    by (intro leads_intros reader_intros decline charge) (use that in auto)
  have "leads succeeded ?S e w (withdrawal data)"
    unfolding withdrawal_def
  proof (intro leads_intros reader_intros checked, goal_cases)
    case (6 x w1 txn w2 cl w3 mer w4 ter w5 loc w6 amount w7 fee w8 r w9 who)
    then have "cur w8 = committed w" using idle by (simp add: same_db_def cur_def)
    with 6 show ?case
      by (cases who) (auto simp: iccw_admitted_def numval_def val_simps not_less not_le
          dest: iccw_card_Inr intro: hundreds)
  qed (auto dest: earlyD [OF iccw_early])
  from leadsD [OF this run ok] show ?thesis by blast
qed

lemma iccw_async_success:
  assumes run: "iccw_async data e w = (Val res, w')" and ok: "succeeded res" and idle: "working w = None"
  shows "\<exists>q acc pan sch amount m w1. iccw_admitted data q acc pan (committed w) \<and> same_db w w1 \<and>
     iccw_charge q acc pan sch amount m e w1 = (Val res, w')"
proof -
  let ?S = "\<lambda>n. n = withdrawal data"
  have "leads succeeded ?S e w (iccw_async data)"
    unfolding iccw_async_def
  proof (intro leads_intros reader_intros, goal_cases)
    case (2 x w1 y w2 ty w3 handler)
    then have "handler = withdrawal" by (cases "stringToTransactionType ty") auto
    then show ?case by (auto intro: leads_here)
  qed simp_all
  from leadsD [OF this run ok] obtain w1 where w1: "same_db w w1" and run: "withdrawal data e w1 = (Val res, w')" by blast
  with idle have "working w1 = None" "committed w1 = committed w" by (simp_all add: same_db_def)
  with withdrawal_success [OF run ok] w1 show ?thesis by (metis same_db_trans)
qed


section \<open>A run that succeeds\<close>

lemma iccw_charge_runs:
  assumes f: "fault e = (\<lambda>_. None)" and "find_account acc (cur w) = Some r" and "amount + pq_fee q \<le> acc_balance r"
    and "\<bar>dec2 (acc_balance r - (amount + pq_fee q))\<bar> < 10 ^ 10" and "\<bar>dec2 amount\<bar> < 10 ^ 10"
    and "\<bar>dec2 (pq_fee q)\<bar> < 10 ^ 8" and "\<bar>dec2 m\<bar> < 10 ^ 13" and "\<bar>dec2 (amount - pq_fee q - m)\<bar> < 10 ^ 13"
  shows "\<exists>res w'. iccw_charge q acc pan sch amount m e w = (Val res, w') \<and> succeeded res"
proof -
  have "returns e (processPurchaseLedger (pq_txn q) acc (pq_merchant q) amount (pq_fee q) m d)" for d
    by (rule returns_purchase [OF f]) (use assms in simp_all)
  from returnsD [OF this] obtain g h where led: "\<And>d v. processPurchaseLedger (pq_txn q) acc (pq_merchant q) amount
      (pq_fee q) m d e v = (Val (g d v), h d v)" by metis
  from touch_runs [OF f] obtain k where touch: "\<And>P v. touch_card P e v = (Val (), k P v)" by metis
  show ?thesis
    using assms(2-6) unfolding iccw_charge_def run_flow
    by (simp add: ok_runs [OF f] led touch not_less Let_def iccw_row_def new_txn_def has_status_def jfind_jobj)
qed

definition demo_iccw :: json where
  "demo_iccw = jobj [(''card'', jobj [(''pan'', JStr (replicate 28 CHR ''x'' @ ''P''))]), (''amount'', JInt 100)]"

lemma demo_iccw_score: "aiThreatScore demo_env (Some demo_iccw) 100 F_ICCW = None"
  by (simp add: aiThreatScore_def risk_of_def demo_iccw_def jobj_def flagRisk_def laterFlagRisk_def addBoolRisk_def
      addFalseRisk_def contextBool_def contextNumber_def boolValue_def nestedBoolValue_def findObject_def
      numberValue_def nestedNumberValue_def integrityRisk_def deviceIntegrity_def stringValue_def
      nestedStringValue_def lowerAscii_def reportedRisk_def trustRisk_def agentRisk_def forwardedRisk_def
      payloadRisk_def deviceIdRisk_def amountRisk_def containsAny_def FALCON_AI_DECLINE_SCORE_def Let_def
      addRisk_def)

lemma demo_iccw_card: "\<exists>w'. iccw_card (jobj [(''pan'', JStr (replicate 28 CHR ''x'' @ ''P''))]) demo_env w =
    (Val (case find_card ''P'' (cur w) of None \<Rightarrow> Inl (err0 ''ERR_CARD_NOT_FOUND'')
     | Some row \<Rightarrow> if card_status row \<noteq> ''ACTIVE'' then Inl (err0 ''ERR_CARD_INACTIVE'') else Inr (''P'', row)), w')"
  by (simp add: iccw_card_def pos_card_def run_flow strval_def jobj_def jcontains_def or_answer_def jat_str_def
      decrypt_def decryptPAN_def base64_decode_def IV_LEN_def TAG_LEN_def Let_def optional_pin_def select_card_def
      ok_runs split: option.split)

lemma demo_iccw_runs:
  "\<exists>res w'. iccw_async demo_iccw demo_env card_world = (Val res, w') \<and> succeeded res"
proof -
  define q where "q = \<lparr>pq_txn = ''u1'', pq_client = ''u1'', pq_merchant = [], pq_terminal = [], pq_location = [],
    pq_amount = 100, pq_fee = 0\<rparr>"
  from demo_iccw_card [of "step_tick card_world"] obtain w1 where
    cd: "iccw_card (jobj [(''pan'', JStr (replicate 28 CHR ''x'' @ ''P''))]) demo_env (step_tick card_world) =
      (Val (Inr (''P'', demo_card)), w1)" by (auto simp: cur_def)
  with readerD [OF reader_iccw(1) cd] have w1: "cur w1 = committed card_world" "working w1 = None" 
    by (simp_all add: same_db_def cur_def)
  have "lru w1 = lru card_world"
    using cd by (simp add: iccw_card_def pos_card_def run_flow strval_def jobj_def jcontains_def or_answer_def
      jat_str_def decrypt_def decryptPAN_def base64_decode_def IV_LEN_def TAG_LEN_def Let_def optional_pin_def
      select_card_def ok_runs split: option.splits if_splits) auto
  then have l: "lru_map (lru (step_tick w1)) = []" by simp
  from checkFraud_clear [OF demo_simps(1) demo_iccw_score l, of "''A''"] w1 obtain w2 where
    fraud: "checkFraud ''A'' 100 F_ICCW (Some demo_iccw) demo_env (step_tick w1) = (Val None, w2)" by auto
  with readerD [OF reader_checkFraud fraud] w1 have w2: "cur w2 = committed card_world" by (simp add: same_db_def cur_def)
  then obtain res w' where run: "iccw_charge q ''A'' ''P'' ''V'' 100 0 demo_env (step_tick w2) = (Val res, w')" "succeeded res"
    using iccw_charge_runs [OF demo_simps(1), of "''A''" "step_tick w2" "demo_account 1 ''A'' 100" 100 q 0 "''P''" "''V''"] by (auto simp: q_def)
  have "currency_code (committed card_world) (demo_account 1 ''A'' 100) = Some ''AUD''"
    by (simp add: currency_code_def card_world_def demo_db_def demo_account_def)
  with fraud run w2 have "iccw_checked demo_iccw q (''P'', demo_card) demo_env w1 = (Val res, w')"
    by (simp add: iccw_checked_def newFalcon_def run_flow ok_runs q_def iccw_currency_def pos_currency_def
        fx_charge_def demo_iccw_def jobj_def demo_card_def or_empty_def)
  with cd have "withdrawal demo_iccw demo_env (step_tick card_world) = (Val res, w')"
    by (simp add: withdrawal_def run_flow strval_def numval_def correlation_def demo_iccw_def jobj_def jcontains_def
        q_def ICCW_MAX_SINGLE_def fmod_def)
  then have "iccw_async demo_iccw demo_env card_world = (Val res, w')"
    by (simp add: iccw_async_def run_flow strval_def ok_runs demo_iccw_def jobj_def stringToTransactionType_def)
  with run(2) show ?thesis by blast
qed

section \<open>Properties\<close>



end
