(* ===== verification/Qr.thy ===== *)
theory Qr
  imports Falcon Ledger Constants "HOL-Library.Sublist"
begin

text \<open>
  \<^verbatim>\<open>qrcode.cpp\<close>: payments from a scanned code and their refunds. The fields of the code
  override those of the request. There are no ledger postings on this channel, and the handler
  runs on the caller's thread, without a timeout.
\<close>

section \<open>Fields of a scanned code\<close>

definition lower :: "string \<Rightarrow> string" where
  "lower s = map tolower s"

text \<open>\<^verbatim>\<open>std::string::find(needle)\<close>: the first position where the needle stands.\<close>

fun find_at :: "string \<Rightarrow> string \<Rightarrow> nat option" where
  "find_at needle [] = (if needle = [] then Some 0 else None)"
| "find_at needle (c # cs) = (if take (length needle) (c # cs) = needle then Some 0
     else map_option Suc (find_at needle cs))"

definition blank :: "char \<Rightarrow> bool" where
  "blank c \<longleftrightarrow> c \<in> {CHR '' '', CHR 0x09, CHR 0x0A, CHR 0x0D}"

definition trim :: "string \<Rightarrow> string" where
  "trim v = rev (dropWhile blank (rev (dropWhile blank v)))"

definition find_kv :: "string \<Rightarrow> string \<Rightarrow> string" where
  "find_kv qrData key =
     (let data = map (\<lambda>c. if c = CHR ''&'' \<or> c = CHR ''|'' then CHR '';'' else c) qrData;
          lowerData = lower data; lowerKey = lower key @ ''=''
      in case find_at lowerKey lowerData of
           None \<Rightarrow> []
         | Some pos \<Rightarrow> trim (takeWhile (\<lambda>c. c \<noteq> CHR '';'') (drop (pos + length lowerKey) data)))"

text \<open>A request, and the fields of its code laid over it.\<close>

record qr_req =
  qr_client :: string
  qr_type :: TransactionType
  qr_data :: string
  qr_merchant :: string
  qr_mid :: string
  qr_tid :: string
  qr_amount :: money
  qr_fee :: money
  qr_currency :: string
  qr_acc :: string

definition override :: "string \<Rightarrow> string \<Rightarrow> string" where
  "override kv old = (if kv \<noteq> [] then kv else old)"

definition scanned :: "env \<Rightarrow> qr_req \<Rightarrow> qr_req" where
  "scanned e q = (if qr_data q = [] then q else
     q\<lparr>qr_mid := override (find_kv (qr_data q) ''mid'') (qr_mid q),
       qr_merchant := override (find_kv (qr_data q) ''merchantName'') (qr_merchant q),
       qr_tid := override (find_kv (qr_data q) ''tid'') (qr_tid q),
       qr_currency := override (find_kv (qr_data q) ''currency'') (qr_currency q),
       qr_amount := (case find_kv (qr_data q) ''amount'' of
           [] \<Rightarrow> qr_amount q
         | kv \<Rightarrow> (case str_to_double e kv of None \<Rightarrow> qr_amount q | Some x \<Rightarrow> x))\<rparr>)"

definition qr_request :: "json \<Rightarrow> qr_req M" where
  "qr_request data =
     mbind (asks cur_uuid) (\<lambda>u.
     mbind (mlift (jvalue_str data ''clientTxnId'' u)) (\<lambda>client.
     mbind (mlift (jvalue_str data ''transactionType'' (transactionTypeToString TT_PURCHASE))) (\<lambda>ty.
     mbind (strval data ''qrData'') (\<lambda>qrData.
     mbind (strval data ''merchantName'') (\<lambda>merchantName.
     mbind (strval data ''mid'') (\<lambda>mid.
     mbind (strval data ''tid'') (\<lambda>tid.
     mbind (numval data ''amount'') (\<lambda>amount.
     mbind (numval data ''fee'') (\<lambda>fee.
     mbind (mlift (jvalue_str data ''currency'' ''AUD'')) (\<lambda>currency.
     mbind (strval data ''accountNumber'') (\<lambda>acc.
     mbind (asks (\<lambda>e. e)) (\<lambda>e.
     mret (scanned e \<lparr>qr_client = client, qr_type = stringToTransactionType ty, qr_data = qrData,
       qr_merchant = merchantName, qr_mid = mid, qr_tid = tid, qr_amount = amount, qr_fee = fee,
       qr_currency = currency, qr_acc = acc\<rparr>)))))))))))))"

section \<open>Purchase\<close>

definition qr_row :: "qr_req \<Rightarrow> string \<Rightarrow> string \<Rightarrow> txn_row" where
  "qr_row q txnId scope =
     (new_txn txnId (qr_client q) (qr_acc q) (qr_amount q) (qr_fee q) ''SUCCESS'' ''QR purchase successful'')
       \<lparr>t_merchant := Some (qr_mid q), t_refunded := None, t_flag := None,
        t_extra := [(''qr_raw_data'', qr_data q), (''merchant_name'', qr_merchant q), (''terminal_id'', qr_tid q),
          (''currency'', qr_currency q), (''transaction_scope'', scope)]\<rparr>"

definition qr_purchase :: "qr_req \<Rightarrow> string \<Rightarrow> string \<Rightarrow> json M" where
  "qr_purchase q txnId scope = withLock (qr_acc q) DEBIT (in_txn_throw
     (mbind (getAccountBalance (qr_acc q)) (\<lambda>bal. case bal of
        None \<Rightarrow> reject (err ''ERR_ACCOUNT_NOT_FOUND'' ''Debit account not found.'')
      | Some currentBal \<Rightarrow>
        if currentBal < qr_amount q + qr_fee q then
          reject (err ''ERR_INSUFFICIENT_FUNDS'' ''Insufficient balance.'')
        else (let newBal = currentBal - (qr_amount q + qr_fee q) in
          mthen (updateAccountBalance (qr_acc q) newBal)
          (mbind (insert_txn ''transaction_qrcode'' 12 (qr_row q txnId scope)) (\<lambda>refId.
           mthen (insert_master ''transaction_qrcode'' refId ''SUCCESS'')
           (mthen commit
           (mret (jobj [(''transactionId'', JStr txnId), (''status'', JStr ''SUCCESS''),
              (''balanceAfter'', JNum newBal), (''merchantName'', JStr (qr_merchant q)),
              (''merchantId'', JStr (qr_mid q)), (''transactionScope'', JStr scope)])))))))))"

section \<open>Refund\<close>

definition qr_refund_row :: "qr_req \<Rightarrow> string \<Rightarrow> string \<Rightarrow> nat \<Rightarrow> txn_row" where
  "qr_refund_row q txnId scope pid =
     (new_txn txnId (qr_client q) (qr_acc q) (qr_amount q) 0 ''SUCCESS'' ''QR refund successful'')
       \<lparr>t_merchant := Some (qr_mid q), t_refunded := None, t_flag := None, t_orig := Some pid,
        t_extra := [(''qr_raw_data'', qr_data q), (''merchant_name'', qr_merchant q), (''terminal_id'', qr_tid q),
          (''currency'', qr_currency q), (''transaction_scope'', scope)]\<rparr>"

definition qr_refund_apply :: "qr_req \<Rightarrow> string \<Rightarrow> string \<Rightarrow> string \<Rightarrow> json M" where
  "qr_refund_apply q txnId scope origClient = withLock (qr_acc q) CREDIT (in_txn_throw
     (mbind (getQrPurchaseForUpdate origClient) (\<lambda>pInfo. case pInfo of
        None \<Rightarrow> reject (err0 ''ERR_PURCHASE_NOT_FOUND'')
      | Some (purchaseId, purchaseAmt, purchAcc) \<Rightarrow>
        if purchAcc \<noteq> qr_acc q then reject (err0 ''ERR_ACCOUNT_MISMATCH'')
        else
        mbind (checkQrAlreadyRefunded purchaseId) (\<lambda>already.
        if already then reject (err0 ''ERR_ALREADY_REFUNDED'')
        else if qr_amount q > purchaseAmt then reject (err0 ''ERR_REFUND_EXCEEDS'')
        else
        mbind (getAccountBalance (qr_acc q)) (\<lambda>bal. case bal of
          None \<Rightarrow> reject (err0 ''ERR_ACCOUNT_NOT_FOUND'')
        | Some currentBal \<Rightarrow> (let newBal = currentBal + qr_amount q in
          mthen (updateAccountBalance (qr_acc q) newBal)
          (mbind (insert_txn ''transaction_qrcode'' 12 (qr_refund_row q txnId scope purchaseId)) (\<lambda>refId.
           mthen (insert_master ''transaction_qrcode'' refId ''SUCCESS'')
           (mthen commit
           (mret (jobj [(''transactionId'', JStr txnId), (''status'', JStr ''SUCCESS''),
              (''balanceAfter'', JNum newBal), (''purchaseAmount'', JNum purchaseAmt),
              (''refundedAmount'', JNum (qr_amount q))])))))))))))"

definition qr_refund :: "json \<Rightarrow> qr_req \<Rightarrow> string \<Rightarrow> string \<Rightarrow> json M" where
  "qr_refund data q txnId scope =
     (if \<not> jcontains data ''origClientTxnId'' then
        mret (err ''ERR_MISSING_ORIG_REF'' ''origClientTxnId required for refund.'')
      else mbind (mlift (jat_str data ''origClientTxnId'')) (qr_refund_apply q txnId scope))"

section \<open>Checks and entry point\<close>

definition qr_decline :: "qr_req \<Rightarrow> string \<Rightarrow> string \<Rightarrow> json M" where
  "qr_decline q txnId reason =
     mthen (logFraud txnId (qr_client q) (qr_tid q) [] (qr_acc q) (qr_amount q) reason)
     (mret (jobj [(''transactionId'', JStr txnId), (''status'', JStr ''DECLINED''),
        (''errorCode'', JStr ''ERR_FRAUD''), (''message'', JStr reason)]))"

definition qr_dispatch :: "json \<Rightarrow> qr_req \<Rightarrow> string \<Rightarrow> string \<Rightarrow> json M" where
  "qr_dispatch data q txnId scope =
     mthen newFalcon
     (mbind (checkFraud (qr_acc q) (qr_amount q) F_QRCODE (Some data)) (\<lambda>fraud. case fraud of
        Some reason \<Rightarrow> qr_decline q txnId reason
      | None \<Rightarrow>
        if qr_type q = TT_PURCHASE then qr_purchase q txnId scope
        else if qr_type q = TT_REFUND then qr_refund data q txnId scope
        else mret (err ''ERR_INVALID_TYPE'' ''Unsupported QR transactionType'')))"

definition qr_checked :: "json \<Rightarrow> qr_req \<Rightarrow> json M" where
  "qr_checked data q =
     (if qr_type q = TT_PURCHASE \<and> qr_amount q \<le> 0 then
        mret (err ''ERR_INVALID_AMOUNT'' ''Purchase amount must be > 0.'')
      else if qr_acc q = [] then mret (err ''ERR_MISSING_ACCOUNT'' ''accountNumber is required.'')
      else mbind (getAccountBalanceAndCurrency (qr_acc q)) (\<lambda>accInfo. case accInfo of
        None \<Rightarrow> mret (err ''ERR_ACCOUNT_NOT_FOUND'' ''Debit account not found.'')
      | Some (_, code) \<Rightarrow>
        mbind (correlation data) (\<lambda>txnId.
        (let accCurrency = (if code = [] then ''AUD'' else code);
             scope = (if accCurrency = qr_currency q then ''DOMESTIC'' else ''INTERNATIONAL'')
         in qr_dispatch data q txnId scope))))"

definition processQRCodePayment :: "json \<Rightarrow> json M" where
  "processQRCodePayment data =
     mbind (mlift (jvalue_str data ''transactionType'' (transactionTypeToString TT_PURCHASE))) (\<lambda>_.
     mbind (correlation data) (\<lambda>_.
     mthen scopedConnection
     (mcatch (mbind (qr_request data) (qr_checked data))
       (\<lambda>x. mret (err ''ERR_EXCEPTION'' (what x))))))"

section \<open>The contract\<close>

lemma hc_qr_purchase [hc_intros]: "handler_code succeeded e c (qr_purchase q t s)"
  unfolding qr_purchase_def
  by (intro hc_intros tx_intros keeps_intros) (simp add: has_status_def jfind_jobj)

lemma keeps_qr_reads [keeps_intros]: "keeps e (InTx c) (getQrPurchaseForUpdate x)"
  "keeps e (InTx c) (checkQrAlreadyRefunded i)"
  unfolding getQrPurchaseForUpdate_def checkQrAlreadyRefunded_def by (intro keeps_intros)+

lemma hc_qr_refund [hc_intros]: "handler_code succeeded e c (qr_refund_apply q t s orig)"
  unfolding qr_refund_apply_def
  by (intro hc_intros tx_intros keeps_intros) (simp add: has_status_def jfind_jobj)

lemma reader_qr_request [reader_intros]: "reader (qr_request data)"
  unfolding qr_request_def by (intro reader_intros)

lemmas keeps_qr_request [keeps_intros] = reader_keeps_Idle [OF reader_qr_request]

lemma hc_qr: "handler_code succeeded e c (processQRCodePayment data)"
  unfolding processQRCodePayment_def qr_checked_def qr_dispatch_def qr_decline_def qr_refund_def
    getAccountBalanceAndCurrency_def
  by (intro hc_intros keeps_intros)

interpretation qr: channel_handler processQRCodePayment succeeded
  by unfold_locales (rule hc_qr)

section \<open>Runs that succeed\<close>

definition qr_kind :: "json \<Rightarrow> TransactionType \<Rightarrow> bool" where
  "qr_kind data k \<longleftrightarrow> (\<exists>ty. jvalue_str data ''transactionType'' ''PURCHASE'' = Val ty \<and>
     stringToTransactionType ty = k)"

lemma scanned_type [simp]: "qr_type (scanned e q) = qr_type q"
  by (simp add: scanned_def)

lemma qr_success:
  assumes "processQRCodePayment data e w = (Val res, w')" and "succeeded res"
  shows "\<exists>n w1. ((\<exists>q t s. n = qr_purchase q t s \<and> qr_kind data TT_PURCHASE \<and> 0 < qr_amount q) \<or>
     (\<exists>q t s orig. n = qr_refund_apply q t s orig \<and> qr_kind data TT_REFUND \<and>
        jat_str data ''origClientTxnId'' = Val orig)) \<and> same_db w w1 \<and> n e w1 = (Val res, w')"
proof -
  let ?S = "\<lambda>n. (\<exists>q t s. n = qr_purchase q t s \<and> qr_kind data TT_PURCHASE \<and> 0 < qr_amount q) \<or>
     (\<exists>q t s orig. n = qr_refund_apply q t s orig \<and> qr_kind data TT_REFUND \<and>
        jat_str data ''origClientTxnId'' = Val orig)"
  have decline: "leads succeeded ?S e v (qr_decline q t reason)" for v q t reason
    unfolding qr_decline_def
    by (rule leads_never, intro leads_intros) (simp add: has_status_def jfind_jobj)
  have purchase: "leads succeeded ?S e v (qr_purchase q t s)" if "qr_kind data TT_PURCHASE" "0 < qr_amount q" for v q t s
    by (rule leads_here) (use that in blast)
  have refund: "leads succeeded ?S e v (qr_refund_apply q t s orig)"
    if "qr_kind data TT_REFUND" "jat_str data ''origClientTxnId'' = Val orig" for v q t s orig
    by (rule leads_here) (use that in blast)
  have dispatch: "leads succeeded ?S e v (qr_dispatch data q t s)"
    if "qr_kind data (qr_type q)" "qr_type q = TT_PURCHASE \<Longrightarrow> 0 < qr_amount q" for v q t s
    unfolding qr_dispatch_def qr_refund_def
    by (intro leads_intros reader_intros decline purchase refund) (use that in \<open>auto simp: val_simps\<close>)
  have checked: "leads succeeded ?S e v (qr_checked data q)" if "qr_kind data (qr_type q)" for v q
    unfolding qr_checked_def getAccountBalanceAndCurrency_def
    by (intro leads_intros reader_intros dispatch) (use that in auto)
  have "leads succeeded ?S e w (processQRCodePayment data)"
    unfolding processQRCodePayment_def
    by (intro leads_intros reader_intros checked) (auto simp: qr_request_def val_simps qr_kind_def)
  from leadsD [OF this assms] show ?thesis .
qed

text \<open>What a refund did: the purchase of that client identifier, on the same account, not refunded
  before, for at most its amount; the account gains the amount and one row refers to the purchase.\<close>

definition qr_refunded_by :: "qr_req \<Rightarrow> string \<Rightarrow> string \<Rightarrow> string \<Rightarrow> env \<Rightarrow> world \<Rightarrow> world \<Rightarrow> bool" where
  "qr_refunded_by q t s orig e w w' \<longleftrightarrow> (\<exists>p r.
     find_qr_purchase orig (committed w) = Some p \<and> t_acc p = qr_acc q \<and> \<not> qr_refunded (t_id p) (committed w) \<and>
     qr_amount q \<le> t_amount p \<and> find_account (qr_acc q) (committed w) = Some r \<and>
     money_moved (qr_acc q) CREDIT (acc_balance r + qr_amount q)
       (add_txn ''transaction_qrcode'' (stored_txn (next_id t_id (txns (committed w) ''transaction_qrcode'')) (now e)
         (qr_refund_row q t s (t_id p))) (txns (committed w))) w w')"

lemma qr_refund_Val:
  assumes "qr_refund_apply q t s orig e w = (Val res, w')" and "succeeded res" and "working w = None"
  shows "qr_refunded_by q t s orig e w w'"
  using assms unfolding qr_refund_apply_def qr_refunded_by_def
  by (clarsimp simp: val_simps getQrPurchaseForUpdate_def checkQrAlreadyRefunded_def getAccountBalance_def Let_def
      not_less split del: if_split)
    (simp add: money_moved_def cur_def put_def qr_refund_row_def new_txn_def)

lemma qr_purchase_Val:
  assumes "qr_purchase q t s e w = (Val res, w')" and "succeeded res" and "working w = None"
  shows "\<exists>r. find_account (qr_acc q) (committed w) = Some r \<and> qr_amount q + qr_fee q \<le> acc_balance r \<and>
     money_moved (qr_acc q) DEBIT (acc_balance r - (qr_amount q + qr_fee q))
       (add_txn ''transaction_qrcode'' (stored_txn (next_id t_id (txns (committed w) ''transaction_qrcode'')) (now e)
         (qr_row q t s)) (txns (committed w))) w w'"
  using assms unfolding qr_purchase_def
  by (clarsimp simp: val_simps getAccountBalance_def Let_def not_less split del: if_split)
    (simp add: money_moved_def cur_def put_def qr_row_def new_txn_def)

text \<open>A refunded purchase is found again, and is refunded.\<close>

lemma find_snoc_other: "\<not> P x \<Longrightarrow> List.find P (xs @ [x]) = List.find P xs"
  by (induction xs) auto

lemma qr_refunded_after:
  assumes "qr_refunded_by q t s orig e w w'"
  shows "\<exists>p. find_qr_purchase orig (committed w') = Some p \<and> qr_refunded (t_id p) (committed w') \<and> working w' = None"
  using assms
  by (auto simp: qr_refunded_by_def money_moved_def add_txn_def find_qr_purchase_def qr_refunded_def find_snoc_other
      stored_txn_def qr_refund_row_def new_txn_def)

section \<open>Codes that are written as fields\<close>

text \<open>The code a terminal prints for a list of fields.\<close>

definition qr_code :: "(string \<times> string) list \<Rightarrow> string" where
  "qr_code kvs = concat (map (\<lambda>(k, v). k @ ''='' @ v @ '';'') kvs)"

definition separators :: "char set" where
  "separators = {CHR ''='', CHR '';'', CHR ''&'', CHR ''|''}"

definition plain :: "string \<Rightarrow> bool" where
  "plain v \<longleftrightarrow> set v \<inter> separators = {} \<and> (v \<noteq> [] \<longrightarrow> \<not> blank (hd v) \<and> \<not> blank (last v))"

lemma trim_plain: "plain v \<Longrightarrow> trim v = v"
proof (cases "v = []")
  case False
  assume "plain v"
  with False have "\<not> blank (hd v)" "\<not> blank (last v)" by (simp_all add: plain_def)
  with False have "dropWhile blank v = v" "dropWhile blank (rev v) = rev v"
    by (simp_all add: dropWhile_eq_self_iff hd_rev)
  then show ?thesis by (simp add: trim_def)
qed (simp add: trim_def)

lemma find_at_skip:
  assumes "\<And>i. i < length pre \<Longrightarrow> take (length needle) (drop i (pre @ rest)) \<noteq> needle"
  shows "find_at needle (pre @ rest) = map_option (\<lambda>p. length pre + p) (find_at needle rest)"
  using assms
proof (induction pre)
  case Nil
  then show ?case by (simp add: option.map_ident)
next
  case (Cons c pre)
  have "take (length needle) (c # pre @ rest) \<noteq> needle" using Cons.prems [of 0] by simp
  moreover have "find_at needle (pre @ rest) = map_option (\<lambda>p. length pre + p) (find_at needle rest)"
  proof (rule Cons.IH)
    fix i assume "i < length pre"
    with Cons.prems [of "Suc i"] show "take (length needle) (drop i (pre @ rest)) \<noteq> needle" by simp
  qed
  ultimately show ?case by (simp add: option.map_comp comp_def)
qed

lemma find_at_here: "needle \<noteq> [] \<Longrightarrow> find_at needle (needle @ rest) = Some 0"
  by (cases needle) simp_all

lemma separator_eq: "CHR ''='' \<in> separators" "CHR '';'' \<in> separators"
  by (simp_all add: separators_def)

lemma split_at_char:
  assumes "a @ x # b = c @ y # d" and "set a \<inter> separators = {}" "set c \<inter> separators = {}"
    and "x \<in> separators" "y \<in> separators"
  shows "a = c \<and> x = y"
proof -
  have "takeWhile (\<lambda>z. z \<notin> separators) (a @ x # b) = a" using assms(2,4) by (subst takeWhile_append2) auto
  moreover have "takeWhile (\<lambda>z. z \<notin> separators) (c @ y # d) = c" using assms(3,5) by (subst takeWhile_append2) auto
  ultimately have "a = c" using assms(1) by simp
  with assms(1) show ?thesis by simp
qed

lemma no_match_in_field:
  assumes "set k \<inter> separators = {}" "set k1 \<inter> separators = {}" "set v1 \<inter> separators = {}"
    and "\<not> suffix k k1" and "i < length (k1 @ ''='' @ v1 @ '';'')"
  shows "take (length (k @ ''='')) (drop i ((k1 @ ''='' @ v1 @ '';'') @ rest)) \<noteq> k @ ''=''"
proof
  assume "take (length (k @ ''='')) (drop i ((k1 @ ''='' @ v1 @ '';'') @ rest)) = k @ ''=''"
  then obtain Z where Z: "drop i ((k1 @ ''='' @ v1 @ '';'') @ rest) = k @ CHR ''='' # Z"
    by (metis append_Cons append_Nil append_assoc append_take_drop_id)
  show False
  proof (cases "i \<le> length k1")
    case True
    with Z have "drop i k1 @ CHR ''='' # (v1 @ '';'' @ rest) = k @ CHR ''='' # Z" by simp
    moreover have "set (drop i k1) \<inter> separators = {}" using assms(2) set_drop_subset [of i k1] by blast
    ultimately have "drop i k1 = k" using split_at_char [OF _ _ assms(1)] separator_eq(1) by blast
    then show False using assms(4) suffix_drop by blast
  next
    case False
    define j where "j = i - length k1 - 1"
    with False have "drop i ((k1 @ ''='' @ v1 @ '';'') @ rest) = drop j v1 @ drop (j - length v1) (CHR '';'' # rest)"
      by (cases "i - length k1") (simp_all add: Suc_diff_Suc)
    moreover have "j \<le> length v1" using assms(5) False by (auto simp: j_def)
    ultimately have "drop j v1 @ CHR '';'' # rest = k @ CHR ''='' # Z" using Z by simp
    moreover have "set (drop j v1) \<inter> separators = {}" using assms(3) set_drop_subset [of j v1] by blast
    ultimately have "CHR '';'' = CHR ''=''" using split_at_char [OF _ _ assms(1)] separator_eq by blast
    then show False by simp
  qed
qed

lemma find_at_fields:
  assumes "set k \<inter> separators = {}"
    and "\<forall>(k1, v1)\<in>set kvs. set k1 \<inter> separators = {} \<and> set v1 \<inter> separators = {} \<and> \<not> suffix k k1"
  shows "find_at (k @ ''='') (qr_code kvs @ k @ ''='' @ rest) = Some (length (qr_code kvs))"
  using assms(2)
proof (induction kvs)
  case Nil
  then show ?case using find_at_here [of "k @ ''=''" rest] by (simp add: qr_code_def)
next
  case (Cons kv kvs)
  obtain k1 v1 where kv: "kv = (k1, v1)" by (cases kv)
  have "find_at (k @ ''='') ((k1 @ ''='' @ v1 @ '';'') @ (qr_code kvs @ k @ ''='' @ rest)) =
      map_option (\<lambda>p. length (k1 @ ''='' @ v1 @ '';'') + p) (find_at (k @ ''='') (qr_code kvs @ k @ ''='' @ rest))"
    by (rule find_at_skip) (use Cons.prems kv assms(1) no_match_in_field in auto)
  with Cons kv show ?case by (simp add: qr_code_def)
qed

lemma tolower_separators [simp]: "tolower c \<in> separators \<longleftrightarrow> c \<in> separators"
proof -
  have "of_char (tolower c) = (let n = of_char c :: nat in if 65 \<le> n \<and> n \<le> 90 then n + 32 else n)"
    by (auto simp: tolower_def Let_def)
  moreover have "x \<in> separators \<longleftrightarrow> (of_char x :: nat) \<in> {61, 59, 38, 124}" for x
    unfolding separators_def
    using of_char_eq_iff [of x "CHR ''=''", where 'a = nat] of_char_eq_iff [of x "CHR '';''", where 'a = nat]
      of_char_eq_iff [of x "CHR ''&''", where 'a = nat] of_char_eq_iff [of x "CHR ''|''", where 'a = nat] by auto
  ultimately show ?thesis by (auto simp: Let_def)
qed

lemma lower_simps [simp]: "lower (a @ b) = lower a @ lower b" "length (lower a) = length a"
  "lower ''='' = ''=''" "lower (CHR ''='' # b) = CHR ''='' # lower b"
  by (simp_all add: lower_def tolower_def)

lemma lower_separators [simp]: "set (lower a) \<inter> separators = {} \<longleftrightarrow> set a \<inter> separators = {}"
  by (auto simp: lower_def disjoint_iff)

lemma qr_code_simps [simp]: "qr_code [] = []" "qr_code ((k, v) # kvs) = k @ ''='' @ v @ '';'' @ qr_code kvs"
  "qr_code (xs @ ys) = qr_code xs @ qr_code ys"
  by (simp_all add: qr_code_def)

lemma lower_qr_code: "lower (qr_code kvs) = qr_code (map (map_prod lower lower) kvs)"
  by (induction kvs) (auto simp: lower_def tolower_def)

lemma unify_plain: "\<forall>(k, v)\<in>set kvs. plain k \<and> plain v \<Longrightarrow>
    map (\<lambda>c. if c = CHR ''&'' \<or> c = CHR ''|'' then CHR '';'' else c) (qr_code kvs) = qr_code kvs"
proof (induction kvs)
  case (Cons kv kvs)
  have id: "map (\<lambda>c. if c = CHR ''&'' \<or> c = CHR ''|'' then CHR '';'' else c) s = s" if "plain s" for s
    using that by (intro map_idI) (auto simp: plain_def separators_def)
  obtain k v where "kv = (k, v)" by (cases kv)
  with Cons show ?case by (simp add: id)
qed simp

lemma find_kv_field:
  assumes "\<forall>(k', v')\<in>set (pre @ (k, v) # post). plain k' \<and> plain v'" and "lower k = lower key"
    and "\<forall>(k', v')\<in>set pre. \<not> suffix (lower key) (lower k')"
  shows "find_kv (qr_code (pre @ (k, v) # post)) key = v"
proof -
  let ?data = "qr_code (pre @ (k, v) # post)"
  have k: "set (lower key) \<inter> separators = {}" using assms(1) by (simp flip: assms(2) add: plain_def)
  have "lower ?data = qr_code (map (map_prod lower lower) pre) @ lower key @ ''='' @ lower (v @ '';'' @ qr_code post)"
    by (simp add: lower_qr_code flip: assms(2))
  moreover have "find_at (lower key @ ''='') (qr_code (map (map_prod lower lower) pre) @ lower key @ ''='' @
      lower (v @ '';'' @ qr_code post)) = Some (length (qr_code (map (map_prod lower lower) pre)))"
  proof (rule find_at_fields [OF k], clarsimp)
    fix k' v'
    assume m: "(k', v') \<in> set pre"
    then have "plain k' \<and> plain v'" using assms(1) by simp blast
    moreover have "\<not> suffix (lower key) (lower k')" using m assms(3) by blast
    ultimately show "set k' \<inter> separators = {} \<and> set v' \<inter> separators = {} \<and> \<not> suffix (lower key) (lower k')"
      unfolding plain_def by blast
  qed
  moreover have "length (qr_code (map (map_prod lower lower) pre)) = length (qr_code pre)"
    by (simp flip: lower_qr_code)
  moreover have "length (lower key) = length k" by (simp flip: assms(2))
  ultimately have "find_kv ?data key = trim (takeWhile (\<lambda>c. c \<noteq> CHR '';'') (v @ CHR '';'' # qr_code post))"
    using unify_plain [OF assms(1)] by (simp add: find_kv_def)
  also have "takeWhile (\<lambda>c. c \<noteq> CHR '';'') (v @ CHR '';'' # qr_code post) = v"
    using assms(1) by (subst takeWhile_append2) (auto simp: plain_def separators_def)
  also have "trim v = v" using assms(1) by (simp add: trim_plain)
  finally show ?thesis .
qed

section \<open>Runs of the demonstration instance\<close>

definition demo_qr_refund :: json where
  "demo_qr_refund = jobj [(''transactionType'', JStr ''REFUND''), (''accountNumber'', JStr ''A''), (''amount'', JInt 10),
     (''origClientTxnId'', JStr ''c1'')]"

lemma demo_qr_score: "aiThreatScore (demo_env\<lparr>now := n\<rparr>) (Some demo_qr_refund) 10 F_QRCODE = None"
  by (simp add: aiThreatScore_def risk_of_def demo_qr_refund_def jobj_def flagRisk_def laterFlagRisk_def addBoolRisk_def
      addFalseRisk_def contextBool_def contextNumber_def boolValue_def nestedBoolValue_def findObject_def
      numberValue_def nestedNumberValue_def integrityRisk_def deviceIntegrity_def stringValue_def
      nestedStringValue_def lowerAscii_def reportedRisk_def trustRisk_def agentRisk_def forwardedRisk_def
      payloadRisk_def deviceIdRisk_def amountRisk_def containsAny_def FALCON_AI_DECLINE_SCORE_def Let_def
      addRisk_def)

definition demo_qr_req :: qr_req where
  "demo_qr_req = \<lparr>qr_client = ''u1'', qr_type = TT_REFUND, qr_data = [], qr_merchant = [], qr_mid = [], qr_tid = [],
     qr_amount = 10, qr_fee = 0, qr_currency = ''AUD'', qr_acc = ''A''\<rparr>"

lemma lru_put [simp]: "lru (put d w) = lru w" "lru (log_lock ev w) = lru w"
  by (simp_all add: put_def log_lock_def split: option.split)

lemma qr_refund_runs:
  assumes "fault e = (\<lambda>_. None)" and "find_account (qr_acc q) (cur w) = Some r" "qr_amount q = 10" "acc_balance r = b"
    and "find_qr_purchase orig (cur w) = Some p" and "t_acc p = qr_acc q" "10 \<le> t_amount p" and "b \<in> {100, 110}"
  shows "\<exists>res w'. qr_refund_apply q t s orig e w = (Val res, w') \<and> lru w' = lru w \<and>
    currencies (cur w') = currencies (cur w) \<and> (\<not> qr_refunded (t_id p) (cur w) \<longrightarrow> succeeded res)"
  using assms(2-) unfolding qr_refund_apply_def run_flow
  by (cases "qr_refunded (t_id p) (cur w)")
    (auto simp: ok_runs [OF assms(1)] getQrPurchaseForUpdate_def checkQrAlreadyRefunded_def reject_def run_flow Let_def
      qr_refund_row_def new_txn_def has_status_def jfind_jobj cur_def [of "_\<lparr>working := None\<rparr>"] cur_def [of "_\<lparr>committed := _, working := None\<rparr>"])

lemma demo_qr_runs:
  assumes idle: "working w = None" and l: "lru_map (lru w) = []"
    and old: "\<And>t. \<forall>r\<in>set (txns (committed w) t). t_created r + 604800 < n"
    and acc: "find_account ''A'' (committed w) = Some r" "acc_balance r \<in> {100, 110}" "currency_code (committed w) r = Some ''AUD''"
    and p: "find_qr_purchase ''c1'' (committed w) = Some p" "t_acc p = ''A''" "10 \<le> t_amount p"
  shows "\<exists>res w'. processQRCodePayment demo_qr_refund (demo_env\<lparr>now := n\<rparr>) w = (Val res, w') \<and> lru w' = lru w \<and>
    currencies (cur w') = currencies (committed w) \<and> (\<not> qr_refunded (t_id p) (committed w) \<longrightarrow> succeeded res \<and>
       qr_refunded_by demo_qr_req ''u1'' ''DOMESTIC'' ''c1'' (demo_env\<lparr>now := n\<rparr>) w w')"
proof -
  let ?e = "demo_env\<lparr>now := n\<rparr>" and ?w = "step_tick (step_tick (step_tick w))"
  have f: "fault ?e = (\<lambda>_. None)" by simp
  have c: "cur ?w = committed w" using idle by (simp add: cur_def)
  have o: "\<forall>r\<in>set (txns (cur ?w) t). t_acc r = ''A'' \<longrightarrow> t_created r + 604800 < now ?e" for t
    using old [of t] c by simp
  have l': "lru_map (lru ?w) = []" using l by simp
  from checkFraud_clear [OF f demo_qr_score l' o] obtain w1 where
    fraud: "checkFraud ''A'' 10 F_QRCODE (Some demo_qr_refund) ?e ?w = (Val None, w1)" "lru w1 = lru w" by auto
  with readerD [OF reader_checkFraud fraud(1)] c have c1: "cur w1 = committed w" by (auto dest: same_db_cur)
  obtain res w' where run: "qr_refund_apply demo_qr_req ''u1'' ''DOMESTIC'' ''c1'' ?e w1 = (Val res, w')" "lru w' = lru w"
    "currencies (cur w') = currencies (committed w)" "\<not> qr_refunded (t_id p) (committed w) \<longrightarrow> succeeded res"
    using qr_refund_runs [OF f, of demo_qr_req w1 r "acc_balance r" "''c1''" p "''u1''" "''DOMESTIC''"] acc p c1 fraud(2)
    by (auto simp: demo_qr_req_def)
  have "qr_dispatch demo_qr_refund demo_qr_req ''u1'' ''DOMESTIC'' ?e (step_tick (step_tick w)) = (Val res, w')"
    using fraud run by (simp add: qr_dispatch_def newFalcon_def run_flow ok_runs [OF f] demo_qr_req_def qr_refund_def
      jcontains_def demo_qr_refund_def jobj_def jat_str_def)
  moreover have "qr_request demo_qr_refund ?e v = (Val demo_qr_req, v)" for v
    by (simp add: qr_request_def run_flow strval_def numval_def demo_qr_refund_def jobj_def demo_qr_req_def scanned_def
        stringToTransactionType_def)
  ultimately have "processQRCodePayment demo_qr_refund ?e w = (Val res, w')"
    using idle acc
    by (simp add: processQRCodePayment_def run_flow correlation_def qr_checked_def getAccountBalanceAndCurrency_def
        ok_runs [OF f] demo_qr_refund_def jobj_def demo_qr_req_def Let_def cur_def)
  moreover have "qr_refunded_by demo_qr_req ''u1'' ''DOMESTIC'' ''c1'' ?e w w'" if "succeeded res"
  proof -
    have s: "same_db w w1" using readerD [OF reader_checkFraud fraud(1)] by (simp add: same_db_def)
    then have "working w1 = None" "committed w1 = committed w" using idle by (simp_all add: same_db_def)
    with qr_refund_Val [OF run(1) that] show ?thesis by (simp add: qr_refunded_by_def money_moved_same [OF s])
  qed
  ultimately show ?thesis using run by blast
qed

section \<open>Properties\<close>

text \<open>A printed code is read back. When a code is written as the five fields the channel knows,
  followed by any others, with values free of separators and of blanks at their ends, a scan sets
  exactly these five fields of the request, whatever the request said itself.\<close>

theorem qr_scan_roundtrip:
  assumes "qr_data q = qr_code ([(''mid'', m), (''merchantName'', n), (''tid'', t), (''currency'', c), (''amount'', a)] @ post)"
    and "\<forall>v\<in>{m, n, t, c, a}. plain v \<and> v \<noteq> []" and "\<forall>(k, v)\<in>set post. plain k \<and> plain v"
    and "str_to_double e a = Some x"
  shows "scanned e q = q\<lparr>qr_mid := m, qr_merchant := n, qr_tid := t, qr_currency := c, qr_amount := x\<rparr>"
proof -
  have keys: "plain ''mid''" "plain ''merchantName''" "plain ''tid''" "plain ''currency''" "plain ''amount''"
    by (simp_all add: plain_def separators_def blank_def)
  have all: "\<forall>(k, v)\<in>set ([(''mid'', m), (''merchantName'', n), (''tid'', t), (''currency'', c), (''amount'', a)] @ post). plain k \<and> plain v"
    using assms(2,3) keys by auto
  have find: "find_kv (qr_data q) k = v"
    if "[(''mid'', m), (''merchantName'', n), (''tid'', t), (''currency'', c), (''amount'', a)] @ post = pre @ (k, v) # rest"
      "\<forall>(k', v')\<in>set pre. \<not> suffix (lower k) (lower k')" for pre k v rest
    unfolding assms(1) that(1) by (rule find_kv_field [OF all [unfolded that(1)] refl that(2)])
  have "find_kv (qr_data q) ''mid'' = m"
    by (rule find [of "[]"]) simp_all
  moreover have "find_kv (qr_data q) ''merchantName'' = n"
    by (rule find [of "[(''mid'', m)]"]) (simp_all add: lower_def tolower_def suffix_to_prefix)
  moreover have "find_kv (qr_data q) ''tid'' = t"
    by (rule find [of "[(''mid'', m), (''merchantName'', n)]"]) (simp_all add: lower_def tolower_def suffix_to_prefix)
  moreover have "find_kv (qr_data q) ''currency'' = c"
    by (rule find [of "[(''mid'', m), (''merchantName'', n), (''tid'', t)]"])
      (simp_all add: lower_def tolower_def suffix_to_prefix)
  moreover have "find_kv (qr_data q) ''amount'' = a"
    by (rule find [of "[(''mid'', m), (''merchantName'', n), (''tid'', t), (''currency'', c)]"])
      (simp_all add: lower_def tolower_def suffix_to_prefix)
  moreover have "qr_data q \<noteq> []" by (simp add: assms(1))
  ultimately show ?thesis
    using assms(2,4) by (cases a) (simp_all add: scanned_def override_def)
qed



lemma qr_scan_roundtrip_witness:
  "\<exists>q. qr_data q = ''mid=M;merchantName=Shop;tid=T;currency=AUD;amount=9.5;'' \<and>
     scanned (demo_env\<lparr>str_to_double := (\<lambda>_. Some (19 / 2))\<rparr>) q =
     q\<lparr>qr_mid := ''M'', qr_merchant := ''Shop'', qr_tid := ''T'', qr_currency := ''AUD'', qr_amount := 19 / 2\<rparr>"
proof -
  let ?q = "demo_qr_req\<lparr>qr_data := ''mid=M;merchantName=Shop;tid=T;currency=AUD;amount=9.5;''\<rparr>"
  have "scanned (demo_env\<lparr>str_to_double := (\<lambda>_. Some (19 / 2))\<rparr>) ?q =
     ?q\<lparr>qr_mid := ''M'', qr_merchant := ''Shop'', qr_tid := ''T'', qr_currency := ''AUD'', qr_amount := 19 / 2\<rparr>"
    by (rule qr_scan_roundtrip [where post = "[]" and a = "''9.5''"])
      (simp_all add: plain_def separators_def blank_def)
  then show ?thesis by (intro exI [of _ ?q]) simp
qed

definition qr_demo :: world where
  "qr_demo = demo_world\<lparr>committed := demo_db\<lparr>txns := (\<lambda>_. [])(''transaction_qrcode'' :=
     [stored_txn 1 0 (qr_row (demo_qr_req\<lparr>qr_client := ''c1''\<rparr>) ''t1'' ''DOMESTIC'')])\<rparr>\<rparr>"


end
