(* ===== verification/RingPay.thy ===== *)
theory RingPay
  imports Falcon Ledger Constants
begin

text \<open>
  \<^verbatim>\<open>ringpay.cpp\<close>: contactless payments with a token. The only channel that looks at the
  freeze flag of an account, and one that commits a failed payment: a simulated network
  failure credits the account again in the same transaction and answers \<^verbatim>\<open>FAILED\<close>.
\<close>

definition RING_SINGLE_LIMIT :: money where "RING_SINGLE_LIMIT = 2000"
definition RING_DAILY_LIMIT :: money where "RING_DAILY_LIMIT = 5000"
definition RING_WARNING_LEVEL :: money where "RING_WARNING_LEVEL = 4000"
definition RING_MERCHANT_LIMIT :: money where "RING_MERCHANT_LIMIT = 3000"
definition RING_RISK_BLOCK :: int where "RING_RISK_BLOCK = 70"

text \<open>The milliseconds within the clock's second and the six digits are draws.\<close>

definition generateToken :: "env \<Rightarrow> string" where
  "generateToken e = ''RING-'' @ nat_str (1000 * now e + draw e 1 mod 1000) @ ''-'' @
     nat_str (100000 + draw e 2 mod 900000)"

section \<open>The request and its card\<close>

record ring_req =
  rq_txn :: string
  rq_amount :: money
  rq_fee :: money
  rq_device :: string
  rq_ip :: string
  rq_merchant :: string
  rq_pan :: string
  rq_acc :: string

definition ring_cvv_ok :: "json \<Rightarrow> string option \<Rightarrow> bool M" where
  "ring_cvv_ok data dbCvv = (if jcontains data ''cvv''
     then mbind (mlift (jat_str data ''cvv'')) (\<lambda>reqCvv. mret (reqCvv = [] \<or> reqCvv = or_empty dbCvv))
     else mret True)"

definition ring_card :: "json \<Rightarrow> string \<Rightarrow> string \<Rightarrow> (json + string) M" where
  "ring_card data expiry pan =
     mbind (optional_pin data pan) (\<lambda>ok.
     if \<not> ok then mret (Inl (errm ''ERR_INVALID_PIN'' ''PIN verification failed''))
     else
     mbind (select_card pan) (\<lambda>cardRes. case cardRes of
       None \<Rightarrow> mret (Inl (errm ''ERR_INVALID_CARD'' ''Card not found''))
     | Some row \<Rightarrow>
       if expiry \<noteq> [] \<and> expiry \<noteq> card_expiry row then
         mret (Inl (errm ''ERR_INVALID_EXPIRY'' ''Wrong expiry date''))
       else
       mbind (ring_cvv_ok data (card_cvv row)) (\<lambda>cvvOk.
       if \<not> cvvOk then mret (Inl (errm ''ERR_INVALID_CVV'' ''Wrong CVV''))
       else if card_status row \<noteq> ''ACTIVE'' \<or> card_priority row \<noteq> ''PRIMARY'' then
         mret (Inl (errm ''ERR_CARD_RULE'' ''Only PRIMARY ACTIVE card allowed for RingPay''))
       else mret (Inr (card_acc row)))))"

definition ring_frozen :: "string \<Rightarrow> bool M" where
  "ring_frozen acc = mbind (query (\<lambda>e d. map_option acc_frozen (find_account acc d))) (\<lambda>row. case row of
      None \<Rightarrow> mbind (asks null_msg) (\<lambda>msg. mthrow (DbErr msg))
    | Some frozen \<Rightarrow> mret frozen)"

section \<open>Token and limits\<close>

definition live_token :: "string \<Rightarrow> env \<Rightarrow> db \<Rightarrow> token_row option" where
  "live_token acc e d = List.find (\<lambda>r. tk_acc r = acc \<and> tk_status r = ''ACTIVE'' \<and>
     (case tk_expires r of None \<Rightarrow> False | Some t \<Rightarrow> now e < t)) (tokens d)"

definition ring_token :: "string \<Rightarrow> string \<Rightarrow> string M" where
  "ring_token acc pan = mbind (query (live_token acc)) (\<lambda>tokRes. case tokRes of
      Some r \<Rightarrow> mret (tk_token r)
    | None \<Rightarrow> mbind (asks generateToken) (\<lambda>token.
        mthen (sql (\<lambda>e d. if \<exists>r\<in>set (tokens d). tk_token r = token then Inl (''Duplicate entry '' @ token)
          else Inr ((), d\<lparr>tokens := tokens d @ [\<lparr>tk_token = token, tk_pan = pan, tk_acc = acc,
                 tk_status = ''ACTIVE'', tk_expires = None\<rparr>]\<rparr>)))
        (mret token)))"

definition used_today :: "string \<Rightarrow> env \<Rightarrow> db \<Rightarrow> money" where
  "used_today acc e d = sum_amounts (\<lambda>r. t_acc r = acc \<and> day_of (t_created r) = day_of (now e) \<and>
     t_status r = ''SUCCESS'') (txns d ''transaction_ringpay'')"

definition merchant_used :: "string \<Rightarrow> string \<Rightarrow> env \<Rightarrow> db \<Rightarrow> money" where
  "merchant_used acc merchant e d = sum_amounts (\<lambda>r. t_acc r = acc \<and> t_merchant r = Some merchant \<and>
     day_of (t_created r) = day_of (now e)) (txns d ''transaction_ringpay'')"

definition ring_risk :: "money \<Rightarrow> money \<Rightarrow> int" where
  "ring_risk amount usedToday = (if amount > 1500 then 40 else 0) + (if usedToday > 3000 then 40 else 0)"

section \<open>Payment\<close>

definition ring_row :: "ring_req \<Rightarrow> string \<Rightarrow> txn_row" where
  "ring_row q token =
     (new_txn (rq_txn q) [] (rq_acc q) (rq_amount q) (rq_fee q) ''PROCESSING'' ''RingPay Processing'')
       \<lparr>t_merchant := Some (rq_merchant q), t_refunded := None, t_flag := None,
        t_extra := [(''token'', token), (''device_id'', rq_device q), (''ip_address'', rq_ip q)]\<rparr>"

text \<open>\<^verbatim>\<open>UPDATE transaction_ringpay SET \<dots> WHERE transaction_id = ?\<close>\<close>

definition mark_ring :: "string \<Rightarrow> (txn_row \<Rightarrow> txn_row) \<Rightarrow> (string \<Rightarrow> txn_row list) \<Rightarrow> (string \<Rightarrow> txn_row list)" where
  "mark_ring txn f ts = ts(''transaction_ringpay'' := upd_rows (\<lambda>r. t_txn_id r = txn) f (ts ''transaction_ringpay''))"

definition set_ring :: "string \<Rightarrow> (txn_row \<Rightarrow> txn_row) \<Rightarrow> unit M" where
  "set_ring txn f = sql (\<lambda>e d. Inr ((), d\<lparr>txns := mark_ring txn f (txns d)\<rparr>))"

definition ring_failure :: json where
  "ring_failure = jobj [(''status'', JStr ''FAILED''), (''message'', JStr (''Network failure'' @ em_dash @ ''auto reversed''))]"

definition ring_settle :: "ring_req \<Rightarrow> string \<Rightarrow> money \<Rightarrow> int \<Rightarrow> json M" where
  "ring_settle q token usedToday risk = withLock (rq_acc q) DEBIT (in_txn_throw
     (mbind (getAccountBalance (rq_acc q)) (\<lambda>bal. case bal of
        None \<Rightarrow> reject (errm ''ERR_ACCOUNT_NOT_FOUND'' ''Account not found'')
      | Some balance \<Rightarrow>
        if balance < rq_amount q + rq_fee q then reject (errm ''ERR_INSUFFICIENT_FUNDS'' ''Insufficient balance'')
        else (let newBal = balance - (rq_amount q + rq_fee q) in
          mthen (updateAccountBalance (rq_acc q) newBal)
          (mbind (insert_txn ''transaction_ringpay'' 10 (ring_row q token)) (\<lambda>childId.
           mbind (asks (\<lambda>e. draw e 0 mod 10 = 0)) (\<lambda>failure.
           if failure then
             mthen (updateAccountBalance (rq_acc q) balance)
             (mthen (set_ring (rq_txn q) (\<lambda>r. r\<lparr>t_status := ''FAILED'', t_reversal := ''REVERSED''\<rparr>))
             (mthen commit (mret ring_failure)))
           else
             mthen (set_ring (rq_txn q) (\<lambda>r. r\<lparr>t_status := ''SUCCESS''\<rparr>))
             (mthen (insert_master ''transaction_ringpay'' childId ''SUCCESS'')
             (mthen commit
             (mret (jobj ((if usedToday + rq_amount q > RING_WARNING_LEVEL
                  then [(''warning'', JStr ''Approaching daily RingPay limit'')] else []) @
                [(''status'', JStr ''SUCCESS''), (''transactionId'', JStr (rq_txn q)), (''token'', JStr token),
                 (''balanceAfter'', JNum newBal), (''riskScore'', JInt risk)]))))))))))))"

definition ring_limits :: "ring_req \<Rightarrow> string \<Rightarrow> json M" where
  "ring_limits q token =
     (if rq_amount q > RING_SINGLE_LIMIT then
        mret (errm ''ERR_SINGLE_LIMIT'' (''Max '' @ double_str RING_SINGLE_LIMIT @ '' per RingPay txn''))
      else mbind (query (used_today (rq_acc q))) (\<lambda>usedToday.
        if usedToday + rq_amount q > RING_DAILY_LIMIT then
          mret (errm ''ERR_DAILY_LIMIT'' ''Daily RingPay limit exceeded'')
        else mbind (query (merchant_used (rq_acc q) (rq_merchant q))) (\<lambda>merchantUsed.
          if merchantUsed + rq_amount q > RING_MERCHANT_LIMIT then
            mret (errm ''ERR_MERCHANT_LIMIT'' ''Merchant daily limit exceeded'')
          else (let risk = ring_risk (rq_amount q) usedToday in
            if risk \<ge> RING_RISK_BLOCK then
              mret (jobj [(''status'', JStr ''BLOCKED''), (''reason'', JStr (''High risk score: '' @ int_str risk))])
            else ring_settle q token usedToday risk))))"

definition ring_pay :: "ring_req \<Rightarrow> json M" where
  "ring_pay q = mbind (ring_token (rq_acc q) (rq_pan q)) (ring_limits q)"

definition ring_decline :: "json \<Rightarrow> ring_req \<Rightarrow> string \<Rightarrow> json M" where
  "ring_decline data q reason =
     mbind (mlift (jvalue_str data ''clientTxnId'' (rq_txn q))) (\<lambda>clientId.
     mthen (logFraud (rq_txn q) clientId (rq_device q) [] (rq_acc q) (rq_amount q) reason)
     (mret (jobj [(''transactionId'', JStr (rq_txn q)), (''status'', JStr ''DECLINED''), (''message'', JStr reason)])))"

definition ring_checked :: "json \<Rightarrow> ring_req \<Rightarrow> json M" where
  "ring_checked data q =
     mbind (ring_frozen (rq_acc q)) (\<lambda>frozen.
     if frozen then mret (errm ''ERR_ACCOUNT_FROZEN'' ''Account is frozen'')
     else
     mthen newFalcon
     (mbind (correlation data) (\<lambda>txnId.
      let q = q\<lparr>rq_txn := txnId\<rparr> in
      mbind (checkFraud (rq_acc q) (rq_amount q) F_RINGPAY (Some data)) (\<lambda>fraud. case fraud of
        Some reason \<Rightarrow> ring_decline data q reason
      | None \<Rightarrow> ring_pay q))))"

definition processRingPayTransaction :: "json \<Rightarrow> json M" where
  "processRingPayTransaction data =
     mbind (correlation data) (\<lambda>_.
     mbind (mlift (jvalue_str data ''transactionType'' (transactionTypeToString TT_PURCHASE))) (\<lambda>_.
     mthen scopedConnection
     (mcatch
       (mbind (mlift (jat_str data ''pan'')) (\<lambda>encPan.
        mbind (strval data ''expiry'') (\<lambda>expiry.
        mbind (mlift (jat_num data ''amount'')) (\<lambda>amount.
        mbind (numval data ''fee'') (\<lambda>fee.
        mbind (mlift (jat_str data ''deviceId'')) (\<lambda>deviceId.
        mbind (strval data ''ipAddress'') (\<lambda>ipAddr.
        mbind (mlift (jat_str data ''terminalId'')) (\<lambda>merchant.
        mbind (or_answer (decrypt encPan) (\<lambda>x. errm ''ERR_INVALID_ENCRYPTED_PAN'' (what x))) (\<lambda>r. case r of
          Inl j \<Rightarrow> mret j
        | Inr pan \<Rightarrow>
          mbind (ring_card data expiry pan) (\<lambda>c. case c of
            Inl j \<Rightarrow> mret j
          | Inr acc \<Rightarrow> ring_checked data \<lparr>rq_txn = [], rq_amount = amount, rq_fee = fee, rq_device = deviceId,
              rq_ip = ipAddr, rq_merchant = merchant, rq_pan = pan, rq_acc = acc\<rparr>))))))))))
       (\<lambda>x. mret (errm ''ERR_EXCEPTION'' (what x))))))"

section \<open>The contract\<close>

text \<open>The answers after a commit.\<close>

abbreviation settled :: "json \<Rightarrow> bool" where
  "settled j \<equiv> has_status ''SUCCESS'' j \<or> has_status ''FAILED'' j"

lemma keeps_set_ring [keeps_intros]: "keeps e (InTx c) (set_ring txn f)"
  unfolding set_ring_def by (intro keeps_intros)

lemma keeps_ring_token [keeps_intros]: "keeps e (Idle c) (ring_token acc pan)"
  unfolding ring_token_def by (intro keeps_intros keeps_sql_Idle) (auto simp: books_def split: if_splits)

lemma hc_ring_settle [hc_intros]: "handler_code settled e c (ring_settle q token u k)"
  unfolding ring_settle_def
  by (intro hc_intros tx_intros keeps_intros) (simp_all add: has_status_def jfind_jobj ring_failure_def)

lemma reader_ring [reader_intros]: "reader (ring_card data expiry pan)" "reader (ring_frozen acc)"
  unfolding ring_card_def ring_cvv_ok_def ring_frozen_def by (intro reader_intros)+

lemmas keeps_ring [keeps_intros] = reader_ring [THEN reader_keeps_Idle]

lemma hc_ring: "handler_code settled e c (processRingPayTransaction data)"
  unfolding processRingPayTransaction_def ring_checked_def ring_decline_def ring_pay_def ring_limits_def
  by (intro hc_intros keeps_intros)

interpretation ring: channel_handler processRingPayTransaction settled
  by unfold_locales (rule hc_ring)

section \<open>Payments that settle\<close>

text \<open>What a payment has been checked for when it comes to the account.\<close>

definition ring_admitted :: "ring_req \<Rightarrow> env \<Rightarrow> db \<Rightarrow> bool" where
  "ring_admitted q e d \<longleftrightarrow>
     (\<exists>row. find_card (rq_pan q) d = Some row \<and> card_acc row = rq_acc q \<and> card_status row = ''ACTIVE'' \<and>
        card_priority row = ''PRIMARY'') \<and>
     (\<exists>r. find_account (rq_acc q) d = Some r \<and> \<not> acc_frozen r) \<and> rq_amount q \<le> 2000 \<and>
     used_today (rq_acc q) e d + rq_amount q \<le> 5000 \<and>
     merchant_used (rq_acc q) (rq_merchant q) e d + rq_amount q \<le> 3000 \<and>
     \<not> (rq_amount q > 1500 \<and> used_today (rq_acc q) e d > 3000)"

lemma set_ring_Val [val_simps]: "set_ring txn f e w = (Val u, w') \<longleftrightarrow>
    fault e (tick w) = None \<and> w' = put ((cur w)\<lparr>txns := mark_ring txn f (txns (cur w))\<rparr>) (step_tick w)"
  by (auto simp: set_ring_def val_simps)

lemma reject_settled: "settled res \<Longrightarrow> \<not> settled j \<Longrightarrow> reject j e w \<noteq> (Val res, w')"
  by (auto simp: reject_def val_simps)

lemma ring_settle_Val:
  assumes "ring_settle q token u k e w = (Val res, w')" and "settled res" and "working w = None"
  shows "\<exists>r. find_account (rq_acc q) (committed w) = Some r \<and> rq_amount q + rq_fee q \<le> acc_balance r \<and>
     working w' = None \<and> lock_log w' = lock_log w @ [Acquire (rq_acc q) DEBIT, Release (rq_acc q) DEBIT] \<and>
     (let newBal = acc_balance r - (rq_amount q + rq_fee q);
          accs = set_balance (rq_acc q) (dec2 newBal) (accounts (committed w));
          ts = add_txn ''transaction_ringpay''
            (stored_txn (next_id t_id (txns (committed w) ''transaction_ringpay'')) (now e) (ring_row q token)) (txns (committed w))
      in if succeeded res
         then accounts (committed w') = accs \<and> txns (committed w') = mark_ring (rq_txn q) (\<lambda>r. r\<lparr>t_status := ''SUCCESS''\<rparr>) ts
         else accounts (committed w') = set_balance (rq_acc q) (dec2 (acc_balance r)) accs \<and>
           txns (committed w') = mark_ring (rq_txn q) (\<lambda>r. r\<lparr>t_status := ''FAILED'', t_reversal := ''REVERSED''\<rparr>) ts)"
  using assms unfolding ring_settle_def
  by (clarsimp simp: val_simps getAccountBalance_def reject_settled Let_def not_less split del: if_split)
    (elim disjE conjE; clarsimp simp: cur_def put_def ring_row_def new_txn_def ring_failure_def has_status_def jfind_jobj
      split: if_splits)

text \<open>Issuing a token touches the token table only.\<close>

lemma ring_token_Val:
  assumes "ring_token acc pan e w = (Val token, w')" and "working w = None"
  shows "working w' = None \<and> lock_log w' = lock_log w \<and> (\<exists>ts. committed w' = (committed w)\<lparr>tokens := ts\<rparr>)"
  using assms unfolding ring_token_def
  by (auto simp: val_simps cur_def put_def split: if_splits intro: exI [of _ "tokens (committed w)"])

lemma ring_limits_Val:
  assumes "ring_limits q token e w = (Val res, w')" and "settled res" and "working w = None"
  shows "rq_amount q \<le> 2000 \<and> used_today (rq_acc q) e (committed w) + rq_amount q \<le> 5000 \<and>
     merchant_used (rq_acc q) (rq_merchant q) e (committed w) + rq_amount q \<le> 3000 \<and>
     \<not> (rq_amount q > 1500 \<and> used_today (rq_acc q) e (committed w) > 3000) \<and>
     (\<exists>u k w1. same_db w w1 \<and> ring_settle q token u k e w1 = (Val res, w'))"
proof -
  have "\<not> settled (errm c m)" for c m by simp
  moreover have "\<not> settled (jobj [(''status'', JStr ''BLOCKED''), (''reason'', j)])" for j
    by (simp add: has_status_def jfind_jobj)
  ultimately have "rq_amount q \<le> 2000 \<and> used_today (rq_acc q) e (committed w) + rq_amount q \<le> 5000 \<and>
     merchant_used (rq_acc q) (rq_merchant q) e (committed w) + rq_amount q \<le> 3000 \<and>
     \<not> (rq_amount q > 1500 \<and> used_today (rq_acc q) e (committed w) > 3000) \<and>
     (\<exists>u k. ring_settle q token u k e (step_tick (step_tick w)) = (Val res, w'))"
    using assms unfolding ring_limits_def
    by (auto simp: val_simps Let_def not_less not_le RING_SINGLE_LIMIT_def RING_DAILY_LIMIT_def RING_MERCHANT_LIMIT_def
      RING_RISK_BLOCK_def ring_risk_def cur_def split: if_splits)
  moreover have "same_db w (step_tick (step_tick w))" by (simp add: same_db_def)
  ultimately show ?thesis by blast
qed

lemma ring_card_Inr:
  assumes "ring_card data expiry pan e w = (Val (Inr acc), w')"
  shows "\<exists>row. find_card pan (cur w) = Some row \<and> card_acc row = acc \<and> card_status row = ''ACTIVE'' \<and>
     card_priority row = ''PRIMARY''"
  using assms unfolding ring_card_def ring_cvv_ok_def
  by (auto simp: val_simps optional_pin_def check_pin_def select_card_def split: if_splits)

lemma ring_card_early: "early (\<lambda>j. \<not> settled j) (ring_card data expiry pan)"
  unfolding ring_card_def
  by (rule early_intros | simp)+

lemma ring_frozen_Val: "ring_frozen acc e w = (Val b, w') \<Longrightarrow> \<exists>r. find_account acc (cur w) = Some r \<and> acc_frozen r = b"
  unfolding ring_frozen_def by (auto simp: val_simps)

lemma ring_success:
  assumes run: "processRingPayTransaction data e w = (Val res, w')" and ok: "settled res" and idle: "working w = None"
  shows "\<exists>q token u k w1. ring_admitted q e (committed w) \<and> jat_num data ''amount'' = Val (rq_amount q) \<and>
     working w1 = None \<and> lock_log w1 = lock_log w \<and>
     (\<exists>ts. committed w1 = (committed w)\<lparr>tokens := ts\<rparr>) \<and> ring_settle q token u k e w1 = (Val res, w')"
proof -
  let ?C = "\<lambda>q. jat_num data ''amount'' = Val (rq_amount q) \<and>
     (\<exists>row. find_card (rq_pan q) (committed w) = Some row \<and> card_acc row = rq_acc q \<and>
     card_status row = ''ACTIVE'' \<and> card_priority row = ''PRIMARY'')"
  let ?A = "\<lambda>q. \<exists>r. find_account (rq_acc q) (committed w) = Some r \<and> \<not> acc_frozen r"
  let ?S = "\<lambda>n. \<exists>q. ?C q \<and> ?A q \<and> n = ring_pay q"
  have decline: "leads settled ?S e v (ring_decline data q reason)" for v q reason
    unfolding ring_decline_def
    by (rule leads_never, intro leads_intros) (simp add: has_status_def jfind_jobj)
  have pay: "leads settled ?S e v (ring_pay q)" if "?C q" "?A q" for v q
    by (rule leads_here) (use that in blast)
  have checked: "leads settled ?S e v (ring_checked data q)" if "?C q" "cur v = committed w" for v q
    unfolding ring_checked_def
    by (intro leads_intros reader_intros decline pay) (use that in \<open>auto dest: ring_frozen_Val\<close>)
  have "leads settled ?S e w (processRingPayTransaction data)"
    unfolding processRingPayTransaction_def
  proof (intro leads_intros reader_intros checked, goal_cases)
    case 1
    have "early (\<lambda>j. \<not> settled j) (or_answer (decrypt s) (\<lambda>x. errm ''ERR_INVALID_ENCRYPTED_PAN'' (what x)))" for s
      by (rule early_or_answer) simp
    from earlyD [OF this] 1 show ?case by blast
  next
    case 2 then show ?case by (auto dest: earlyD [OF ring_card_early])
  next
    case (3 x w1 xa w1a xb w1b xc w1c xd w1d xe w1e xf w1f xg w1g xh w1h xi w1i xj w1j pan xk w1k acc)
    then have "cur w1j = committed w" using idle by (simp add: same_db_def cur_def)
    with 3 show ?case by (auto simp: val_simps dest: ring_card_Inr)
  next
    case 4 then show ?case using idle by (simp add: same_db_def cur_def)
  qed simp
  from leadsD [OF this run ok] obtain q w1 where q: "?C q" "?A q" and s: "same_db w w1"
    and pay: "ring_pay q e w1 = (Val res, w')" by blast
  from s idle have w1: "working w1 = None" "committed w1 = committed w" "lock_log w1 = lock_log w" by (simp_all add: same_db_def)
  from pay obtain token w2 where tok: "ring_token (rq_acc q) (rq_pan q) e w1 = (Val token, w2)"
    and lim: "ring_limits q token e w2 = (Val res, w')" by (auto simp: ring_pay_def val_simps)
  from ring_token_Val [OF tok w1(1)] w1 obtain ts where
    w2: "working w2 = None" "lock_log w2 = lock_log w" "committed w2 = (committed w)\<lparr>tokens := ts\<rparr>" by auto
  from ring_limits_Val [OF lim ok w2(1)] obtain u k w3 where
    lims: "rq_amount q \<le> 2000" "used_today (rq_acc q) e (committed w) + rq_amount q \<le> 5000"
      "merchant_used (rq_acc q) (rq_merchant q) e (committed w) + rq_amount q \<le> 3000"
      "\<not> (rq_amount q > 1500 \<and> used_today (rq_acc q) e (committed w) > 3000)"
    and s3: "same_db w2 w3" and settle: "ring_settle q token u k e w3 = (Val res, w')"
    by (auto simp: w2 used_today_def merchant_used_def)
  from s3 w2 have "working w3 = None" "lock_log w3 = lock_log w" "committed w3 = (committed w)\<lparr>tokens := ts\<rparr>"
    by (simp_all add: same_db_def)
  with q lims settle show ?thesis by (intro exI conjI) (auto simp: ring_admitted_def)
qed

section \<open>A run that settles\<close>

lemma ring_settle_runs:
  assumes f: "fault e = (\<lambda>_. None)" and "find_account (rq_acc q) (cur w) = Some r" and "rq_amount q + rq_fee q \<le> acc_balance r"
    and "\<bar>dec2 (acc_balance r - (rq_amount q + rq_fee q))\<bar> < 10 ^ 10" "\<bar>dec2 (acc_balance r)\<bar> < 10 ^ 10"
    and "\<bar>dec2 (rq_amount q)\<bar> < 10 ^ 8" and "\<bar>dec2 (rq_fee q)\<bar> < 10 ^ 8"
  shows "\<exists>res w'. ring_settle q token u k e w = (Val res, w') \<and>
    (if draw e 0 mod 10 = 0 then has_status ''FAILED'' res else succeeded res)"
proof -
  have ring: "set_ring txn g e v = (Val (), put ((cur v)\<lparr>txns := mark_ring txn g (txns (cur v))\<rparr>) (step_tick v))" for txn g v
    using f by (simp add: set_ring_def sql_def)
  show ?thesis
    using assms(2-) unfolding ring_settle_def run_flow
    by (simp add: ok_runs [OF f] ring not_less Let_def ring_row_def new_txn_def ring_failure_def has_status_def jfind_jobj)
qed

definition demo_ring :: json where
  "demo_ring = jobj [(''pan'', JStr (replicate 28 CHR ''x'' @ ''P'')), (''amount'', JInt 10), (''deviceId'', JStr ''device-0001''),
     (''terminalId'', JStr ''T'')]"

lemma demo_ring_score: "aiThreatScore demo_env (Some demo_ring) 10 F_RINGPAY = None"
  by (simp add: aiThreatScore_def risk_of_def demo_ring_def jobj_def flagRisk_def laterFlagRisk_def addBoolRisk_def
      addFalseRisk_def contextBool_def contextNumber_def boolValue_def nestedBoolValue_def findObject_def
      numberValue_def nestedNumberValue_def integrityRisk_def deviceIntegrity_def stringValue_def
      nestedStringValue_def lowerAscii_def reportedRisk_def trustRisk_def agentRisk_def forwardedRisk_def
      payloadRisk_def deviceIdRisk_def amountRisk_def containsAny_def FALCON_AI_DECLINE_SCORE_def Let_def
      addRisk_def)

lemma demo_ring_runs:
  "\<exists>res w'. processRingPayTransaction demo_ring demo_env card_world = (Val res, w') \<and> has_status ''FAILED'' res"
proof -
  define q where "q = \<lparr>rq_txn = ''u1'', rq_amount = 10, rq_fee = 0, rq_device = ''device-0001'', rq_ip = [], rq_merchant = ''T'',
    rq_pan = ''P'', rq_acc = ''A''\<rparr>"
  define w1 where "w1 = step_tick (step_tick (step_tick (step_tick card_world)))"
  have w1: "cur w1 = committed card_world" "lru_map (lru w1) = []" by (simp_all add: w1_def cur_def)
  from checkFraud_clear [OF demo_simps(1) demo_ring_score w1(2), of "''A''"] w1 obtain w2 where
    fraud: "checkFraud ''A'' 10 F_RINGPAY (Some demo_ring) demo_env w1 = (Val None, w2)" by auto
  with readerD [OF reader_checkFraud fraud] w1 have w2: "cur w2 = committed card_world" by (auto dest: same_db_cur)
  obtain w3 where tok: "ring_token ''A'' ''P'' demo_env w2 = (Val (generateToken demo_env), w3)"
    and w3: "find_account ''A'' (cur w3) = Some (demo_account 1 ''A'' 100)" "txns (cur w3) = (\<lambda>_. [])"
    using w2 by (simp add: ring_token_def run_flow ok_runs live_token_def sql_def card_world_def demo_db_def
        find_account_def demo_account_def)
  obtain res w' where run: "ring_settle q (generateToken demo_env) 0 0 demo_env (step_tick (step_tick w3)) = (Val res, w')"
      "has_status ''FAILED'' res"
    using ring_settle_runs [OF demo_simps(1), where q = q and w = "step_tick (step_tick w3)" and r = "demo_account 1 ''A'' 100"
        and token = "generateToken demo_env" and u = 0 and k = 0] w3 by (auto simp: q_def)
  have "ring_pay q demo_env w2 = (Val res, w')"
    using tok run w3 by (simp add: ring_pay_def ring_limits_def run_flow ok_runs q_def used_today_def merchant_used_def
        sum_amounts_def RING_SINGLE_LIMIT_def RING_DAILY_LIMIT_def RING_MERCHANT_LIMIT_def RING_RISK_BLOCK_def ring_risk_def Let_def)
  with fraud have "ring_checked demo_ring (q\<lparr>rq_txn := []\<rparr>) demo_env (step_tick (step_tick card_world)) = (Val res, w')"
    by (simp add: ring_checked_def ring_frozen_def newFalcon_def correlation_def run_flow ok_runs q_def w1_def
        demo_ring_def jobj_def cur_def Let_def)
  then have "processRingPayTransaction demo_ring demo_env card_world = (Val res, w')"
    by (simp add: processRingPayTransaction_def ring_card_def ring_cvv_ok_def run_flow strval_def numval_def correlation_def
        ok_runs demo_ring_def jobj_def jcontains_def or_answer_def jat_str_def jat_num_def decrypt_def decryptPAN_def
        base64_decode_def IV_LEN_def TAG_LEN_def Let_def optional_pin_def select_card_def cur_def demo_card_def q_def)
  with run(2) show ?thesis by blast
qed

section \<open>Properties\<close>

definition balance_of :: "string \<Rightarrow> db \<Rightarrow> money option" where
  "balance_of acc d = map_option acc_balance (find_account acc d)"

text \<open>C17: A RingPay payment settles only for an active primary card of an account that is not frozen,
  for at most 2000, within 5000 of successful payments a day and 3000 a day for one merchant, and
  when the balance covers amount and fee. With SUCCESS the account is charged amount and fee; with
  FAILED every account has the balance it had. Either way one row is added, under the debit lock.\<close>

theorem ringpay_effect:
  assumes "processRingPayTransaction data e w = (Val res, w')" and "settled res" and "working w = None"
    and "\<forall>r\<in>set (accounts (committed w)). is_cents (acc_balance r)"
  shows "\<exists>q token b. ring_admitted q e (committed w) \<and> jat_num data ''amount'' = Val (rq_amount q) \<and>
    balance_of (rq_acc q) (committed w) = Some b \<and> rq_amount q + rq_fee q \<le> b \<and> working w' = None \<and>
    lock_log w' = lock_log w @ [Acquire (rq_acc q) DEBIT, Release (rq_acc q) DEBIT] \<and>
    (\<forall>a. balance_of a (committed w') =
       (if succeeded res \<and> a = rq_acc q then Some (dec2 (b - (rq_amount q + rq_fee q))) else balance_of a (committed w))) \<and>
    txns (committed w') = mark_ring (rq_txn q) (\<lambda>r. if succeeded res then r\<lparr>t_status := ''SUCCESS''\<rparr>
        else r\<lparr>t_status := ''FAILED'', t_reversal := ''REVERSED''\<rparr>)
      (add_txn ''transaction_ringpay'' (stored_txn (next_id t_id (txns (committed w) ''transaction_ringpay'')) (now e)
         (ring_row q token)) (txns (committed w)))"
proof -
  from ring_success [OF assms(1-3)] obtain q token u k w1 ts where
    adm: "ring_admitted q e (committed w)" "jat_num data ''amount'' = Val (rq_amount q)"
    and w1: "working w1 = None" "lock_log w1 = lock_log w" "committed w1 = (committed w)\<lparr>tokens := ts\<rparr>"
    and settle: "ring_settle q token u k e w1 = (Val res, w')" by blast
  from ring_settle_Val [OF settle assms(2) w1(1)] obtain r where
    r: "find_account (rq_acc q) (committed w) = Some r" "rq_amount q + rq_fee q \<le> acc_balance r"
    and st: "working w' = None" "lock_log w' = lock_log w @ [Acquire (rq_acc q) DEBIT, Release (rq_acc q) DEBIT]"
    and accs: "accounts (committed w') = (if succeeded res
        then set_balance (rq_acc q) (dec2 (acc_balance r - (rq_amount q + rq_fee q))) (accounts (committed w))
        else set_balance (rq_acc q) (dec2 (acc_balance r))
          (set_balance (rq_acc q) (dec2 (acc_balance r - (rq_amount q + rq_fee q))) (accounts (committed w))))"
    and ts: "txns (committed w') = mark_ring (rq_txn q) (\<lambda>r. if succeeded res then r\<lparr>t_status := ''SUCCESS''\<rparr>
        else r\<lparr>t_status := ''FAILED'', t_reversal := ''REVERSED''\<rparr>)
      (add_txn ''transaction_ringpay'' (stored_txn (next_id t_id (txns (committed w) ''transaction_ringpay'')) (now e)
         (ring_row q token)) (txns (committed w)))"
    by (cases "succeeded res") (auto simp: w1 find_account_def Let_def)
  from r(1) have "is_cents (acc_balance r)" using assms(4) by (auto simp: find_account_def find_Some_iff)
  with r accs have "balance_of a (committed w') = (if succeeded res \<and> a = rq_acc q
      then Some (dec2 (acc_balance r - (rq_amount q + rq_fee q))) else balance_of a (committed w))" for a
    by (auto simp: balance_of_def find_account_def row_simps)
  with adm r st ts show ?thesis
    by (intro exI [of _ q] exI [of _ token] exI [of _ "acc_balance r"]) (simp add: balance_of_def)
qed

lemma ringpay_effect_witness:
  "\<exists>res w'. processRingPayTransaction demo_ring demo_env card_world = (Val res, w') \<and> has_status ''FAILED'' res \<and>
     balance_of ''A'' (committed w') = Some 100"
proof -
  from demo_ring_runs obtain res w' where run: "processRingPayTransaction demo_ring demo_env card_world = (Val res, w')"
    "has_status ''FAILED'' res" by blast
  then have ok: "settled res" and no: "\<not> succeeded res" by (auto simp: has_status_def)
  have cents: "\<forall>r\<in>set (accounts (committed card_world)). is_cents (acc_balance r)"
    by (simp add: card_world_def demo_db_def demo_account_def)
  from ringpay_effect [OF run(1) ok card_world_simps(1) cents] no
  have "balance_of ''A'' (committed w') = balance_of ''A'' (committed card_world)" by auto
  with run show ?thesis by (auto simp: balance_of_def)
qed

end
