(* ===== verification/Frame.thy ===== *)
theory Frame
  imports Atm Mobile Ecom Pos Iccw Qr RingPay
begin

text \<open>
  What handlers keep of the tables whatever happens. \<open>payment_tables\<close> is the interface between
  a property of the tables and the payment channels: the law for every kind of statement the
  channels issue, from which each channel keeps the property in the committed tables and in an open
  transaction. Its first instance is the frame of a payment: everything but balances, the time a
  card was last used, and the journals.
\<close>

section \<open>Properties of the tables\<close>

definition holds :: "(db \<Rightarrow> bool) \<Rightarrow> world \<Rightarrow> bool" where
  "holds P w \<longleftrightarrow> P (committed w) \<and> P (cur w)"

named_theorems frame_intros \<open>what keeps a property of the tables\<close>

lemma holds_simps [simp]: "holds P (step_tick w) = holds P w" "holds P (log_lock ev w) = holds P w"
  "holds P (w\<lparr>lru := c\<rparr>) = holds P w" "holds P (w\<lparr>gate := g\<rparr>) = holds P w"
  by (simp_all add: holds_def)

lemma holds_idle: "working w = None \<Longrightarrow> holds P w = P (committed w)"
  by (simp add: holds_def)

lemma same_db_holds: "same_db w w' \<Longrightarrow> holds P w' = holds P w"
  by (auto simp: same_db_def holds_def cur_def split: option.split)

lemma reader_holds: "reader m \<Longrightarrow> keeps e (holds P) m"
  by (rule keepsI, rule wpI) (auto dest: readerD simp: same_db_holds)

lemma keeps_sql_holds:
  assumes "\<And>d x d'. f e d = Inr (x, d') \<Longrightarrow> P d \<Longrightarrow> P d'"
  shows "keeps e (holds P) (sql f)"
  by (rule keepsI) (auto simp: wp_simps holds_def put_def cur_def dest: assms split: option.splits sum.split prod.split)

lemma holds_transaction [frame_intros]:
  "keeps e (holds P) startTransaction" "keeps e (holds P) commit" "keeps e (holds P) rollback"
  by (auto intro!: keepsI simp: wp_simps holds_def cur_def split: option.split)

lemma holds_withLock [frame_intros]: "keeps e (holds P) m \<Longrightarrow> keeps e (holds P) (withLock a p m)"
  unfolding keeps_def by (rule t_withLock) auto

lemma holds_query [frame_intros]: "keeps e (holds P) (query f)"
  and holds_conn [frame_intros]: "keeps e (holds P) scopedConnection"
  and holds_gate [frame_intros]: "keeps e (holds P) (with_gate g)"
  by (intro reader_holds reader_intros)+

lemma keeps_option_eq:
  "(x = None \<Longrightarrow> keeps e I m) \<Longrightarrow> (\<And>y. x = Some y \<Longrightarrow> keeps e I (f y)) \<Longrightarrow>
   keeps e I (case x of None \<Rightarrow> m | Some y \<Rightarrow> f y)"
  by (cases x) simp_all

lemma keeps_json:
  assumes "\<And>s. keeps e I (g s)" and "keeps e I m"
  shows "keeps e I (case j of JStr s \<Rightarrow> g s | _ \<Rightarrow> m)"
  using assms by (cases j) simp_all

lemma holds_block [frame_intros]: "keeps e (holds P) try_rollback"
  "keeps e (holds P) m \<Longrightarrow> keeps e (holds P) (in_txn m)"
  "keeps e (holds P) m \<Longrightarrow> keeps e (holds P) (in_txn_throw m)"
  "keeps e (holds P) m' \<Longrightarrow> keeps e (holds P) (in_txn_fail x m')"
  "keeps e (holds P) (reject j)"
  unfolding try_rollback_def in_txn_def in_txn_throw_def in_txn_fail_def reject_def
  by (intro keeps_intros frame_intros; assumption?)+

lemma holds_detached [frame_intros]:
  assumes "keeps e (holds P) m" shows "keeps e (holds P) (detached m)"
proof (rule keepsI, rule wpI)
  fix w r w'
  assume "holds P w" and run: "detached m e w = (r, w')"
  obtain r1 w1 where m: "m e w = (r1, w1)" by (cases "m e w")
  with run have "w' = w1" by (cases r1) (simp_all add: detached_def)
  with keepsD [OF assms \<open>holds P w\<close> m] show "holds P w'" by simp
qed

lemma holds_readers [frame_intros]:
  "keeps e (holds P) (checkFraud acc amount channel req)" "keeps e (holds P) (select_card pan)"
  "keeps e (holds P) (balance_or_throw msg acc)"
  by (intro reader_holds reader_checkFraud reader_intros)+

lemma holds_lookups [frame_intros]:
  "keeps e (holds P) (getAccountBalance acc)" "keeps e (holds P) (getAccountBalanceAndCurrency acc)"
  "keeps e (holds P) newFalcon" "keeps e (holds P) (checkAccountExistsForUpdate acc)"
  "keeps e (holds P) (get3DSChallenge cid)" "keeps e (holds P) (convertToBase cu x)"
  unfolding getAccountBalance_def getAccountBalanceAndCurrency_def newFalcon_def checkAccountExistsForUpdate_def
    get3DSChallenge_def convertToBase_def getExchangeRate_def Let_def
  by (intro keeps_intros frame_intros)+

section \<open>Payment channels\<close>

locale payment_tables =
  fixes P :: "db \<Rightarrow> bool"
  assumes balance: "P d \<Longrightarrow> P (d\<lparr>accounts := set_balance acc (dec2 x) (accounts d)\<rparr>)"
    and row_added: "P d \<Longrightarrow> P (d\<lparr>txns := add_txn tbl (stored_txn (next_id t_id (txns d tbl)) t row) (txns d)\<rparr>)"
    and rows_changed: "P d \<Longrightarrow> (\<And>r. t_id (f r) = t_id r) \<Longrightarrow>
      P (d\<lparr>txns := (txns d)(tbl := upd_rows Q f (txns d tbl))\<rparr>)"
    and card_touched: "P d \<Longrightarrow> P (d\<lparr>cards := upd_rows R (\<lambda>c. c\<lparr>card_last := Some t\<rparr>) (cards d)\<rparr>)"
    and journals: "P d \<Longrightarrow> P (d\<lparr>master := m\<rparr>)" "P d \<Longrightarrow> P (d\<lparr>ledger_accs := las\<rparr>)"
      "P d \<Longrightarrow> P (d\<lparr>ledger_entries := les\<rparr>)" "P d \<Longrightarrow> P (d\<lparr>tokens := tks\<rparr>)" "P d \<Longrightarrow> P (d\<lparr>falcon_log := fl\<rparr>)"
      "P d \<Longrightarrow> P (d\<lparr>reversals := rs\<rparr>)" "P d \<Longrightarrow> P (d\<lparr>drops := ds\<rparr>)"
begin

lemma writes [frame_intros]:
  "keeps e (holds P) (updateAccountBalance acc b)" "keeps e (holds P) (insert_txn tbl p row)"
  "keeps e (holds P) (insert_master tbl ref st)" "keeps e (holds P) (touch_card R)"
  "keeps e (holds P) (set_refund tbl col i amount flag)"
  "keeps e (holds P) (getOrCreateLedgerAccount acc name ty)"
  "keeps e (holds P) (postLedgerEntry txn l amount et delta ds)"
  "keeps e (holds P) (logFraud txn client dev mob acc amount reason)"
  unfolding updateAccountBalance_def insert_txn_def insert_master_def touch_card_def set_refund_def
    getOrCreateLedgerAccount_def postLedgerEntry_def logFraud_def
  by (intro keeps_intros frame_intros keeps_sql_holds;
      auto simp: Let_def dec_col_Inr balance row_added card_touched journals split: sum.splits if_splits
        intro!: rows_changed)+

lemma ledger [frame_intros]:
  "keeps e (holds P) (processPurchaseLedger txn cu m t fee mk ds)"
  "keeps e (holds P) (processRefundLedger txn cu m x ds)"
  unfolding processPurchaseLedger_def processRefundLedger_def by (intro keeps_intros frame_intros)+

lemma reversal_writes [frame_intros]:
  "keeps e (holds P) (creditBack acc amount fee)" "keeps e (holds P) (insertReversalTxn row)"
  "keeps e (holds P) (markOriginalReversed tbl i)" "keeps e (holds P) (writeDropFile drow)"
  unfolding creditBack_def insertReversalTxn_def markOriginalReversed_def writeDropFile_def
  by (intro keeps_intros frame_intros keeps_sql_holds;
      auto simp: Let_def journals split: sum.splits if_splits intro!: rows_changed)+

lemma reversal [frame_intros]: "keeps e (holds P) (processReversalCore data)" "keeps e (holds P) (processReversal data)"
  unfolding processReversal_def processReversalCore_def queue_after_error_def queue_reversal_def apply_reversal_def
    isDbAlive_def read_request_def
  by (intro keeps_intros frame_intros)+

lemma atm_handlers [frame_intros]:
  "keeps e (holds P) (handleWithdrawal data acc pan scheme)" "keeps e (holds P) (handleDeposit data acc pan scheme)"
  unfolding handleWithdrawal_def handleDeposit_def atm_record_def touchCard_def insertATMTransaction_def
    getTodayWithdrawalTotal_def getTodayDepositTotal_def
  by (intro keeps_intros frame_intros)+

lemma atm_dispatch [frame_intros]: "keeps e (holds P) (atm_dispatch data txnTypeStr pan row)"
proof -
  have "keeps e (holds P) (h data acc pan scheme)" if "ATM_DISPATCH t = Some h" for h t acc scheme
    using that by (cases t) (auto intro: frame_intros)
  then show ?thesis
    unfolding atm_dispatch_def by (intro keeps_intros frame_intros keeps_option_eq)
qed

lemma atm [frame_intros]: "keeps e (holds P) (processATMTransaction data)"
  unfolding processATMTransaction_def processATMCore_def atm_card_checks_def atm_reversal_def
  by (intro keeps_intros frame_intros)

lemma mobile [frame_intros]: "keeps e (holds P) (processMobileTransaction data)"
  unfolding processMobileTransaction_def processMobileCore_def mobile_checked_def transfer_def transfer_apply_def
    lock_pair_def lock_balances_def read_balances_def Mobile.read_balance_def mobile_record_def resolve_debit_def
    getMobileHourlySpent_def getMobileDailySpent_def Let_def
  by (intro keeps_intros frame_intros)

lemma ecom [frame_intros]: "keeps e (holds P) (processECOMTransaction data)"
  unfolding processECOMTransaction_def processECOMTransactionCore_def ecom_with_account_def ecom_dispatch_def
    ecom_decline_def ecom_refund_def ecom_refund_apply_def ecom_purchase_def getEcomPurchaseForUpdate_def Let_def
  by (intro keeps_intros frame_intros reader_holds [OF reader_ecom_resolve] reader_holds [OF reader_fx_charge])

lemma pos_charge [frame_intros]: "keeps e (holds P) (pos_charge q acc pan scheme amount markup)"
  "keeps e (holds P) (iccw_charge q acc pan scheme amount markup)"
  unfolding pos_charge_def iccw_charge_def by (intro keeps_intros frame_intros)+

lemma pos_purchase [frame_intros]: "keeps e (holds P) (purchase data)"
  unfolding purchase_def pos_checked_def pos_decline_def
  by (intro keeps_intros frame_intros reader_holds [OF reader_pos_card] reader_holds [OF reader_pos_currency]
      reader_holds [OF reader_fx_charge])

lemma pos_refund [frame_intros]: "keeps e (holds P) (refund data)"
  unfolding refund_def pos_refund_locked_def pos_refund_row_found_def pos_refund_write_def pos_refund_balance_def Let_def
  by (intro keeps_intros frame_intros reader_holds [OF reader_pos_refund_card])

lemma pos [frame_intros]: "keeps e (holds P) (processPOSTransaction data)"
proof -
  have "keeps e (holds P) (h data)" if "POS_DISPATCH t = Some h" for h t
    using that by (cases t) (auto intro: frame_intros)
  then show ?thesis
    unfolding processPOSTransaction_def pos_async_def by (intro keeps_intros frame_intros keeps_option_eq)
qed

lemma iccw_withdrawal [frame_intros]: "keeps e (holds P) (withdrawal data)"
  unfolding withdrawal_def iccw_checked_def iccw_decline_def
  by (intro keeps_intros frame_intros reader_holds [OF reader_iccw(1)] reader_holds [OF reader_iccw(2)]
      reader_holds [OF reader_fx_charge])

lemma iccw [frame_intros]: "keeps e (holds P) (processICCWTransaction data)"
proof -
  have "keeps e (holds P) (h data)" if "ICCW_DISPATCH t = Some h" for h t
    using that by (cases t) (auto intro: frame_intros)
  then show ?thesis
    unfolding processICCWTransaction_def iccw_async_def by (intro keeps_intros frame_intros keeps_option_eq)
qed

lemma qr [frame_intros]: "keeps e (holds P) (processQRCodePayment data)"
  unfolding processQRCodePayment_def qr_checked_def qr_dispatch_def qr_decline_def qr_refund_def qr_refund_apply_def
    qr_purchase_def getQrPurchaseForUpdate_def checkQrAlreadyRefunded_def Let_def
  by (intro keeps_intros frame_intros reader_holds [OF reader_qr_request])

lemma ring_writes [frame_intros]:
  "keeps e (holds P) (ring_token acc pan)" "keeps e (holds P) (ring_settle q token u risk)"
proof -
  have set: "keeps e (holds P) (set_ring txn f)" if "\<And>r. t_id (f r) = t_id r" for txn f
    unfolding set_ring_def mark_ring_def by (rule keeps_sql_holds) (auto intro!: rows_changed that)
  show "keeps e (holds P) (ring_settle q token u risk)"
    unfolding ring_settle_def Let_def by (intro keeps_intros frame_intros set) simp_all
  show "keeps e (holds P) (ring_token acc pan)"
    unfolding ring_token_def
    by (intro keeps_intros frame_intros keeps_sql_holds) (auto simp: journals split: if_splits)
qed

lemma ring [frame_intros]: "keeps e (holds P) (processRingPayTransaction data)"
  unfolding processRingPayTransaction_def ring_checked_def ring_decline_def ring_pay_def ring_limits_def Let_def
  by (intro keeps_intros frame_intros reader_holds [OF reader_ring(1)] reader_holds [OF reader_ring(2)])

end

section \<open>What a payment leaves alone\<close>

text \<open>Everything the channels must not touch: the accounts but for their balances, the cards but for
  the time of their last use, currencies, rates, idempotency keys, challenges and API keys.\<close>

definition static :: "db \<Rightarrow> account_row list \<times> card_row list \<times> currency_row list \<times> ((string \<times> string) \<times> money) list \<times>
    idem_row list \<times> tds_row list \<times> api_row list" where
  "static d = (map (\<lambda>a. a\<lparr>acc_balance := 0\<rparr>) (accounts d), map (\<lambda>c. c\<lparr>card_last := None\<rparr>) (cards d),
     currencies d, fx_rates d, idem d, tds d, api_keys d)"

interpretation frame: payment_tables "\<lambda>d. static d = s" for s
  by unfold_locales (auto simp: static_def set_balance_def upd_rows_def)

text \<open>The payment channels of the dispatch table.\<close>

fun payment_channel :: "ChannelType \<Rightarrow> (json \<Rightarrow> json M) option" where
  "payment_channel CH_ATM = Some processATMTransaction"
| "payment_channel CH_MOBILE = Some processMobileTransaction"
| "payment_channel CH_POS = Some processPOSTransaction"
| "payment_channel CH_ICCW = Some processICCWTransaction"
| "payment_channel CH_ECOM = Some processECOMTransaction"
| "payment_channel CH_QRCODE = Some processQRCodePayment"
| "payment_channel CH_RINGPAY = Some processRingPayTransaction"
| "payment_channel CH_REVERSAL = Some processReversal"
| "payment_channel _ = None"

context payment_tables begin

lemma payments: "payment_channel ch = Some h \<Longrightarrow> keeps e (holds P) (h data)"
  by (cases ch) (auto intro: frame_intros)

end

section \<open>Properties\<close>


lemma demo_ecom_payment:
  "\<exists>res w'. processECOMTransaction demo_ecom demo_env demo_world = (Val res, w') \<and> succeeded res"
  using demo_ecom_runs
  by (simp add: processECOMTransaction_def run_flow correlation_def demo_ecom_def jobj_def)


section \<open>Atomicity\<close>

text \<open>The part of each channel that works on the tables, with the answers that move money; around it
  \<open>payment_channel\<close> has the thread and its timeout, which answer for themselves.\<close>

fun payment_core :: "ChannelType \<Rightarrow> ((json \<Rightarrow> json M) \<times> (json \<Rightarrow> bool)) option" where
  "payment_core CH_ATM = Some (processATMCore, succeeded)"
| "payment_core CH_MOBILE = Some (processMobileCore, succeeded)"
| "payment_core CH_POS = Some (pos_async, succeeded)"
| "payment_core CH_ICCW = Some (iccw_async, succeeded)"
| "payment_core CH_ECOM = Some (processECOMTransactionCore, succeeded)"
| "payment_core CH_QRCODE = Some (processQRCodePayment, succeeded)"
| "payment_core CH_RINGPAY = Some (processRingPayTransaction, settled)"
| "payment_core CH_REVERSAL = Some (processReversalCore, was_reversed)"
| "payment_core _ = None"

text \<open>C13: On every channel a payment that is not answered as done, whether it is refused at any of its checks, a statement
  fails at any point, an exception leaves it or the process aborts in it, leaves the committed accounts, channel
  rows, ledger and reversals exactly as they were.\<close>

theorem payments_atomic:
  assumes "payment_core ch = Some (core, moved)" and "core data e w = (r, w')" and "working w = None"
    and "\<And>res. r = Val res \<Longrightarrow> \<not> moved res"
  shows "books (committed w') = books (committed w)"
  using assms(1)
  by (cases ch)
    (use assms(2-4) atm.atomic mobile.atomic pos.atomic iccw.atomic ecom.atomic qr.atomic ring.atomic rev.atomic in auto)

lemma payments_atomic_witness:
  "\<exists>res w'. processECOMTransactionCore (jobj []) demo_env demo_world = (Val res, w') \<and> \<not> succeeded res \<and>
     books (committed w') = books demo_db"
proof -
  from demo_ecom_refused obtain w' where run: "processECOMTransactionCore (jobj []) demo_env demo_world =
     (Val (errm ''ERR_MISSING_ACCOUNT'' ''accountNumber or card data required''), w')" by blast
  with payments_atomic [of CH_ECOM processECOMTransactionCore succeeded, OF _ run demo_idle] show ?thesis by auto
qed

end
