(* ===== verification/Tds.thy ===== *)
theory Tds
  imports Frame
begin

text \<open>
  \<^verbatim>\<open>tds.cpp\<close>: the two steps of a 3-D Secure payment. The first parks the request under a
  challenge with a one-time password, the second checks the password and runs the parked request
  on the e-commerce channel. The parked request is stored as text in the source and as the value
  itself here. The milliseconds of the clock and the random numbers are draws.
\<close>

definition genChallengeId :: "env \<Rightarrow> string" where
  "genChallengeId e = ''3DS-'' @ nat_str (1000 * now e + draw e 1 mod 1000) @ ''-'' @ nat_str (10000 + draw e 2 mod 90000)"

definition genOTP :: "env \<Rightarrow> string" where
  "genOTP e = nat_str (100000 + draw e 3 mod 900000)"

definition TDS_TTL :: nat where "TDS_TTL = 600"

section \<open>Initiation\<close>

definition tds_challenge :: "json \<Rightarrow> json M" where
  "tds_challenge data =
     mbind (asks genChallengeId) (\<lambda>challengeId.
     mbind (asks genOTP) (\<lambda>otp.
     mthen (insert3DSChallenge challengeId otp data ''ECOM'' TDS_TTL)
     (mret (jobj [(''status'', JStr ''CHALLENGE_REQUIRED''), (''challengeId'', JStr challengeId),
        (''otpHint'', JStr otp), (''redirectUrl'', JStr ''http://localhost:8080/3ds/verify''),
        (''expiresInSeconds'', JInt 600),
        (''message'', JStr ''OTP sent to registered mobile number. Submit to /3ds/verify to complete payment.'')]))))"

definition tds_card_checked :: "json \<Rightarrow> json \<Rightarrow> card_row \<Rightarrow> json M" where
  "tds_card_checked data cardObj row =
     (if card_status row \<noteq> ''ACTIVE'' then mret (err0 ''ERR_CARD_INACTIVE'')
      else
      mbind (strval cardObj ''expiry'') (\<lambda>expiry.
      mbind (strval cardObj ''cvv'') (\<lambda>reqCvv.
      if expiry \<noteq> [] \<and> expiry \<noteq> card_expiry row then mret (err ''ERR_INVALID_EXPIRY'' ''Wrong expiry'')
      else if reqCvv \<noteq> [] \<and> reqCvv \<noteq> or_empty (card_cvv row) then mret (err ''ERR_INVALID_CVV'' ''Wrong CVV'')
      else tds_challenge data)))"

definition processECOM3DSInitiate :: "json \<Rightarrow> json M" where
  "processECOM3DSInitiate data = mcatch
     (case jfind data ''card'' of
        None \<Rightarrow> mret (err ''ERR_MISSING_PAN'' ''card.pan required'')
      | Some cardObj \<Rightarrow> (case jfind cardObj ''pan'' of
          None \<Rightarrow> mret (err ''ERR_MISSING_PAN'' ''card.pan required'')
        | Some v \<Rightarrow>
          mbind (mlift (get_str v)) (\<lambda>encPan.
          mbind (or_answer (decrypt encPan) (\<lambda>x. err ''ERR_INVALID_ENCRYPTED_PAN'' (what x))) (\<lambda>r. case r of
            Inl j \<Rightarrow> mret j
          | Inr pan \<Rightarrow> mthen scopedConnection
              (mbind (select_card pan) (\<lambda>cardRes. case cardRes of
                 None \<Rightarrow> mret (err0 ''ERR_CARD_NOT_FOUND'')
               | Some row \<Rightarrow> tds_card_checked data cardObj row))))))
     (\<lambda>x. mret (err ''ERR_EXCEPTION'' (what x)))"

section \<open>Verification\<close>

definition tds_execute :: "string \<Rightarrow> json \<Rightarrow> json M" where
  "tds_execute challengeId txnData =
     mthen (update3DSChallengeStatus challengeId ''VERIFIED'')
     (mbind (processECOMTransaction txnData) (\<lambda>result.
      mret (jset (jset result ''challengeId'' (JStr challengeId)) ''threeDSStatus'' (JStr ''AUTHENTICATED''))))"

definition process3DSVerify :: "json \<Rightarrow> json M" where
  "process3DSVerify data = mcatch
     (mbind (strval data ''challengeId'') (\<lambda>challengeId.
      mbind (strval data ''otp'') (\<lambda>otp.
      if challengeId = [] then mret (err ''ERR_MISSING_CHALLENGE'' ''challengeId required'')
      else if otp = [] then mret (err ''ERR_MISSING_OTP'' ''otp required'')
      else mthen scopedConnection
        (mbind (get3DSChallenge challengeId) (\<lambda>res. case res of
           None \<Rightarrow> mret (err ''ERR_CHALLENGE_NOT_FOUND'' ''Invalid challengeId'')
         | Some (storedOtp, txnData, status, expiresAt) \<Rightarrow>
           if status \<noteq> ''PENDING'' then
             mret (err ''ERR_CHALLENGE_USED'' ''This challenge has already been used or expired'')
           else mbind (asks now) (\<lambda>t.
             if t > expiresAt then
               mthen (update3DSChallengeStatus challengeId ''EXPIRED'')
               (mret (err ''ERR_OTP_EXPIRED'' ''OTP has expired. Please initiate a new payment.''))
             else if otp \<noteq> storedOtp then mret (err ''ERR_INVALID_OTP'' ''Invalid OTP'')
             else tds_execute challengeId txnData))))))
     (\<lambda>x. mret (err ''ERR_EXCEPTION'' (what x)))"

section \<open>What a verification does\<close>

definition find_challenge :: "string \<Rightarrow> db \<Rightarrow> tds_row option" where
  "find_challenge cid d = List.find (\<lambda>r. td_id r = cid) (tds d)"

text \<open>The challenge as it is left by a verification that went on to pay.\<close>

definition verified :: "string \<Rightarrow> db \<Rightarrow> db" where
  "verified cid d = d\<lparr>tds := upd_rows (\<lambda>r. td_id r = cid) (\<lambda>r. r\<lparr>td_status := ''VERIFIED''\<rparr>) (tds d)\<rparr>"

definition may_pay :: "env \<Rightarrow> json \<Rightarrow> db \<Rightarrow> string \<Rightarrow> tds_row \<Rightarrow> bool" where
  "may_pay e data d cid c \<longleftrightarrow> jvalue_str data ''challengeId'' [] = Val cid \<and> find_challenge cid d = Some c \<and>
     td_status c = ''PENDING'' \<and> now e \<le> td_expires c \<and> jvalue_str data ''otp'' [] = Val (td_otp c)"

definition verify_post :: "env \<Rightarrow> json \<Rightarrow> world \<Rightarrow> json outcome \<Rightarrow> world \<Rightarrow> bool" where
  "verify_post e data w r w' \<longleftrightarrow>
     books (committed w') = books (committed w) \<and> (\<forall>res. r = Val res \<longrightarrow> \<not> succeeded res) \<or>
     (\<exists>cid c. may_pay e data (committed w) cid c \<and> tds (committed w') = tds (verified cid (committed w)))"

lemma find_challenge_upd: "find_challenge cid d = Some c \<Longrightarrow>
    find_challenge cid (verified cid d) = Some (c\<lparr>td_status := ''VERIFIED''\<rparr>)"
  by (simp add: find_challenge_def verified_def find_upd_rows_same)

lemma verify_post_same: "committed w' = committed w \<Longrightarrow> (\<And>res. r = Val res \<Longrightarrow> \<not> succeeded res) \<Longrightarrow>
    verify_post e data w r w'"
  by (simp add: verify_post_def)

lemma verify_post_paid: "may_pay e data (committed w) cid c \<Longrightarrow> tds (committed w') = tds (verified cid (committed w)) \<Longrightarrow>
    verify_post e data w r w'"
  by (auto simp: verify_post_def)

text \<open>The payment itself leaves the challenges alone.\<close>

lemma ecom_keeps_challenges:
  assumes "tds (committed w) = t" and "working w = None"
  shows "wp e (processECOMTransaction data) (\<lambda>r w'. tds (committed w') = t) w"
proof (rule wpI)
  fix r w'
  assume "processECOMTransaction data e w = (r, w')"
  from keepsD [OF frame.ecom [where s = "static (committed w)"] _ this] assms
  show "tds (committed w') = t" by (simp add: holds_def static_def)
qed

lemma tds_execute_post:
  assumes "working w = None" and "committed w = committed v" and "may_pay e data (committed v) cid c"
  shows "wp e (tds_execute cid (td_data c)) (verify_post e data v) w"
proof -
  let ?w = "(step_tick w)\<lparr>committed := verified cid (committed v)\<rparr>"
  have run: "wp e (mbind (processECOMTransaction (td_data c)) (\<lambda>result.
      mret (jset (jset result ''challengeId'' (JStr cid)) ''threeDSStatus'' (JStr ''AUTHENTICATED'')))) (verify_post e data v) ?w"
    unfolding wp_bind wp_ret
    by (rule wp_mono [OF ecom_keeps_challenges [OF refl]])
      (use assms in \<open>auto split: outcome.split intro: verify_post_paid\<close>)
  show ?thesis
    using assms(1,2) run unfolding tds_execute_def update3DSChallengeStatus_def
    by (auto simp: wp_then wp_sql verified_def verify_post_def split: option.split)
qed

lemma verify_caught:
  assumes "wp e m (verify_post e data v) w"
  shows "wp e (mcatch m (\<lambda>x. mret (err ''ERR_EXCEPTION'' (what x)))) (verify_post e data v) w"
  unfolding wp_catch wp_ret
  by (rule wp_mono [OF assms]) (auto simp: verify_post_def split: outcome.split)

lemma process3DSVerify_post:
  assumes "working w = None"
  shows "wp e (process3DSVerify data) (verify_post e data w) w"
  unfolding process3DSVerify_def strval_def get3DSChallenge_def query_def update3DSChallengeStatus_def
  using assms
  by (intro verify_caught)
    (auto simp: wp_bind wp_lift wp_then wp_conn wp_ret wp_sql wp_asks if_distrib [of "\<lambda>m. wp e m _ _"]
      find_challenge_def [symmetric] may_pay_def not_less verify_post_def books_def
      split: outcome.split option.split intro!: tds_execute_post)

section \<open>Properties\<close>


definition demo_challenge :: tds_row where
  "demo_challenge = \<lparr>td_id = ''c'', td_otp = ''123456'', td_data = demo_ecom, td_channel = ''ECOM'',
     td_status = ''PENDING'', td_expires = 8640600\<rparr>"

definition challenge_world :: world where
  "challenge_world = demo_world\<lparr>committed := demo_db\<lparr>tds := [demo_challenge]\<rparr>\<rparr>"

definition demo_verify :: json where
  "demo_verify = jobj [(''challengeId'', JStr ''c''), (''otp'', JStr ''123456'')]"

lemma demo_verify_succeeds:
  "\<exists>res w'. process3DSVerify demo_verify demo_env challenge_world = (Val res, w') \<and> succeeded res"
proof -
  let ?w = "step_tick (step_tick challenge_world)"
  let ?v = "(step_tick ?w)\<lparr>committed := verified ''c'' (committed challenge_world)\<rparr>"
  have w: "working ?w = None" "committed ?w = committed challenge_world" by (simp_all add: challenge_world_def)
  have "ecom_ready ?v"
    by (simp add: ecom_ready_def challenge_world_def verified_def)
  from demo_ecom_from [OF this] obtain res w' where
    "processECOMTransactionCore demo_ecom demo_env ?v = (Val res, w')" and ok: "succeeded res" by blast
  then have pay: "processECOMTransaction demo_ecom demo_env ?v = (Val res, w')"
    by (simp add: processECOMTransaction_def run_flow correlation_def demo_ecom_def jobj_def)
  have "update3DSChallengeStatus ''c'' ''VERIFIED'' demo_env ?w = (Val (), ?v)"
    using w by (simp add: update3DSChallengeStatus_def sql_def verified_def)
  with pay have "tds_execute ''c'' demo_ecom demo_env ?w =
      (Val (jset (jset res ''challengeId'' (JStr ''c'')) ''threeDSStatus'' (JStr ''AUTHENTICATED'')), w')"
    by (simp add: tds_execute_def run_flow)
  then have "process3DSVerify demo_verify demo_env challenge_world =
      (Val (jset (jset res ''challengeId'' (JStr ''c'')) ''threeDSStatus'' (JStr ''AUTHENTICATED'')), w')"
    by (simp add: process3DSVerify_def strval_def demo_verify_def jobj_def run_flow ok_runs get3DSChallenge_def
        challenge_world_def demo_challenge_def cur_def)
  moreover have "succeeded (jset (jset res ''challengeId'' (JStr ''c'')) ''threeDSStatus'' (JStr ''AUTHENTICATED''))"
    using ok by (cases res) (auto simp: has_status_def)
  ultimately show ?thesis by simp
qed


end
