(* ===== verification/Account.thy ===== *)
theory Account
  imports Handlers
begin

text \<open>
  \<^verbatim>\<open>account.cpp\<close>: opening accounts, reading one or a page of them, and the freeze flag.
  JSON integers are read into a 32-bit \<^verbatim>\<open>int\<close>, which wraps.
\<close>

section \<open>Reading a request\<close>

definition upper :: "string \<Rightarrow> string" where
  "upper v = map toupper v"

definition validCountryCode :: "string \<Rightarrow> bool" where
  "validCountryCode c \<longleftrightarrow> length c = 2 \<and> list_all isalpha c"

text \<open>\<^verbatim>\<open>get<int>()\<close> on a JSON integer.\<close>

definition to_int32 :: "int \<Rightarrow> int" where
  "to_int32 i = signed_take_bit 31 i"

definition INT_MAX :: int where "INT_MAX = 2147483647"

definition readAccountNumber :: "json \<Rightarrow> json + string" where
  "readAccountNumber data = (case jfind data ''accountNumber'' of
      Some (JStr s) \<Rightarrow> (let accountNumber = trim_space s in
        if accountNumber = [] \<or> length accountNumber > 20 then
          Inl (err ''ERR_INVALID_ACCOUNT_NUMBER'' ''accountNumber must be 1 to 20 characters'')
        else Inr accountNumber)
    | _ \<Rightarrow> Inl (err ''ERR_INVALID_REQUEST'' ''Missing required field: accountNumber''))"

definition find_currency_id :: "int \<Rightarrow> db \<Rightarrow> currency_row option" where
  "find_currency_id i d = List.find (\<lambda>c. int (cur_id c) = i) (currencies d)"

definition find_currency_code :: "string \<Rightarrow> db \<Rightarrow> currency_row option" where
  "find_currency_code code d = List.find (\<lambda>c. cur_code c = code) (currencies d)"

text \<open>The range of an unsigned identifier is checked, that of a negative one is not.\<close>

definition read_currency_id :: "json \<Rightarrow> json + int" where
  "read_currency_id v = (case v of
      JInt rawId \<Rightarrow>
        if rawId \<ge> 0 \<and> rawId > INT_MAX then
          Inl (err ''ERR_INVALID_CURRENCY'' ''currencyId must fit in a positive integer'')
        else (let currencyId = to_int32 rawId in
          if currencyId \<le> 0 then Inl (err ''ERR_INVALID_CURRENCY'' ''currencyId must be a positive integer'')
          else Inr currencyId)
    | _ \<Rightarrow> Inl (err ''ERR_INVALID_CURRENCY'' ''currencyId must be a positive integer''))"

definition resolveCurrency :: "json \<Rightarrow> (json + currency_row) M" where
  "resolveCurrency data = (case jfind data ''currencyId'' of
      Some v \<Rightarrow> (case read_currency_id v of
        Inl j \<Rightarrow> mret (Inl j)
      | Inr currencyId \<Rightarrow> mbind (query (\<lambda>e d. find_currency_id currencyId d)) (\<lambda>res. case res of
          None \<Rightarrow> mret (Inl (err ''ERR_CURRENCY_NOT_FOUND'' ''currencyId does not exist''))
        | Some c \<Rightarrow> mret (Inr c)))
    | None \<Rightarrow> (case jfind data ''currencyCode'' of
        Some (JStr s) \<Rightarrow> (let currencyCode = upper (trim_space s) in
          if length currencyCode \<noteq> 3 then
            mret (Inl (err ''ERR_INVALID_CURRENCY'' ''currencyCode must be a 3-letter code''))
          else mbind (query (\<lambda>e d. find_currency_code currencyCode d)) (\<lambda>res. case res of
              None \<Rightarrow> mret (Inl (err ''ERR_CURRENCY_NOT_FOUND'' ''currencyCode does not exist''))
            | Some c \<Rightarrow> mret (Inr c)))
      | Some _ \<Rightarrow> mret (Inl (err ''ERR_INVALID_CURRENCY'' ''currencyCode must be a string''))
      | None \<Rightarrow> mret (Inl (err ''ERR_INVALID_REQUEST''
          ''Missing required field: currencyId or currencyCode''))))"

section \<open>Views of an account\<close>

definition account_json :: "account_row \<Rightarrow> currency_row \<Rightarrow> json" where
  "account_json r c = jobj [(''accountId'', JInt (int (acc_id r))), (''accountNumber'', JStr (acc_no r)),
     (''balance'', JNum (acc_balance r)), (''countryCode'', JStr (acc_country r)),
     (''isFrozen'', JBool (acc_frozen r)),
     (''currency'', jobj [(''currencyId'', JInt (int (cur_id c))), (''currencyCode'', JStr (cur_code c)),
        (''currencyName'', JStr (cur_name c))])]"

text \<open>The inner join with the currency table.\<close>

definition account_view :: "db \<Rightarrow> account_row \<Rightarrow> json option" where
  "account_view d r = map_option (account_json r) (List.find (\<lambda>c. cur_id c = acc_currency r) (currencies d))"

definition fetchAccountByNumber :: "string \<Rightarrow> json M" where
  "fetchAccountByNumber acc =
     mbind (query (\<lambda>e d. case find_account acc d of None \<Rightarrow> None | Some r \<Rightarrow> account_view d r)) (\<lambda>result. case result of
       None \<Rightarrow> mret (err ''ERR_ACCOUNT_NOT_FOUND'' ''Account number does not exist'')
     | Some j \<Rightarrow> mret (jobj [(''status'', JStr ''SUCCESS''), (''account'', j)]))"

text \<open>\<^verbatim>\<open>catch (const mysqlx::Error&)\<close> and \<^verbatim>\<open>catch (const std::exception&)\<close>.\<close>

fun account_error :: "exn \<Rightarrow> json" where
  "account_error (DbErr m) = err ''ERR_DB'' m"
| "account_error x = err ''ERR_EXCEPTION'' (what x)"

definition processGetAccount :: "json \<Rightarrow> json M" where
  "processGetAccount data = mcatch
     (case readAccountNumber data of
        Inl j \<Rightarrow> mret j
      | Inr acc \<Rightarrow> mthen scopedConnection (fetchAccountByNumber acc))
     (\<lambda>x. mret (account_error x))"

definition page_bound :: "json \<Rightarrow> string \<Rightarrow> int \<Rightarrow> string \<Rightarrow> json + int" where
  "page_bound data k dflt msg = (case jfind data k of
      None \<Rightarrow> Inr dflt
    | Some (JInt i) \<Rightarrow> Inr (to_int32 i)
    | Some _ \<Rightarrow> Inl (err ''ERR_INVALID_REQUEST'' msg))"

text \<open>\<^verbatim>\<open>ORDER BY a.account_id DESC LIMIT ? OFFSET ?\<close>\<close>

definition account_page :: "db \<Rightarrow> nat \<Rightarrow> nat \<Rightarrow> json list" where
  "account_page d limit offset =
     take limit (drop offset (List.map_filter (account_view d) (rev (sort_key acc_id (accounts d)))))"

definition list_accounts :: "int \<Rightarrow> int \<Rightarrow> json M" where
  "list_accounts limit offset =
     (if limit < 1 \<or> limit > 100 then mret (err ''ERR_INVALID_REQUEST'' ''limit must be between 1 and 100'')
      else if offset < 0 then mret (err ''ERR_INVALID_REQUEST'' ''offset cannot be negative'')
      else mthen scopedConnection
        (mbind (query (\<lambda>e d. account_page d (nat limit) (nat offset))) (\<lambda>rows.
         mret (jobj [(''status'', JStr ''SUCCESS''), (''limit'', JInt limit), (''offset'', JInt offset),
           (''count'', JInt (int (length rows))), (''accounts'', JArr rows)]))))"

definition processListAccounts :: "json \<Rightarrow> json M" where
  "processListAccounts data = mcatch
     (case page_bound data ''limit'' 50 ''limit must be an integer'' of
        Inl j \<Rightarrow> mret j
      | Inr limit \<Rightarrow> (case page_bound data ''offset'' 0 ''offset must be an integer'' of
          Inl j \<Rightarrow> mret j
        | Inr offset \<Rightarrow> list_accounts limit offset))
     (\<lambda>x. mret (account_error x))"

section \<open>Freezing\<close>

definition freeze_txn :: "string \<Rightarrow> bool \<Rightarrow> (json + unit) M" where
  "freeze_txn acc frozen = mcatch
     (mthen startTransaction
       (mbind (checkAccountExistsForUpdate acc) (\<lambda>ex.
        if \<not> ex then
          mthen rollback (mret (Inl (err ''ERR_ACCOUNT_NOT_FOUND'' ''Account number does not exist'')))
        else mthen (updateFreezeStatus acc frozen) (mthen commit (mret (Inr ()))))))
     (\<lambda>x. mthen try_rollback (mthrow x))"

definition setFreezeStatus :: "json \<Rightarrow> bool \<Rightarrow> json M" where
  "setFreezeStatus data frozen = mcatch
     (case readAccountNumber data of
        Inl j \<Rightarrow> mret j
      | Inr acc \<Rightarrow> withLock acc CREDIT (mthen scopedConnection
         (mbind (freeze_txn acc frozen) (\<lambda>r. case r of
            Inl j \<Rightarrow> mret j
          | Inr _ \<Rightarrow> mbind (fetchAccountByNumber acc) (\<lambda>response.
              mret (jset response ''message'' (JStr (if frozen then ''Account frozen successfully''
                else ''Account unfrozen successfully'')))))))) 
     (\<lambda>x. mret (account_error x))"

definition processFreezeAccount :: "json \<Rightarrow> json M" where
  "processFreezeAccount data = setFreezeStatus data True"

definition processUnfreezeAccount :: "json \<Rightarrow> json M" where
  "processUnfreezeAccount data = setFreezeStatus data False"

section \<open>Opening an account\<close>

definition read_balance :: "json \<Rightarrow> json + money" where
  "read_balance data = (case jfind data ''balance'' of
      Some v \<Rightarrow> (case get_num v of
          Val x \<Rightarrow> Inr x | _ \<Rightarrow> Inl (err ''ERR_INVALID_BALANCE'' ''balance must be a number''))
    | None \<Rightarrow> (case jfind data ''initialBalance'' of
        Some v \<Rightarrow> (case get_num v of
            Val x \<Rightarrow> Inr x | _ \<Rightarrow> Inl (err ''ERR_INVALID_BALANCE'' ''initialBalance must be a number''))
      | None \<Rightarrow> Inr 0))"

definition read_country :: "json \<Rightarrow> json + string" where
  "read_country data = (case jfind data ''countryCode'' of
      None \<Rightarrow> Inr ''AU''
    | Some (JStr s) \<Rightarrow> Inr (upper (trim_space s))
    | Some _ \<Rightarrow> Inl (err ''ERR_INVALID_COUNTRY_CODE'' ''countryCode must be a string''))"

definition read_frozen :: "json \<Rightarrow> json + bool" where
  "read_frozen data = (case jfind data ''isFrozen'' of
      None \<Rightarrow> Inr False
    | Some (JBool b) \<Rightarrow> Inr b
    | Some _ \<Rightarrow> Inl (err ''ERR_INVALID_REQUEST'' ''isFrozen must be true or false''))"

definition new_account :: "db \<Rightarrow> string \<Rightarrow> money \<Rightarrow> string \<Rightarrow> bool \<Rightarrow> nat \<Rightarrow> account_row" where
  "new_account d acc balance country frozen cid =
     \<lparr>acc_id = next_id acc_id (accounts d), acc_no = acc, acc_balance = dec2 balance, acc_country = country,
      acc_frozen = frozen, acc_currency = cid\<rparr>"

definition insert_account :: "string \<Rightarrow> money \<Rightarrow> string \<Rightarrow> bool \<Rightarrow> nat \<Rightarrow> nat M" where
  "insert_account acc balance country frozen cid = sql (\<lambda>e d.
     if find_account acc d \<noteq> None then Inl (''Duplicate entry '' @ acc)
     else case dec_col 12 balance of Inl msg \<Rightarrow> Inl msg
     | Inr _ \<Rightarrow> (let r = new_account d acc balance country frozen cid
         in Inr (acc_id r, d\<lparr>accounts := accounts d @ [r]\<rparr>)))"

definition open_account :: "string \<Rightarrow> money \<Rightarrow> string \<Rightarrow> bool \<Rightarrow> currency_row \<Rightarrow> json M" where
  "open_account acc balance country frozen c =
     mbind (query (\<lambda>e d. find_account acc d \<noteq> None)) (\<lambda>existing.
     if existing then mret (err ''ERR_ACCOUNT_EXISTS'' ''Account number already exists'')
     else mbind (insert_account acc balance country frozen (cur_id c)) (\<lambda>i.
       mret (jobj [(''status'', JStr ''SUCCESS''), (''message'', JStr ''Account added successfully''),
         (''account'', account_json \<lparr>acc_id = i, acc_no = acc, acc_balance = balance, acc_country = country,
            acc_frozen = frozen, acc_currency = cur_id c\<rparr> c)])))"

fun add_error :: "exn \<Rightarrow> json" where
  "add_error (DbErr m) = (if contains_str ''Duplicate'' m \<or> contains_str ''duplicate'' m
     then err ''ERR_ACCOUNT_EXISTS'' ''Account number already exists'' else err ''ERR_DB'' m)"
| "add_error x = err ''ERR_EXCEPTION'' (what x)"

definition processAddAccount :: "json \<Rightarrow> json M" where
  "processAddAccount data = mcatch
     (case readAccountNumber data of Inl j \<Rightarrow> mret j | Inr acc \<Rightarrow>
     (case read_balance data of Inl j \<Rightarrow> mret j | Inr balance \<Rightarrow>
      if balance < 0 then mret (err ''ERR_INVALID_BALANCE'' ''balance cannot be negative'')
      else
     (case read_country data of Inl j \<Rightarrow> mret j | Inr country \<Rightarrow>
      if \<not> validCountryCode country then
        mret (err ''ERR_INVALID_COUNTRY_CODE'' ''countryCode must be a 2-letter country code'')
      else
     (case read_frozen data of Inl j \<Rightarrow> mret j | Inr frozen \<Rightarrow>
      mthen scopedConnection
      (mbind (resolveCurrency data) (\<lambda>r. case r of
         Inl j \<Rightarrow> mret j
       | Inr c \<Rightarrow> open_account acc balance country frozen c))))))
     (\<lambda>x. mret (add_error x))"

section \<open>Contracts\<close>

text \<open>A handler whose only write is its last statement.\<close>

lemma hc_last_write: "(\<And>x. good (g x)) \<Longrightarrow> handler_code good e c (mbind (sql f) (\<lambda>x. mret (g x)))"
  unfolding handler_code_def triple_def
  by (auto simp: wp_simps success_or_safe_def Safe_def Idle_def put_def split: option.split sum.split prod.split)

lemma reader_resolveCurrency [reader_intros]: "reader (resolveCurrency data)"
  unfolding resolveCurrency_def Let_def
  by (auto split: option.split json.split sum.split intro!: reader_intros)

lemma reader_fetchAccount [reader_intros]: "reader (fetchAccountByNumber acc)"
  unfolding fetchAccountByNumber_def by (intro reader_intros)

lemma reader_getAccount: "reader (processGetAccount data)"
  unfolding processGetAccount_def by (intro reader_intros)

lemma reader_listAccounts: "reader (processListAccounts data)"
  unfolding processListAccounts_def list_accounts_def by (intro reader_intros)

lemmas keeps_resolveCurrency [keeps_intros] = reader_keeps_Idle [OF reader_resolveCurrency]

lemma hc_open_account [hc_intros]: "handler_code succeeded e c (open_account acc b cc f cur_row)"
  unfolding open_account_def insert_account_def
  by (intro hc_intros hc_last_write keeps_intros) (simp add: has_status_def jfind_jobj)

lemma hc_add_account: "handler_code succeeded e c (processAddAccount data)"
  unfolding processAddAccount_def
  by (intro hc_intros keeps_intros)

interpretation add_account: channel_handler processAddAccount succeeded
  by unfold_locales (rule hc_add_account)

section \<open>What opening an account does\<close>

lemma open_account_Val:
  assumes "open_account acc b cc f cr e w = (Val res, w')" and "succeeded res" and "working w = None"
  shows "find_account acc (committed w) = None \<and> \<bar>dec2 b\<bar> < 10 ^ 10 \<and>
     committed w' = (committed w)\<lparr>accounts := accounts (committed w) @ [new_account (committed w) acc b cc f (cur_id cr)]\<rparr>"
  using assms unfolding open_account_def insert_account_def
  by (auto simp: val_simps Let_def cur_def put_def dec_col_Inr split: if_splits sum.splits)

lemma resolved_currency:
  assumes "resolveCurrency data e w = (Val (Inr c), w')"
  shows "c \<in> set (currencies (cur w))"
proof -
  have find: "List.find P cs = Some c \<Longrightarrow> c \<in> set cs" for P cs by (auto simp: find_Some_iff)
  show ?thesis
  proof (cases "jfind data ''currencyId''")
    case (Some v)
    then show ?thesis
      using assms unfolding resolveCurrency_def find_currency_id_def
      by (cases "read_currency_id v") (auto simp: val_simps intro: find)
  next
    case None
    then obtain z where z: "jfind data ''currencyCode'' = Some z"
      using assms by (cases "jfind data ''currencyCode''") (auto simp: resolveCurrency_def val_simps)
    then obtain s where "z = JStr s"
      using assms None by (cases z) (auto simp: resolveCurrency_def val_simps)
    with None z show ?thesis
      using assms unfolding resolveCurrency_def find_currency_code_def
      by (auto simp: val_simps Let_def split: if_splits intro: find)
  qed
qed

lemma add_error_status [simp]: "\<not> has_status s (add_error x)"
  by (cases x) simp_all

lemma add_account_success:
  assumes run: "processAddAccount data e w = (Val res, w')" and ok: "succeeded res" and idle: "working w = None"
  shows "\<exists>acc b cc f c. readAccountNumber data = Inr acc \<and> read_balance data = Inr b \<and> 0 \<le> b \<and>
     validCountryCode cc \<and> c \<in> set (currencies (committed w)) \<and>
     (\<exists>w1. same_db w w1 \<and> open_account acc b cc f c e w1 = (Val res, w'))"
proof -
  let ?S = "\<lambda>n. \<exists>acc b cc f c. readAccountNumber data = Inr acc \<and> read_balance data = Inr b \<and> 0 \<le> b \<and>
     validCountryCode cc \<and> c \<in> set (currencies (committed w)) \<and> n = open_account acc b cc f c"
  have op: "leads succeeded ?S e v (open_account acc b cc f c)"
    if "readAccountNumber data = Inr acc" "read_balance data = Inr b" "0 \<le> b" "validCountryCode cc"
      "c \<in> set (currencies (committed w))" for acc b cc f c v
    by (rule leads_here) (use that in blast)
  have early1: "\<not> succeeded j" if "readAccountNumber data = Inl j" for j
    using that by (auto simp: readAccountNumber_def Let_def split: option.splits json.splits if_splits)
  have early2: "\<not> succeeded j" if "read_balance data = Inl j" for j
    using that by (auto simp: read_balance_def split: option.splits outcome.splits)
  have early3: "\<not> succeeded j" if "read_country data = Inl j" for j
    using that by (auto simp: read_country_def split: option.splits json.splits)
  have early4: "\<not> succeeded j" if "read_frozen data = Inl j" for j
    using that by (auto simp: read_frozen_def split: option.splits json.splits)
  have early5: "early (\<lambda>j. \<not> succeeded j) (resolveCurrency data)"
    unfolding resolveCurrency_def Let_def read_currency_id_def
    by (auto split: option.split json.split sum.split intro!: early_intros split: if_splits)
  have "leads succeeded ?S e w (processAddAccount data)"
    unfolding processAddAccount_def
  proof (intro leads_intros reader_intros op, goal_cases)
    case (12 acc balance country frozen x w1 xa w1a xb)
    with idle have "cur w1 = committed w" by (simp add: same_db_def cur_def)
    with 12 show ?case by (auto dest: resolved_currency)
  qed (auto dest: early1 early2 early3 early4 earlyD [OF early5])
  from leadsD [OF this run ok] show ?thesis by blast
qed

section \<open>Properties\<close>


definition demo_account_request :: json where
  "demo_account_request = jobj [(''accountNumber'', JStr '' C ''), (''currencyCode'', JStr ''AUD''), (''balance'', JInt 5)]"

lemma demo_add_account: "\<exists>res w'. processAddAccount demo_account_request demo_env demo_world = (Val res, w') \<and> succeeded res"
proof -
  have num: "readAccountNumber demo_account_request = Inr ''C''"
    by (simp add: readAccountNumber_def demo_account_request_def jobj_def trim_space_def isspace_def Let_def)
  have rest: "read_balance demo_account_request = Inr 5" "read_country demo_account_request = Inr ''AU''"
    "read_frozen demo_account_request = Inr False" "validCountryCode ''AU''"
    by (simp_all add: read_balance_def read_country_def read_frozen_def demo_account_request_def jobj_def
        validCountryCode_def isalpha_def Let_def)
  have cur: "resolveCurrency demo_account_request demo_env w =
      (Val (case find_currency_code ''AUD'' (cur w) of None \<Rightarrow> Inl (err ''ERR_CURRENCY_NOT_FOUND'' ''currencyCode does not exist'')
        | Some c \<Rightarrow> Inr c), step_tick w)" for w
    by (simp add: resolveCurrency_def demo_account_request_def jobj_def trim_space_def isspace_def upper_def toupper_def
        Let_def run_flow ok_runs split: option.split)
  have "find_account ''C'' demo_db = None"
    by (simp add: find_account_def demo_db_def demo_account_def)
  then show ?thesis
    by (simp add: processAddAccount_def num rest run_flow ok_runs cur cur_def find_currency_code_def demo_db_def [of]
        open_account_def insert_account_def sql_def dec_col_def Let_def has_status_def jfind_jobj)
qed


end
