(* ===== verification/Issue.thy ===== *)
theory Issue
  imports Account
begin

text \<open>
  \<^verbatim>\<open>issue.cpp\<close>: issuing up to three cards for an account, with a generated number that
  carries a Luhn check digit, and reading a card back. The mutex per account makes the whole
  handler one step for its account; the random digits are draws.
\<close>

definition MAX_CARDS_PER_ACCOUNT :: nat where "MAX_CARDS_PER_ACCOUNT = 3"

definition SCHEME_TO_BIN :: "string \<Rightarrow> string option" where
  "SCHEME_TO_BIN = map_of [(''VISA'', ''411111''), (''MASTERCARD'', ''550000''), (''RUPAY'', ''608014''), (''AMEX'', ''371449'')]"

section \<open>Card numbers\<close>

text \<open>The loop from the last digit to the first; \<open>alt\<close> says whether the next one is doubled.\<close>

fun luhn_sum :: "bool \<Rightarrow> int list \<Rightarrow> int" where
  "luhn_sum alt [] = 0"
| "luhn_sum alt (d # ds) = (if alt then (if d * 2 > 9 then d * 2 - 9 else d * 2) else d) + luhn_sum (\<not> alt) ds"

definition digits_back :: "string \<Rightarrow> int list" where
  "digits_back s = map (\<lambda>c. of_char c - 48) (rev s)"

definition luhnDigit :: "string \<Rightarrow> char" where
  "luhnDigit partial = (let s = luhn_sum True (digits_back partial); check = (10 - s mod 10) mod 10
     in char_of (48 + nat check))"

definition generatePAN :: "env \<Rightarrow> string \<Rightarrow> string" where
  "generatePAN e bin = (let pan = bin @ map (\<lambda>i. digit_char (draw e (10 + i) mod 10)) [0..<9]
     in pan @ [luhnDigit pan])"

definition generateCVV :: "env \<Rightarrow> string" where
  "generateCVV e = pad_zeros 3 (nat_str (100 + draw e 20 mod 900))"

definition expiryDate :: "env \<Rightarrow> string" where
  "expiryDate e = (case local_date e (now e) of (year, mon) \<Rightarrow>
     pad_zeros 2 (nat_str mon) @ ''/'' @ pad_zeros 2 (nat_str ((year + 5) mod 100)))"

definition issue_mask :: "string \<Rightarrow> string" where
  "issue_mask pan = (if length pan < 6 then ''XXXXXX********'' else take 6 pan @ ''XXXXXXXXXX'')"

section \<open>Issuing\<close>

definition card_count :: "string \<Rightarrow> db \<Rightarrow> nat" where
  "card_count acc d = length (filter (\<lambda>c. card_acc c = acc) (cards d))"

definition PRIORITY :: "nat \<Rightarrow> string" where
  "PRIORITY n = [''PRIMARY'', ''SECONDARY'', ''TERTIARY''] ! n"

definition insert_card :: "card_row \<Rightarrow> unit M" where
  "insert_card row = sql (\<lambda>e d. if find_card (card_pan row) d \<noteq> None then Inl (''Duplicate entry '' @ card_pan row)
     else Inr ((), d\<lparr>cards := cards d @ [row]\<rparr>))"

definition new_card :: "env \<Rightarrow> string \<Rightarrow> string \<Rightarrow> string \<Rightarrow> string \<Rightarrow> string \<Rightarrow> card_row" where
  "new_card e acc name scheme bin priority =
     (let pan = generatePAN e bin in
      \<lparr>card_pan = pan, card_masked = issue_mask pan, card_encrypted = encryptPAN e (rand_bytes e IV_LEN) pan,
       card_scheme = Some scheme, card_type = Some (if scheme = ''RUPAY'' then ''DOMESTIC'' else ''INTERNATIONAL''),
       card_expiry = expiryDate e, card_cvv = Some (generateCVV e), card_holder = name, card_acc = acc,
       card_status = ''ACTIVE'', card_priority = priority, card_block = None, card_daily = None, card_monthly = None,
       card_last = None\<rparr>)"

definition issued :: "card_row \<Rightarrow> json" where
  "issued c = jobj [(''status'', JStr ''SUCCESS''), (''message'', JStr ''Card issued successfully''),
     (''priorityAssigned'', JStr (card_priority c)),
     (''card'', jobj [(''maskedPan'', JStr (card_masked c)), (''encryptedPan'', JStr (card_encrypted c)),
        (''scheme'', JStr (or_empty (card_scheme c))), (''cardType'', JStr (or_empty (card_type c))),
        (''expiry'', JStr (card_expiry c)), (''cvv'', JStr (or_empty (card_cvv c))),
        (''cardholderName'', JStr (card_holder c)), (''accountNumber'', JStr (card_acc c))]),
     (''_hint'', JStr ''Use encryptedPan + expiry from this response directly in transaction requests'')]"

definition issue_card :: "string \<Rightarrow> string \<Rightarrow> string \<Rightarrow> string \<Rightarrow> json M" where
  "issue_card acc name scheme bin =
     mbind (query (\<lambda>e d. find_account acc d \<noteq> None)) (\<lambda>known.
     if \<not> known then mret (err ''ERR_ACCOUNT_NOT_FOUND'' ''Account does not exist'')
     else mbind (query (\<lambda>e d. card_count acc d)) (\<lambda>cardCount.
       if cardCount \<ge> MAX_CARDS_PER_ACCOUNT then
         mret (err ''ERR_MAX_CARD_LIMIT'' (''Maximum '' @ nat_str MAX_CARDS_PER_ACCOUNT @ '' cards allowed per account''))
       else mbind (asks (\<lambda>e. new_card e acc name scheme bin (PRIORITY cardCount))) (\<lambda>row.
         mthen (insert_card row) (mret (issued row)))))"

fun issue_error :: "exn \<Rightarrow> json" where
  "issue_error (DbErr m) = err ''ERR_DB'' m"
| "issue_error x = err ''ERR_UNKNOWN'' (what x)"

definition processIssueCard :: "json \<Rightarrow> json M" where
  "processIssueCard data =
     (if \<not> jcontains data ''accountNumber'' \<or> \<not> jcontains data ''cardholderName'' \<or> \<not> jcontains data ''scheme'' then
        mret (err ''ERR_INVALID_REQUEST'' ''Missing: accountNumber, cardholderName, scheme'')
      else
      mbind (mlift (jat_str data ''accountNumber'')) (\<lambda>account.
      mbind (mlift (jat_str data ''cardholderName'')) (\<lambda>name.
      mbind (mlift (jat_str data ''scheme'')) (\<lambda>s.
      (let scheme = upper s in case SCHEME_TO_BIN scheme of
         None \<Rightarrow> mret (err ''ERR_INVALID_SCHEME'' ''Allowed: VISA, MASTERCARD, RUPAY, AMEX'')
       | Some bin \<Rightarrow> mthen scopedConnection
           (mcatch (issue_card account name scheme bin) (\<lambda>x. mret (issue_error x))))))))"

section \<open>Reading a card\<close>

definition card_details :: "card_row \<Rightarrow> json" where
  "card_details c = jobj [(''status'', JStr ''SUCCESS''),
     (''card'', jobj [(''scheme'', JStr (or_empty (card_scheme c))), (''cardType'', JStr (or_empty (card_type c))),
        (''expiry'', JStr (card_expiry c)), (''cvv'', JStr (or_empty (card_cvv c))),
        (''cardholderName'', JStr (card_holder c)), (''accountNumber'', JStr (card_acc c)),
        (''cardStatus'', JStr (card_status c)), (''cardPriority'', JStr (card_priority c)),
        (''maskedPan'', JStr (card_masked c)), (''encryptedPan'', JStr (card_encrypted c))])]"

definition processGetCardDetails :: "json \<Rightarrow> json M" where
  "processGetCardDetails data =
     (if \<not> jcontains data ''encryptedPan'' then mret (err ''ERR_MISSING_PAN'' ''encryptedPan is required'')
      else
      mbind (mlift (jat_str data ''encryptedPan'')) (\<lambda>encPan.
      mbind (or_answer (decrypt encPan) (\<lambda>x. err ''ERR_INVALID_ENCRYPTED_PAN'' (what x))) (\<lambda>r. case r of
        Inl j \<Rightarrow> mret j
      | Inr pan \<Rightarrow> mthen scopedConnection
         (mcatch (mbind (select_card pan) (\<lambda>cardRes. case cardRes of
            None \<Rightarrow> mret (err ''ERR_CARD_NOT_FOUND'' ''Card not found'')
          | Some row \<Rightarrow> mret (card_details row)))
           (\<lambda>x. mret (account_error x))))))"

section \<open>Laws of card numbers\<close>

text \<open>The reference check of a full number: no digit doubled at the end, then every other one.\<close>

definition luhn_valid :: "string \<Rightarrow> bool" where
  "luhn_valid pan \<longleftrightarrow> luhn_sum False (digits_back pan) mod 10 = 0"

lemma luhn_sum_nonneg: "\<forall>d\<in>set ds. 0 \<le> d \<and> d \<le> 9 \<Longrightarrow> 0 \<le> luhn_sum alt ds"
  by (induction alt ds rule: luhn_sum.induct) auto

lemma luhn_digit_valid:
  assumes "\<forall>c\<in>set partial. isdigit c"
  shows "luhn_valid (partial @ [luhnDigit partial]) \<and> isdigit (luhnDigit partial)"
proof -
  define s where "s = luhn_sum True (digits_back partial)"
  define k where "k = (10 - s mod 10) mod 10"
  have k: "0 \<le> k" "k < 10" and sum: "(k + s) mod 10 = 0" unfolding k_def by presburger+
  have "luhnDigit partial = char_of (48 + nat k)"
    unfolding luhnDigit_def Let_def s_def [symmetric] k_def [symmetric] ..
  with k have d: "(of_char (luhnDigit partial) :: nat) = 48 + nat k" by simp
  then have "(of_char (luhnDigit partial) :: int) = 48 + k"
    using k by (metis int_nat_eq of_nat_add of_nat_numeral of_nat_of_char)
  then have "luhn_sum False (digits_back (partial @ [luhnDigit partial])) = k + s"
    by (simp add: digits_back_def s_def)
  with sum d k show ?thesis by (simp add: luhn_valid_def isdigit_def)
qed

lemma generated_pan:
  assumes "\<forall>c\<in>set bin. isdigit c"
  shows "take (length bin) (generatePAN e bin) = bin \<and> length (generatePAN e bin) = length bin + 10 \<and>
     list_all isdigit (generatePAN e bin) \<and> luhn_valid (generatePAN e bin)"
proof -
  define ds where "ds = map (\<lambda>i. digit_char (draw e (10 + i) mod 10)) [0..<9]"
  have "isdigit (digit_char (n mod 10))" for n by (simp add: digit_char_def isdigit_def Let_def)
  then have "\<forall>c\<in>set (bin @ ds). isdigit c" using assms by (auto simp: ds_def)
  from luhn_digit_valid [OF this] this show ?thesis
    by (simp add: generatePAN_def ds_def [symmetric] Let_def list_all_iff) (simp add: ds_def)
qed

lemma scheme_bin: "SCHEME_TO_BIN scheme = Some bin \<Longrightarrow> length bin = 6 \<and> (\<forall>c\<in>set bin. isdigit c)"
  by (auto simp: SCHEME_TO_BIN_def isdigit_def Let_def split: if_splits)

section \<open>What issuing does\<close>

text \<open>A card that the account may still get.\<close>

definition issuable :: "env \<Rightarrow> db \<Rightarrow> card_row \<Rightarrow> bool" where
  "issuable e d c \<longleftrightarrow> find_account (card_acc c) d \<noteq> None \<and> card_count (card_acc c) d < MAX_CARDS_PER_ACCOUNT \<and>
     find_card (card_pan c) d = None \<and>
     (\<exists>scheme bin. SCHEME_TO_BIN scheme = Some bin \<and> card_pan c = generatePAN e bin)"

definition issue_post :: "env \<Rightarrow> world \<Rightarrow> json outcome \<Rightarrow> world \<Rightarrow> bool" where
  "issue_post e w r w' \<longleftrightarrow>
     (if \<exists>res. r = Val res \<and> succeeded res
      then \<exists>c. issuable e (committed w) c \<and> committed w' = (committed w)\<lparr>cards := cards (committed w) @ [c]\<rparr>
      else committed w' = committed w)"

lemma issued_status [simp]: "succeeded (issued c)"
  by (simp add: issued_def has_status_def jfind_jobj)

lemma new_card_fields [simp]: "card_pan (new_card e acc name scheme bin p) = generatePAN e bin"
  "card_acc (new_card e acc name scheme bin p) = acc"
  by (simp_all add: new_card_def Let_def)

lemma issue_card_post:
  assumes "working w = None" and "committed w = committed v" and "SCHEME_TO_BIN scheme = Some bin"
  shows "wp e (issue_card acc name scheme bin) (issue_post e v) w"
proof -
  have new: "issuable e (committed v) (new_card e acc name scheme bin p)"
    if "find_account acc (committed v) \<noteq> None" "\<not> MAX_CARDS_PER_ACCOUNT \<le> card_count acc (committed v)"
      "find_card (generatePAN e bin) (committed v) = None" for p
    using that assms(3) by (auto simp: issuable_def not_le)
  show ?thesis
    using assms(1,2) unfolding issue_card_def insert_card_def query_def
    by (auto simp: wp_simps issue_post_def split: option.split sum.split intro!: exI new)
qed

lemma issue_error_status [simp]: "\<not> has_status s (issue_error x)"
  by (cases x) simp_all

lemma issue_card_caught:
  assumes "working w = None" and "committed w = committed v" and "SCHEME_TO_BIN scheme = Some bin"
  shows "wp e (mcatch (issue_card acc name scheme bin) (\<lambda>x. mret (issue_error x))) (issue_post e v) w"
  unfolding wp_catch
proof (rule wp_mono [OF issue_card_post [OF assms]])
  fix r w'
  assume "issue_post e v r w'"
  then show "case r of Val x \<Rightarrow> issue_post e v (Val x) w' | Exn x \<Rightarrow> wp e (mret (issue_error x)) (issue_post e v) w'
      | Abort \<Rightarrow> issue_post e v Abort w'"
    by (cases r) (simp_all add: issue_post_def wp_simps)
qed

lemma processIssueCard_post:
  assumes "working w = None"
  shows "wp e (processIssueCard data) (issue_post e w) w"
proof -
  have out: "issue_post e w r w'" if "committed w' = committed w" "\<forall>res. r = Val res \<longrightarrow> \<not> succeeded res" for r w'
    using that by (auto simp: issue_post_def)
  have conn: "wp e (mthen scopedConnection (mcatch (issue_card acc name scheme bin) (\<lambda>x. mret (issue_error x))))
      (issue_post e w) w" if "SCHEME_TO_BIN scheme = Some bin" for acc name scheme bin
    using assms that by (auto simp: wp_simps(8-) wp_then wp_conn split: option.split intro!: out issue_card_caught)
  show ?thesis
    unfolding processIssueCard_def Let_def
    by (auto simp: wp_bind wp_lift wp_ret if_distrib [of "\<lambda>m. wp e m _ _"] split: outcome.split option.split
        intro!: out conn)
qed

section \<open>Properties\<close>


definition demo_issue_request :: json where
  "demo_issue_request = jobj [(''accountNumber'', JStr ''A''), (''cardholderName'', JStr ''H''), (''scheme'', JStr ''VISA'')]"

lemma demo_issue: "\<exists>res w'. processIssueCard demo_issue_request demo_env demo_world = (Val res, w') \<and> succeeded res"
proof -
  have "SCHEME_TO_BIN (upper ''VISA'') = Some ''411111''" by (simp add: SCHEME_TO_BIN_def upper_def toupper_def)
  then show ?thesis
    by (simp add: processIssueCard_def demo_issue_request_def jobj_def jcontains_def jat_str_def Let_def run_flow ok_runs issue_card_def
        insert_card_def sql_def find_card_def card_count_def MAX_CARDS_PER_ACCOUNT_def cur_def)
qed


end
