(* ===== verification/Cards.thy ===== *)
theory Cards
  imports Handlers
begin

text \<open>
  \<^verbatim>\<open>card_mgmt.cpp\<close>: activating and blocking cards, their limits, and the PIN check that
  is called a reset. Each handler reads the card and issues at most one update, without a
  transaction.
\<close>

definition cardErr :: "string \<Rightarrow> string \<Rightarrow> json" where
  "cardErr = errm"

lemma cardErr_status [simp]: "\<not> has_status s (cardErr c m)"
  by (simp add: cardErr_def)

text \<open>\<^verbatim>\<open>try { pan = decryptPAN(encPan); } catch (\<dots>) { return cardErr(\<dots>); }\<close>\<close>

definition card_pan_of :: "string \<Rightarrow> (json + string) M" where
  "card_pan_of encPan = or_answer (decrypt encPan) (\<lambda>x. cardErr ''ERR_INVALID_ENCRYPTED_PAN'' (what x))"

definition update_cards :: "string \<Rightarrow> (card_row \<Rightarrow> card_row) \<Rightarrow> unit M" where
  "update_cards pan f = sql (\<lambda>e d. Inr ((), d\<lparr>cards := upd_rows (\<lambda>c. card_pan c = pan) f (cards d)\<rparr>))"

section \<open>Activation and blocking\<close>

definition activate_card :: "string \<Rightarrow> json M" where
  "activate_card pan =
     mbind (select_card pan) (\<lambda>res. case res of
       None \<Rightarrow> mret (cardErr ''ERR_CARD_NOT_FOUND'' [])
     | Some row \<Rightarrow>
       if card_status row = ''ACTIVE'' then
         mret (jobj [(''status'', JStr ''SUCCESS''), (''message'', JStr ''Card is already ACTIVE'')])
       else if or_empty (card_block row) = ''PERMANENT'' then
         mret (cardErr ''ERR_CARD_PERMANENTLY_BLOCKED'' ''Card is permanently blocked and cannot be re-activated'')
       else
         mbind (update_cards pan (\<lambda>c. c\<lparr>card_status := ''ACTIVE'', card_block := None\<rparr>)) (\<lambda>_.
         mret (jobj [(''status'', JStr ''SUCCESS''), (''message'', JStr ''Card activated successfully'')])))"

definition processActivateCard :: "json \<Rightarrow> json M" where
  "processActivateCard data = mcatch
     (mbind (strval data ''encryptedPan'') (\<lambda>encPan.
      if encPan = [] then mret (cardErr ''ERR_MISSING_PAN'' ''encryptedPan required'')
      else mbind (card_pan_of encPan) (\<lambda>r. case r of
        Inl j \<Rightarrow> mret j
      | Inr pan \<Rightarrow> mthen scopedConnection (activate_card pan))))
     (\<lambda>x. mret (cardErr ''ERR_EXCEPTION'' (what x)))"

definition block_card :: "string \<Rightarrow> string \<Rightarrow> json M" where
  "block_card pan blockType =
     mbind (select_card pan) (\<lambda>res. case res of
       None \<Rightarrow> mret (cardErr ''ERR_CARD_NOT_FOUND'' [])
     | Some _ \<Rightarrow>
         mbind (update_cards pan (\<lambda>c. c\<lparr>card_status := ''BLOCKED'', card_block := Some blockType\<rparr>)) (\<lambda>_.
         mret (jobj [(''status'', JStr ''SUCCESS''), (''message'', JStr ''Card blocked successfully''),
           (''blockType'', JStr blockType)])))"

definition processBlockCard :: "json \<Rightarrow> json M" where
  "processBlockCard data = mcatch
     (mbind (strval data ''encryptedPan'') (\<lambda>encPan.
      mbind (mlift (jvalue_str data ''blockType'' ''TEMPORARY'')) (\<lambda>blockType.
      if encPan = [] then mret (cardErr ''ERR_MISSING_PAN'' ''encryptedPan required'')
      else if blockType \<noteq> ''TEMPORARY'' \<and> blockType \<noteq> ''PERMANENT'' then
        mret (cardErr ''ERR_INVALID_BLOCK_TYPE'' ''blockType must be TEMPORARY or PERMANENT'')
      else mbind (card_pan_of encPan) (\<lambda>r. case r of
        Inl j \<Rightarrow> mret j
      | Inr pan \<Rightarrow> mthen scopedConnection (block_card pan blockType)))))
     (\<lambda>x. mret (cardErr ''ERR_EXCEPTION'' (what x)))"

section \<open>Limits\<close>

definition read_limit :: "json \<Rightarrow> string \<Rightarrow> string \<Rightarrow> json + money option" where
  "read_limit data k msg = (case jfind data k of
      None \<Rightarrow> Inr None
    | Some v \<Rightarrow> (case get_num v of
        Val limit \<Rightarrow> if limit \<le> 0 then Inl (cardErr ''ERR_INVALID_LIMIT'' msg) else Inr (Some limit)
      | _ \<Rightarrow> Inr None))"

definition or_else :: "'a option \<Rightarrow> 'a option \<Rightarrow> 'a option" where
  "or_else x y = (case x of None \<Rightarrow> y | Some v \<Rightarrow> Some v)"

text \<open>\<^verbatim>\<open>get<std::nullptr_t>\<close>, which \<^verbatim>\<open>data.value(key, nullptr)\<close> calls on a member that is there.\<close>

fun get_null :: "json \<Rightarrow> json outcome" where
  "get_null JNull = Val JNull"
| "get_null j = Exn (type_error_302 ''null'' j)"

definition set_limits :: "json \<Rightarrow> string \<Rightarrow> money option \<Rightarrow> money option \<Rightarrow> json M" where
  "set_limits data pan daily monthly =
     mthen (update_cards pan (\<lambda>c. c\<lparr>card_daily := or_else daily (card_daily c),
        card_monthly := or_else monthly (card_monthly c)\<rparr>))
     (mbind (mlift (jvalue get_null data ''dailyLimit'' JNull)) (\<lambda>dailyLimit.
      mbind (mlift (jvalue get_null data ''monthlyLimit'' JNull)) (\<lambda>monthlyLimit.
      mret (jobj [(''status'', JStr ''SUCCESS''), (''message'', JStr ''Card limits updated successfully''),
        (''dailyLimit'', dailyLimit), (''monthlyLimit'', monthlyLimit)]))))"

definition limit_card :: "json \<Rightarrow> string \<Rightarrow> json M" where
  "limit_card data pan =
     mbind (select_card pan) (\<lambda>res. case res of
       None \<Rightarrow> mret (cardErr ''ERR_CARD_NOT_FOUND'' [])
     | Some _ \<Rightarrow> (case read_limit data ''dailyLimit'' ''dailyLimit must be > 0'' of
         Inl j \<Rightarrow> mret j
       | Inr daily \<Rightarrow> (case read_limit data ''monthlyLimit'' ''monthlyLimit must be > 0'' of
           Inl j \<Rightarrow> mret j
         | Inr monthly \<Rightarrow>
             if daily = None \<and> monthly = None then
               mret (cardErr ''ERR_NOTHING_TO_UPDATE'' ''Provide dailyLimit and/or monthlyLimit'')
             else set_limits data pan daily monthly)))"

definition processSetCardLimit :: "json \<Rightarrow> json M" where
  "processSetCardLimit data = mcatch
     (mbind (strval data ''encryptedPan'') (\<lambda>encPan.
      if encPan = [] then mret (cardErr ''ERR_MISSING_PAN'' ''encryptedPan required'')
      else mbind (card_pan_of encPan) (\<lambda>r. case r of
        Inl j \<Rightarrow> mret j
      | Inr pan \<Rightarrow> mthen scopedConnection (limit_card data pan))))
     (\<lambda>x. mret (cardErr ''ERR_EXCEPTION'' (what x)))"

section \<open>PIN reset\<close>

definition reset_pin :: "string \<Rightarrow> string \<Rightarrow> string \<Rightarrow> json M" where
  "reset_pin pan newPin expiry =
     mbind (select_card pan) (\<lambda>res. case res of
       None \<Rightarrow> mret (cardErr ''ERR_CARD_NOT_FOUND'' [])
     | Some row \<Rightarrow>
       if card_status row = ''BLOCKED'' then
         mret (cardErr ''ERR_CARD_BLOCKED'' ''Cannot reset PIN of a blocked card'')
       else if expiry \<noteq> [] \<and> expiry \<noteq> card_expiry row then
         mret (cardErr ''ERR_INVALID_EXPIRY'' ''Wrong expiry date'')
       else mbind (check_pin pan newPin) (\<lambda>ok.
         if \<not> ok then mret (cardErr ''ERR_INVALID_PIN'' ''New PIN does not match PAN-derived PIN'')
         else mret (jobj [(''status'', JStr ''SUCCESS''),
           (''message'', JStr (''PIN reset verified'' @ em_dash @ ''your new PIN is now active''))])))"

definition processResetCardPIN :: "json \<Rightarrow> json M" where
  "processResetCardPIN data = mcatch
     (mbind (strval data ''encryptedPan'') (\<lambda>encPan.
      mbind (strval data ''newPin'') (\<lambda>newPin.
      mbind (strval data ''expiry'') (\<lambda>expiry.
      if encPan = [] then mret (cardErr ''ERR_MISSING_PAN'' ''encryptedPan required'')
      else if newPin = [] then mret (cardErr ''ERR_MISSING_PIN'' ''newPin required'')
      else mbind (card_pan_of encPan) (\<lambda>r. case r of
        Inl j \<Rightarrow> mret j
      | Inr pan \<Rightarrow> mthen scopedConnection (reset_pin pan newPin expiry))))))
     (\<lambda>x. mret (cardErr ''ERR_EXCEPTION'' (what x)))"

section \<open>Laws\<close>

lemma reader_card_pan_of [reader_intros]: "reader (card_pan_of s)"
  unfolding card_pan_of_def by (intro reader_intros)

lemma reader_resetPIN: "reader (processResetCardPIN data)"
  unfolding processResetCardPIN_def reset_pin_def by (intro reader_intros)

lemma update_cards_Val [val_simps]: "update_cards pan f e w = (Val u, w') \<longleftrightarrow>
    fault e (tick w) = None \<and> w' = put ((cur w)\<lparr>cards := upd_rows (\<lambda>c. card_pan c = pan) f (cards (cur w))\<rparr>) (step_tick w)"
  by (auto simp: update_cards_def val_simps)

text \<open>What a card handler is about: the decrypted number of its request.\<close>

definition names_card :: "json \<Rightarrow> env \<Rightarrow> string \<Rightarrow> bool" where
  "names_card data e pan \<longleftrightarrow> (\<exists>encPan. jvalue_str data ''encryptedPan'' [] = Val encPan \<and> encPan \<noteq> [] \<and>
     decryptPAN e encPan = Val pan)"

lemma card_pan_Inr: "card_pan_of s e w = (Val (Inr pan), w') \<longleftrightarrow> decryptPAN e s = Val pan \<and> w' = w"
  unfolding card_pan_of_def or_answer_Inr decrypt_def by (auto simp: val_simps)

lemma card_pan_Inl: "card_pan_of s e w = (Val (Inl j), w') \<Longrightarrow> \<not> has_status x j"
  unfolding card_pan_of_def or_answer_def by (auto simp: val_simps)

lemma block_Val:
  assumes "processBlockCard data e w = (Val res, w')" and "succeeded res" and "working w = None"
  shows "\<exists>pan bt c. names_card data e pan \<and> jvalue_str data ''blockType'' ''TEMPORARY'' = Val bt \<and>
     bt \<in> {''TEMPORARY'', ''PERMANENT''} \<and> find_card pan (committed w) = Some c \<and> working w' = None \<and>
     committed w' = (committed w)\<lparr>cards := upd_rows (\<lambda>c. card_pan c = pan)
       (\<lambda>c. c\<lparr>card_status := ''BLOCKED'', card_block := Some bt\<rparr>) (cards (committed w))\<rparr>"
proof -
  from assms obtain encPan pan bt c where
    "jvalue_str data ''encryptedPan'' [] = Val encPan" "encPan \<noteq> []" "decryptPAN e encPan = Val pan"
    "jvalue_str data ''blockType'' ''TEMPORARY'' = Val bt" "bt \<in> {''TEMPORARY'', ''PERMANENT''}"
    "find_card pan (committed w) = Some c" "working w' = None"
    "committed w' = (committed w)\<lparr>cards := upd_rows (\<lambda>c. card_pan c = pan)
       (\<lambda>c. c\<lparr>card_status := ''BLOCKED'', card_block := Some bt\<rparr>) (cards (committed w))\<rparr>"
    unfolding processBlockCard_def block_card_def
    by (auto simp: val_simps strval_def card_pan_Inr select_card_def cur_def put_def dest!: card_pan_Inl split: if_splits)
  then show ?thesis unfolding names_card_def by blast
qed

lemma activate_card_Val:
  assumes "activate_card pan e w = (Val res, w')" and "succeeded res" and "working w = None"
  shows "\<exists>c. find_card pan (committed w) = Some c \<and> working w' = None \<and>
     (if card_status c = ''ACTIVE'' then committed w' = committed w
      else card_block c \<noteq> Some ''PERMANENT'' \<and> committed w' = (committed w)\<lparr>cards := upd_rows (\<lambda>c. card_pan c = pan)
       (\<lambda>c. c\<lparr>card_status := ''ACTIVE'', card_block := None\<rparr>) (cards (committed w))\<rparr>)"
proof -
  from assms(1,2) obtain c where c: "find_card pan (cur w) = Some c"
    and rest: "if card_status c = ''ACTIVE'' then w' = step_tick w
      else or_empty (card_block c) \<noteq> ''PERMANENT'' \<and> w' = put ((cur w)\<lparr>cards := upd_rows (\<lambda>c. card_pan c = pan)
        (\<lambda>c. c\<lparr>card_status := ''ACTIVE'', card_block := None\<rparr>) (cards (cur w))\<rparr>) (step_tick (step_tick w))"
    unfolding activate_card_def by (auto simp: val_simps select_card_def)
  have "or_empty (card_block c) \<noteq> ''PERMANENT'' \<Longrightarrow> card_block c \<noteq> Some ''PERMANENT''"
    by (cases "card_block c") (auto simp: or_empty_def)
  with c rest assms(3) show ?thesis by (simp add: cur_def put_def split: if_splits)
qed

lemma activate_Val:
  assumes "processActivateCard data e w = (Val res, w')" and "succeeded res" and "working w = None"
  shows "\<exists>pan w1. names_card data e pan \<and> activate_card pan e w1 = (Val res, w') \<and> committed w1 = committed w \<and> working w1 = None"
proof -
  from assms obtain encPan pan where
    "jvalue_str data ''encryptedPan'' [] = Val encPan" "encPan \<noteq> []" "decryptPAN e encPan = Val pan"
    "activate_card pan e (step_tick w) = (Val res, w')"
    unfolding processActivateCard_def
    by (auto simp: val_simps strval_def card_pan_Inr dest!: card_pan_Inl)
  then show ?thesis using assms(3) unfolding names_card_def
    by (intro exI [of _ pan] exI [of _ "step_tick w"]) auto
qed

lemma given_limit_throws:
  assumes "read_limit data k m = Inr (Some x)"
  shows "jvalue get_null data k JNull \<noteq> Val j"
proof -
  from assms obtain v where v: "jfind data k = Some v" "get_num v = Val x"
    by (auto simp: read_limit_def split: option.splits outcome.splits if_splits)
  from v(2) have "get_null v \<noteq> Val j" by (cases v) simp_all
  with v(1) show ?thesis by (cases data) simp_all
qed

lemma set_limits_throws:
  assumes "read_limit data ''dailyLimit'' m1 = Inr d" "read_limit data ''monthlyLimit'' m2 = Inr m" "\<not> (d = None \<and> m = None)"
  shows "set_limits data pan d' m' e w \<noteq> (Val res, w')"
proof -
  from assms consider x where "read_limit data ''dailyLimit'' m1 = Inr (Some x)"
    | x where "read_limit data ''monthlyLimit'' m2 = Inr (Some x)" by (cases d; cases m) auto
  then show ?thesis
    unfolding set_limits_def by cases (auto simp: val_simps given_limit_throws)
qed

lemma limit_never: "never succeeded (limit_card data pan)"
proof -
  have "\<not> succeeded j" if "read_limit data k m = Inl j" for k m j
    using that by (auto simp: read_limit_def split: option.splits outcome.splits if_splits)
  then show ?thesis
    unfolding never_def limit_card_def
    by (auto simp: val_simps set_limits_throws split: sum.splits if_splits)
qed

section \<open>Runs without failures\<close>

lemma card_runs:
  "fault e = (\<lambda>_. None) \<Longrightarrow> update_cards pan f e w =
    (Val (), put ((cur w)\<lparr>cards := upd_rows (\<lambda>c. card_pan c = pan) f (cards (cur w))\<rparr>) (step_tick w))"
  "decryptPAN e s = Val pan \<Longrightarrow> card_pan_of s e w = (Val (Inr pan), w)"
  "fault e = (\<lambda>_. None) \<Longrightarrow> select_card pan e w = (Val (find_card pan (cur w)), step_tick w)"
  by (simp_all add: update_cards_def sql_def card_pan_Inr select_card_def ok_runs)

lemma named_runs:
  assumes "names_card data e pan" and "fault e = (\<lambda>_. None)"
  shows "processActivateCard data e w = mcatch (activate_card pan) (\<lambda>x. mret (cardErr ''ERR_EXCEPTION'' (what x))) e (step_tick w)"
    and "jvalue_str data ''blockType'' ''TEMPORARY'' = Val bt \<Longrightarrow> bt \<in> {''TEMPORARY'', ''PERMANENT''} \<Longrightarrow>
      processBlockCard data e w = mcatch (block_card pan bt) (\<lambda>x. mret (cardErr ''ERR_EXCEPTION'' (what x))) e (step_tick w)"
    and "processSetCardLimit data e w = mcatch (limit_card data pan) (\<lambda>x. mret (cardErr ''ERR_EXCEPTION'' (what x))) e (step_tick w)"
  using assms
  by (auto simp: names_card_def processActivateCard_def processBlockCard_def processSetCardLimit_def strval_def
      run_flow card_runs ok_runs)

lemma demo_names_card: "names_card (jobj [(''encryptedPan'', JStr (replicate 28 CHR ''x'' @ ''P''))]) demo_env ''P''"
  by (simp add: names_card_def jobj_def decryptPAN_def base64_decode_def IV_LEN_def TAG_LEN_def Let_def)

section \<open>Properties\<close>

text \<open>A permanent block is not permanent. Activation refuses a permanently blocked card, but
  blocking the card once more, temporarily, always succeeds on an existing card and lifts the
  permanent block: the next activation makes the card active again.\<close>

theorem permanent_block_lifted:
  assumes "processBlockCard d1 e1 w = (Val r1, w1)" and "succeeded r1" and "working w = None"
    and "jvalue_str d1 ''blockType'' ''TEMPORARY'' = Val ''TEMPORARY''"
    and "names_card d1 e1 pan" and "names_card d2 e2 pan" and "fault e2 = (\<lambda>_. None)"
  shows "(\<exists>c. find_card pan (committed w1) = Some c \<and> card_block c = Some ''TEMPORARY'') \<and>
    (\<exists>r2 w2 c. processActivateCard d2 e2 w1 = (Val r2, w2) \<and> succeeded r2 \<and>
       find_card pan (committed w2) = Some c \<and> card_status c = ''ACTIVE'' \<and> card_block c = None)"
proof -
  from block_Val [OF assms(1-3)] obtain pan' c where pan': "names_card d1 e1 pan'" "find_card pan' (committed w) = Some c"
    and w1: "working w1 = None" "committed w1 = (committed w)\<lparr>cards := upd_rows (\<lambda>c. card_pan c = pan')
       (\<lambda>c. c\<lparr>card_status := ''BLOCKED'', card_block := Some ''TEMPORARY''\<rparr>) (cards (committed w))\<rparr>"
    using assms(4) by auto
  from pan'(1) assms(5) have [simp]: "pan' = pan" by (auto simp: names_card_def)
  let ?c = "c\<lparr>card_status := ''BLOCKED'', card_block := Some ''TEMPORARY''\<rparr>"
  from pan' have c: "find_card pan (committed w1) = Some ?c"
    by (simp add: find_card_def w1 find_upd_rows_same)
  let ?d = "(committed w1)\<lparr>cards := upd_rows (\<lambda>c. card_pan c = pan)
       (\<lambda>c. c\<lparr>card_status := ''ACTIVE'', card_block := None\<rparr>) (cards (committed w1))\<rparr>"
  have "\<exists>r2 w2. processActivateCard d2 e2 w1 = (Val r2, w2) \<and> succeeded r2 \<and> committed w2 = ?d"
    using c w1(1)
    by (simp add: named_runs(1) [OF assms(6,7)] activate_card_def run_flow card_runs(1,3) [OF assms(7)]
        ok_runs [OF assms(7)] cur_def put_def or_empty_def has_status_def jfind_jobj)
  moreover have "find_card pan ?d = Some (?c\<lparr>card_status := ''ACTIVE'', card_block := None\<rparr>)"
    using c by (simp add: find_card_def find_upd_rows_same)
  ultimately show ?thesis using c by (fastforce simp: c)
qed

lemma permanent_block_lifted_witness:
  "\<exists>c w1 r2 w2. find_card ''P'' (committed w1) = Some c \<and> card_block c = Some ''TEMPORARY'' \<and>
     processActivateCard (jobj [(''encryptedPan'', JStr (replicate 28 CHR ''x'' @ ''P''))]) demo_env w1 = (Val r2, w2) \<and>
     succeeded r2"
proof -
  let ?d = "jobj [(''encryptedPan'', JStr (replicate 28 CHR ''x'' @ ''P''))]"
  let ?w = "card_world\<lparr>committed := (committed card_world)\<lparr>cards := [demo_card\<lparr>card_status := ''BLOCKED'', card_block := Some ''PERMANENT''\<rparr>]\<rparr>\<rparr>"
  have bt: "jvalue_str ?d ''blockType'' ''TEMPORARY'' = Val ''TEMPORARY''" by (simp add: jobj_def)
  have "\<exists>r1 w1. processBlockCard ?d demo_env ?w = (Val r1, w1) \<and> succeeded r1"
    by (simp add: named_runs(2) [OF demo_names_card demo_simps(1) bt] block_card_def run_flow card_runs ok_runs cur_def
        find_card_def demo_card_def has_status_def jfind_jobj)
  then obtain r1 w1 where run: "processBlockCard ?d demo_env ?w = (Val r1, w1)" "succeeded r1" by blast
  have "working ?w = None" by simp
  from permanent_block_lifted [OF run this bt demo_names_card demo_names_card demo_simps(1)] show ?thesis by blast
qed

text \<open>Setting a card's limits never answers SUCCESS: the answer reads the given limits as null, which
  throws after the update. A positive daily limit for an existing card is stored, and the request is
  answered with an error all the same.\<close>

theorem set_limit_reports_error:
  assumes "fault e = (\<lambda>_. None)" and "working w = None" and "names_card data e pan"
    and "find_card pan (committed w) = Some c"
    and "jfind data ''dailyLimit'' = Some (JInt n)" "0 < n" and "jfind data ''monthlyLimit'' = None"
  shows "never succeeded (processSetCardLimit data) \<and>
    (\<exists>res w'. processSetCardLimit data e w = (Val res, w') \<and> has_error ''ERR_EXCEPTION'' res \<and>
       find_card pan (committed w') = Some (c\<lparr>card_daily := Some (of_int n)\<rparr>))"
proof
  show "never succeeded (processSetCardLimit data)"
    using limit_never [of data]
    unfolding processSetCardLimit_def never_def
    by (auto simp: val_simps strval_def dest: card_pan_Inl split: if_splits) blast+
  obtain kvs where data: "data = JObj kvs" using assms(5) by (cases data) auto
  have "find_card pan ((committed w)\<lparr>cards := upd_rows (\<lambda>c. card_pan c = pan)
      (\<lambda>c. c\<lparr>card_daily := Some (of_int n), card_monthly := card_monthly c\<rparr>) (cards (committed w))\<rparr>) =
      Some (c\<lparr>card_daily := Some (of_int n)\<rparr>)"
    using assms(4) by (simp add: find_card_def find_upd_rows_same)
  with assms(2,4-) show "\<exists>res w'. processSetCardLimit data e w = (Val res, w') \<and> has_error ''ERR_EXCEPTION'' res \<and>
       find_card pan (committed w') = Some (c\<lparr>card_daily := Some (of_int n)\<rparr>)"
    by (simp add: named_runs(3) [OF assms(3,1), unfolded data] limit_card_def set_limits_def read_limit_def or_else_def run_flow
        card_runs(1,3) [OF assms(1)] cur_def put_def data has_error_def cardErr_def errm_def err_def err0_def jfind_jobj)
qed

lemma set_limit_reports_error_witness:
  "\<exists>res w'. processSetCardLimit (jobj [(''encryptedPan'', JStr (replicate 28 CHR ''x'' @ ''P'')), (''dailyLimit'', JInt 500)])
      demo_env card_world = (Val res, w') \<and> has_error ''ERR_EXCEPTION'' res \<and>
     find_card ''P'' (committed w') = Some (demo_card\<lparr>card_daily := Some 500\<rparr>)"
proof -
  let ?d = "jobj [(''encryptedPan'', JStr (replicate 28 CHR ''x'' @ ''P'')), (''dailyLimit'', JInt 500)]"
  have "names_card ?d demo_env ''P''"
    by (simp add: names_card_def jobj_def decryptPAN_def base64_decode_def IV_LEN_def TAG_LEN_def Let_def)
  from set_limit_reports_error [OF demo_simps(1) card_world_simps(1) this card_world_simps(4), of 500]
  show ?thesis by (simp add: jfind_jobj)
qed

end
