(* ===== verification/Dispatch.thy ===== *)
theory Dispatch
  imports Tds Issue Cards
begin

text \<open>
  The dispatch table of \<^verbatim>\<open>parser&router.cpp\<close>, from channel types to handlers.
  \<open>admin_tables\<close> extends \<open>payment_tables\<close> by the statements of the handlers that
  administer accounts, cards and challenges: what keeps its laws is kept by every handler that a
  request can reach.
\<close>

fun CHANNEL_DISPATCH :: "ChannelType \<Rightarrow> (json \<Rightarrow> json M) option" where
  "CHANNEL_DISPATCH CH_ATM = Some processATMTransaction"
| "CHANNEL_DISPATCH CH_MOBILE = Some processMobileTransaction"
| "CHANNEL_DISPATCH CH_POS = Some processPOSTransaction"
| "CHANNEL_DISPATCH CH_ICCW = Some processICCWTransaction"
| "CHANNEL_DISPATCH CH_ISSUER = Some processIssueCard"
| "CHANNEL_DISPATCH CH_ECOM = Some processECOMTransaction"
| "CHANNEL_DISPATCH CH_THREEDS_INITIATE = Some processECOM3DSInitiate"
| "CHANNEL_DISPATCH CH_QRCODE = Some processQRCodePayment"
| "CHANNEL_DISPATCH CH_RINGPAY = Some processRingPayTransaction"
| "CHANNEL_DISPATCH CH_CARD_DETAILS = Some processGetCardDetails"
| "CHANNEL_DISPATCH CH_CARD_ACTIVATE = Some processActivateCard"
| "CHANNEL_DISPATCH CH_CARD_BLOCK = Some processBlockCard"
| "CHANNEL_DISPATCH CH_CARD_SET_LIMIT = Some processSetCardLimit"
| "CHANNEL_DISPATCH CH_CARD_RESET_PIN = Some processResetCardPIN"
| "CHANNEL_DISPATCH CH_ADD_ACCOUNT = Some processAddAccount"
| "CHANNEL_DISPATCH CH_ACCOUNT_DETAILS = Some processGetAccount"
| "CHANNEL_DISPATCH CH_FREEZE_ACCOUNT = Some processFreezeAccount"
| "CHANNEL_DISPATCH CH_UNFREEZE_ACCOUNT = Some processUnfreezeAccount"
| "CHANNEL_DISPATCH CH_LIST_ACCOUNTS = Some processListAccounts"
| "CHANNEL_DISPATCH CH_REVERSAL = Some processReversal"
| "CHANNEL_DISPATCH CH_UNKNOWN = None"

lemma dispatch_total: "CHANNEL_DISPATCH c = None \<longleftrightarrow> c = CH_UNKNOWN"
  by (cases c) simp_all

locale admin_tables = payment_tables +
  assumes account_opened: "P d \<Longrightarrow> find_account acc d = None \<Longrightarrow>
      P (d\<lparr>accounts := accounts d @ [new_account d acc b cc fz cid]\<rparr>)"
    and frozen: "P d \<Longrightarrow> P (d\<lparr>accounts := upd_rows (\<lambda>r. acc_no r = acc) (\<lambda>r. r\<lparr>acc_frozen := fz\<rparr>) (accounts d)\<rparr>)"
    and card_changed: "P d \<Longrightarrow> (\<And>c. card_pan (f c) = card_pan c \<and> card_acc (f c) = card_acc c) \<Longrightarrow>
      P (d\<lparr>cards := upd_rows Q f (cards d)\<rparr>)"
    and card_issued: "P d \<Longrightarrow> card_count (card_acc c) d < MAX_CARDS_PER_ACCOUNT \<Longrightarrow> find_card (card_pan c) d = None \<Longrightarrow>
      P (d\<lparr>cards := cards d @ [c]\<rparr>)"
    and challenge_added: "P d \<Longrightarrow> P (d\<lparr>tds := tds d @ [ch]\<rparr>)"
    and challenge_changed: "P d \<Longrightarrow> P (d\<lparr>tds := upd_rows S g (tds d)\<rparr>)"
begin

lemma open_account_keeps [frame_intros]: "keeps e (holds P) (open_account acc b cc fz c)"
  unfolding open_account_def insert_account_def
  by (intro keeps_intros frame_intros keeps_sql_holds) (auto simp: Let_def account_opened split: if_splits sum.splits)

lemma add_account [frame_intros]: "keeps e (holds P) (processAddAccount data)"
  unfolding processAddAccount_def by (intro keeps_intros frame_intros reader_holds [OF reader_resolveCurrency])

lemma freeze [frame_intros]: "keeps e (holds P) (setFreezeStatus data fz)"
  unfolding setFreezeStatus_def freeze_txn_def updateFreezeStatus_def
  by (intro keeps_intros frame_intros keeps_sql_holds reader_holds [OF reader_fetchAccount]) (auto intro: frozen)

lemma update_cards_keeps:
  "(\<And>c. card_pan (f c) = card_pan c \<and> card_acc (f c) = card_acc c) \<Longrightarrow> keeps e (holds P) (update_cards pan f)"
  unfolding update_cards_def by (rule keeps_sql_holds) (auto intro: card_changed)

lemma card_admin [frame_intros]: "keeps e (holds P) (processActivateCard data)" "keeps e (holds P) (processBlockCard data)"
  "keeps e (holds P) (processSetCardLimit data)" "keeps e (holds P) (processResetCardPIN data)"
  unfolding processActivateCard_def activate_card_def processBlockCard_def block_card_def processSetCardLimit_def
    limit_card_def set_limits_def processResetCardPIN_def reset_pin_def
  by (intro keeps_intros frame_intros update_cards_keeps reader_holds [OF reader_card_pan_of]; simp)+

lemma issue_keeps [frame_intros]: "keeps e (holds P) (issue_card acc name scheme bin)"
  unfolding issue_card_def insert_card_def query_def
  by (rule keepsI) (auto simp: wp_simps holds_def put_def cur_def not_le intro!: card_issued
      split: option.split sum.split if_splits option.splits)

lemma issue [frame_intros]: "keeps e (holds P) (processIssueCard data)"
  unfolding processIssueCard_def Let_def by (intro keeps_intros frame_intros)

lemma challenge_writes [frame_intros]: "keeps e (holds P) (update3DSChallengeStatus cid s)"
  "keeps e (holds P) (insert3DSChallenge cid otp data ch n)"
  unfolding update3DSChallengeStatus_def insert3DSChallenge_def
  by (rule keeps_sql_holds; auto intro: challenge_added challenge_changed)+

lemma tds_keeps [frame_intros]: "keeps e (holds P) (processECOM3DSInitiate data)" "keeps e (holds P) (process3DSVerify data)"
  unfolding processECOM3DSInitiate_def tds_card_checked_def tds_challenge_def process3DSVerify_def tds_execute_def
  by (intro keeps_intros frame_intros)+

lemma card_details [frame_intros]: "keeps e (holds P) (processGetCardDetails data)"
  unfolding processGetCardDetails_def by (intro keeps_intros frame_intros)

lemma handlers: "CHANNEL_DISPATCH ch = Some h \<Longrightarrow> keeps e (holds P) (h data)"
  by (cases ch)
    (auto simp: processFreezeAccount_def processUnfreezeAccount_def
      intro: frame_intros reader_holds [OF reader_getAccount] reader_holds [OF reader_listAccounts])

end

text \<open>No handler touches the idempotency keys; they belong to the router.\<close>

interpretation keys: admin_tables "\<lambda>d. idem d = x" for x
  by unfold_locales simp_all

end
