(* ===== verification/Idempotency.thy ===== *)
theory Idempotency
  imports Handlers
begin

text \<open>
  \<^verbatim>\<open>idempotency.cpp\<close>: the table of idempotency keys. A key is claimed by inserting its
  row, and the row keeps the first answer for every later request with the key. The stored body
  is kept as a value instead of its text.
\<close>

record idem_record =
  rec_key :: string
  rec_path :: string
  rec_status :: string
  rec_code :: int
  rec_body :: json

definition IN_PROGRESS_ERROR :: string where "IN_PROGRESS_ERROR = ''ERR_IDEMPOTENCY_IN_PROGRESS''"

text \<open>Which exceptions are a \<^verbatim>\<open>std::runtime_error\<close>: \<^verbatim>\<open>mysqlx::Error\<close> is one, those of
  the JSON library and \<^verbatim>\<open>std::invalid_argument\<close> are not.\<close>

fun is_runtime_error :: "exn \<Rightarrow> bool" where
  "is_runtime_error (RuntimeErr _) = True"
| "is_runtime_error (DbErr _) = True"
| "is_runtime_error _ = False"

text \<open>\<open>True\<close> when the key was there already. An insert that fails for another reason lets the
  request through.\<close>

definition claim_key :: "string \<Rightarrow> string \<Rightarrow> bool M" where
  "claim_key key path = mcatch (mthen (insertIdempotencyRecord key path) (mret False))
     (\<lambda>x. mret (contains_str ''Duplicate entry'' (what x)))"

definition recorded :: "string \<Rightarrow> string \<Rightarrow> idem_record option M" where
  "recorded key path = mbind (getIdempotencyRecord key) (\<lambda>rec. case rec of
      None \<Rightarrow> mret None
    | Some (status, code, body) \<Rightarrow>
        if status = ''IN_PROGRESS'' then mthrow (RuntimeErr IN_PROGRESS_ERROR)
        else mret (Some \<lparr>rec_key = key, rec_path = path, rec_status = status, rec_code = code,
               rec_body = (case body of None \<Rightarrow> JNull | Some b \<Rightarrow> b)\<rparr>))"

definition checkOrRegister :: "string \<Rightarrow> string \<Rightarrow> idem_record option M" where
  "checkOrRegister key path = mthen scopedConnection
     (mbind (claim_key key path) (\<lambda>known.
      if \<not> known then mret None
      else mcatch (recorded key path) (\<lambda>x. if is_runtime_error x then mthrow x else mret None)))"

definition update_key :: "string \<Rightarrow> int \<Rightarrow> json \<Rightarrow> unit M" where
  "update_key key response_code response_body = mthen scopedConnection
     (mcatch (updateIdempotencyRecord key
        (if response_code \<ge> 200 \<and> response_code < 300 then ''COMPLETED'' else ''FAILED'') response_code response_body)
      (\<lambda>_. mret ()))"

section \<open>Laws\<close>

text \<open>The three answers to a key that is in the table.\<close>

lemma claim_known:
  assumes "find_idem key (cur w) \<noteq> None" and "fault e (tick w) = None"
  shows "claim_key key path e w = (Val True, step_tick w)"
proof -
  have "contains_str ''Duplicate entry'' (''Duplicate entry '' @ key)"
    by simp
  with assms show ?thesis by (simp add: claim_key_def insertIdempotencyRecord_def run_flow sql_def)
qed

lemma claim_new:
  assumes "find_idem key (cur w) = None" and "fault e (tick w) = None"
  shows "claim_key key path e w = (Val False, put ((cur w)\<lparr>idem := idem (cur w) @
     [\<lparr>ik_key = key, ik_path = path, ik_status = ''IN_PROGRESS'', ik_code = None, ik_body = None\<rparr>]\<rparr>) (step_tick w))"
  using assms by (simp add: claim_key_def insertIdempotencyRecord_def run_flow sql_def)

lemma check_known:
  assumes "find_idem key (cur w) = Some row" and "ik_status row \<noteq> ''IN_PROGRESS''" and "fault e = (\<lambda>_. None)"
  shows "\<exists>w'. checkOrRegister key path e w = (Val (Some \<lparr>rec_key = key, rec_path = path, rec_status = ik_status row,
     rec_code = (case ik_code row of None \<Rightarrow> 0 | Some n \<Rightarrow> n),
     rec_body = (case ik_body row of None \<Rightarrow> JNull | Some b \<Rightarrow> b)\<rparr>), w') \<and> same_db w w' \<and> gate w' = gate w"
  using assms by (simp add: checkOrRegister_def mthen_def [of scopedConnection] mbind_def ok_runs claim_known recorded_def
      getIdempotencyRecord_def mcatch_def mret_def) (simp add: same_db_def step_tick_def)

end
