(* ===== verification/Auth.thy ===== *)
theory Auth
  imports Reversal
begin

text \<open>
  \<^verbatim>\<open>auth.cpp\<close>: API keys, the roles of the channels, and JSON web tokens signed with
  HMAC-SHA256. OpenSSL's base64 and HMAC, and the printing and parsing of JSON, are parameters;
  the url-safe alphabet, the padding and the layout of a token are the code's.
\<close>

record auth_context =
  au_role :: string
  au_owner :: string
  au_valid :: bool

text \<open>The value of \<^verbatim>\<open>JWT_SECRET_KEY\<close>, if it is set; \<open>jwt_secret\<close> of the environment is the result.\<close>

definition loadJwtSecret :: "string option \<Rightarrow> string" where
  "loadJwtSecret secret = (case secret of None \<Rightarrow> ''ROHAN_PAYMENT_ENGINE_JWT_SECRET_v3_9649''
     | Some s \<Rightarrow> if s = [] then ''ROHAN_PAYMENT_ENGINE_JWT_SECRET_v3_9649'' else s)"

definition no_auth :: auth_context where
  "no_auth = \<lparr>au_role = [], au_owner = [], au_valid = False\<rparr>"

section \<open>API keys and roles\<close>

definition validateApiKey :: "string \<Rightarrow> auth_context M" where
  "validateApiKey apiKey =
     (if apiKey = [] then mret no_auth
      else mcatch
        (mbind (getApiKeyDetails apiKey) (\<lambda>details. case details of
           None \<Rightarrow> mret no_auth
         | Some (role, owner, active) \<Rightarrow>
             if \<not> active then mret no_auth
             else mret \<lparr>au_role = role, au_owner = owner, au_valid = True\<rparr>))
        (\<lambda>_. mret no_auth))"

definition merchantChannels :: "string list" where
  "merchantChannels = [''POS'', ''ECOM'', ''QRCODE'', ''RINGPAY'', ''REVERSAL'', ''ACCOUNT_DETAILS'', ''LIST_ACCOUNTS'',
     ''3DS_VERIFY'', ''3DS_INITIATE'', ''ICCW'']"

definition terminalChannels :: "string list" where
  "terminalChannels = [''ATM'', ''POS'', ''ICCW'']"

definition issuerChannels :: "string list" where
  "issuerChannels = [''ISSUER'', ''CARD_DETAILS'', ''CARD_ACTIVATE'', ''CARD_BLOCK'', ''CARD_SET_LIMIT'', ''ADD_ACCOUNT'',
     ''ACCOUNT_DETAILS'', ''LIST_ACCOUNTS'', ''FREEZE_ACCOUNT'', ''UNFREEZE_ACCOUNT'']"

definition mobileChannels :: "string list" where
  "mobileChannels = [''MOBILE'', ''ACCOUNT_DETAILS'', ''CARD_RESET_PIN'']"

definition checkPermission :: "string \<Rightarrow> string \<Rightarrow> bool" where
  "checkPermission role channel =
     (if role = ''ADMIN'' then True
      else if role = ''MERCHANT'' then channel \<in> set merchantChannels
      else if role = ''TERMINAL'' then channel \<in> set terminalChannels
      else if role = ''ISSUER_ROLE'' then channel \<in> set issuerChannels
      else if role = ''MOBILE_USER'' then channel \<in> set mobileChannels
      else False)"

section \<open>Base64 for URLs\<close>

definition to_url :: "char \<Rightarrow> char" where
  "to_url c = (if c = CHR ''+'' then CHR ''-'' else if c = CHR ''/'' then CHR ''_'' else c)"

definition from_url :: "char \<Rightarrow> char" where
  "from_url c = (if c = CHR ''-'' then CHR ''+'' else if c = CHR ''_'' then CHR ''/'' else c)"

text \<open>\<^verbatim>\<open>while (!result.empty() && result.back() == '=') result.pop_back();\<close>\<close>

definition strip_pad :: "string \<Rightarrow> string" where
  "strip_pad s = rev (dropWhile (\<lambda>c. c = CHR ''='') (rev s))"

definition base64urlEncode :: "env \<Rightarrow> string \<Rightarrow> string" where
  "base64urlEncode e data = strip_pad (map to_url (b64_encode e data))"

text \<open>\<^verbatim>\<open>while (data.size() % 4 != 0) data += '=';\<close>\<close>

definition re_pad :: "string \<Rightarrow> string" where
  "re_pad s = s @ replicate ((4 - length s mod 4) mod 4) (CHR ''='')"

definition base64urlDecode :: "env \<Rightarrow> string \<Rightarrow> string" where
  "base64urlDecode e input = (case b64_decode e (re_pad (map from_url input)) of None \<Rightarrow> [] | Some s \<Rightarrow> s)"

definition hmacSha256Hex :: "env \<Rightarrow> string \<Rightarrow> string \<Rightarrow> string" where
  "hmacSha256Hex e data key = map (\<lambda>b. char_of (unat b)) (hmac_sha256 e key data)"

section \<open>Tokens\<close>

definition JWT_TTL :: nat where "JWT_TTL = 3600"

definition jwt_header :: json where
  "jwt_header = jobj [(''alg'', JStr ''HS256''), (''typ'', JStr ''JWT'')]"

definition jwt_payload :: "env \<Rightarrow> auth_context \<Rightarrow> json" where
  "jwt_payload e ctx = jobj [(''sub'', JStr (au_owner ctx)), (''role'', JStr (au_role ctx)),
     (''iat'', JInt (int (now e))), (''exp'', JInt (int (now e + JWT_TTL)))]"

definition sign :: "env \<Rightarrow> string \<Rightarrow> string" where
  "sign e signingInput = base64urlEncode e (hmacSha256Hex e signingInput (jwt_secret e))"

definition generateJWT :: "env \<Rightarrow> auth_context \<Rightarrow> string" where
  "generateJWT e ctx = (let headerEnc = base64urlEncode e (dump_json e jwt_header);
       payloadEnc = base64urlEncode e (dump_json e (jwt_payload e ctx));
       sigEnc = sign e (headerEnc @ ''.'' @ payloadEnc)
     in headerEnc @ ''.'' @ payloadEnc @ ''.'' @ sigEnc)"

text \<open>\<^verbatim>\<open>token.find('.')\<close> and the two \<^verbatim>\<open>substr\<close>.\<close>

definition cut_dot :: "string \<Rightarrow> (string \<times> string) option" where
  "cut_dot s = (case dropWhile (\<lambda>c. c \<noteq> CHR ''.'') s of [] \<Rightarrow> None
     | _ # rest \<Rightarrow> Some (takeWhile (\<lambda>c. c \<noteq> CHR ''.'') s, rest))"

text \<open>\<^verbatim>\<open>get<long long>()\<close>\<close>

definition get_int64 :: "json \<Rightarrow> int outcome" where
  "get_int64 v = obind (get_int v) (\<lambda>i. Val (signed_take_bit 63 i))"

text \<open>A member that is missing is read as null, on which every typed \<^verbatim>\<open>get\<close> throws.\<close>

definition member :: "json \<Rightarrow> string \<Rightarrow> json" where
  "member j k = (case jfind j k of None \<Rightarrow> JNull | Some v \<Rightarrow> v)"

definition read_payload :: "env \<Rightarrow> json \<Rightarrow> auth_context" where
  "read_payload e payload = (case (get_int64 (member payload ''exp''), get_str (member payload ''role''),
       get_str (member payload ''sub'')) of
      (Val ex, Val role, Val sub) \<Rightarrow>
        if ex < int (now e) then no_auth else \<lparr>au_role = role, au_owner = sub, au_valid = True\<rparr>
    | _ \<Rightarrow> no_auth)"

definition validateJWT :: "env \<Rightarrow> string \<Rightarrow> auth_context" where
  "validateJWT e token = (case cut_dot token of None \<Rightarrow> no_auth
     | Some (headerEnc, rest) \<Rightarrow> (case cut_dot rest of None \<Rightarrow> no_auth
       | Some (payloadEnc, sigProvided) \<Rightarrow>
           if sigProvided \<noteq> sign e (headerEnc @ ''.'' @ payloadEnc) then no_auth
           else (case parse_json e (base64urlDecode e payloadEnc) of
               None \<Rightarrow> no_auth
             | Some payload \<Rightarrow> read_payload e payload)))"

section \<open>Laws\<close>

definition b64_char :: "char \<Rightarrow> bool" where
  "b64_char c \<longleftrightarrow> isalpha c \<or> isdigit c \<or> c = CHR ''+'' \<or> c = CHR ''/''"

text \<open>What the code relies on of base64: characters of the alphabet, then the padding up to a
  multiple of four, and decoding inverts encoding.\<close>

definition b64_ok :: "env \<Rightarrow> string \<Rightarrow> bool" where
  "b64_ok e s \<longleftrightarrow> (let c = b64_encode e s; body = strip_pad c
     in list_all b64_char body \<and> c = re_pad body \<and> b64_decode e c = Some s)"

text \<open>What a token needs: the three parts are encoded properly and the payload is printed and
  parsed back.\<close>

definition jwt_codec_ok :: "env \<Rightarrow> auth_context \<Rightarrow> bool" where
  "jwt_codec_ok e ctx \<longleftrightarrow> (let h = dump_json e jwt_header; p = dump_json e (jwt_payload e ctx) in
     b64_ok e h \<and> b64_ok e p \<and> parse_json e p = Some (jwt_payload e ctx))"

lemma b64_char_cases: "b64_char c \<Longrightarrow> c \<noteq> CHR ''='' \<and> c \<noteq> CHR ''-'' \<and> c \<noteq> CHR ''_'' \<and> c \<noteq> CHR ''.''"
proof -
  have "\<not> b64_char (CHR ''='')" "\<not> b64_char (CHR ''-'')" "\<not> b64_char (CHR ''_'')" "\<not> b64_char (CHR ''.'')"
    by code_simp+
  then show "b64_char c \<Longrightarrow> c \<noteq> CHR ''='' \<and> c \<noteq> CHR ''-'' \<and> c \<noteq> CHR ''_'' \<and> c \<noteq> CHR ''.''" by blast
qed

lemma url_other: "c \<noteq> CHR ''-'' \<Longrightarrow> c \<noteq> CHR ''_'' \<Longrightarrow> from_url c = c"
  and to_url_other: "c \<noteq> CHR ''+'' \<Longrightarrow> c \<noteq> CHR ''/'' \<Longrightarrow> to_url c = c"
  by (simp_all add: from_url_def to_url_def)

lemma url_char: "b64_char c \<Longrightarrow> from_url (to_url c) = c \<and> to_url c \<noteq> CHR ''.'' \<and> to_url c \<noteq> CHR ''=''"
proof -
  assume "b64_char c"
  then have c: "c \<noteq> CHR ''=''" "c \<noteq> CHR ''-''" "c \<noteq> CHR ''_''" "c \<noteq> CHR ''.''" using b64_char_cases by blast+
  have sp: "to_url (CHR ''+'') = CHR ''-''" "to_url (CHR ''/'') = CHR ''_''" "from_url (CHR ''-'') = CHR ''+''"
    "from_url (CHR ''_'') = CHR ''/''" by (simp_all add: to_url_def from_url_def)
  consider "c = CHR ''+''" | "c = CHR ''/''" | "c \<noteq> CHR ''+''" "c \<noteq> CHR ''/''" by blast
  then show ?thesis
  proof cases
    case 3
    with c url_other to_url_other show ?thesis by metis
  qed (simp_all add: sp)
qed

lemma strip_re_pad:
  assumes "\<forall>c\<in>set s. c \<noteq> CHR ''=''"
  shows "strip_pad (re_pad s) = s"
proof -
  have "dropWhile (\<lambda>c. c = CHR ''='') (rev s) = rev s"
  proof (cases "rev s")
    case (Cons a as)
    then have "a \<in> set s" by (metis list.set_intros(1) set_rev)
    with Cons assms show ?thesis by simp
  qed simp
  then have "dropWhile (\<lambda>c. c = CHR ''='') (replicate n (CHR ''='') @ rev s) = rev s" for n
    by (induction n) simp_all
  then show ?thesis by (simp add: strip_pad_def re_pad_def)
qed

lemma map_re_pad: "f (CHR ''='') = CHR ''='' \<Longrightarrow> map f (re_pad s) = re_pad (map f s)"
  by (simp add: re_pad_def)

lemma encode_form:
  assumes "b64_ok e s"
  obtains body where "list_all b64_char body" "base64urlEncode e s = map to_url body"
    "b64_decode e (re_pad body) = Some s"
proof -
  define body where "body = strip_pad (b64_encode e s)"
  have b: "list_all b64_char body" "b64_encode e s = re_pad body" "b64_decode e (re_pad body) = Some s"
    using assms by (auto simp: b64_ok_def Let_def body_def)
  have "\<forall>c\<in>set (map to_url body). c \<noteq> CHR ''=''" using b(1) url_char by (auto simp: list_all_iff)
  then have "base64urlEncode e s = map to_url body"
    unfolding base64urlEncode_def b(2) by (simp add: map_re_pad strip_re_pad to_url_def)
  with b show ?thesis using that by blast
qed

lemma decode_encode: "b64_ok e s \<Longrightarrow> base64urlDecode e (base64urlEncode e s) = s"
proof -
  assume "b64_ok e s"
  then obtain body where b: "list_all b64_char body" "base64urlEncode e s = map to_url body"
    "b64_decode e (re_pad body) = Some s" by (rule encode_form)
  have "map from_url (map to_url body) = body"
    using b(1) url_char by (auto simp: list_all_iff intro: map_idI)
  with b show ?thesis by (simp add: base64urlDecode_def)
qed

lemma encode_no_dot: "b64_ok e s \<Longrightarrow> CHR ''.'' \<notin> set (base64urlEncode e s)"
  by (erule encode_form) (use url_char in \<open>fastforce simp: list_all_iff\<close>)

lemma cut_dot_append:
  assumes "CHR ''.'' \<notin> set a"
  shows "cut_dot (a @ CHR ''.'' # b) = Some (a, b)"
proof -
  have "dropWhile (\<lambda>c. c \<noteq> CHR ''.'') (a @ CHR ''.'' # b) = CHR ''.'' # b"
    and "takeWhile (\<lambda>c. c \<noteq> CHR ''.'') (a @ CHR ''.'' # b) = a"
    using assms by (induction a) auto
  then show ?thesis by (simp add: cut_dot_def)
qed

lemma cut_dot_Some:
  assumes "cut_dot s = Some (a, b)"
  shows "s = a @ CHR ''.'' # b \<and> CHR ''.'' \<notin> set a"
proof -
  let ?P = "\<lambda>c. c \<noteq> CHR ''.''"
  from assms obtain c where d: "dropWhile ?P s = c # b" and a: "a = takeWhile ?P s"
    by (auto simp: cut_dot_def split: list.splits)
  from d hd_dropWhile [of ?P s] have c: "c = CHR ''.''" by simp
  have "s = takeWhile ?P s @ dropWhile ?P s" by simp
  then have "s = a @ CHR ''.'' # b" using a c d by simp
  moreover have "CHR ''.'' \<notin> set a" using a set_takeWhileD by fastforce
  ultimately show ?thesis by blast
qed

lemma codec_now [simp]:
  "base64urlEncode (e\<lparr>now := t\<rparr>) s = base64urlEncode e s" "base64urlDecode (e\<lparr>now := t\<rparr>) s = base64urlDecode e s"
  "sign (e\<lparr>now := t\<rparr>) s = sign e s"
  by (simp_all add: base64urlEncode_def base64urlDecode_def sign_def hmacSha256Hex_def)

lemma payload_members:
  "member (jwt_payload e ctx) ''exp'' = JInt (int (now e + JWT_TTL))"
  "member (jwt_payload e ctx) ''role'' = JStr (au_role ctx)"
  "member (jwt_payload e ctx) ''sub'' = JStr (au_owner ctx)"
  by (simp_all add: member_def jwt_payload_def jfind_jobj)

lemma get_int64_small: "0 \<le> i \<Longrightarrow> i < 2 ^ 63 \<Longrightarrow> get_int64 (JInt i) = Val i"
  by (simp add: get_int64_def signed_take_bit_int_eq_self_iff)

section \<open>Properties\<close>

text \<open>A token that was issued for an API key is accepted exactly until an hour after its issue, and gives
  back the role and the owner it was issued for.\<close>

theorem jwt_roundtrip:
  assumes "jwt_codec_ok e ctx" and "int (now e + JWT_TTL) < 2 ^ 63"
  shows "validateJWT (e\<lparr>now := t\<rparr>) (generateJWT e ctx) =
    (if t \<le> now e + JWT_TTL then ctx\<lparr>au_valid := True\<rparr> else no_auth)"
proof -
  define h where "h = base64urlEncode e (dump_json e jwt_header)"
  define p where "p = base64urlEncode e (dump_json e (jwt_payload e ctx))"
  have dots: "CHR ''.'' \<notin> set h" "CHR ''.'' \<notin> set p"
    and dec: "base64urlDecode e p = dump_json e (jwt_payload e ctx)"
    and parse: "parse_json e (dump_json e (jwt_payload e ctx)) = Some (jwt_payload e ctx)"
    using assms(1) by (auto simp: jwt_codec_ok_def h_def p_def Let_def encode_no_dot decode_encode)
  have "generateJWT e ctx = h @ CHR ''.'' # p @ CHR ''.'' # sign e (h @ ''.'' @ p)"
    by (simp add: generateJWT_def h_def p_def Let_def)
  then have "validateJWT (e\<lparr>now := t\<rparr>) (generateJWT e ctx) = read_payload (e\<lparr>now := t\<rparr>) (jwt_payload e ctx)"
    by (simp add: validateJWT_def cut_dot_append [OF dots(1)] cut_dot_append [OF dots(2)] dec parse)
  then show ?thesis
    using get_int64_small [OF _ assms(2)] by (auto simp: read_payload_def payload_members)
qed

definition demo_ctx :: auth_context where
  "demo_ctx = \<lparr>au_role = ''TERMINAL'', au_owner = ''T'', au_valid = True\<rparr>"

text \<open>An environment whose base64 is the identity on a single four-letter text.\<close>

definition jwt_env :: env where
  "jwt_env = demo_env\<lparr>dump_json := (\<lambda>j. ''abcd''), parse_json := (\<lambda>s. Some (jwt_payload demo_env demo_ctx))\<rparr>"

lemma jwt_env_simps [simp]: "now jwt_env = 8640000" "dump_json jwt_env = (\<lambda>j. ''abcd'')"
  "parse_json jwt_env = (\<lambda>s. Some (jwt_payload demo_env demo_ctx))" "b64_decode jwt_env = Some"
  "b64_encode jwt_env = (\<lambda>s. s)" "jwt_payload jwt_env c = jwt_payload demo_env c"
  by (simp_all add: jwt_env_def demo_env_def jwt_payload_def)

lemma jwt_env_ok: "jwt_codec_ok jwt_env demo_ctx"
proof -
  have "strip_pad ''abcd'' = ''abcd''" "re_pad ''abcd'' = ''abcd''" "list_all b64_char ''abcd''" by code_simp+
  then show ?thesis by (simp add: jwt_codec_ok_def b64_ok_def Let_def)
qed

lemma jwt_roundtrip_witness:
  "validateJWT (jwt_env\<lparr>now := 8643600\<rparr>) (generateJWT jwt_env demo_ctx) = demo_ctx \<and>
   validateJWT (jwt_env\<lparr>now := 8643601\<rparr>) (generateJWT jwt_env demo_ctx) = no_auth"
  using jwt_roundtrip [OF jwt_env_ok, of 8643600] jwt_roundtrip [OF jwt_env_ok, of 8643601]
  by (simp add: JWT_TTL_def demo_ctx_def)

text \<open>C28: A token is accepted only when it ends in the signature, under the server's secret, of everything
  before its last dot, the payload in it parses and has not expired; the identity given back is
  the one in that payload.\<close>

theorem jwt_authentic:
  assumes "au_valid (validateJWT e token)"
  shows "\<exists>h p payload x. token = h @ CHR ''.'' # p @ CHR ''.'' # sign e (h @ CHR ''.'' # p) \<and>
    CHR ''.'' \<notin> set h \<union> set p \<and> parse_json e (base64urlDecode e p) = Some payload \<and>
    get_int64 (member payload ''exp'') = Val x \<and> int (now e) \<le> x \<and>
    jfind payload ''role'' = Some (JStr (au_role (validateJWT e token))) \<and>
    jfind payload ''sub'' = Some (JStr (au_owner (validateJWT e token)))"
proof -
  have none: "\<not> au_valid no_auth" by (simp add: no_auth_def)
  with assms obtain h rest where 1: "cut_dot token = Some (h, rest)"
    by (auto simp: validateJWT_def split: option.splits)
  with assms none obtain p sig where 2: "cut_dot rest = Some (p, sig)"
    by (auto simp: validateJWT_def split: option.splits)
  with assms none 1 have sig: "sig = sign e (h @ ''.'' @ p)"
    by (auto simp: validateJWT_def split: if_splits)
  with assms none 1 2 obtain payload where 3: "parse_json e (base64urlDecode e p) = Some payload"
    by (auto simp: validateJWT_def split: option.splits)
  with 1 2 sig have v: "validateJWT e token = read_payload e payload" by (simp add: validateJWT_def)
  with assms have valid: "au_valid (read_payload e payload)" by simp
  have str: "jfind payload k = Some (JStr s)" if "get_str (member payload k) = Val s" for k s
    using that by (cases "jfind payload k"; cases "the (jfind payload k)") (auto simp: member_def)
  from valid none obtain x role sub where r: "get_int64 (member payload ''exp'') = Val x"
      "get_str (member payload ''role'') = Val role" "get_str (member payload ''sub'') = Val sub"
    by (auto simp: read_payload_def split: outcome.splits)
  with valid none have "int (now e) \<le> x" and "read_payload e payload = \<lparr>au_role = role, au_owner = sub, au_valid = True\<rparr>"
    by (auto simp: read_payload_def split: if_splits)
  moreover from cut_dot_Some [OF 1] cut_dot_Some [OF 2] sig
  have "token = h @ CHR ''.'' # p @ CHR ''.'' # sign e (h @ CHR ''.'' # p)" "CHR ''.'' \<notin> set h \<union> set p" by simp_all
  moreover have "jfind payload ''role'' = Some (JStr role)" "jfind payload ''sub'' = Some (JStr sub)"
    using r str by blast+
  ultimately show ?thesis using r(1) 3 v by (intro exI [of _ h] exI [of _ p] exI [of _ payload] exI [of _ x]) simp
qed

lemma jwt_authentic_witness:
  "\<exists>p payload. generateJWT jwt_env demo_ctx = ''abcd'' @ CHR ''.'' # p @ CHR ''.'' # sign jwt_env (''abcd'' @ CHR ''.'' # p) \<and>
     jfind payload ''role'' = Some (JStr ''TERMINAL'')"
proof -
  have enc: "base64urlEncode jwt_env ''abcd'' = ''abcd''"
  proof -
    have "strip_pad (map to_url ''abcd'') = ''abcd''" by code_simp
    then show ?thesis by (simp add: base64urlEncode_def)
  qed
  have gen: "validateJWT jwt_env (generateJWT jwt_env demo_ctx) = demo_ctx"
  proof -
    have "validateJWT jwt_env (generateJWT jwt_env demo_ctx) = read_payload jwt_env (jwt_payload demo_env demo_ctx)"
      using cut_dot_append [of "''abcd''"] by (simp add: validateJWT_def generateJWT_def enc Let_def)
    then show ?thesis
      using get_int64_small [of 8643600] by (simp add: read_payload_def payload_members JWT_TTL_def demo_ctx_def)
  qed
  then have "au_valid (validateJWT jwt_env (generateJWT jwt_env demo_ctx))" by (simp add: demo_ctx_def)
  from jwt_authentic [OF this] gen obtain payload where "jfind payload ''role'' = Some (JStr ''TERMINAL'')"
    by (auto simp: demo_ctx_def)
  moreover have "generateJWT jwt_env demo_ctx = ''abcd'' @ CHR ''.'' # ''abcd'' @ CHR ''.'' # sign jwt_env (''abcd'' @ CHR ''.'' # ''abcd'')"
    by (simp add: generateJWT_def enc Let_def)
  ultimately show ?thesis by blast
qed

end
