(* ===== verification/Router.thy ===== *)
theory Router
  imports Dispatch Idempotency Auth
begin

text \<open>
  \<^verbatim>\<open>parser&router.cpp\<close>: from an HTTP request to a handler and back. Authentication, the
  limit of requests per address, the idempotency key, the roles of the channels, the dispatch,
  and the status of the answer, for \<^verbatim>\<open>POST /transaction/initiate\<close>, the routes of
  \<^verbatim>\<open>registerJsonPost\<close> and \<^verbatim>\<open>POST /auth/token\<close>. An exception that leaves a route is
  the HTTP library's affair. The log lines of a request are in \<open>RequestLog\<close>; the sanitiser
  that bodies pass through before they are logged is here.
\<close>

section \<open>Rate limit\<close>

definition RATE_LIMIT_MAX :: nat where "RATE_LIMIT_MAX = 200"
definition RATE_LIMIT_WINDOW :: int where "RATE_LIMIT_WINDOW = 60"
definition STALE_BUCKET_TTL :: int where "STALE_BUCKET_TTL = RATE_LIMIT_WINDOW * 2"
definition EVICTION_INTERVAL_REQUESTS :: nat where "EVICTION_INTERVAL_REQUESTS = 10000"

definition evictStaleBuckets :: "nat \<Rightarrow> (string \<Rightarrow> rate_bucket option) \<Rightarrow> (string \<Rightarrow> rate_bucket option)" where
  "evictStaleBuckets t bs = (\<lambda>ip. case bs ip of None \<Rightarrow> None
     | Some b \<Rightarrow> if int t - int (rb_start b) > STALE_BUCKET_TTL then None else Some b)"

definition rate_step :: "nat \<Rightarrow> string \<Rightarrow> gate_state \<Rightarrow> bool \<times> gate_state" where
  "rate_step t ip g =
     (let n = eviction_counter g + 1;
          (n', bs) = (if n \<ge> EVICTION_INTERVAL_REQUESTS then (0, evictStaleBuckets t (rate_buckets g)) else (n, rate_buckets g));
          b0 = (case bs ip of None \<Rightarrow> \<lparr>rb_count = 0, rb_start = 0\<rparr> | Some b \<Rightarrow> b);
          b = (if int t - int (rb_start b0) \<ge> RATE_LIMIT_WINDOW then \<lparr>rb_count = 0, rb_start = t\<rparr> else b0)
      in if rb_count b \<ge> RATE_LIMIT_MAX
         then (False, g\<lparr>rate_buckets := bs(ip \<mapsto> b), eviction_counter := n'\<rparr>)
         else (True, g\<lparr>rate_buckets := bs(ip \<mapsto> b\<lparr>rb_count := rb_count b + 1\<rparr>), eviction_counter := n'\<rparr>))"

definition rateLimitOK :: "string \<Rightarrow> bool M" where
  "rateLimitOK ip = with_gate (\<lambda>e. rate_step (now e) ip)"

section \<open>Requests and answers\<close>

record http_request =
  hr_addr :: string
  hr_body :: string
  hr_header :: "string \<Rightarrow> string"

record http_response =
  rs_status :: int
  rs_body :: json
  rs_role :: string

text \<open>\<^verbatim>\<open>body[key] = value\<close>\<close>

fun jassign :: "json \<Rightarrow> string \<Rightarrow> json \<Rightarrow> json outcome" where
  "jassign (JObj kvs) k v = Val (JObj (ins_key k v kvs))"
| "jassign JNull k v = Val (JObj [(k, v)])"
| "jassign j k v = Exn (JsonErr (''[json.exception.type_error.305] cannot use operator[] with a string argument with '' @ type_name j))"

definition attachCorrelation :: "json \<Rightarrow> string \<Rightarrow> json outcome" where
  "attachCorrelation body reqId = obind (jassign body ''requestId'' (JStr reqId))
     (\<lambda>b. jassign b ''transactionUuid'' (JStr reqId))"

definition truncateForLog :: "string \<Rightarrow> nat \<Rightarrow> string" where
  "truncateForLog value limit = (if length value \<le> limit then value else take limit value @ ''...'')"

definition security_headers :: "(string \<times> string \<times> nat) list" where
  "security_headers = [(''User-Agent'', ''userAgent'', 220), (''X-Forwarded-For'', ''forwardedFor'', 160),
     (''X-Real-IP'', ''realIp'', 80), (''X-Device-Integrity'', ''deviceIntegrity'', 40),
     (''X-App-Signature-Valid'', ''appSignatureValid'', 12), (''X-Device-Binding-Valid'', ''deviceBindingValid'', 12),
     (''X-Device-Trust-Score'', ''deviceTrustScore'', 12), (''X-Malware-Detected'', ''malwareDetected'', 12),
     (''X-Rooted-Device'', ''rooted'', 12), (''X-Debugger-Detected'', ''debuggerDetected'', 12),
     (''X-Proxy-Detected'', ''proxyDetected'', 12), (''X-VPN-Detected'', ''vpnDetected'', 12),
     (''X-Falcon-Risk-Score'', ''riskScore'', 12)]"

definition securityContext :: "http_request \<Rightarrow> json" where
  "securityContext req = fold (\<lambda>(header, field, limit) s. let value = hr_header req header in
       if value = [] then s else jset s field (JStr (truncateForLog value limit)))
     security_headers (jobj [(''remoteAddr'', JStr (hr_addr req))])"

definition attachRequestContext :: "json \<Rightarrow> string \<Rightarrow> string \<Rightarrow> http_request \<Rightarrow> json" where
  "attachRequestContext body reqId channel req =
     (if \<not> is_object body then body
      else jset (jset (jset body ''_correlationUuid'' (JStr reqId)) ''_channelId'' (JStr channel))
             ''_securityContext'' (securityContext req))"

definition httpStatusFor :: "json \<Rightarrow> int" where
  "httpStatusFor response = (case jfind response ''errorCode'' of
      Some (JStr code) \<Rightarrow>
        if contains_str ''NOT_FOUND'' code then 404
        else if contains_str ''EXISTS'' code \<or> contains_str ''FROZEN'' code then 409
        else if code = ''ERR_DB'' \<or> code = ''ERR_EXCEPTION'' \<or> code = ''ERR_SERVER'' then 500
        else 400
    | _ \<Rightarrow> 200)"

section \<open>The sanitiser of logged bodies\<close>

definition kSensitiveKeys :: "string list" where
  "kSensitiveKeys = [''pan'', ''pin'', ''cvv'', ''password'', ''token'', ''secret'', ''encryptedPan'', ''encPan'']"

fun sanitizeForLog :: "json \<Rightarrow> json" where
  "sanitizeForLog (JObj kvs) = JObj (map (\<lambda>(k, v). (k, if k \<in> set kSensitiveKeys then JStr ''****'' else sanitizeForLog v)) kvs)"
| "sanitizeForLog (JArr xs) = JArr (map sanitizeForLog xs)"
| "sanitizeForLog j = j"

section \<open>Authentication of a request\<close>

definition resolveAuth :: "http_request \<Rightarrow> auth_context M" where
  "resolveAuth req = (let apiKey = hr_header req ''X-API-Key''; authHeader = hr_header req ''Authorization'' in
     if apiKey \<noteq> [] then validateApiKey apiKey
     else if length authHeader \<ge> 7 \<and> take 7 authHeader = ''Bearer '' then asks (\<lambda>e. validateJWT e (drop 7 authHeader))
     else mret no_auth)"

text \<open>The response keeps a header value only when it is a field value of HTTP
  (\<^verbatim>\<open>fields::is_field_value\<close> of the HTTP library): visible or non-ASCII characters, with blanks
  only inside values of at least three characters. A value that is not is dropped silently.\<close>

definition is_field_vchar :: "char \<Rightarrow> bool" where
  "is_field_vchar c = (let n = of_char c :: nat in (33 \<le> n \<and> n \<le> 126) \<or> 128 \<le> n)"

definition is_field_value :: "string \<Rightarrow> bool" where
  "is_field_value s = (if s = [] then True
     else if length s \<le> 2 then list_all is_field_vchar s
     else is_field_vchar (hd s) \<and> is_field_vchar (last s) \<and>
       list_all (\<lambda>c. c = CHR '' '' \<or> c = char_of (9::nat) \<or> is_field_vchar c) (butlast (tl s)))"

section \<open>Counters\<close>

definition bump :: "(gate_state \<Rightarrow> gate_state) \<Rightarrow> unit M" where
  "bump f = with_gate (\<lambda>e g. ((), f g))"

definition fail_count :: "unit M" where
  "fail_count = bump (\<lambda>g. g\<lparr>fail_responses := fail_responses g + 1\<rparr>)"

definition ok_count :: "unit M" where
  "ok_count = bump (\<lambda>g. g\<lparr>ok_responses := ok_responses g + 1\<rparr>)"

text \<open>The counters on entry, and the guard that gives the active count back on every way out.\<close>

definition guarded :: "'a M \<Rightarrow> 'a M" where
  "guarded m = (\<lambda>e w. case m e (w\<lparr>gate := (gate w)\<lparr>active_requests := active_requests (gate w) + 1,
        total_requests := total_requests (gate w) + 1\<rparr>\<rparr>) of
     (r, w') \<Rightarrow> (r, w'\<lparr>gate := (gate w')\<lparr>active_requests := active_requests (gate w') - 1\<rparr>\<rparr>))"

section \<open>The idempotency key of a request\<close>

datatype key_state = Fresh | Replay idem_record | Conflict

text \<open>Every \<^verbatim>\<open>runtime_error\<close> of the lookup but the one for a key in progress is swallowed,
  and the request goes on.\<close>

definition check_key :: "string \<Rightarrow> string \<Rightarrow> key_state M" where
  "check_key key path = (if key = [] then mret Fresh
     else mcatch (mbind (checkOrRegister key path) (\<lambda>r. mret (case r of None \<Rightarrow> Fresh | Some rec \<Rightarrow> Replay rec)))
       (\<lambda>x. if \<not> is_runtime_error x then mthrow x
            else if what x = IN_PROGRESS_ERROR then mret Conflict else mret Fresh))"

text \<open>An answer that is sent but not recorded under the key.\<close>

definition send :: "string \<Rightarrow> json \<Rightarrow> int \<Rightarrow> http_response M" where
  "send role body status = mbind (asks cur_uuid) (\<lambda>reqId.
     mbind (mlift (attachCorrelation body reqId)) (\<lambda>body.
     mret \<lparr>rs_status = status, rs_body = body, rs_role = role\<rparr>))"

definition send_failure :: "string \<Rightarrow> json \<Rightarrow> int \<Rightarrow> http_response M" where
  "send_failure role body status = mbind (send role body status) (\<lambda>r. mthen fail_count (mret r))"

definition with_key :: "string \<Rightarrow> string \<Rightarrow> string \<Rightarrow> http_response M \<Rightarrow> http_response M" where
  "with_key key path role go = mbind (check_key key path) (\<lambda>s. case s of
      Fresh \<Rightarrow> go
    | Replay rec \<Rightarrow> send role (rec_body rec) (rec_code rec)
    | Conflict \<Rightarrow> send_failure role (err ''ERR_CONFLICT''
        ''A request with this Idempotency-Key is currently being processed'') 409)"

section \<open>POST /transaction/initiate\<close>

definition finish :: "string \<Rightarrow> string \<Rightarrow> json \<Rightarrow> int \<Rightarrow> http_response M" where
  "finish key role body status = mbind (asks cur_uuid) (\<lambda>reqId.
     mbind (mlift (attachCorrelation body reqId)) (\<lambda>body.
     mthen (if key \<noteq> [] then update_key key status body else mret ())
     (mret \<lparr>rs_status = status, rs_body = body, rs_role = role\<rparr>)))"

definition finish_failure :: "string \<Rightarrow> string \<Rightarrow> json \<Rightarrow> int \<Rightarrow> http_response M" where
  "finish_failure key role body status = mbind (finish key role body status) (\<lambda>r. mthen fail_count (mret r))"

definition bad_request :: "string \<Rightarrow> json" where
  "bad_request msg = jobj [(''error'', JStr msg)]"

definition initiate_run :: "string \<Rightarrow> string \<Rightarrow> http_request \<Rightarrow> string \<Rightarrow> (json \<Rightarrow> json M) \<Rightarrow> json \<Rightarrow> http_response M" where
  "initiate_run key role req channelId handler data = mbind (asks cur_uuid) (\<lambda>reqId.
     mbind (handler (attachRequestContext data reqId channelId req)) (\<lambda>response.
     mbind (finish key role response (httpStatusFor response)) (\<lambda>r.
     mthen ok_count (mret r))))"

definition initiate_dispatch :: "string \<Rightarrow> string \<Rightarrow> http_request \<Rightarrow> json \<Rightarrow> http_response M" where
  "initiate_dispatch key role req request =
     mbind (mlift (get_str (member request ''channelId''))) (\<lambda>channelId.
     if role \<noteq> [] \<and> \<not> checkPermission role channelId then
       finish_failure key role (err ''ERR_FORBIDDEN'' (''Role '' @ [CHR 0x27] @ role @ [CHR 0x27] @ '' cannot access channel ''
         @ [CHR 0x27] @ channelId @ [CHR 0x27])) 403
     else (case CHANNEL_DISPATCH (stringToChannelType channelId) of
         None \<Rightarrow> finish_failure key role (err ''ERR_UNKNOWN_CHANNEL'' (''Unsupported channelId: '' @ channelId)) 400
       | Some handler \<Rightarrow> initiate_run key role req channelId handler (member request ''data'')))"

definition initiate_body :: "string \<Rightarrow> string \<Rightarrow> http_request \<Rightarrow> http_response M" where
  "initiate_body key role req =
     (if hr_body req = [] then finish_failure key role (bad_request ''Empty request body'') 400
      else mbind (asks (\<lambda>e. parse_json e (hr_body req))) (\<lambda>p. case p of
        None \<Rightarrow> finish_failure key role (bad_request ''Invalid JSON'') 400
      | Some request \<Rightarrow>
          if \<not> jcontains request ''channelId'' \<or> \<not> jcontains request ''data'' then
            finish_failure key role (bad_request ''Missing channelId or data'') 400
          else with_key key ''/transaction/initiate'' role (initiate_dispatch key role req request)))"

definition rate_limited :: json where
  "rate_limited = err ''ERR_RATE_LIMIT'' (''Too many requests'' @ em_dash @ ''limit: '' @ nat_str RATE_LIMIT_MAX @ '' req/min'')"

definition unauthorized :: json where
  "unauthorized = err ''ERR_UNAUTHORIZED'' ''Missing or invalid X-API-Key / Bearer token''"

definition initiate_allowed :: "string \<Rightarrow> string \<Rightarrow> http_request \<Rightarrow> http_response M" where
  "initiate_allowed key role req = mbind (rateLimitOK (hr_addr req)) (\<lambda>ok.
     if \<not> ok then finish_failure key role rate_limited 429
     else mcatch (initiate_body key role req)
       (\<lambda>x. finish_failure key role (err ''ERR_SERVER'' (what x)) 500))"

definition initiate :: "http_request \<Rightarrow> http_response M" where
  "initiate req = guarded (mthen scopedConnection (mbind (resolveAuth req) (\<lambda>auth.
     if \<not> au_valid auth then mthen fail_count (mret \<lparr>rs_status = 401, rs_body = unauthorized, rs_role = []\<rparr>)
     else initiate_allowed (hr_header req ''Idempotency-Key'')
       (if is_field_value (au_role auth) then au_role auth else []) req)))"

section \<open>The routes of registerJsonPost\<close>

definition post_run :: "string \<Rightarrow> string \<Rightarrow> (json \<Rightarrow> json M) \<Rightarrow> http_request \<Rightarrow> json \<Rightarrow> http_response M" where
  "post_run key channel handler req request = mbind (asks cur_uuid) (\<lambda>reqId.
     mbind (handler (attachRequestContext request reqId channel req)) (\<lambda>response.
     mbind (mlift (attachCorrelation response reqId)) (\<lambda>response.
     (let status = httpStatusFor response in
      mthen (if key \<noteq> [] then update_key key status response else mret ())
      (mthen (if status \<ge> 200 \<and> status < 300 then ok_count else fail_count)
      (mret \<lparr>rs_status = status, rs_body = response, rs_role = []\<rparr>))))))"

definition post_body :: "string \<Rightarrow> string \<Rightarrow> string \<Rightarrow> (json \<Rightarrow> json M) \<Rightarrow> http_request \<Rightarrow> http_response M" where
  "post_body key path channel handler req =
     (if hr_body req = [] then send_failure [] (bad_request ''Empty request body'') 400
      else mbind (asks (\<lambda>e. parse_json e (hr_body req))) (\<lambda>p. case p of
        None \<Rightarrow> send_failure [] (bad_request ''Invalid JSON'') 400
      | Some request \<Rightarrow> with_key key path [] (post_run key channel handler req request)))"

definition forbidden :: "string \<Rightarrow> string \<Rightarrow> json" where
  "forbidden role channel = err ''ERR_FORBIDDEN'' (''Role '' @ [CHR 0x27] @ role @ [CHR 0x27] @
     '' is not permitted to access '' @ [CHR 0x27] @ channel @ [CHR 0x27])"

definition registerJsonPost :: "string \<Rightarrow> string \<Rightarrow> (json \<Rightarrow> json M) \<Rightarrow> http_request \<Rightarrow> http_response M" where
  "registerJsonPost path channel handler req = guarded (mthen scopedConnection (mbind (resolveAuth req) (\<lambda>auth.
     if \<not> au_valid auth then mthen fail_count (mret \<lparr>rs_status = 401, rs_body = unauthorized, rs_role = []\<rparr>)
     else if \<not> checkPermission (au_role auth) channel then
       mthen fail_count (mret \<lparr>rs_status = 403, rs_body = forbidden (au_role auth) channel, rs_role = []\<rparr>)
     else mbind (rateLimitOK (hr_addr req)) (\<lambda>ok.
       if \<not> ok then send_failure [] rate_limited 429
       else mcatch (post_body (hr_header req ''Idempotency-Key'') path channel handler req)
         (\<lambda>x. send_failure [] (err ''ERR_SERVER'' (what x)) 500)))))"

text \<open>The routes by path, with the channel whose permission they need.\<close>

definition json_routes :: "(string \<times> string \<times> (json \<Rightarrow> json M)) list" where
  "json_routes = [(''/account/add'', ''ADD_ACCOUNT'', processAddAccount),
     (''/account/details'', ''ACCOUNT_DETAILS'', processGetAccount),
     (''/account/freeze'', ''FREEZE_ACCOUNT'', processFreezeAccount),
     (''/account/unfreeze'', ''UNFREEZE_ACCOUNT'', processUnfreezeAccount),
     (''/account/list'', ''LIST_ACCOUNTS'', processListAccounts),
     (''/card/activate'', ''CARD_ACTIVATE'', processActivateCard),
     (''/card/block'', ''CARD_BLOCK'', processBlockCard),
     (''/card/set_limit'', ''CARD_SET_LIMIT'', processSetCardLimit),
     (''/card/reset_pin'', ''CARD_RESET_PIN'', processResetCardPIN),
     (''/3ds/verify'', ''3DS_VERIFY'', process3DSVerify),
     (''/reversal/initiate'', ''REVERSAL'', processReversal)]"

definition auth_token :: "http_request \<Rightarrow> http_response M" where
  "auth_token req = (let apiKey = hr_header req ''X-API-Key'' in
     if apiKey = [] then mret \<lparr>rs_status = 401, rs_body = err ''ERR_UNAUTHORIZED'' ''X-API-Key header required'', rs_role = []\<rparr>
     else mthen scopedConnection (mbind (validateApiKey apiKey) (\<lambda>ctx.
       if \<not> au_valid ctx then
         mret \<lparr>rs_status = 401, rs_body = err ''ERR_UNAUTHORIZED'' ''Invalid or inactive API key'', rs_role = []\<rparr>
       else mbind (asks (\<lambda>e. generateJWT e ctx)) (\<lambda>token.
         mret \<lparr>rs_status = 200, rs_body = jobj [(''token'', JStr token), (''role'', JStr (au_role ctx)),
           (''owner'', JStr (au_owner ctx)), (''expiresIn'', JInt 3600), (''tokenType'', JStr ''Bearer'')], rs_role = []\<rparr>))))"

text \<open>The POST routes of the server.\<close>

definition post_route :: "string \<Rightarrow> (http_request \<Rightarrow> http_response M) option" where
  "post_route path = (if path = ''/transaction/initiate'' then Some initiate
     else if path = ''/auth/token'' then Some auth_token
     else map_option (\<lambda>(channel, handler). registerJsonPost path channel handler) (map_of json_routes path))"

end
