(* ===== verification/Gate.thy ===== *)
theory Gate
  imports Router Machines
begin

text \<open>
  The statements of the router itself, the interface \<open>switch_tables\<close> under which every route keeps a
  property of the tables, its instance for well-formed tables, and the credentials of a request.
\<close>

section \<open>The statements of the router\<close>

locale key_tables =
  fixes P :: "db \<Rightarrow> bool"
  assumes key_added: "P d \<Longrightarrow> find_idem (ik_key r) d = None \<Longrightarrow> P (d\<lparr>idem := idem d @ [r]\<rparr>)"
    and key_changed: "P d \<Longrightarrow> (\<And>r. ik_key (f r) = ik_key r) \<Longrightarrow> P (d\<lparr>idem := upd_rows Q f (idem d)\<rparr>)"
begin

lemma key_writes: "keeps e (holds P) (insertIdempotencyRecord key path)"
  "keeps e (holds P) (updateIdempotencyRecord key status code body)"
  unfolding insertIdempotencyRecord_def updateIdempotencyRecord_def
  by (rule keeps_sql_holds; auto split: if_splits intro!: key_added key_changed)+

lemma check_key: "keeps e (holds P) (check_key key path)"
  unfolding check_key_def checkOrRegister_def claim_key_def recorded_def getIdempotencyRecord_def
  by (intro keeps_intros frame_intros key_writes)

lemma update_key: "keeps e (holds P) (update_key key code body)"
  unfolding update_key_def by (intro keeps_intros frame_intros key_writes)

lemma counters: "keeps e (holds P) fail_count" "keeps e (holds P) ok_count" "keeps e (holds P) (rateLimitOK ip)"
  unfolding fail_count_def ok_count_def bump_def rateLimitOK_def by (intro frame_intros)+

lemma answers: "keeps e (holds P) (send role body st)" "keeps e (holds P) (send_failure role body st)"
  "keeps e (holds P) (finish key role body st)" "keeps e (holds P) (finish_failure key role body st)"
  unfolding send_failure_def send_def finish_failure_def finish_def
  by (intro keeps_intros frame_intros counters update_key)+

lemma guarded: assumes "keeps e (holds P) m" shows "keeps e (holds P) (guarded m)"
proof (rule keepsI, rule wpI)
  fix w r w'
  assume h: "holds P w" and run: "guarded m e w = (r, w')"
  let ?v = "w\<lparr>gate := (gate w)\<lparr>active_requests := active_requests (gate w) + 1, total_requests := total_requests (gate w) + 1\<rparr>\<rparr>"
  obtain r1 w1 where m: "m e ?v = (r1, w1)" by (cases "m e ?v")
  with keepsD [OF assms _ m] h run show "holds P w'" by (auto simp: guarded_def)
qed

lemma with_key:
  assumes "keeps e (holds P) go" shows "keeps e (holds P) (with_key key path role go)"
proof -
  have "keeps e (holds P) (case s of Fresh \<Rightarrow> go | Replay rec \<Rightarrow> send role (rec_body rec) (rec_code rec)
      | Conflict \<Rightarrow> send_failure role j 409)" for s j
    using assms answers by (cases s) auto
  then show ?thesis unfolding with_key_def by (intro keeps_intros check_key)
qed

end

lemma reader_resolveAuth: "reader (resolveAuth req)"
  unfolding resolveAuth_def Let_def validateApiKey_def getApiKeyDetails_def by (intro reader_intros)

text \<open>The interface of the whole server: the statements of the payment channels, of the
  administration and of the router.\<close>

locale switch_tables = admin_tables + key_tables
begin

lemma initiate_body: "keeps e (holds P) (initiate_body key role req)"
  unfolding initiate_body_def initiate_dispatch_def initiate_run_def
  by (intro keeps_intros keeps_option_eq with_key answers counters handlers; assumption)

lemma initiate: "keeps e (holds P) (initiate req)"
  unfolding initiate_def initiate_allowed_def
  by (intro guarded keeps_intros frame_intros answers counters initiate_body reader_holds [OF reader_resolveAuth])

lemma post:
  assumes "\<And>data. keeps e (holds P) (h data)"
  shows "keeps e (holds P) (registerJsonPost path channel h req)"
  unfolding registerJsonPost_def post_body_def post_run_def Let_def
  by (intro guarded keeps_intros frame_intros answers counters with_key update_key assms
      reader_holds [OF reader_resolveAuth])

lemma json_handlers: "(path, channel, h) \<in> set json_routes \<Longrightarrow> keeps e (holds P) (h data)"
  unfolding json_routes_def
  by (auto simp: processFreezeAccount_def processUnfreezeAccount_def
      intro: frame_intros reader_holds [OF reader_getAccount] reader_holds [OF reader_listAccounts])

lemma routes:
  assumes "post_route path = Some f" shows "keeps e (holds P) (f req)"
proof (cases "map_of json_routes path")
  case None
  have "keeps e (holds P) (auth_token req)"
    unfolding auth_token_def Let_def validateApiKey_def getApiKeyDetails_def by (intro keeps_intros frame_intros)
  with assms None initiate show ?thesis by (auto simp: post_route_def split: if_splits)
next
  case (Some ch)
  have "keeps e (holds P) (auth_token req)"
    unfolding auth_token_def Let_def validateApiKey_def getApiKeyDetails_def by (intro keeps_intros frame_intros)
  moreover have "keeps e (holds P) (registerJsonPost path (fst ch) (snd ch) req)"
    using map_of_SomeD [OF Some] json_handlers [of path "fst ch" "snd ch"] by (intro post) simp
  ultimately show ?thesis
    using assms Some initiate by (auto simp: post_route_def split: if_splits prod.splits)
qed

end

section \<open>Well-formed tables\<close>

text \<open>What the tables always satisfy: account numbers, account identifiers, card numbers,
  idempotency keys and the row identifiers of every channel table are unique, no account has more
  than three cards, and every balance is a whole number of cents.\<close>

definition db_ok :: "db \<Rightarrow> bool" where
  "db_ok d \<longleftrightarrow> distinct (map acc_no (accounts d)) \<and> distinct (map acc_id (accounts d)) \<and>
     (\<forall>a\<in>set (accounts d). is_cents (acc_balance a)) \<and> distinct (map card_pan (cards d)) \<and>
     (\<forall>acc. card_count acc d \<le> MAX_CARDS_PER_ACCOUNT) \<and> distinct (map ik_key (idem d)) \<and>
     (\<forall>tbl. distinct (map t_id (txns d tbl)))"

lemma map_upd_rows: "(\<And>r. k (f r) = k r) \<Longrightarrow> map k (upd_rows Q f xs) = map k xs"
  by (simp add: upd_rows_def)

lemma card_count_upd: "(\<And>c. card_acc (f c) = card_acc c) \<Longrightarrow>
    length (filter (\<lambda>c. card_acc c = acc) (upd_rows Q f cs)) = length (filter (\<lambda>c. card_acc c = acc) cs)"
  by (induction cs) (auto simp: upd_rows_def)

lemma fresh_key: "List.find (\<lambda>r. k r = x) xs = None \<Longrightarrow> x \<notin> k ` set xs"
  by (auto simp: find_None_iff)

lemma cents_upd: "\<forall>a\<in>set xs. is_cents (acc_balance a) \<Longrightarrow> (\<And>a. is_cents (acc_balance a) \<Longrightarrow> is_cents (acc_balance (f a))) \<Longrightarrow>
    \<forall>a\<in>set (upd_rows Q f xs). is_cents (acc_balance a)"
  by (auto simp: upd_rows_def)

lemma next_id_new: "next_id k xs \<notin> k ` set xs"
  using next_id_fresh [of _ xs k] by force

interpretation tables: switch_tables db_ok
proof (unfold_locales, goal_cases)
  case (1 d acc x)
  then show ?case
    by (auto simp: db_ok_def set_balance_def map_upd_rows card_count_def set_upd_rows is_cents_dec2)
next
  case (2 d tbl t row)
  then show ?case
    using next_id_new [of t_id "txns d tbl"] by (auto simp: db_ok_def add_txn_def stored_txn_def card_count_def)
next
  case (3 d f tbl Q)
  then show ?case by (auto simp: db_ok_def map_upd_rows card_count_def)
next
  case (4 d R t)
  then show ?case by (auto simp: db_ok_def map_upd_rows card_count_def card_count_upd)
next
  case (12 d acc b cc fz cid)
  then show ?case
    using next_id_new [of acc_id "accounts d"]
    by (auto simp: db_ok_def new_account_def find_account_def find_None_iff card_count_def)
next
  case (13 d acc fz)
  then show ?case by (auto simp: db_ok_def map_upd_rows card_count_def set_upd_rows)
next
  case (14 d f Q)
  then show ?case by (auto simp: db_ok_def map_upd_rows card_count_def card_count_upd)
next
  case (15 c d)
  then show ?case by (auto simp: db_ok_def find_card_def card_count_def dest: fresh_key)
next
  case (18 d r)
  then show ?case by (auto simp: db_ok_def find_idem_def card_count_def dest: fresh_key)
next
  case (19 d f Q)
  then show ?case by (auto simp: db_ok_def map_upd_rows card_count_def)
qed (auto simp: db_ok_def card_count_def)

text \<open>One session after the other: a request on one of the POST routes, in any environment, or the
  end of the session, which rolls an open transaction back.\<close>

inductive serve :: "world \<Rightarrow> world \<Rightarrow> bool" where
  request: "post_route path = Some f \<Longrightarrow> f req e w = (r, w') \<Longrightarrow> serve w w'"
| disconnect: "serve w (w\<lparr>working := None\<rparr>)"

interpretation server: machine "\<lambda>w. working w = None \<and> db_ok (committed w)" serve "holds db_ok"
proof
  fix s t
  assume "holds db_ok s" and "serve s t"
  from this(2,1) show "holds db_ok t"
  proof cases
    case (request path f req e r)
    with keepsD [OF tables.routes \<open>holds db_ok s\<close>] show ?thesis by blast
  next
    case disconnect
    with \<open>holds db_ok s\<close> show ?thesis by (simp add: holds_def)
  qed
qed (simp add: holds_idle)


section \<open>Who a request comes from\<close>

text \<open>What the tables say about the sender of a request, without the failures of statements.\<close>

definition credentials :: "env \<Rightarrow> db \<Rightarrow> http_request \<Rightarrow> auth_context" where
  "credentials e d req = (if hr_header req ''X-API-Key'' \<noteq> [] then
       (case List.find (\<lambda>r. ak_key r = hr_header req ''X-API-Key'') (api_keys d) of
          Some r \<Rightarrow> if ak_active r \<notin> {None, Some 0} then \<lparr>au_role = ak_role r, au_owner = ak_owner r, au_valid = True\<rparr>
                    else no_auth
        | None \<Rightarrow> no_auth)
     else if take 7 (hr_header req ''Authorization'') = ''Bearer '' then validateJWT e (drop 7 (hr_header req ''Authorization''))
     else no_auth)"

lemma bearer_length: "take 7 s = ''Bearer '' \<Longrightarrow> 7 \<le> length s"
  using length_take [of 7 s] by simp

lemma gate_steps [simp]: "gate (step_tick w) = gate w" "gate (log_lock ev w) = gate w" "gate (put d w) = gate w"
  by (simp_all add: step_tick_def log_lock_def put_def split: option.split)

lemma wp_resolveAuth:
  "wp e (resolveAuth req) (\<lambda>r w1. same_db w w1 \<and> gate w1 = gate w \<and> (\<exists>auth. r = Val auth \<and>
     (auth = credentials e (cur w) req \<or> auth = no_auth \<and> fault e \<noteq> (\<lambda>_. None)))) w"
  using bearer_length [of "hr_header req ''Authorization''"]
  by (auto simp: resolveAuth_def validateApiKey_def getApiKeyDetails_def query_def wp_simps credentials_def Let_def
      split: option.split)

lemma resolveAuth_valid:
  "resolveAuth req e w = (Val auth, w1) \<Longrightarrow> au_valid auth \<Longrightarrow> auth = credentials e (cur w) req"
  by (drule wpD [OF wp_resolveAuth]) (auto simp: no_auth_def)

lemma resolveAuth_ok:
  assumes "fault e = (\<lambda>_. None)"
  obtains w1 where "resolveAuth req e w = (Val (credentials e (cur w) req), w1)" "same_db w w1" "gate w1 = gate w"
proof -
  obtain r w1 where run: "resolveAuth req e w = (r, w1)" by (cases "resolveAuth req e w")
  from wpD [OF wp_resolveAuth this] assms run that show ?thesis by auto
qed

abbreviation enter :: "world \<Rightarrow> world" where
  "enter w \<equiv> w\<lparr>gate := (gate w)\<lparr>active_requests := active_requests (gate w) + 1,
     total_requests := total_requests (gate w) + 1\<rparr>\<rparr>"

abbreviation leave :: "world \<Rightarrow> world" where
  "leave w \<equiv> w\<lparr>gate := (gate w)\<lparr>active_requests := active_requests (gate w) - 1\<rparr>\<rparr>"

definition header_role :: "env \<Rightarrow> db \<Rightarrow> http_request \<Rightarrow> string" where
  "header_role e d req = (let role = au_role (credentials e d req) in if is_field_value role then role else [])"

text \<open>A request with valid credentials reaches the rate limit.\<close>

lemma initiate_admitted:
  assumes "fault e = (\<lambda>_. None)" and "au_valid (credentials e (cur w) req)"
  obtains v where "same_db w v" "gate v = gate (enter w)"
    "initiate req e w = map_prod id leave (initiate_allowed (hr_header req ''Idempotency-Key'')
       (header_role e (cur w) req) req e v)"
proof -
  obtain v where run: "resolveAuth req e (step_tick (enter w)) = (Val (credentials e (cur (step_tick (enter w))) req), v)"
    and same: "same_db (step_tick (enter w)) v" "gate v = gate (step_tick (enter w))"
    by (rule resolveAuth_ok [OF assms(1)])
  from run have v: "resolveAuth req e (step_tick (enter w)) = (Val (credentials e (cur w) req), v)" by simp
  from same have s: "same_db w v" "gate v = gate (enter w)" by (simp_all add: same_db_def)
  show ?thesis
    by (rule that [OF s]) (simp add: initiate_def guarded_def mthen_def [of scopedConnection] mbind_def [of scopedConnection]
        mbind_def [of "resolveAuth req"] ok_runs(5) [OF assms(1)] v assms(2) header_role_def Let_def map_prod_def id_def)
qed

lemma find_idem_upd: "find_idem key (d\<lparr>idem := upd_rows (\<lambda>r. ik_key r = key)
    (\<lambda>r. r\<lparr>ik_status := s, ik_code := c, ik_body := b\<rparr>) (idem d)\<rparr>) =
  map_option (\<lambda>r. r\<lparr>ik_status := s, ik_code := c, ik_body := b\<rparr>) (find_idem key d)"
proof -
  have "List.find (\<lambda>r. ik_key r = key) (upd_rows (\<lambda>r. ik_key r = key) (\<lambda>r. r\<lparr>ik_status := s, ik_code := c, ik_body := b\<rparr>) xs) =
    map_option (\<lambda>r. r\<lparr>ik_status := s, ik_code := c, ik_body := b\<rparr>) (List.find (\<lambda>r. ik_key r = key) xs)" for xs
    by (induction xs) (auto simp: upd_rows_def)
  then show ?thesis by (simp add: find_idem_def)
qed

lemma attach_is_object: "attachCorrelation b u = Val j \<Longrightarrow> is_object j"
  by (cases b) (auto simp: attachCorrelation_def)

lemma attach_object: "is_object j \<Longrightarrow> attachCorrelation j u = Val (jset (jset j ''requestId'' (JStr u)) ''transactionUuid'' (JStr u))"
  by (cases j) (simp_all add: attachCorrelation_def)

section \<open>A request that freezes an account\<close>

definition freeze_request :: json where
  "freeze_request = jobj [(''channelId'', JStr ''FREEZE_ACCOUNT''), (''data'', jobj [(''accountNumber'', JStr ''A'')])]"

definition gate_env :: env where
  "gate_env = demo_env\<lparr>parse_json := (\<lambda>s. Some freeze_request)\<rparr>"

definition gate_world :: world where
  "gate_world = demo_world\<lparr>committed := demo_db\<lparr>api_keys :=
     [\<lparr>ak_key = ''k'', ak_role = ''ADMIN'', ak_owner = ''O'', ak_active = Some 1\<rparr>]\<rparr>\<rparr>"

definition gate_request :: http_request where
  "gate_request = \<lparr>hr_addr = ''10.0.0.1'', hr_body = ''x'',
     hr_header = (\<lambda>h. if h = ''X-API-Key'' then ''k'' else if h = ''Idempotency-Key'' then ''i'' else [])\<rparr>"

lemma gate_simps [simp]: "fault gate_env = (\<lambda>_. None)" "now gate_env = 8640000" "cur_uuid gate_env = ''u1''"
  "parse_json gate_env s = Some freeze_request" "working gate_world = None" "idem (committed gate_world) = []"
  "hr_body gate_request = ''x''" "hr_addr gate_request = ''10.0.0.1''" "tick gate_world = 0"
  by (simp_all add: gate_env_def gate_world_def gate_request_def)

lemma gate_context: "readAccountNumber (attachRequestContext (jobj [(''accountNumber'', JStr ''A'')]) u c gate_request) = Inr ''A''"
  by code_simp

lemma gate_members: "get_str (member freeze_request ''channelId'') = Val ''FREEZE_ACCOUNT''"
    "member freeze_request ''data'' = jobj [(''accountNumber'', JStr ''A'')]"
    "jcontains freeze_request ''channelId''" "jcontains freeze_request ''data''"
    "stringToChannelType ''FREEZE_ACCOUNT'' = CH_FREEZE_ACCOUNT" "is_field_value ''ADMIN''"
  by code_simp+

abbreviation gate_frozen :: "db \<Rightarrow> db" where
  "gate_frozen d \<equiv> d\<lparr>accounts := upd_rows (\<lambda>r. acc_no r = ''A'') (acc_frozen_update (\<lambda>_. True)) (accounts d)\<rparr>"

lemma is_object_jset [simp]: "is_object (jset (jobj kvs) k v)"
  by (simp add: jobj_def)

lemma freeze_run:
  assumes "cur w = (committed gate_world)\<lparr>idem := rows\<rparr>"
  shows "\<exists>res w'. setFreezeStatus (attachRequestContext (jobj [(''accountNumber'', JStr ''A'')]) u c gate_request) True gate_env w
      = (Val res, w') \<and> is_object res \<and> jfind res ''errorCode'' = None \<and> working w' = None \<and>
     committed w' = gate_frozen (cur w) \<and> gate w' = gate w \<and> lock_log w' = lock_log w @ [Acquire ''A'' CREDIT, Release ''A'' CREDIT]"
  using assms
  by (simp add: setFreezeStatus_def gate_context run_flow ok_runs freeze_txn_def checkAccountExistsForUpdate_def
      updateFreezeStatus_def sql_def fetchAccountByNumber_def Let_def gate_world_def demo_db_def demo_account_def
      find_account_def upd_rows_def account_view_def jset_jobj_find jfind_jobj)

lemma httpStatus_ok: "jfind res ''errorCode'' = None \<Longrightarrow> httpStatusFor res = 200"
  by (simp add: httpStatusFor_def)

lemma freeze_key: "hr_header gate_request ''Idempotency-Key'' = ''i''" "hr_header gate_request ''X-API-Key'' = ''k''"
  by (simp_all add: gate_request_def)


definition gate_claim :: idem_row where
  "gate_claim = \<lparr>ik_key = ''i'', ik_path = ''/transaction/initiate'', ik_status = ''IN_PROGRESS'', ik_code = None, ik_body = None\<rparr>"

lemma gate_admits: "credentials gate_env (committed gate_world) gate_request = \<lparr>au_role = ''ADMIN'', au_owner = ''O'', au_valid = True\<rparr>"
  by (simp add: credentials_def freeze_key gate_world_def)

lemma gate_bucket: "rate_step 8640000 ''10.0.0.1'' ((gate gate_world)\<lparr>active_requests := a, total_requests := t\<rparr>) =
  (True, (gate gate_world)\<lparr>active_requests := a, total_requests := t,
     rate_buckets := (\<lambda>_. None)(''10.0.0.1'' \<mapsto> \<lparr>rb_count = 1, rb_start = 8640000\<rparr>), eviction_counter := 1\<rparr>)"
  by (simp add: rate_step_def gate_world_def demo_world_def EVICTION_INTERVAL_REQUESTS_def RATE_LIMIT_WINDOW_def RATE_LIMIT_MAX_def)

lemma gate_claimed:
  assumes "same_db gate_world w"
  shows "\<exists>w'. check_key ''i'' ''/transaction/initiate'' gate_env w = (Val Fresh, w') \<and> working w' = None \<and> gate w' = gate w \<and>
     lock_log w' = lock_log w \<and> committed w' = (committed gate_world)\<lparr>idem := [gate_claim]\<rparr>"
  using assms by (simp add: check_key_def checkOrRegister_def run_flow ok_runs claim_key_def insertIdempotencyRecord_def sql_def
      same_db_def find_idem_def gate_claim_def gate_steps)

lemma demo_initiate:
  "\<exists>r w'. initiate gate_request gate_env gate_world = (Val r, w') \<and> rs_status r = 200 \<and> working w' = None \<and>
     find_idem ''i'' (committed w') \<noteq> None \<and> acc_frozen (hd (accounts (committed w'))) \<and>
     api_keys (committed w') = api_keys (committed gate_world) \<and> fst (rate_step 8640000 ''10.0.0.1'' (gate w')) \<and>
     lock_log w' = lock_log gate_world @ [Acquire ''A'' CREDIT, Release ''A'' CREDIT]"
proof -
  obtain v where v: "same_db gate_world v" "gate v = gate (enter gate_world)"
    and eq: "initiate gate_request gate_env gate_world = map_prod id leave (initiate_allowed ''i'' ''ADMIN'' gate_request gate_env v)"
    using initiate_admitted [of gate_env gate_world gate_request]
    by (auto simp: gate_admits header_role_def freeze_key gate_members)
  define g where "g = snd (rate_step 8640000 ''10.0.0.1'' (gate (enter gate_world)))"
  have rate: "rate_step 8640000 ''10.0.0.1'' (gate v) = (True, g)" by (simp add: v(2) g_def gate_bucket)
  have bucket: "rate_buckets g = (\<lambda>_. None)(''10.0.0.1'' \<mapsto> \<lparr>rb_count = 1, rb_start = 8640000\<rparr>)" "eviction_counter g = 1"
    by (simp_all add: g_def gate_bucket)
  let ?v = "v\<lparr>gate := g\<rparr>"
  obtain w1 where claim: "check_key ''i'' ''/transaction/initiate'' gate_env ?v = (Val Fresh, w1)" and w1: "working w1 = None"
      "gate w1 = gate ?v" "lock_log w1 = lock_log gate_world" "committed w1 = (committed gate_world)\<lparr>idem := [gate_claim]\<rparr>"
    using gate_claimed [of ?v] v(1) by (auto simp: same_db_def)
  obtain res w2 where freeze: "setFreezeStatus (attachRequestContext (jobj [(''accountNumber'', JStr ''A'')]) ''u1'' ''FREEZE_ACCOUNT''
      gate_request) True gate_env w1 = (Val res, w2)" and res: "is_object res" "jfind res ''errorCode'' = None"
    and w2: "working w2 = None" "committed w2 = gate_frozen (cur w1)" "gate w2 = gate w1"
      "lock_log w2 = lock_log w1 @ [Acquire ''A'' CREDIT, Release ''A'' CREDIT]"
    using freeze_run [of w1 "[gate_claim]" "''u1''" "''FREEZE_ACCOUNT''"] w1 by auto
  have "\<exists>r w'. initiate_allowed ''i'' ''ADMIN'' gate_request gate_env v = (Val r, w') \<and> rs_status r = 200 \<and> working w' = None \<and>
      committed w' = (committed w2)\<lparr>idem := upd_rows (\<lambda>r. ik_key r = ''i'') (\<lambda>r. r\<lparr>ik_status := ''COMPLETED'', ik_code := Some 200,
        ik_body := Some (rs_body r')\<rparr>) (idem (committed w2))\<rparr> \<and> rate_buckets (gate w') = rate_buckets g \<and> eviction_counter (gate w') = 1 \<and>
      lock_log w' = lock_log w2"
    if "r' = \<lparr>rs_status = 200, rs_body = jset (jset res ''requestId'' (JStr ''u1'')) ''transactionUuid'' (JStr ''u1''), rs_role = ''ADMIN''\<rparr>" for r'
    using w2(1) w2(3) w1(2) that bucket(2)
    by (simp add: initiate_allowed_def rateLimitOK_def with_gate_def rate run_flow initiate_body_def gate_members
        with_key_def claim initiate_dispatch_def checkPermission_def initiate_run_def processFreezeAccount_def freeze
        httpStatus_ok [OF res(2)] finish_def attach_object [OF res(1)] update_key_def updateIdempotencyRecord_def sql_def ok_runs
        ok_count_def bump_def)
  from this [OF refl] obtain r w' where run: "initiate_allowed ''i'' ''ADMIN'' gate_request gate_env v = (Val r, w')"
    and post: "rs_status r = 200" "working w' = None" "find_idem ''i'' (committed w') \<noteq> None"
      "accounts (committed w') = accounts (gate_frozen (committed gate_world))"
      "api_keys (committed w') = api_keys (committed gate_world)" "rate_buckets (gate w') = rate_buckets g" "eviction_counter (gate w') = 1"
      "lock_log w' = lock_log w2"
    using w2(2) w1(1,4) by (auto simp: find_idem_upd find_idem_def gate_claim_def upd_rows_def)
  have "initiate gate_request gate_env gate_world = (Val r, leave w')" by (simp add: eq run)
  moreover have "acc_frozen (hd (accounts (gate_frozen (committed gate_world))))"
    by (simp add: gate_world_def demo_db_def demo_account_def upd_rows_def)
  ultimately show ?thesis
    using post
    by (intro exI [of _ r] exI [of _ "leave w'"] conjI)
      (simp_all add: w1(3) w2(4) bucket rate_step_def Let_def EVICTION_INTERVAL_REQUESTS_def RATE_LIMIT_WINDOW_def RATE_LIMIT_MAX_def)
qed

lemma demo_db_ok: "db_ok (committed gate_world)"
  by (simp add: db_ok_def gate_world_def demo_db_def demo_account_def card_count_def is_cents_def dec2_def)


end
