(* ===== verification/LockOrder.thy ===== *)
theory LockOrder
  imports Gate
begin

text \<open>
  The order in which requests take account locks. A trace of lock events is well nested when every
  lock is given back last-in first-out and each lock is taken above the ones already held; every
  route of the server leaves such a trace, whatever the tables hold and however it ends.
\<close>

section \<open>Nested traces\<close>

text \<open>\<open>nested held evs\<close>: the events are the rest of such a trace when the locks \<open>held\<close>, the last one
  first, have been taken.\<close>

fun nested :: "(string \<times> TxnPriority) list \<Rightarrow> lock_event list \<Rightarrow> bool" where
  "nested held [] \<longleftrightarrow> held = []"
| "nested held (Acquire a p # evs) \<longleftrightarrow> (\<forall>(b, q) \<in> set held. b < a) \<and> nested ((a, p) # held) evs"
| "nested held (Release a p # evs) \<longleftrightarrow> held \<noteq> [] \<and> hd held = (a, p) \<and> nested (tl held) evs"

text \<open>Events that may come between, when all locks held are below \<open>b\<close>.\<close>

definition below :: "string option \<Rightarrow> (string \<times> TxnPriority) list \<Rightarrow> bool" where
  "below b held \<longleftrightarrow> (case b of None \<Rightarrow> held = [] | Some a \<Rightarrow> \<forall>(c, q) \<in> set held. c \<le> a)"

definition neutral :: "string option \<Rightarrow> lock_event list \<Rightarrow> bool" where
  "neutral b evs \<longleftrightarrow> (\<forall>held rest. below b held \<longrightarrow> nested held rest \<longrightarrow> nested held (evs @ rest))"

lemma neutral_nil: "neutral b []"
  by (simp add: neutral_def)

lemma neutral_append: "neutral b evs \<Longrightarrow> neutral b evs' \<Longrightarrow> neutral b (evs @ evs')"
  by (simp add: neutral_def)

lemma neutral_lock:
  assumes "neutral (Some a) evs" and "b = None \<or> the b < a"
  shows "neutral b (Acquire a p # evs @ [Release a p])"
  unfolding neutral_def
proof (intro allI impI)
  fix held rest
  assume h: "below b held" and r: "nested held rest"
  have lt: "\<forall>(c, q) \<in> set held. c < a"
    using h assms(2) by (cases b) (auto simp: below_def)
  then have "below (Some a) ((a, p) # held)" by (auto simp: below_def)
  with assms(1) r have "nested ((a, p) # held) (evs @ Release a p # rest)" by (simp add: neutral_def)
  with lt show "nested held ((Acquire a p # evs @ [Release a p]) @ rest)" by simp
qed

section \<open>Code that takes locks in order\<close>

text \<open>The log of locks is \<open>l\<close> and a neutral piece.\<close>

definition lk :: "string option \<Rightarrow> lock_event list \<Rightarrow> world \<Rightarrow> bool" where
  "lk b l w \<longleftrightarrow> (\<exists>evs. lock_log w = l @ evs \<and> neutral b evs)"

named_theorems lock_intros \<open>code that takes locks in order\<close>

lemma lk_same: "lock_log w' = lock_log w \<Longrightarrow> lk b l w' = lk b l w"
  by (simp add: lk_def)

lemma lk_start: "lk b (lock_log w) w"
  by (auto simp: lk_def neutral_nil)

lemma reader_lk: "reader m \<Longrightarrow> keeps e (lk b l) m"
  by (rule keepsI, rule wpI) (auto dest: readerD simp: same_db_def lk_def)

lemma lk_sql [lock_intros]: "keeps e (lk b l) (sql f)"
  by (rule keepsI) (simp add: wp_simps lk_def split: option.split sum.split prod.split)

lemma lk_transaction [lock_intros]:
  "keeps e (lk b l) startTransaction" "keeps e (lk b l) commit" "keeps e (lk b l) rollback"
  by (rule keepsI, simp add: wp_simps lk_def split: option.split)+

lemma lk_query [lock_intros]: "keeps e (lk b l) (query f)"
  and lk_conn [lock_intros]: "keeps e (lk b l) scopedConnection"
  and lk_gate [lock_intros]: "keeps e (lk b l) (with_gate g)"
  by (intro reader_lk reader_intros)+

lemma lk_withLock [lock_intros]:
  assumes "b = None \<or> the b < a" and "\<And>l. keeps e (lk (Some a) l) m"
  shows "keeps e (lk b l) (withLock a p m)"
proof (rule keepsI, rule wpI)
  fix w r w'
  assume "lk b l w" and run: "withLock a p m e w = (r, w')"
  then obtain evs where evs: "lock_log w = l @ evs" "neutral b evs" by (auto simp: lk_def)
  obtain r1 w1 where m: "m e (log_lock (Acquire a p) w) = (r1, w1)" by (cases "m e (log_lock (Acquire a p) w)")
  from keepsD [OF assms(2) lk_start m] obtain evs1 where in1: "lock_log w1 = lock_log w @ Acquire a p # evs1"
    and "neutral (Some a) evs1" by (auto simp: lk_def)
  with evs(2) assms(1) have "neutral b (evs @ Acquire a p # evs1 @ [Release a p])"
    by (intro neutral_append neutral_lock)
  moreover have "lock_log w' = l @ evs @ Acquire a p # evs1 @ [Release a p]"
    using run m in1 evs(1) by (auto simp: withLock_def)
  ultimately show "lk b l w'" by (auto simp: lk_def)
qed

lemma lk_block [lock_intros]: "keeps e (lk b l) try_rollback"
  "keeps e (lk b l) m \<Longrightarrow> keeps e (lk b l) (in_txn m)"
  "keeps e (lk b l) m \<Longrightarrow> keeps e (lk b l) (in_txn_throw m)"
  "keeps e (lk b l) m' \<Longrightarrow> keeps e (lk b l) (in_txn_fail x m')"
  "keeps e (lk b l) (reject j)"
  unfolding try_rollback_def in_txn_def in_txn_throw_def in_txn_fail_def reject_def
  by (intro keeps_intros lock_intros; assumption?)+

lemma lk_detached [lock_intros]:
  assumes "keeps e (lk b l) m" shows "keeps e (lk b l) (detached m)"
proof (rule keepsI, rule wpI)
  fix w r w'
  assume "lk b l w" and run: "detached m e w = (r, w')"
  obtain r1 w1 where m: "m e w = (r1, w1)" by (cases "m e w")
  with run have "w' = w1" by (cases r1) (simp_all add: detached_def)
  with keepsD [OF assms \<open>lk b l w\<close> m] show "lk b l w'" by simp
qed

lemma lk_guarded: assumes "keeps e (lk b l) m" shows "keeps e (lk b l) (guarded m)"
proof (rule keepsI, rule wpI)
  fix w r w'
  assume h: "lk b l w" and run: "guarded m e w = (r, w')"
  let ?v = "w\<lparr>gate := (gate w)\<lparr>active_requests := active_requests (gate w) + 1, total_requests := total_requests (gate w) + 1\<rparr>\<rparr>"
  obtain r1 w1 where m: "m e ?v = (r1, w1)" by (cases "m e ?v")
  with keepsD [OF assms _ m] h run show "lk b l w'" by (auto simp: guarded_def lk_def)
qed

lemma lk_readers [lock_intros]:
  "keeps e (lk b l) (checkFraud acc amount channel req)" "keeps e (lk b l) (select_card pan)"
  "keeps e (lk b l) (balance_or_throw msg acc)"
  by (intro reader_lk reader_checkFraud reader_intros)+

lemma lk_statements [lock_intros]:
  "keeps e (lk b l) (getAccountBalance acc)" "keeps e (lk b l) (getAccountBalanceAndCurrency acc)"
  "keeps e (lk b l) newFalcon" "keeps e (lk b l) (checkAccountExistsForUpdate acc)"
  "keeps e (lk b l) (get3DSChallenge cid)" "keeps e (lk b l) (convertToBase cu x)"
  "keeps e (lk b l) (updateAccountBalance acc x)" "keeps e (lk b l) (insert_txn tbl t row)"
  "keeps e (lk b l) (insert_master tbl ref st)" "keeps e (lk b l) (touch_card R)"
  "keeps e (lk b l) (set_refund tbl col i amount flag)"
  "keeps e (lk b l) (getOrCreateLedgerAccount acc name ty)"
  "keeps e (lk b l) (postLedgerEntry txn ac amount et delta ds)"
  "keeps e (lk b l) (logFraud txn client dev mob acc amount reason)"
  unfolding getAccountBalance_def getAccountBalanceAndCurrency_def newFalcon_def checkAccountExistsForUpdate_def
    get3DSChallenge_def convertToBase_def getExchangeRate_def updateAccountBalance_def insert_txn_def insert_master_def
    touch_card_def set_refund_def getOrCreateLedgerAccount_def postLedgerEntry_def logFraud_def Let_def
  by (intro keeps_intros lock_intros)+

lemma lk_ledger [lock_intros]:
  "keeps e (lk b l) (processPurchaseLedger txn cu m t fee mk ds)"
  "keeps e (lk b l) (processRefundLedger txn cu m x ds)"
  unfolding processPurchaseLedger_def processRefundLedger_def by (intro keeps_intros lock_intros)+

section \<open>The channels\<close>

lemma lk_reversal [lock_intros]: "keeps e (lk None l) (processReversalCore data)" "keeps e (lk None l) (processReversal data)"
  unfolding processReversal_def processReversalCore_def queue_after_error_def queue_reversal_def apply_reversal_def
    isDbAlive_def read_request_def creditBack_def insertReversalTxn_def markOriginalReversed_def writeDropFile_def
  by (intro keeps_intros lock_intros; simp)+

lemma lk_atm [lock_intros]: "keeps e (lk None l) (processATMTransaction data)"
proof -
  have "keeps e (lk None l) (h data acc pan scheme)" if "ATM_DISPATCH t = Some h" for h t acc pan scheme l
    using that unfolding handleWithdrawal_def handleDeposit_def atm_record_def touchCard_def insertATMTransaction_def
      getTodayWithdrawalTotal_def getTodayDepositTotal_def
    by (cases t) (auto simp: handleWithdrawal_def handleDeposit_def atm_record_def touchCard_def insertATMTransaction_def
      getTodayWithdrawalTotal_def getTodayDepositTotal_def intro!: keeps_intros lock_intros)
  then have "keeps e (lk None l) (atm_dispatch data t pan row)" for t pan row l
    unfolding atm_dispatch_def by (intro keeps_intros lock_intros keeps_option_eq)
  then show ?thesis
    unfolding processATMTransaction_def processATMCore_def atm_card_checks_def atm_reversal_def
    by (intro keeps_intros lock_intros)
qed

lemma lk_mobile [lock_intros]: "keeps e (lk None l) (processMobileTransaction data)"
  unfolding processMobileTransaction_def processMobileCore_def mobile_checked_def transfer_def transfer_apply_def
    lock_pair_def lock_balances_def read_balances_def Mobile.read_balance_def mobile_record_def resolve_debit_def
    getMobileHourlySpent_def getMobileDailySpent_def Let_def
  by (intro keeps_intros lock_intros; simp)

lemma lk_ecom [lock_intros]: "keeps e (lk None l) (processECOMTransaction data)"
  unfolding processECOMTransaction_def processECOMTransactionCore_def ecom_with_account_def ecom_dispatch_def
    ecom_decline_def ecom_refund_def ecom_refund_apply_def ecom_purchase_def getEcomPurchaseForUpdate_def Let_def
  by (intro keeps_intros lock_intros reader_lk [OF reader_ecom_resolve] reader_lk [OF reader_fx_charge]; simp)

lemma lk_charge [lock_intros]: "keeps e (lk None l) (pos_charge q acc pan scheme amount markup)"
  "keeps e (lk None l) (iccw_charge q acc pan scheme amount markup)"
  unfolding pos_charge_def iccw_charge_def by (intro keeps_intros lock_intros; simp)+

lemma lk_pos [lock_intros]: "keeps e (lk None l) (processPOSTransaction data)"
proof -
  have "keeps e (lk None l) (purchase data)" for l
    unfolding purchase_def pos_checked_def pos_decline_def
    by (intro keeps_intros lock_intros reader_lk [OF reader_pos_card] reader_lk [OF reader_pos_currency]
        reader_lk [OF reader_fx_charge])
  moreover have "keeps e (lk None l) (refund data)" for l
    unfolding refund_def pos_refund_locked_def pos_refund_row_found_def pos_refund_write_def pos_refund_balance_def Let_def
    by (intro keeps_intros lock_intros reader_lk [OF reader_pos_refund_card]; simp)
  ultimately have "keeps e (lk None l) (h data)" if "POS_DISPATCH t = Some h" for h t l
    using that by (cases t) auto
  then show ?thesis
    unfolding processPOSTransaction_def pos_async_def by (intro keeps_intros lock_intros keeps_option_eq)
qed

lemma lk_iccw [lock_intros]: "keeps e (lk None l) (processICCWTransaction data)"
proof -
  have "keeps e (lk None l) (withdrawal data)" for l
    unfolding withdrawal_def iccw_checked_def iccw_decline_def
    by (intro keeps_intros lock_intros reader_lk [OF reader_iccw(1)] reader_lk [OF reader_iccw(2)]
        reader_lk [OF reader_fx_charge])
  then have "keeps e (lk None l) (h data)" if "ICCW_DISPATCH t = Some h" for h t l
    using that by (cases t) auto
  then show ?thesis
    unfolding processICCWTransaction_def iccw_async_def by (intro keeps_intros lock_intros keeps_option_eq)
qed

lemma lk_qr [lock_intros]: "keeps e (lk None l) (processQRCodePayment data)"
  unfolding processQRCodePayment_def qr_checked_def qr_dispatch_def qr_decline_def qr_refund_def qr_refund_apply_def
    qr_purchase_def getQrPurchaseForUpdate_def checkQrAlreadyRefunded_def Let_def
  by (intro keeps_intros lock_intros reader_lk [OF reader_qr_request]; simp)

lemma lk_ring [lock_intros]: "keeps e (lk None l) (processRingPayTransaction data)"
  unfolding processRingPayTransaction_def ring_checked_def ring_decline_def ring_pay_def ring_limits_def ring_settle_def
    ring_token_def set_ring_def mark_ring_def Let_def
  by (intro keeps_intros lock_intros reader_lk [OF reader_ring(1)] reader_lk [OF reader_ring(2)]; simp)

section \<open>Administration\<close>

lemma lk_accounts [lock_intros]: "keeps e (lk None l) (processAddAccount data)" "keeps e (lk None l) (setFreezeStatus data fz)"
  unfolding processAddAccount_def open_account_def insert_account_def setFreezeStatus_def freeze_txn_def updateFreezeStatus_def
  by (intro keeps_intros lock_intros reader_lk [OF reader_resolveCurrency] reader_lk [OF reader_fetchAccount]; simp)+

lemma lk_cards [lock_intros]: "keeps e (lk b l) (processActivateCard data)" "keeps e (lk b l) (processBlockCard data)"
  "keeps e (lk b l) (processSetCardLimit data)" "keeps e (lk b l) (processResetCardPIN data)"
  "keeps e (lk b l) (processGetCardDetails data)"
  unfolding processActivateCard_def activate_card_def processBlockCard_def block_card_def processSetCardLimit_def
    limit_card_def set_limits_def processResetCardPIN_def reset_pin_def update_cards_def processGetCardDetails_def
  by (intro keeps_intros lock_intros reader_lk [OF reader_card_pan_of])+

lemma lk_issue [lock_intros]: "keeps e (lk b l) (processIssueCard data)"
  unfolding processIssueCard_def issue_card_def insert_card_def Let_def by (intro keeps_intros lock_intros)

lemma lk_tds [lock_intros]: "keeps e (lk None l) (processECOM3DSInitiate data)" "keeps e (lk None l) (process3DSVerify data)"
  unfolding processECOM3DSInitiate_def tds_card_checked_def tds_challenge_def process3DSVerify_def tds_execute_def
    update3DSChallengeStatus_def insert3DSChallenge_def
  by (intro keeps_intros lock_intros)+

lemma lk_dispatch: "CHANNEL_DISPATCH ch = Some h \<Longrightarrow> keeps e (lk None l) (h data)"
  by (cases ch)
    (auto simp: processFreezeAccount_def processUnfreezeAccount_def
      intro: lock_intros reader_lk [OF reader_getAccount] reader_lk [OF reader_listAccounts])

section \<open>The router\<close>

lemma lk_keys [lock_intros]: "keeps e (lk b l) (update_key key code body)" "keeps e (lk b l) (check_key key path)"
  unfolding update_key_def updateIdempotencyRecord_def check_key_def checkOrRegister_def claim_key_def recorded_def
    insertIdempotencyRecord_def getIdempotencyRecord_def
  by (intro keeps_intros lock_intros)+

lemma lk_answers [lock_intros]: "keeps e (lk b l) fail_count" "keeps e (lk b l) ok_count" "keeps e (lk b l) (rateLimitOK ip)"
  "keeps e (lk b l) (send role body st)" "keeps e (lk b l) (send_failure role body st)"
  "keeps e (lk b l) (finish key role body st)" "keeps e (lk b l) (finish_failure key role body st)"
  unfolding send_failure_def send_def finish_failure_def finish_def fail_count_def ok_count_def bump_def rateLimitOK_def
  by (intro keeps_intros lock_intros)+

lemma lk_with_key [lock_intros]:
  assumes "keeps e (lk b l) go" shows "keeps e (lk b l) (with_key key path role go)"
proof -
  have "keeps e (lk b l) (case s of Fresh \<Rightarrow> go | Replay rec \<Rightarrow> send role (rec_body rec) (rec_code rec)
      | Conflict \<Rightarrow> send_failure role j 409)" for s j
    using assms lk_answers by (cases s) auto
  then show ?thesis unfolding with_key_def by (intro keeps_intros lock_intros)
qed

lemma lk_initiate: "keeps e (lk None l) (initiate req)"
proof -
  have "keeps e (lk None l) (initiate_body key role req)" for key role
    unfolding initiate_body_def initiate_dispatch_def initiate_run_def
    by (intro keeps_intros keeps_option_eq lock_intros lk_dispatch; assumption)
  then show ?thesis
    unfolding initiate_def initiate_allowed_def
    by (intro lk_guarded keeps_intros lock_intros reader_lk [OF reader_resolveAuth])
qed

lemma lk_post:
  assumes "\<And>l data. keeps e (lk None l) (h data)"
  shows "keeps e (lk None l) (registerJsonPost path channel h req)"
  unfolding registerJsonPost_def post_body_def post_run_def Let_def
  by (intro lk_guarded keeps_intros lock_intros assms reader_lk [OF reader_resolveAuth])

lemma lk_auth_token: "keeps e (lk None l) (auth_token req)"
  unfolding auth_token_def Let_def validateApiKey_def getApiKeyDetails_def by (intro keeps_intros lock_intros)

lemma lk_json_routes: "(path, channel, h) \<in> set json_routes \<Longrightarrow> keeps e (lk None l) (h data)"
  unfolding json_routes_def
  by (auto simp: processFreezeAccount_def processUnfreezeAccount_def
      intro: lock_intros reader_lk [OF reader_getAccount] reader_lk [OF reader_listAccounts])

lemma lk_route:
  assumes "post_route path = Some f" shows "keeps e (lk None l) (f req)"
proof (cases "map_of json_routes path")
  case None
  with assms lk_initiate lk_auth_token show ?thesis by (auto simp: post_route_def split: if_splits)
next
  case (Some ch)
  have "keeps e (lk None l) (registerJsonPost path (fst ch) (snd ch) req)" for l
    using map_of_SomeD [OF Some] lk_json_routes [of path "fst ch" "snd ch"] by (intro lk_post) simp
  with assms Some lk_initiate lk_auth_token show ?thesis by (auto simp: post_route_def split: if_splits prod.splits)
qed

text \<open>The locks a request takes, as the events it adds to the log.\<close>

definition lock_trace :: "string \<Rightarrow> http_request \<Rightarrow> lock_event list \<Rightarrow> bool" where
  "lock_trace path req evs \<longleftrightarrow> (\<exists>f e w r w'. post_route path = Some f \<and> f req e w = (r, w') \<and> lock_log w' = lock_log w @ evs)"

lemma lock_trace_nested: "lock_trace path req evs \<Longrightarrow> nested [] evs"
proof -
  assume "lock_trace path req evs"
  then obtain f e w r w' where route: "post_route path = Some f" and run: "f req e w = (r, w')"
    and log: "lock_log w' = lock_log w @ evs" by (auto simp: lock_trace_def)
  from keepsD [OF lk_route [OF route] lk_start run] log have "neutral None evs" by (auto simp: lk_def)
  moreover have "below None []" "nested [] []" by (simp_all add: below_def)
  ultimately have "nested [] (evs @ [])" unfolding neutral_def by blast
  then show "nested [] evs" by simp
qed

end
