(* ===== verification/LockManager.thy ===== *)
theory LockManager
  imports Machines Priority
begin

text \<open>
  \<^verbatim>\<open>include/AccountLockManager.h\<close>: the per-account lock with priority for credits. A
  client is one \<^verbatim>\<open>ScopedLock\<close> object. The critical sections of \<^verbatim>\<open>acquire\<close> and
  \<^verbatim>\<open>release\<close> run under \<^verbatim>\<open>mutex_\<close> and are one step each; between them any other
  client may move. \<^verbatim>\<open>std::priority_queue\<close> gives some waiter of the highest priority:
  which one among equals is left open. The 50 ms pause of a debit before it enters is a
  scheduling delay and needs no step of its own.
\<close>

type_synonym client = nat
type_synonym waiter = "client \<times> TxnPriority"

record AccountState =
  activeCredits :: int
  activeDebits :: int
  isLocked :: bool
  waiters :: "waiter list"

definition new_state :: AccountState where
  "new_state = \<lparr>activeCredits = 0, activeDebits = 0, isLocked = False, waiters = []\<rparr>"

type_synonym lock_states = "string \<Rightarrow> AccountState option"

definition count_up :: "TxnPriority \<Rightarrow> AccountState \<Rightarrow> AccountState" where
  "count_up prio st = (if prio = CREDIT then st\<lparr>activeCredits := activeCredits st + 1\<rparr>
                       else st\<lparr>activeDebits := activeDebits st + 1\<rparr>)"

definition count_down :: "TxnPriority \<Rightarrow> AccountState \<Rightarrow> AccountState" where
  "count_down prio st = (if prio = CREDIT then st\<lparr>activeCredits := activeCredits st - 1\<rparr>
                         else st\<lparr>activeDebits := activeDebits st - 1\<rparr>)"

definition shouldWait :: "TxnPriority \<Rightarrow> AccountState \<Rightarrow> bool" where
  "shouldWait prio st \<longleftrightarrow> isLocked st \<or> (prio = DEBIT \<and> 0 < activeCredits st)"

text \<open>The new states, and whether the client got the lock at once.\<close>

definition acquire :: "client \<Rightarrow> string \<Rightarrow> TxnPriority \<Rightarrow> lock_states \<Rightarrow> lock_states \<times> bool" where
  "acquire c account prio m =
     (let st0 = (case m account of Some st \<Rightarrow> st | None \<Rightarrow> new_state);
          st = count_up prio st0
      in if \<not> shouldWait prio st then (m(account \<mapsto> st\<lparr>isLocked := True\<rparr>), True)
         else (m(account \<mapsto> st\<lparr>waiters := (c, prio) # waiters st\<rparr>), False))"

text \<open>\<open>w\<close> may be the top of the queue: no waiter comes before it.\<close>

definition is_top :: "waiter \<Rightarrow> waiter list \<Rightarrow> bool" where
  "is_top w ws \<longleftrightarrow> w \<in> set ws \<and> (\<forall>v\<in>set ws. snd w \<le> snd v)"

text \<open>\<open>release account prio m m' woken\<close>: the states after the call and the waiter whose
  \<^verbatim>\<open>ready\<close> flag it sets.\<close>

inductive release :: "string \<Rightarrow> TxnPriority \<Rightarrow> lock_states \<Rightarrow> lock_states \<Rightarrow> waiter option \<Rightarrow> bool" where
  unknown: "m account = None \<Longrightarrow> release account prio m m None"
| hand_over: "m account = Some st \<Longrightarrow> is_top w (waiters st) \<Longrightarrow>
    release account prio m
      (m(account \<mapsto> (count_down prio st)\<lparr>waiters := remove1 w (waiters st)\<rparr>)) (Some w)"
| unlock: "m account = Some st \<Longrightarrow> waiters st = [] \<Longrightarrow> st' = (count_down prio st)\<lparr>isLocked := False\<rparr> \<Longrightarrow>
    release account prio m
      (if activeCredits st' = 0 \<and> activeDebits st' = 0 then m(account := None) else m(account \<mapsto> st')) None"

section \<open>Clients\<close>

datatype lock_pc = Out | WaitingFor string TxnPriority | Holding string TxnPriority

record lock_sys =
  mgr :: lock_states
  pcs :: "client \<Rightarrow> lock_pc"

definition init_sys :: lock_sys where
  "init_sys = \<lparr>mgr = Map.empty, pcs = (\<lambda>_. Out)\<rparr>"

inductive lock_step :: "lock_sys \<Rightarrow> lock_sys \<Rightarrow> bool" where
  enter: "pcs s c = Out \<Longrightarrow> acquire c a p (mgr s) = (m', got) \<Longrightarrow>
    lock_step s \<lparr>mgr = m', pcs = (pcs s)(c := if got then Holding a p else WaitingFor a p)\<rparr>"
| leave: "pcs s c = Holding a p \<Longrightarrow> release a p (mgr s) m' woken \<Longrightarrow>
    lock_step s \<lparr>mgr = m', pcs = (case woken of None \<Rightarrow> (pcs s)(c := Out)
        | Some (c', p') \<Rightarrow> (pcs s)(c := Out, c' := Holding a p'))\<rparr>"

inductive_cases lock_stepE: "lock_step s t"
inductive_cases releaseE: "release a p m m' woken"

section \<open>Invariant\<close>

definition n_prio :: "TxnPriority \<Rightarrow> waiter list \<Rightarrow> int" where
  "n_prio p ws = int (length (filter (\<lambda>w. snd w = p) ws))"

definition one_if :: "bool \<Rightarrow> int" where
  "one_if b = (if b then 1 else 0)"

definition acct_inv :: "(client \<Rightarrow> lock_pc) \<Rightarrow> string \<Rightarrow> AccountState \<Rightarrow> client \<Rightarrow> TxnPriority \<Rightarrow> bool" where
  "acct_inv pc a st h hp \<longleftrightarrow> isLocked st \<and>
     (\<forall>c p. pc c = Holding a p \<longleftrightarrow> c = h \<and> p = hp) \<and>
     (\<forall>c p. pc c = WaitingFor a p \<longleftrightarrow> (c, p) \<in> set (waiters st)) \<and>
     distinct (map fst (waiters st)) \<and>
     activeCredits st = n_prio CREDIT (waiters st) + one_if (hp = CREDIT) \<and>
     activeDebits st = n_prio DEBIT (waiters st) + one_if (hp = DEBIT)"

definition idle_acct :: "(client \<Rightarrow> lock_pc) \<Rightarrow> string \<Rightarrow> bool" where
  "idle_acct pc a \<longleftrightarrow> (\<forall>c p. pc c \<noteq> Holding a p \<and> pc c \<noteq> WaitingFor a p)"

definition slot_inv :: "(client \<Rightarrow> lock_pc) \<Rightarrow> string \<Rightarrow> AccountState option \<Rightarrow> bool" where
  "slot_inv pc a entry = (case entry of
      None \<Rightarrow> idle_acct pc a
    | Some st \<Rightarrow> \<exists>h hp. acct_inv pc a st h hp)"

definition lock_inv :: "lock_sys \<Rightarrow> bool" where
  "lock_inv s \<longleftrightarrow> (\<forall>a. slot_inv (pcs s) a (mgr s a))"

lemma lock_inv_init: "lock_inv init_sys"
  by (simp add: lock_inv_def slot_inv_def init_sys_def idle_acct_def)

lemma n_prio_simps [simp]:
  "n_prio p [] = 0" "n_prio p (w # ws) = one_if (snd w = p) + n_prio p ws"
  by (simp_all add: n_prio_def one_if_def)

lemma n_prio_nonneg [simp]: "0 \<le> n_prio p ws"
  by (simp add: n_prio_def)

lemma one_if_nonneg [simp]: "0 \<le> one_if b"
  by (simp add: one_if_def)

lemma n_prio_remove1: "w \<in> set ws \<Longrightarrow> n_prio p (remove1 w ws) = n_prio p ws - one_if (snd w = p)"
  by (induction ws) auto

text \<open>Under the invariant the second disjunct of \<^verbatim>\<open>shouldWait\<close> adds nothing: a live entry is
  always locked, and a fresh one has no credit.\<close>

lemma acquire_idle:
  assumes "m a = None"
  shows "acquire c a p m = (m(a \<mapsto> (count_up p new_state)\<lparr>isLocked := True\<rparr>), True)"
  using assms by (cases p) (simp_all add: acquire_def shouldWait_def count_up_def new_state_def Let_def)

lemma acquire_busy:
  assumes "m a = Some st" and "isLocked st"
  shows "acquire c a p m = (m(a \<mapsto> (count_up p st)\<lparr>waiters := (c, p) # waiters st\<rparr>), False)"
  using assms by (cases p) (simp_all add: acquire_def shouldWait_def count_up_def Let_def)

lemma acct_inv_frame:
  assumes "acct_inv pc b st h hp" and "\<And>p. pc c \<noteq> Holding b p \<and> pc c \<noteq> WaitingFor b p"
    and "\<And>p. x \<noteq> Holding b p \<and> x \<noteq> WaitingFor b p"
  shows "acct_inv (pc(c := x)) b st h hp"
  using assms unfolding acct_inv_def by (auto simp: fun_upd_def)

text \<open>A client whose state does not name account \<open>b\<close>, before and after it moves, leaves the
  entry of \<open>b\<close> in order.\<close>

lemma slot_frame:
  assumes "slot_inv pc b entry" and "\<And>p. pc c \<noteq> Holding b p \<and> pc c \<noteq> WaitingFor b p"
    and "\<And>p. x \<noteq> Holding b p \<and> x \<noteq> WaitingFor b p"
  shows "slot_inv (pc(c := x)) b entry"
proof (cases entry)
  case None
  with assms show ?thesis by (auto simp: slot_inv_def idle_acct_def)
next
  case (Some st)
  with assms(1) obtain h hp where "acct_inv pc b st h hp" by (auto simp: slot_inv_def)
  then have "acct_inv (pc(c := x)) b st h hp" by (rule acct_inv_frame) (fact assms)+
  with Some show ?thesis by (auto simp: slot_inv_def)
qed

lemma slot_holder:
  assumes "slot_inv pc a entry" and "pc c = Holding a p"
  obtains st where "entry = Some st" and "acct_inv pc a st c p"
proof (cases entry)
  case None
  with assms show thesis by (simp add: slot_inv_def idle_acct_def)
next
  case (Some st)
  with assms(1) obtain h hp where h: "acct_inv pc a st h hp" by (auto simp: slot_inv_def)
  with assms(2) have "h = c" "hp = p" by (auto simp: acct_inv_def)
  with h Some that show thesis by blast
qed

lemma slot_waiter:
  assumes "slot_inv pc a entry" and "pc c = WaitingFor a p"
  obtains st h hp where "entry = Some st" and "acct_inv pc a st h hp" and "(c, p) \<in> set (waiters st)"
proof (cases entry)
  case None
  with assms show thesis by (simp add: slot_inv_def idle_acct_def)
next
  case (Some st)
  with assms(1) obtain h hp where h: "acct_inv pc a st h hp" by (auto simp: slot_inv_def)
  with assms(2) have "(c, p) \<in> set (waiters st)" by (auto simp: acct_inv_def)
  with h Some that show thesis by blast
qed

text \<open>The four ways a call changes the entry of its account.\<close>

lemma take_fresh:
  assumes "idle_acct pc a"
  shows "acct_inv (pc(c := Holding a p)) a ((count_up p new_state)\<lparr>isLocked := True\<rparr>) c p"
  using assms by (cases p) (auto simp: acct_inv_def idle_acct_def count_up_def new_state_def one_if_def)

lemma queue_up:
  assumes h: "acct_inv pc a st h hp" and "pc c = Out"
  shows "acct_inv (pc(c := WaitingFor a p)) a ((count_up p st)\<lparr>waiters := (c, p) # waiters st\<rparr>) h hp"
proof -
  have c: "h \<noteq> c" "c \<notin> fst ` set (waiters st)"
    using assms by (force simp: acct_inv_def)+
  have w: "waiters (count_up p st) = waiters st" "isLocked (count_up p st) = isLocked st"
    by (simp_all add: count_up_def)
  have n: "activeCredits (count_up p st) = activeCredits st + one_if (p = CREDIT)"
    "activeDebits (count_up p st) = activeDebits st + one_if (p = DEBIT)"
    by (cases p; simp add: count_up_def one_if_def)+
  have "(c, q) \<notin> set (waiters st)" for q using c(2) by force
  with h c w n show ?thesis unfolding acct_inv_def by auto
qed

lemma give_to_waiter:
  assumes h: "acct_inv pc a st c p" and win: "(c', p') \<in> set (waiters st)"
  shows "acct_inv (pc(c := Out, c' := Holding a p')) a
    ((count_down p st)\<lparr>waiters := remove1 (c', p') (waiters st)\<rparr>) c' p'"
proof -
  have dist: "distinct (map fst (waiters st))"
    and hold: "\<And>d q. pc d = Holding a q \<longleftrightarrow> d = c \<and> q = p"
    and wait: "\<And>d q. pc d = WaitingFor a q \<longleftrightarrow> (d, q) \<in> set (waiters st)"
    and counts: "activeCredits st = n_prio CREDIT (waiters st) + one_if (p = CREDIT)"
      "activeDebits st = n_prio DEBIT (waiters st) + one_if (p = DEBIT)"
    and lck: "isLocked st"
    using h by (auto simp: acct_inv_def)
  have "c' \<noteq> c" using hold [of c p] wait [of c' p'] win by auto
  have uniq: "(c', q) \<in> set (waiters st) \<Longrightarrow> q = p'" for q
    using wait win by (metis lock_pc.inject(1))
  have ds: "distinct (waiters st)" using dist by (simp add: distinct_map)
  have rem: "set (remove1 (c', p') (waiters st)) = set (waiters st) - {(c', p')}"
    using ds by (rule set_remove1_eq)
  have dist': "distinct (map fst (remove1 (c', p') (waiters st)))"
    using dist ds rem by (auto simp: distinct_map intro: inj_on_subset)
  have c1: "activeCredits (count_down p st) = activeCredits st - one_if (p = CREDIT)"
    and c2: "activeDebits (count_down p st) = activeDebits st - one_if (p = DEBIT)"
    and c3: "isLocked (count_down p st) = isLocked st"
    by (cases p; simp add: count_down_def one_if_def)+
  have "(pc(c := Out, c' := Holding a p')) d = Holding a q \<longleftrightarrow> d = c' \<and> q = p'" for d q
    using hold by auto
  moreover have "(pc(c := Out, c' := Holding a p')) d = WaitingFor a q \<longleftrightarrow>
      (d, q) \<in> set (remove1 (c', p') (waiters st))" for d q
    using wait [of d q] hold [of c p] uniq unfolding rem by auto
  ultimately show ?thesis
    unfolding acct_inv_def using lck dist' c1 c2 c3 counts win
    by (simp add: n_prio_remove1)
qed

lemma unlock_last:
  assumes h: "acct_inv pc a st c p" and "waiters st = []"
  shows "activeCredits (count_down p st) = 0 \<and> activeDebits (count_down p st) = 0 \<and>
    idle_acct (pc(c := Out)) a"
  using assms by (cases p) (auto simp: acct_inv_def idle_acct_def count_down_def one_if_def)

lemma enter_inv:
  assumes inv: "lock_inv s" and out: "pcs s c = Out" and acq: "acquire c a p (mgr s) = (m', got)"
  shows "lock_inv \<lparr>mgr = m', pcs = (pcs s)(c := if got then Holding a p else WaitingFor a p)\<rparr>"
proof -
  have slot: "slot_inv (pcs s) b (mgr s b)" for b using inv by (simp add: lock_inv_def)
  have other: "slot_inv ((pcs s)(c := if got then Holding a p else WaitingFor a p)) b (mgr s b)"
    if "b \<noteq> a" for b
    using slot [of b] by (rule slot_frame) (use out that in auto)
  show ?thesis
  proof (cases "mgr s a")
    case None
    with acq have m': "m' = (mgr s)(a \<mapsto> (count_up p new_state)\<lparr>isLocked := True\<rparr>)" "got"
      by (auto simp: acquire_idle)
    from None slot [of a] have "idle_acct (pcs s) a" by (simp add: slot_inv_def)
    from take_fresh [OF this, of c p]
    have "slot_inv ((pcs s)(c := Holding a p)) a (m' a)"
      unfolding m' slot_inv_def by auto
    with other m' show ?thesis by (auto simp: lock_inv_def)
  next
    case (Some st)
    with slot [of a] obtain h hp where h: "acct_inv (pcs s) a st h hp" by (auto simp: slot_inv_def)
    then have "isLocked st" by (simp add: acct_inv_def)
    with Some acq have m': "m' = (mgr s)(a \<mapsto> (count_up p st)\<lparr>waiters := (c, p) # waiters st\<rparr>)" "\<not> got"
      by (auto simp: acquire_busy)
    with queue_up [OF h out] other show ?thesis by (auto simp: lock_inv_def slot_inv_def)
  qed
qed

lemma leave_inv:
  assumes inv: "lock_inv s" and hold: "pcs s c = Holding a p" and rel: "release a p (mgr s) m' woken"
  shows "lock_inv \<lparr>mgr = m', pcs = (case woken of None \<Rightarrow> (pcs s)(c := Out)
        | Some (c', p') \<Rightarrow> (pcs s)(c := Out, c' := Holding a p'))\<rparr>"
proof -
  have slot: "slot_inv (pcs s) b (mgr s b)" for b using inv by (simp add: lock_inv_def)
  from slot_holder [OF slot hold] obtain st where st: "mgr s a = Some st"
    and h: "acct_inv (pcs s) a st c p" by blast
  have other: "slot_inv ((pcs s)(c := Out)) b (mgr s b)" if "b \<noteq> a" for b
    using slot [of b] by (rule slot_frame) (use hold that in auto)
  from rel show ?thesis
  proof (cases rule: release.cases)
    case unknown
    with st show ?thesis by simp
  next
    case (hand_over st1 w)
    then have st1: "st1 = st" using st by simp
    obtain c' p' where w: "w = (c', p')" by (cases w)
    from hand_over have win: "(c', p') \<in> set (waiters st)" by (simp add: is_top_def w st1)
    with h have waits: "pcs s c' = WaitingFor a p'" by (simp add: acct_inv_def)
    with hold have "c' \<noteq> c" by auto
    have "slot_inv ((pcs s)(c := Out, c' := Holding a p')) b (mgr s b)" if "b \<noteq> a" for b
      using other [OF that] by (rule slot_frame) (use waits \<open>c' \<noteq> c\<close> that in auto)
    with hand_over w st1 give_to_waiter [OF h win] show ?thesis
      by (auto simp: lock_inv_def slot_inv_def)
  next
    case (unlock st1 st')
    with st have st1: "st1 = st" by simp
    from unlock unlock_last [OF h] other show ?thesis
      by (auto simp: lock_inv_def slot_inv_def st1)
  qed
qed

interpretation lm: machine "\<lambda>s. s = init_sys" lock_step lock_inv
proof unfold_locales
  show "lock_inv t" if "lock_inv s" "lock_step s t" for s t
    using that(2) by (cases rule: lock_step.cases) (use that(1) enter_inv leave_inv in blast)+
qed (simp add: lock_inv_init)

abbreviation lock_reachable :: "lock_sys \<Rightarrow> bool" where
  "lock_reachable \<equiv> reachable_by (\<lambda>s. s = init_sys) lock_step"

lemma lock_inv_slot: "lock_inv s \<Longrightarrow> slot_inv (pcs s) a (mgr s a)"
  by (simp add: lock_inv_def)

lemmas inv_holder = slot_holder [OF lock_inv_slot]
lemmas inv_waiter = slot_waiter [OF lock_inv_slot]

text \<open>Two clients on one account: the first holds it, the second waits.\<close>

definition held_once :: lock_sys where
  "held_once = \<lparr>mgr = Map.empty(''A'' \<mapsto> (count_up DEBIT new_state)\<lparr>isLocked := True\<rparr>),
     pcs = (\<lambda>_. Out)(1 := Holding ''A'' DEBIT)\<rparr>"

definition held_and_wanted :: lock_sys where
  "held_and_wanted = \<lparr>mgr = Map.empty(''A'' \<mapsto> (count_up CREDIT (the (mgr held_once ''A'')))\<lparr>waiters := [(2, CREDIT)]\<rparr>),
     pcs = (pcs held_once)(2 := WaitingFor ''A'' CREDIT)\<rparr>"

lemma reach_held_once: "lock_reachable held_once"
proof -
  have "acquire 1 ''A'' DEBIT (mgr init_sys) = (mgr held_once, True)"
    by (simp add: acquire_idle init_sys_def held_once_def)
  from enter [of init_sys 1, OF _ this] have "lock_step init_sys held_once"
    by (simp add: init_sys_def held_once_def)
  moreover have "lock_reachable init_sys" by (rule init) simp
  ultimately show ?thesis by (rule next_state [rotated])
qed

lemma reach_held_and_wanted: "lock_reachable held_and_wanted"
proof -
  have "acquire 2 ''A'' CREDIT (mgr held_once) = (mgr held_and_wanted, False)"
    by (simp add: held_once_def held_and_wanted_def acquire_def shouldWait_def count_up_def new_state_def)
  from enter [of held_once 2, OF _ this] have "lock_step held_once held_and_wanted"
    by (simp add: held_once_def held_and_wanted_def)
  with reach_held_once show ?thesis by (rule next_state)
qed

section \<open>Properties\<close>

text \<open>C1: At most one client holds an account's lock, in every state that any interleaving of
  acquisitions and releases can reach, and while one does, the manager's entry for the account is
  locked.\<close>

theorem lock_exclusive:
  assumes "lock_reachable s" and "pcs s c = Holding a p"
  shows "(\<forall>c' p'. pcs s c' = Holding a p' \<longrightarrow> c' = c \<and> p' = p) \<and> (\<exists>st. mgr s a = Some st \<and> isLocked st)"
  using inv_holder [OF lm.reachable_inv [OF assms(1)] assms(2)]
  by (metis acct_inv_def)

lemma lock_exclusive_witness:
  "{(c, p). pcs held_and_wanted c = Holding ''A'' p} = {(1, DEBIT)} \<and>
   (\<exists>st. mgr held_and_wanted ''A'' = Some st \<and> isLocked st)"
proof -
  have "pcs held_and_wanted 1 = Holding ''A'' DEBIT" by (simp add: held_and_wanted_def held_once_def)
  with lock_exclusive [OF reach_held_and_wanted this] show ?thesis by blast
qed

text \<open>No waiter is forgotten. A client that waits for an account is in the queue of the
  account's entry, and some other client holds the lock it waits for.\<close>

theorem lock_no_lost_waiter:
  assumes "lock_reachable s" and "pcs s c = WaitingFor a p"
  shows "\<exists>st h hp. mgr s a = Some st \<and> (c, p) \<in> set (waiters st) \<and> pcs s h = Holding a hp \<and> h \<noteq> c"
proof -
  from inv_waiter [OF lm.reachable_inv [OF assms(1)] assms(2)] obtain st h hp where
    st: "mgr s a = Some st" and inv: "acct_inv (pcs s) a st h hp" and c: "(c, p) \<in> set (waiters st)" .
  from inv have "pcs s h = Holding a hp" by (simp add: acct_inv_def)
  moreover from this assms(2) have "h \<noteq> c" by auto
  ultimately show ?thesis using st c by blast
qed

lemma lock_no_lost_waiter_witness:
  "\<exists>st h hp. mgr held_and_wanted ''A'' = Some st \<and> (2, CREDIT) \<in> set (waiters st) \<and>
     pcs held_and_wanted h = Holding ''A'' hp \<and> h \<noteq> 2"
  by (rule lock_no_lost_waiter [OF reach_held_and_wanted]) (simp add: held_and_wanted_def)

text \<open>C19: Releasing a held account hands the lock straight to a waiter when there is one, to a
  credit whenever a credit waits, and otherwise removes the account's entry, so that the table
  of states does not grow.\<close>

theorem lock_handover:
  assumes "lock_reachable s" and "pcs s c = Holding a p" and "release a p (mgr s) m' woken"
    and "mgr s a = Some st"
  shows "if waiters st = [] then woken = None \<and> m' a = None
    else \<exists>c' p'. woken = Some (c', p') \<and> (c', p') \<in> set (waiters st) \<and>
      pcs s c' = WaitingFor a p' \<and> ((\<exists>d. (d, CREDIT) \<in> set (waiters st)) \<longrightarrow> p' = CREDIT)"
proof -
  from inv_holder [OF lm.reachable_inv [OF assms(1)] assms(2)] assms(4)
  have inv: "acct_inv (pcs s) a st c p" by auto
  from assms(3) show ?thesis
  proof (cases rule: release.cases)
    case unknown
    with assms(4) show ?thesis by simp
  next
    case (hand_over st1 w)
    obtain c' p' where w: "w = (c', p')" by (cases w)
    with hand_over assms(4) have top: "is_top (c', p') (waiters st)" by simp
    then have "(c', p') \<in> set (waiters st)" by (simp add: is_top_def)
    moreover from this inv have "pcs s c' = WaitingFor a p'" by (simp add: acct_inv_def)
    moreover have "p' = CREDIT" if "(d, CREDIT) \<in> set (waiters st)" for d
      using top that by (cases p') (auto simp: is_top_def)
    ultimately show ?thesis using hand_over w by auto
  next
    case (unlock st1 st')
    then have "st1 = st" using assms(4) by simp
    with unlock unlock_last [OF inv] show ?thesis by auto
  qed
qed

lemma lock_handover_witness:
  "\<exists>m' c'. release ''A'' DEBIT (mgr held_and_wanted) m' (Some (c', CREDIT))"
proof -
  have st: "mgr held_and_wanted ''A'' = Some ((count_up CREDIT (the (mgr held_once ''A'')))\<lparr>waiters := [(2, CREDIT)]\<rparr>)"
    by (simp add: held_and_wanted_def)
  have held: "pcs held_and_wanted 1 = Holding ''A'' DEBIT" by (simp add: held_and_wanted_def held_once_def)
  have rel: "\<exists>m' w. release ''A'' DEBIT (mgr held_and_wanted) m' w"
    by (rule exI, rule exI, rule hand_over [where w = "(2, CREDIT)"], rule st) (simp add: is_top_def)
  then obtain m' w where r: "release ''A'' DEBIT (mgr held_and_wanted) m' w" by blast
  from lock_handover [OF reach_held_and_wanted held r st] r show ?thesis by auto
qed

end
