(* ===== verification/Threads.thy ===== *)
theory Threads
  imports LockOrder LockManager
begin

text \<open>
  The threads of the server on the account locks: every thread runs one request after the other,
  each of which takes and gives back locks as some run of its route does, through the critical
  sections of the lock manager and interleaved with all other threads. Requests cannot deadlock.
\<close>

section \<open>Threads\<close>

text \<open>What a thread has still to do, and the \<^verbatim>\<open>ScopedLock\<close> objects it has made, the last first; it is
  blocked in \<^verbatim>\<open>acquire\<close> when one of them waits.\<close>

record lock_thread =
  th_rest :: "lock_event list"
  th_own :: "(client \<times> string \<times> TxnPriority) list"

record thr_sys =
  locks :: lock_sys
  thread :: "nat \<Rightarrow> lock_thread"

definition idle :: lock_thread where
  "idle = \<lparr>th_rest = [], th_own = []\<rparr>"

definition running :: "thr_sys \<Rightarrow> nat \<Rightarrow> bool" where
  "running s t \<longleftrightarrow> (\<forall>(c, a, p) \<in> set (th_own (thread s t)). pcs (locks s) c = Holding a p)"

inductive thr_begin :: "thr_sys \<Rightarrow> thr_sys \<Rightarrow> bool" where
  request: "thread s t = idle \<Longrightarrow> lock_trace path req evs \<Longrightarrow>
    thr_begin s (s\<lparr>thread := (thread s)(t := \<lparr>th_rest = evs, th_own = []\<rparr>)\<rparr>)"

inductive thr_move :: "thr_sys \<Rightarrow> thr_sys \<Rightarrow> bool" where
  take: "thread s t = \<lparr>th_rest = Acquire a p # evs, th_own = os\<rparr> \<Longrightarrow> running s t \<Longrightarrow> pcs (locks s) c = Out \<Longrightarrow>
    acquire c a p (mgr (locks s)) = (m', got) \<Longrightarrow>
    thr_move s (s\<lparr>locks := \<lparr>mgr = m', pcs = (pcs (locks s))(c := if got then Holding a p else WaitingFor a p)\<rparr>,
      thread := (thread s)(t := \<lparr>th_rest = evs, th_own = (c, a, p) # os\<rparr>)\<rparr>)"
| give: "thread s t = \<lparr>th_rest = Release b q # evs, th_own = (c, a, p) # os\<rparr> \<Longrightarrow> running s t \<Longrightarrow>
    release a p (mgr (locks s)) m' woken \<Longrightarrow>
    thr_move s (s\<lparr>locks := \<lparr>mgr = m', pcs = (case woken of None \<Rightarrow> (pcs (locks s))(c := Out)
        | Some (c', p') \<Rightarrow> (pcs (locks s))(c := Out, c' := Holding a p'))\<rparr>,
      thread := (thread s)(t := \<lparr>th_rest = evs, th_own = os\<rparr>)\<rparr>)"

definition thr_start :: "thr_sys \<Rightarrow> bool" where
  "thr_start s \<longleftrightarrow> locks s = init_sys \<and> (\<forall>t. thread s t = idle)"

abbreviation thr_step :: "thr_sys \<Rightarrow> thr_sys \<Rightarrow> bool" where
  "thr_step s s' \<equiv> thr_begin s s' \<or> thr_move s s'"

section \<open>Invariant\<close>

text \<open>The locks of one thread: they are in ascending order, and only the last may still be waited for.\<close>

fun stack_ok :: "(client \<Rightarrow> lock_pc) \<Rightarrow> (client \<times> string \<times> TxnPriority) list \<Rightarrow> bool" where
  "stack_ok pc [] = True"
| "stack_ok pc ((c, a, p) # os) = ((pc c = Holding a p \<or> pc c = WaitingFor a p) \<and>
     (\<forall>(d, b, q) \<in> set os. pc d = Holding b q \<and> b < a) \<and> stack_ok pc os)"

definition owners :: "thr_sys \<Rightarrow> client \<Rightarrow> nat set" where
  "owners s c = {t. c \<in> fst ` set (th_own (thread s t))}"

definition thr_inv :: "thr_sys \<Rightarrow> bool" where
  "thr_inv s \<longleftrightarrow> lock_inv (locks s) \<and> finite {t. thread s t \<noteq> idle} \<and>
     (\<forall>t. nested (map snd (th_own (thread s t))) (th_rest (thread s t)) \<and> stack_ok (pcs (locks s)) (th_own (thread s t))) \<and>
     (\<forall>c t t'. t \<in> owners s c \<longrightarrow> t' \<in> owners s c \<longrightarrow> t = t') \<and>
     (\<forall>c. pcs (locks s) c \<noteq> Out \<longrightarrow> owners s c \<noteq> {})"

lemma stack_ok_entries: "stack_ok pc os \<Longrightarrow> (c, a, p) \<in> set os \<Longrightarrow> pc c = Holding a p \<or> pc c = WaitingFor a p"
  by (induction pc os rule: stack_ok.induct) auto

lemma stack_ok_cong: "stack_ok pc os \<Longrightarrow> \<forall>c \<in> fst ` set os. pc' c = pc c \<Longrightarrow> stack_ok pc' os"
  by (induction pc os rule: stack_ok.induct) (auto simp: case_prod_beta)

lemma stack_ok_wake: "stack_ok pc os \<Longrightarrow> pc d = WaitingFor a p \<Longrightarrow> stack_ok (pc(d := Holding a p)) os"
proof (induction pc os rule: stack_ok.induct)
  case (2 pc c b q os)
  then have "x \<noteq> d" if "(x, b', q') \<in> set os" for x b' q' using that by auto
  with 2 show ?case by auto
qed simp

lemma stack_ok_push:
  assumes "stack_ok pc os" and "pc c = Holding a p \<or> pc c = WaitingFor a p"
    and "\<And>d b q. (d, b, q) \<in> set os \<Longrightarrow> pc d = Holding b q \<and> b < a"
  shows "stack_ok pc ((c, a, p) # os)"
  using assms by auto

lemma stack_ok_held: "stack_ok pc ((c, a, p) # os) \<Longrightarrow> pc c = Holding a p \<Longrightarrow> c \<notin> fst ` set os"
  by auto

lemma owned_busy:
  assumes "thr_inv s" and "t \<in> owners s c" shows "pcs (locks s) c \<noteq> Out"
proof -
  from assms(2) obtain a p where "(c, a, p) \<in> set (th_own (thread s t))" by (auto simp: owners_def)
  moreover have "stack_ok (pcs (locks s)) (th_own (thread s t))" using assms(1) by (simp add: thr_inv_def)
  ultimately show ?thesis using stack_ok_entries by (metis lock_pc.distinct(1,3))
qed

lemma finite_busy: "finite {t. thread s t \<noteq> idle} \<Longrightarrow> finite {t. ((thread s)(u := th)) t \<noteq> idle}"
  by (rule finite_subset [of _ "insert u {t. thread s t \<noteq> idle}"]) auto

lemma inv_parts:
  assumes "thr_inv s"
  shows "lock_inv (locks s)" "finite {t. thread s t \<noteq> idle}"
    "nested (map snd (th_own (thread s t))) (th_rest (thread s t))" "stack_ok (pcs (locks s)) (th_own (thread s t))"
    "t \<in> owners s c \<Longrightarrow> u \<in> owners s c \<Longrightarrow> t = u" "pcs (locks s) c \<noteq> Out \<Longrightarrow> owners s c \<noteq> {}"
  using assms unfolding thr_inv_def by blast+

text \<open>One thread moves: what is left to show of the invariant.\<close>

lemma moved_inv:
  assumes "thr_inv s" and "lock_inv l" and "nested (map snd (th_own th)) (th_rest th)" and "stack_ok (pcs l) (th_own th)"
    and "\<And>u. u \<noteq> t \<Longrightarrow> stack_ok (pcs l) (th_own (thread s u))"
    and "\<And>d u. d \<in> fst ` set (th_own th) \<Longrightarrow> u \<in> owners s d \<Longrightarrow> u = t"
    and "\<And>d. pcs l d \<noteq> Out \<Longrightarrow> d \<in> fst ` set (th_own th) \<or> owners s d - {t} \<noteq> {}"
  shows "thr_inv (s\<lparr>locks := l, thread := (thread s)(t := th)\<rparr>)" (is "thr_inv ?s")
proof -
  have own: "owners ?s d = (owners s d - {t}) \<union> (if d \<in> fst ` set (th_own th) then {t} else {})" for d
    by (auto simp: owners_def)
  have uniq: "u = v" if "u \<in> owners ?s d" "v \<in> owners ?s d" for d u v
    using that inv_parts(5) [OF assms(1), of u d v] assms(6) [of d] unfolding own by (auto split: if_splits)
  have used: "owners ?s d \<noteq> {}" if "pcs (locks ?s) d \<noteq> Out" for d
    using assms(7) [of d] that unfolding own by auto
  have "stack_ok (pcs (locks ?s)) (th_own (thread ?s u)) \<and> nested (map snd (th_own (thread ?s u))) (th_rest (thread ?s u))" for u
    using assms(3-5) inv_parts(3) [OF assms(1)] by simp
  moreover have "finite {u. thread ?s u \<noteq> idle}" using finite_busy [OF inv_parts(2) [OF assms(1)]] by simp
  ultimately show ?thesis
    unfolding thr_inv_def using assms(2) uniq used by simp
qed

lemma begin_inv: "thr_begin s s' \<Longrightarrow> thr_inv s \<Longrightarrow> thr_inv s'"
proof (induction rule: thr_begin.induct)
  case (request s t path req evs)
  let ?th = "\<lparr>th_rest = evs, th_own = []\<rparr>"
  have "thr_inv (s\<lparr>locks := locks s, thread := (thread s)(t := ?th)\<rparr>)"
  proof (rule moved_inv [OF request(3)])
    show "d \<in> fst ` set (th_own ?th) \<or> owners s d - {t} \<noteq> {}" if "pcs (locks s) d \<noteq> Out" for d
    proof -
      from inv_parts(6) [OF request(3) that] obtain u where "u \<in> owners s d" by auto
      with request(1) show ?thesis by (cases "u = t") (auto simp: owners_def idle_def)
    qed
  qed (use inv_parts [OF request(3)] lock_trace_nested [OF request(2)] in simp_all)
  then show ?case by simp
qed

lemma take_inv:
  assumes inv: "thr_inv s" and t: "thread s t = \<lparr>th_rest = Acquire a p # evs, th_own = os\<rparr>" and run: "running s t"
    and out: "pcs (locks s) c = Out" and acq: "acquire c a p (mgr (locks s)) = (m', got)"
  shows "thr_inv (s\<lparr>locks := \<lparr>mgr = m', pcs = (pcs (locks s))(c := if got then Holding a p else WaitingFor a p)\<rparr>,
      thread := (thread s)(t := \<lparr>th_rest = evs, th_own = (c, a, p) # os\<rparr>)\<rparr>)"
proof (rule moved_inv [OF inv])
  let ?l = "\<lparr>mgr = m', pcs = (pcs (locks s))(c := if got then Holding a p else WaitingFor a p)\<rparr>"
  have free: "owners s c = {}" using owned_busy [OF inv] out by auto
  show "lock_inv ?l" using enter_inv [OF inv_parts(1) [OF inv] out acq] .
  have nest: "nested ((a, p) # map snd os) evs" "\<forall>(b, q) \<in> set (map snd os). b < a"
    using inv_parts(3) [OF inv, of t] t by auto
  then show "nested (map snd (th_own \<lparr>th_rest = evs, th_own = (c, a, p) # os\<rparr>)) (th_rest \<lparr>th_rest = evs, th_own = (c, a, p) # os\<rparr>)"
    by simp
  show other: "stack_ok (pcs ?l) (th_own (thread s u))" for u
    using inv_parts(4) [OF inv] by (rule stack_ok_cong) (use free in \<open>auto simp: owners_def\<close>)
  have tail: "pcs ?l d = Holding b q \<and> b < a" if "(d, b, q) \<in> set os" for d b q
  proof -
    have "pcs (locks s) d = Holding b q" using run t that by (auto simp: running_def)
    with out nest(2) that show ?thesis by force
  qed
  have "stack_ok (pcs ?l) os" using other [of t] t by simp
  then have "stack_ok (pcs ?l) ((c, a, p) # os)" by (rule stack_ok_push) (simp, rule tail)
  then show "stack_ok (pcs ?l) (th_own \<lparr>th_rest = evs, th_own = (c, a, p) # os\<rparr>)" by simp
  show "u = t" if "d \<in> fst ` set (th_own \<lparr>th_rest = evs, th_own = (c, a, p) # os\<rparr>)" "u \<in> owners s d" for d u
  proof -
    have "d \<noteq> c" using free that(2) by auto
    with that(1) t have "t \<in> owners s d" by (auto simp: owners_def)
    with inv_parts(5) [OF inv] that(2) show ?thesis by blast
  qed
  show "d \<in> fst ` set (th_own \<lparr>th_rest = evs, th_own = (c, a, p) # os\<rparr>) \<or> owners s d - {t} \<noteq> {}" if "pcs ?l d \<noteq> Out" for d
  proof (cases "d = c")
    case False
    with that inv_parts(6) [OF inv, of d] obtain u where "u \<in> owners s d" by auto
    then show ?thesis using t by (cases "u = t") (auto simp: owners_def)
  qed simp
qed

lemma woken_waits:
  assumes "lock_inv l" and "pcs l c = Holding a p" and "release a p (mgr l) m' (Some (d, q))"
  shows "pcs l d = WaitingFor a q"
proof -
  obtain st where st: "mgr l a = Some st" and h: "acct_inv (pcs l) a st c p" by (rule inv_holder [OF assms(1,2)])
  from assms(3) have "(d, q) \<in> set (waiters st)" by (cases rule: release.cases) (use st in \<open>auto simp: is_top_def\<close>)
  with h show ?thesis by (simp add: acct_inv_def)
qed

lemma give_inv:
  assumes inv: "thr_inv s" and t: "thread s t = \<lparr>th_rest = Release b q # evs, th_own = (c, a, p) # os\<rparr>" and run: "running s t"
    and rel: "release a p (mgr (locks s)) m' woken"
  shows "thr_inv (s\<lparr>locks := \<lparr>mgr = m', pcs = (case woken of None \<Rightarrow> (pcs (locks s))(c := Out)
        | Some (c', p') \<Rightarrow> (pcs (locks s))(c := Out, c' := Holding a p'))\<rparr>,
      thread := (thread s)(t := \<lparr>th_rest = evs, th_own = os\<rparr>)\<rparr>)"
proof (rule moved_inv [OF inv])
  let ?pc = "pcs (locks s)"
  let ?l = "\<lparr>mgr = m', pcs = (case woken of None \<Rightarrow> ?pc(c := Out) | Some (c', p') \<Rightarrow> ?pc(c := Out, c' := Holding a p'))\<rparr>"
  have hold: "?pc c = Holding a p" using run t by (auto simp: running_def)
  have st: "stack_ok ?pc ((c, a, p) # os)" using inv_parts(4) [OF inv, of t] t by simp
  have c: "c \<notin> fst ` set os" using stack_ok_held [OF st hold] .
  have mine: "owners s c = {t}"
  proof -
    have "t \<in> owners s c" using t by (auto simp: owners_def)
    with inv_parts(5) [OF inv] show ?thesis by blast
  qed
  have woke: "?pc d = WaitingFor a r" if "woken = Some (d, r)" for d r
    using woken_waits [OF inv_parts(1) [OF inv] hold] rel that by simp
  show "lock_inv ?l" using leave_inv [OF inv_parts(1) [OF inv] hold rel] .
  show "nested (map snd (th_own \<lparr>th_rest = evs, th_own = os\<rparr>)) (th_rest \<lparr>th_rest = evs, th_own = os\<rparr>)"
    using inv_parts(3) [OF inv, of t] t by simp
  have change: "stack_ok (pcs ?l) xs" if "stack_ok ?pc xs" "c \<notin> fst ` set xs" for xs
  proof -
    have out: "stack_ok (?pc(c := Out)) xs" using that(1) by (rule stack_ok_cong) (use that(2) in auto)
    show ?thesis
    proof (cases woken)
      case None
      with out show ?thesis by simp
    next
      case (Some w)
      obtain d r where w: "w = (d, r)" by (cases w)
      with Some woke have "?pc d = WaitingFor a r" by simp
      moreover from this hold have "d \<noteq> c" by auto
      ultimately show ?thesis using stack_ok_wake [OF out, of d a r] Some w by simp
    qed
  qed
  show "stack_ok (pcs ?l) (th_own \<lparr>th_rest = evs, th_own = os\<rparr>)" using change [of os] st c by simp
  show "stack_ok (pcs ?l) (th_own (thread s u))" if "u \<noteq> t" for u
    using change [OF inv_parts(4) [OF inv]] mine that by (auto simp: owners_def)
  show "u = t" if "d \<in> fst ` set (th_own \<lparr>th_rest = evs, th_own = os\<rparr>)" "u \<in> owners s d" for d u
  proof -
    have "t \<in> owners s d" using that(1) t by (auto simp: owners_def)
    with inv_parts(5) [OF inv] that(2) show ?thesis by blast
  qed
  show "d \<in> fst ` set (th_own \<lparr>th_rest = evs, th_own = os\<rparr>) \<or> owners s d - {t} \<noteq> {}" if "pcs ?l d \<noteq> Out" for d
  proof -
    have "?pc d \<noteq> Out" "d \<noteq> c"
      using that woke hold by (auto split: option.splits if_splits)
    with inv_parts(6) [OF inv, of d] obtain u where "u \<in> owners s d" by auto
    with t \<open>d \<noteq> c\<close> show ?thesis by (cases "u = t") (auto simp: owners_def)
  qed
qed

lemma move_inv: "thr_move s s' \<Longrightarrow> thr_inv s \<Longrightarrow> thr_inv s'"
  by (induction rule: thr_move.induct) (rule take_inv give_inv; assumption)+

interpretation threads: machine thr_start thr_step thr_inv
proof unfold_locales
  show "thr_inv s" if "thr_start s" for s
    using that lock_inv_init by (auto simp: thr_start_def thr_inv_def idle_def owners_def init_sys_def)
qed (auto intro: begin_inv move_inv)

abbreviation thr_reachable :: "thr_sys \<Rightarrow> bool" where
  "thr_reachable \<equiv> reachable_by thr_start thr_step"

lemma reach_begin: "thr_reachable s \<Longrightarrow> thr_begin s s' \<Longrightarrow> thr_reachable s'"
  and reach_move: "thr_reachable s \<Longrightarrow> thr_move s s' \<Longrightarrow> thr_reachable s'"
  using reachable_by.next_state [of thr_start thr_step s s'] by simp_all

section \<open>Progress\<close>

lemma release_possible:
  assumes "lock_inv l" and "pcs l c = Holding a p"
  shows "\<exists>m' woken. release a p (mgr l) m' woken"
proof -
  obtain st where st: "mgr l a = Some st" by (rule inv_holder [OF assms])
  show ?thesis
  proof (cases "waiters st = []")
    case True
    with st show ?thesis by (blast intro: release.unlock)
  next
    case False
    then have "Min (snd ` set (waiters st)) \<in> snd ` set (waiters st)" by (intro Min_in) auto
    then obtain w where "w \<in> set (waiters st)" "snd w = Min (snd ` set (waiters st))" by auto
    then have "is_top w (waiters st)" by (simp add: is_top_def)
    with st show ?thesis by (blast intro: release.hand_over)
  qed
qed

lemma free_client: "thr_inv s \<Longrightarrow> \<exists>c. pcs (locks s) c = Out"
proof -
  assume inv: "thr_inv s"
  have "{c. pcs (locks s) c \<noteq> Out} \<subseteq> (\<Union>t \<in> {t. thread s t \<noteq> idle}. fst ` set (th_own (thread s t)))"
  proof
    fix c
    assume "c \<in> {c. pcs (locks s) c \<noteq> Out}"
    with inv_parts(6) [OF inv, of c] obtain t where "c \<in> fst ` set (th_own (thread s t))" by (auto simp: owners_def)
    moreover from this have "thread s t \<noteq> idle" by (auto simp: idle_def)
    ultimately show "c \<in> (\<Union>t \<in> {t. thread s t \<noteq> idle}. fst ` set (th_own (thread s t)))" by blast
  qed
  then have "finite {c. pcs (locks s) c \<noteq> Out}" by (rule finite_subset) (use inv_parts(2) [OF inv] in auto)
  then show ?thesis using ex_new_if_finite [OF infinite_UNIV_nat] by blast
qed

definition stuck :: "thr_sys \<Rightarrow> bool" where
  "stuck s \<longleftrightarrow> (\<nexists>s'. thr_move s s')"

lemma running_moves:
  assumes inv: "thr_inv s" and run: "running s t" and busy: "thread s t \<noteq> idle"
  shows "\<not> stuck s"
proof (cases "th_rest (thread s t)")
  case Nil
  with inv_parts(3) [OF inv, of t] have "thread s t = idle" by (simp add: idle_def)
  with busy show ?thesis by simp
next
  case (Cons ev evs)
  show ?thesis
  proof (cases ev)
    case (Acquire a p)
    obtain c where "pcs (locks s) c = Out" using free_client [OF inv] by blast
    moreover obtain m' got where "acquire c a p (mgr (locks s)) = (m', got)" by fastforce
    moreover have "thread s t = \<lparr>th_rest = Acquire a p # evs, th_own = th_own (thread s t)\<rparr>" using Cons Acquire by simp
    ultimately show ?thesis using take run unfolding stuck_def by blast
  next
    case (Release b q)
    with inv_parts(3) [OF inv, of t] Cons obtain c a p os where own: "th_own (thread s t) = (c, a, p) # os"
      by (cases "th_own (thread s t)") auto
    with run have "pcs (locks s) c = Holding a p" by (auto simp: running_def)
    from release_possible [OF inv_parts(1) [OF inv] this] obtain m' w where "release a p (mgr (locks s)) m' w" by blast
    moreover have "thread s t = \<lparr>th_rest = Release b q # evs, th_own = (c, a, p) # os\<rparr>" using Cons Release own by simp
    ultimately show ?thesis using give run unfolding stuck_def by blast
  qed
qed

lemma stuck_waits:
  assumes inv: "thr_inv s" and "stuck s" and "thread s t \<noteq> idle"
  obtains c a p os where "th_own (thread s t) = (c, a, p) # os" and "pcs (locks s) c = WaitingFor a p"
proof (cases "th_own (thread s t)")
  case Nil
  then have "running s t" by (simp add: running_def)
  with running_moves [OF inv] assms(2,3) show thesis by blast
next
  case (Cons x os)
  obtain c a p where x: "x = (c, a, p)" by (cases x)
  have st: "stack_ok (pcs (locks s)) ((c, a, p) # os)" using inv_parts(4) [OF inv, of t] Cons x by simp
  have "pcs (locks s) c \<noteq> Holding a p"
  proof
    assume "pcs (locks s) c = Holding a p"
    with st Cons x have "running s t" unfolding running_def by fastforce
    with running_moves [OF inv] assms(2,3) show False by blast
  qed
  with st Cons x that show thesis by auto
qed

lemma stuck_idle:
  assumes inv: "thr_inv s" and "stuck s" shows "thread s t = idle"
proof (rule ccontr)
  assume "thread s t \<noteq> idle"
  let ?B = "{t. thread s t \<noteq> idle}"
  define want where "want u = fst (snd (hd (th_own (thread s u))))" for u
  have fin: "finite (want ` ?B)" using inv_parts(2) [OF inv] by simp
  have "Max (want ` ?B) \<in> want ` ?B" by (rule Max_in [OF fin]) (use \<open>thread s t \<noteq> idle\<close> in auto)
  then obtain u where u: "thread s u \<noteq> idle" and top: "want u = Max (want ` ?B)" by auto
  obtain c a p os where own: "th_own (thread s u) = (c, a, p) # os" and "pcs (locks s) c = WaitingFor a p"
    by (rule stuck_waits [OF assms u])
  then obtain st h hp where "acct_inv (pcs (locks s)) a st h hp"
    using inv_waiter [OF inv_parts(1) [OF inv]] by blast
  then have hold: "pcs (locks s) h = Holding a hp" by (simp add: acct_inv_def)
  with inv_parts(6) [OF inv, of h] obtain v where v: "v \<in> owners s h" by auto
  then have vb: "thread s v \<noteq> idle" by (auto simp: owners_def idle_def)
  obtain d b q os' where own': "th_own (thread s v) = (d, b, q) # os'" and wait: "pcs (locks s) d = WaitingFor b q"
    by (rule stuck_waits [OF assms vb])
  have st: "stack_ok (pcs (locks s)) ((d, b, q) # os')" using inv_parts(4) [OF inv, of v] own' by simp
  have "h \<noteq> d" using hold wait by auto
  with v own' obtain a' p' where e: "(h, a', p') \<in> set os'" by (auto simp: owners_def)
  with st have "pcs (locks s) h = Holding a' p'" "a' < b" by auto
  with hold have "a < b" by simp
  moreover have "want v \<le> Max (want ` ?B)" using fin vb by auto
  ultimately show False using top own own' by (simp add: want_def)
qed

text \<open>The events that are left.\<close>

definition work :: "thr_sys \<Rightarrow> nat" where
  "work s = (\<Sum>t | thread s t \<noteq> idle. length (th_rest (thread s t)))"

lemma work_over:
  assumes "finite A" and "{t. thread s t \<noteq> idle} \<subseteq> A"
  shows "work s = (\<Sum>t\<in>A. length (th_rest (thread s t)))"
  unfolding work_def by (rule sum.mono_neutral_left) (use assms in \<open>auto simp: idle_def\<close>)

lemma move_work:
  assumes "thr_move s s'" and "finite {t. thread s t \<noteq> idle}"
  shows "work s = Suc (work s')"
proof -
  from assms(1) obtain t th where s': "thread s' = (thread s)(t := th)"
    and len: "length (th_rest (thread s t)) = Suc (length (th_rest th))"
    by (cases rule: thr_move.cases) simp_all
  let ?A = "insert t {t. thread s t \<noteq> idle}"
  have A: "finite ?A" "{u. thread s u \<noteq> idle} \<subseteq> ?A" "{u. thread s' u \<noteq> idle} \<subseteq> ?A"
    using assms(2) by (auto simp: s')
  have "(\<Sum>u\<in>?A. length (th_rest (thread s u))) =
    length (th_rest (thread s t)) + (\<Sum>u\<in>?A - {t}. length (th_rest (thread s u)))"
    using A(1) by (intro sum.remove) auto
  moreover have "(\<Sum>u\<in>?A. length (th_rest (thread s' u))) =
    length (th_rest (thread s' t)) + (\<Sum>u\<in>?A - {t}. length (th_rest (thread s' u)))"
    using A(1) by (intro sum.remove) auto
  moreover have "(\<Sum>u\<in>?A - {t}. length (th_rest (thread s' u))) = (\<Sum>u\<in>?A - {t}. length (th_rest (thread s u)))"
    by (rule sum.cong) (auto simp: s')
  ultimately show ?thesis using work_over [OF A(1,2)] work_over [OF A(1,3)] len by (simp add: s')
qed

lemma moves_work: "(thr_move ^^ n) s s' \<Longrightarrow> thr_inv s \<Longrightarrow> thr_inv s' \<and> work s = n + work s'"
proof (induction n arbitrary: s')
  case (Suc n)
  then obtain x where x: "(thr_move ^^ n) s x" and step: "thr_move x s'" by auto
  from Suc.IH [OF x Suc.prems(2)] have "thr_inv x" "work s = n + work x" by auto
  with move_inv [OF step] move_work [OF step inv_parts(2)] show ?case by auto
qed simp

lemma idle_unlocked:
  assumes inv: "thr_inv s" and idle: "\<And>t. thread s t = idle"
  shows "mgr (locks s) a = None"
proof (rule ccontr)
  assume "mgr (locks s) a \<noteq> None"
  with lock_inv_slot [OF inv_parts(1) [OF inv], of a] obtain st h hp where "acct_inv (pcs (locks s)) a st h hp"
    by (auto simp: slot_inv_def)
  then have "pcs (locks s) h = Holding a hp" by (simp add: acct_inv_def)
  then have "pcs (locks s) h \<noteq> Out" by simp
  with inv_parts(6) [OF inv, of h] idle show False by (auto simp: owners_def idle_def)
qed

section \<open>Properties\<close>

text \<open>C2: Requests cannot deadlock on the account locks. From any state that the threads of the server can reach,
  whatever routes they run and however they interleave, a run in which no further request begins has
  at most as many steps as there are lock events left, and where no thread can move any more every
  request is finished, every lock is given back and the table of account states is empty.\<close>

theorem requests_finish:
  assumes "thr_reachable s" and "(thr_move ^^ n) s s'"
  shows "n \<le> work s \<and> (stuck s' \<longrightarrow> (\<forall>t. thread s' t = idle) \<and> mgr (locks s') = Map.empty)"
proof -
  have "thr_inv s'" "work s = n + work s'"
    using moves_work [OF assms(2) threads.reachable_inv [OF assms(1)]] by auto
  with stuck_idle idle_unlocked show ?thesis by (auto simp: fun_eq_iff)
qed

lemma runs_out:
  assumes "thr_inv s"
  shows "\<exists>n s'. (thr_move ^^ n) s s' \<and> stuck s'"
  using assms
proof (induction "work s" arbitrary: s)
  case 0
  then have "stuck s" using move_work inv_parts(2) unfolding stuck_def by (metis nat.distinct(1))
  then show ?case by (intro exI [of _ 0] exI [of _ s]) simp
next
  case (Suc n)
  show ?case
  proof (cases "stuck s")
    case False
    then obtain x where step: "thr_move s x" by (auto simp: stuck_def)
    with Suc.hyps(2) move_work inv_parts(2) [OF Suc.prems] have "n = work x" by fastforce
    from Suc.hyps(1) [OF this move_inv [OF step Suc.prems]] obtain k s' where "(thr_move ^^ k) x s'" "stuck s'" by blast
    with step show ?thesis by (meson relpowp_Suc_I2)
  qed (auto intro: exI [of _ 0])
qed

text \<open>Two clients freeze the same account: the first has the lock, the second waits for it.\<close>

definition freeze_locks :: "lock_event list" where
  "freeze_locks = [Acquire ''A'' CREDIT, Release ''A'' CREDIT]"

lemma freeze_trace: "lock_trace ''/transaction/initiate'' gate_request freeze_locks"
  using demo_initiate unfolding lock_trace_def freeze_locks_def by (fastforce simp: post_route_def)

definition one_state :: AccountState where
  "one_state = (count_up CREDIT new_state)\<lparr>isLocked := True\<rparr>"

definition two_freezes :: thr_sys where
  "two_freezes = \<lparr>locks = \<lparr>mgr = Map.empty(''A'' \<mapsto> (count_up CREDIT one_state)\<lparr>waiters := [(1, CREDIT)]\<rparr>),
       pcs = (\<lambda>_. Out)(0 := Holding ''A'' CREDIT, 1 := WaitingFor ''A'' CREDIT)\<rparr>,
     thread = (\<lambda>_. idle)(0 := \<lparr>th_rest = [Release ''A'' CREDIT], th_own = [(0, ''A'', CREDIT)]\<rparr>,
       1 := \<lparr>th_rest = [Release ''A'' CREDIT], th_own = [(1, ''A'', CREDIT)]\<rparr>)\<rparr>"

lemma two_freezes_reachable: "thr_reachable two_freezes"
proof -
  define s0 where "s0 = \<lparr>locks = init_sys, thread = (\<lambda>_. idle)\<rparr>"
  define s1 where "s1 = s0\<lparr>thread := (thread s0)(0 := \<lparr>th_rest = freeze_locks, th_own = []\<rparr>)\<rparr>"
  define s2 where "s2 = s1\<lparr>thread := (thread s1)(1 := \<lparr>th_rest = freeze_locks, th_own = []\<rparr>)\<rparr>"
  define s3 where "s3 = s2\<lparr>locks := \<lparr>mgr = Map.empty(''A'' \<mapsto> one_state), pcs = (pcs (locks s2))(0 := if True then Holding ''A'' CREDIT else WaitingFor ''A'' CREDIT)\<rparr>,
     thread := (thread s2)(0 := \<lparr>th_rest = [Release ''A'' CREDIT], th_own = [(0, ''A'', CREDIT)]\<rparr>)\<rparr>"
  define s4 where "s4 = s3\<lparr>locks := \<lparr>mgr = (mgr (locks s3))(''A'' \<mapsto> (count_up CREDIT one_state)\<lparr>waiters := [(1, CREDIT)]\<rparr>),
       pcs = (pcs (locks s3))(1 := if False then Holding ''A'' CREDIT else WaitingFor ''A'' CREDIT)\<rparr>,
     thread := (thread s3)(1 := \<lparr>th_rest = [Release ''A'' CREDIT], th_own = [(1, ''A'', CREDIT)]\<rparr>)\<rparr>"
  note s_defs = s0_def s1_def s2_def s3_def s4_def
  have r0: "thr_reachable s0" by (rule reachable_by.init) (simp add: thr_start_def s0_def)
  have b1: "thr_begin s0 s1" unfolding s1_def by (rule request [OF _ freeze_trace]) (simp add: s0_def)
  have b2: "thr_begin s1 s2" unfolding s2_def by (rule request [OF _ freeze_trace]) (simp add: s_defs)
  have m3: "thr_move s2 s3"
    unfolding s3_def
  proof (rule take)
    show "acquire 0 ''A'' CREDIT (mgr (locks s2)) = (Map.empty(''A'' \<mapsto> one_state), True)"
      by (simp add: acquire_idle s_defs init_sys_def one_state_def)
  qed (simp_all add: s_defs running_def init_sys_def freeze_locks_def)
  have m4: "thr_move s3 s4"
    unfolding s4_def
  proof (rule take)
    show "acquire 1 ''A'' CREDIT (mgr (locks s3)) =
        ((mgr (locks s3))(''A'' \<mapsto> (count_up CREDIT one_state)\<lparr>waiters := [(1, CREDIT)]\<rparr>), False)"
      by (simp add: acquire_busy [of _ _ one_state] s3_def one_state_def count_up_def new_state_def)
  qed (simp_all add: s_defs running_def init_sys_def freeze_locks_def)
  have "s4 = two_freezes"
    by (simp add: two_freezes_def s_defs init_sys_def fun_upd_twist)
  with reach_move [OF reach_move [OF reach_begin [OF reach_begin [OF r0 b1] b2] m3] m4] show ?thesis by simp
qed

lemma requests_finish_witness:
  "\<not> running two_freezes 1 \<and> (\<exists>n s'. (thr_move ^^ n) two_freezes s' \<and> n \<le> work two_freezes \<and>
     (\<forall>t. thread s' t = idle) \<and> mgr (locks s') = Map.empty)"
proof -
  obtain n s' where "(thr_move ^^ n) two_freezes s'" "stuck s'"
    using runs_out [OF threads.reachable_inv [OF two_freezes_reachable]] by blast
  with requests_finish [OF two_freezes_reachable] have "\<exists>n s'. (thr_move ^^ n) two_freezes s' \<and> n \<le> work two_freezes \<and>
     (\<forall>t. thread s' t = idle) \<and> mgr (locks s') = Map.empty" by blast
  moreover have "\<not> running two_freezes 1" by (simp add: running_def two_freezes_def)
  ultimately show ?thesis by blast
qed

end
