(* ===== verification/Replay.thy ===== *)
theory Replay
  imports Gate
begin

text \<open>
  What an idempotency key gives: a request repeated under its key is answered from the table
  of keys, and what a repetition over the rate limit does to the recorded answer.
\<close>

section \<open>The answer under a key\<close>

text \<open>The row of the key, if there is one, holds the answer \<open>r\<close>.\<close>

definition answered :: "string \<Rightarrow> http_response \<Rightarrow> world \<Rightarrow> bool" where
  "answered key r w \<longleftrightarrow> (case find_idem key (cur w) of None \<Rightarrow> True
     | Some row \<Rightarrow> ik_status row \<noteq> ''IN_PROGRESS'' \<and> ik_code row = Some (rs_status r) \<and> ik_body row = Some (rs_body r) \<and>
         is_object (rs_body r))"

definition unclaimed :: "string \<Rightarrow> world \<Rightarrow> bool" where
  "unclaimed key w \<longleftrightarrow> find_idem key (cur w) = None"

lemma unclaimed_answered: "unclaimed key w \<Longrightarrow> answered key r w"
  by (simp add: unclaimed_def answered_def)

lemma answered_gate [simp]: "answered key r (w\<lparr>gate := g\<rparr>) = answered key r w"
  and unclaimed_gate [simp]: "unclaimed key (w\<lparr>gate := g\<rparr>) = unclaimed key w"
  by (simp_all add: answered_def unclaimed_def)

lemma t_any: "triple e P m (\<lambda>_ _. True) (\<lambda>_. True) (\<lambda>_. True)"
proof -
  have "outp (\<lambda>_ _. True) (\<lambda>_. True) (\<lambda>_. True) r w" for r :: "'a outcome" and w by (cases r) simp_all
  then show ?thesis by (simp add: triple_def wp_def)
qed

lemma t_counted:
  assumes "triple e P m (answered key) (\<lambda>_. True) (\<lambda>_. True)"
  shows "triple e P (mbind m (\<lambda>r. mthen (bump f) (mret r))) (answered key) (\<lambda>_. True) (\<lambda>_. True)"
  by (rule t_bind [OF assms]) (simp add: triple_def bump_def wp_simps)

lemma t_refused: "triple e (unclaimed key) (mthen (bump f) (mret r)) (answered key) (\<lambda>_. True) (\<lambda>_. True)"
  by (simp add: triple_def bump_def wp_simps unclaimed_answered)

lemma t_unclaimed:
  assumes "reader m" shows "triple e (unclaimed key) m (\<lambda>_. unclaimed key) (\<lambda>_. True) (\<lambda>_. True)"
  unfolding triple_def
proof (intro allI impI wpI)
  fix w r w'
  assume "unclaimed key w" and "m e w = (r, w')"
  with readerD [OF assms, of e w r w'] have "unclaimed key w'" by (simp add: unclaimed_def same_db_cur)
  then show "outp (\<lambda>_. unclaimed key) (\<lambda>_. True) (\<lambda>_. True) r w'" by (cases r) simp_all
qed

lemma t_guarded:
  assumes "triple e (unclaimed key) m (answered key) (\<lambda>_. True) (\<lambda>_. True)"
  shows "triple e (unclaimed key) (guarded m) (answered key) (\<lambda>_. True) (\<lambda>_. True)"
  unfolding triple_def
proof (intro allI impI wpI)
  fix w r w'
  assume h: "unclaimed key w" and run: "guarded m e w = (r, w')"
  obtain w1 where "m e (enter w) = (r, w1)" "w' = leave w1"
    using run by (cases "m e (enter w)") (simp add: guarded_def)
  with tripleD [OF assms, of "enter w" r w1] h have "outp (answered key) (\<lambda>_. True) (\<lambda>_. True) r w1" by simp
  then show "outp (answered key) (\<lambda>_. True) (\<lambda>_. True) r w'"
    using \<open>w' = leave w1\<close> by (cases r) simp_all
qed

lemma finish_answers:
  assumes "fault e = (\<lambda>_. None)" and "key \<noteq> []"
  shows "triple e P (finish key role body st) (answered key) (\<lambda>_. True) (\<lambda>_. True)"
    and "triple e P (finish_failure key role body st) (answered key) (\<lambda>_. True) (\<lambda>_. True)"
proof -
  show fin: "triple e P (finish key role body st) (answered key) (\<lambda>_. True) (\<lambda>_. True)" for P
    using assms by (auto simp: triple_def finish_def update_key_def updateIdempotencyRecord_def wp_simps answered_def
      find_idem_upd attach_is_object split: outcome.split option.split)
  show "triple e P (finish_failure key role body st) (answered key) (\<lambda>_. True) (\<lambda>_. True)"
    unfolding finish_failure_def fail_count_def by (rule t_counted [OF fin])
qed

lemma check_key_fresh:
  assumes "fault e = (\<lambda>_. None)"
  shows "triple e (unclaimed key) (check_key key path) (\<lambda>s _. s = Fresh) (\<lambda>_. True) (\<lambda>_. True)"
  using assms by (simp add: triple_def check_key_def checkOrRegister_def claim_key_def insertIdempotencyRecord_def
      wp_simps unclaimed_def)

lemma initiate_answers:
  assumes "fault e = (\<lambda>_. None)" and "hr_header req ''Idempotency-Key'' = key" and "key \<noteq> []"
  shows "triple e (unclaimed key) (initiate req) (answered key) (\<lambda>_. True) (\<lambda>_. True)"
proof -
  note fin = finish_answers [OF assms(1,3)]
  have dispatch: "triple e (\<lambda>_. True) (initiate_dispatch key role req q) (answered key) (\<lambda>_. True) (\<lambda>_. True)" for role q
    unfolding initiate_dispatch_def initiate_run_def ok_count_def
    by (intro t_bind [OF t_any] t_if t_option fin t_counted)
  have keyed: "triple e (unclaimed key) (with_key key path role (initiate_dispatch key role req q)) (answered key)
      (\<lambda>_. True) (\<lambda>_. True)" for path role q
    unfolding with_key_def by (rule t_bind [OF check_key_fresh [OF assms(1)]]) (auto simp: triple_def dispatch [unfolded triple_def])
  have body: "triple e (unclaimed key) (initiate_body key role req) (answered key) (\<lambda>_. True) (\<lambda>_. True)" for role
    unfolding initiate_body_def by (intro t_if t_option t_bind [OF t_asks [where Q = "\<lambda>_. unclaimed key"]] fin keyed)
  have allowed: "triple e (unclaimed key) (initiate_allowed key role req) (answered key) (\<lambda>_. True) (\<lambda>_. True)" for role
    unfolding initiate_allowed_def rateLimitOK_def
    by (intro t_bind [where S = "\<lambda>_. unclaimed key"] t_if t_catch [OF body] fin)
      (auto simp: triple_def wp_simps split: prod.split)
  show ?thesis
    unfolding initiate_def assms(2) fail_count_def
    by (intro t_guarded t_then [OF t_unclaimed] t_bind [OF t_unclaimed] t_if t_refused allowed reader_resolveAuth reader_intros)
qed

lemma rate_step_enter: "fst (rate_step t ip (gate (enter w))) = fst (rate_step t ip (gate w))"
  by (simp add: rate_step_def Let_def split: prod.split)

lemma check_key_replays:
  assumes "fault e = (\<lambda>_. None)" and "find_idem key (cur w) = Some row" and "ik_status row \<noteq> ''IN_PROGRESS''" and "key \<noteq> []"
  shows "\<exists>w'. check_key key path e w = (Val (Replay \<lparr>rec_key = key, rec_path = path, rec_status = ik_status row,
     rec_code = (case ik_code row of None \<Rightarrow> 0 | Some n \<Rightarrow> n),
     rec_body = (case ik_body row of None \<Rightarrow> JNull | Some b \<Rightarrow> b)\<rparr>), w') \<and> same_db w w'"
proof -
  obtain w' where run: "checkOrRegister key path e w = (Val (Some \<lparr>rec_key = key, rec_path = path, rec_status = ik_status row,
     rec_code = (case ik_code row of None \<Rightarrow> 0 | Some n \<Rightarrow> n),
     rec_body = (case ik_body row of None \<Rightarrow> JNull | Some b \<Rightarrow> b)\<rparr>), w')" and "same_db w w'"
    using check_known [OF assms(2,3,1), of path] by blast
  then show ?thesis using assms(4) by (simp add: check_key_def mcatch_def mbind_def mret_def)
qed

text \<open>A well-formed request with a recorded key gets the recorded answer, with the identifiers of this
  request, and changes no table.\<close>

lemma initiate_replays:
  assumes "fault e = (\<lambda>_. None)" and "hr_header req ''Idempotency-Key'' = key" and "key \<noteq> []"
    and auth: "au_valid (credentials e (cur w) req)" and rate: "fst (rate_step (now e) (hr_addr req) (gate w))"
    and q: "parse_json e (hr_body req) = Some q" "hr_body req \<noteq> []" "jcontains q ''channelId''" "jcontains q ''data''"
    and row: "find_idem key (cur w) = Some row" "ik_status row \<noteq> ''IN_PROGRESS''" "ik_code row = Some n"
      "ik_body row = Some j" "is_object j"
  shows "\<exists>w'. initiate req e w = (Val \<lparr>rs_status = n, rs_body = jset (jset j ''requestId'' (JStr (cur_uuid e)))
     ''transactionUuid'' (JStr (cur_uuid e)), rs_role = header_role e (cur w) req\<rparr>, w') \<and> same_db w w'"
proof -
  let ?role = "header_role e (cur w) req"
  obtain v where v: "same_db w v" "gate v = gate (enter w)"
    and eq: "initiate req e w = map_prod id leave (initiate_allowed key ?role req e v)"
    by (rule initiate_admitted [OF assms(1) auth, unfolded assms(2)])
  obtain g where g: "rate_step (now e) (hr_addr req) (gate v) = (True, g)"
    using rate rate_step_enter [of "now e" "hr_addr req" w] v(2) by (cases "rate_step (now e) (hr_addr req) (gate v)") simp
  let ?v = "v\<lparr>gate := g\<rparr>"
  have "cur ?v = cur w" using v(1) by (simp add: same_db_cur)
  with check_key_replays [OF assms(1) _ row(2) assms(3), of ?v "''/transaction/initiate''"] row(1) obtain w' where
    k: "check_key key ''/transaction/initiate'' e ?v = (Val (Replay \<lparr>rec_key = key, rec_path = ''/transaction/initiate'',
      rec_status = ik_status row, rec_code = n, rec_body = j\<rparr>), w')" and w': "same_db ?v w'"
    using row(3,4) by auto
  have "initiate_allowed key ?role req e v = (Val \<lparr>rs_status = n, rs_body = jset (jset j ''requestId'' (JStr (cur_uuid e)))
     ''transactionUuid'' (JStr (cur_uuid e)), rs_role = ?role\<rparr>, w')"
    using q by (simp add: initiate_allowed_def rateLimitOK_def with_gate_def g run_flow initiate_body_def with_key_def k
        send_def attach_object [OF row(5)])
  then show ?thesis using eq v(1) w' by (auto simp: same_db_def)
qed



section \<open>A retry over the rate limit\<close>

text \<open>C30: A retry that hits the rate limit destroys the recorded answer: the row of its key, whatever it held,
  becomes the failure with status 429, so that a payment that was answered with success is answered
  with 429 from then on.\<close>

theorem retry_over_limit_forgets:
  assumes "fault e = (\<lambda>_. None)" and "hr_header req ''Idempotency-Key'' = key" and "key \<noteq> []"
    and "au_valid (credentials e (cur w) req)" and rate: "\<not> fst (rate_step (now e) (hr_addr req) (gate w))"
    and row: "find_idem key (cur w) = Some row"
  shows "\<exists>r w'. initiate req e w = (Val r, w') \<and> rs_status r = 429 \<and>
     find_idem key (cur w') = Some (row\<lparr>ik_status := ''FAILED'', ik_code := Some 429, ik_body := Some (rs_body r)\<rparr>)"
proof -
  let ?role = "header_role e (cur w) req"
  obtain v where v: "same_db w v" "gate v = gate (enter w)"
    and eq: "initiate req e w = map_prod id leave (initiate_allowed key ?role req e v)"
    by (rule initiate_admitted [OF assms(1,4), unfolded assms(2)])
  obtain g where g: "rate_step (now e) (hr_addr req) (gate v) = (False, g)"
    using rate rate_step_enter [of "now e" "hr_addr req" w] v(2) by (cases "rate_step (now e) (hr_addr req) (gate v)") simp
  have "is_object rate_limited" by (simp add: rate_limited_def err_def)
  then obtain r w1 where "initiate_allowed key ?role req e v = (Val r, w1)" and "rs_status r = 429"
    and "find_idem key (cur w1) = Some (row\<lparr>ik_status := ''FAILED'', ik_code := Some 429, ik_body := Some (rs_body r)\<rparr>)"
    using g row same_db_cur [OF v(1)] assms(1,3)
    by (auto simp: initiate_allowed_def rateLimitOK_def with_gate_def run_flow finish_failure_def finish_def attach_object
        update_key_def updateIdempotencyRecord_def sql_def ok_runs fail_count_def bump_def find_idem_upd)
  then show ?thesis by (auto simp: eq)
qed

definition paid_row :: idem_row where
  "paid_row = \<lparr>ik_key = ''i'', ik_path = ''/transaction/initiate'', ik_status = ''COMPLETED'', ik_code = Some 200, ik_body = Some JNull\<rparr>"

definition busy_world :: world where
  "busy_world = gate_world\<lparr>committed := (committed gate_world)\<lparr>idem := [paid_row]\<rparr>,
     gate := (gate gate_world)\<lparr>rate_buckets := (\<lambda>_. Some \<lparr>rb_count = 200, rb_start = 8640000\<rparr>)\<rparr>\<rparr>"

lemma retry_over_limit_forgets_witness:
  "\<exists>r w'. initiate gate_request gate_env busy_world = (Val r, w') \<and>
     find_idem ''i'' (cur w') = Some (paid_row\<lparr>ik_status := ''FAILED'', ik_code := Some 429, ik_body := Some (rs_body r)\<rparr>)"
proof -
  have "find_idem ''i'' (cur busy_world) = Some paid_row"
    by (simp add: busy_world_def gate_world_def find_idem_def paid_row_def cur_def)
  moreover have "\<not> fst (rate_step (now gate_env) (hr_addr gate_request) (gate busy_world))"
    by (simp add: busy_world_def rate_step_def gate_world_def demo_world_def EVICTION_INTERVAL_REQUESTS_def
        RATE_LIMIT_WINDOW_def RATE_LIMIT_MAX_def Let_def)
  moreover have "credentials gate_env (cur busy_world) gate_request = credentials gate_env (committed gate_world) gate_request"
    by (simp add: credentials_def busy_world_def cur_def)
  ultimately show ?thesis
    using retry_over_limit_forgets [of gate_env gate_request "''i''" busy_world paid_row] by (auto simp: freeze_key gate_admits)
qed

end
