(* ===== verification/Access.thy ===== *)
theory Access
  imports Replay
begin

text \<open>
  Who gets through the router: no table but that of the idempotency keys changes without valid
  credentials and the permission for the channel, and how many requests of one address the rate
  limit lets through.
\<close>

section \<open>Authorisation\<close>

text \<open>The channel whose permission a request needs: that of its route, or that named in its body.\<close>

definition required_channel :: "env \<Rightarrow> string \<Rightarrow> http_request \<Rightarrow> string option" where
  "required_channel e path req =
     (if path = ''/transaction/initiate'' then (case parse_json e (hr_body req) of
          None \<Rightarrow> None
        | Some request \<Rightarrow> (case get_str (member request ''channelId'') of Val ch \<Rightarrow> Some ch | _ \<Rightarrow> None))
      else map_option fst (map_of json_routes path))"

text \<open>\<^verbatim>\<open>initiate\<close> checks the role it finds in the header of its own answer, where a role that is
  empty or not a header value is missing; it then checks nothing.\<close>

definition authorised :: "env \<Rightarrow> db \<Rightarrow> string \<Rightarrow> http_request \<Rightarrow> bool" where
  "authorised e d path req \<longleftrightarrow> (let auth = credentials e d req in au_valid auth \<and>
     (\<exists>ch. required_channel e path req = Some ch \<and> (checkPermission (au_role auth) ch \<or>
        path = ''/transaction/initiate'' \<and> header_role e d req = [])))"

definition but_keys :: "db \<Rightarrow> db" where
  "but_keys d = d\<lparr>idem := []\<rparr>"

interpretation router: key_tables "\<lambda>d. but_keys d = x" for x
  by unfold_locales (simp_all add: but_keys_def)

lemma keeps_lift_bind: "(\<And>x. r = Val x \<Longrightarrow> keeps e I (f x)) \<Longrightarrow> keeps e I (mbind (mlift r) f)"
  by (cases r) (simp_all add: mbind_def mlift_def keeps_def triple_def wp_def)

lemma keeps_asks_bind: "keeps e I (f (g e)) \<Longrightarrow> keeps e I (mbind (asks g) f)"
  by (simp add: mbind_def asks_def keeps_def triple_def wp_def)

text \<open>Below the role check only the table of keys changes.\<close>

lemma initiate_refused:
  assumes "\<And>ch. required_channel e ''/transaction/initiate'' req = Some ch \<Longrightarrow> role \<noteq> [] \<and> \<not> checkPermission role ch"
  shows "keeps e (holds (\<lambda>d. but_keys d = x)) (initiate_allowed key role req)"
proof -
  have dispatch: "keeps e (holds (\<lambda>d. but_keys d = x)) (initiate_dispatch key role req q)"
    if "parse_json e (hr_body req) = Some q" for q
    unfolding initiate_dispatch_def
    by (intro keeps_lift_bind) (use assms that in \<open>auto simp: required_channel_def intro!: router.answers\<close>)
  have body: "keeps e (holds (\<lambda>d. but_keys d = x)) (initiate_body key role req)"
    unfolding initiate_body_def
    by (intro keeps_if keeps_asks_bind keeps_option_eq router.answers router.with_key dispatch)
  show ?thesis
    unfolding initiate_allowed_def by (intro keeps_intros router.answers router.counters body)
qed

lemma authorised_but_keys [simp]: "authorised e (but_keys d) path req = authorised e d path req"
  by (simp add: authorised_def header_role_def credentials_def but_keys_def)

lemma keeps_auth:
  assumes "\<And>auth. auth = credentials e x req \<Longrightarrow> au_valid auth \<Longrightarrow> keeps e (holds (\<lambda>d. but_keys d = x)) (f auth)"
    and "\<And>auth. \<not> au_valid auth \<Longrightarrow> keeps e (holds (\<lambda>d. but_keys d = x)) (f auth)"
  shows "keeps e (holds (\<lambda>d. but_keys d = x)) (mbind (resolveAuth req) f)"
proof (rule keepsI, rule wpI)
  fix w r w'
  assume h: "holds (\<lambda>d. but_keys d = x) w" and run: "mbind (resolveAuth req) f e w = (r, w')"
  obtain r1 w1 where auth: "resolveAuth req e w = (r1, w1)" by (cases "resolveAuth req e w")
  have h1: "holds (\<lambda>d. but_keys d = x) w1"
    using keepsD [OF reader_holds [OF reader_resolveAuth] h auth] .
  show "holds (\<lambda>d. but_keys d = x) w'"
  proof (cases r1)
    case (Val a)
    have "credentials e (but_keys d) req = credentials e d req" for d by (simp add: credentials_def but_keys_def)
    then have "credentials e (cur w) req = credentials e x req" using h unfolding holds_def by metis
    with resolveAuth_valid auth Val have "au_valid a \<Longrightarrow> a = credentials e x req" by metis
    with assms have "keeps e (holds (\<lambda>d. but_keys d = x)) (f a)" by blast
    from keepsD [OF this h1] run auth Val show ?thesis by (simp add: mbind_def)
  qed (use run auth h1 in \<open>simp_all add: mbind_def\<close>)
qed

lemma initiate_unauthorised:
  assumes "\<not> authorised e x ''/transaction/initiate'' req"
  shows "keeps e (holds (\<lambda>d. but_keys d = x)) (initiate req)"
proof -
  have "keeps e (holds (\<lambda>d. but_keys d = x)) (initiate_allowed key (if is_field_value (au_role auth) then au_role auth else []) req)"
    if "auth = credentials e x req" and "au_valid auth" for auth key
    using assms that by (intro initiate_refused) (auto simp: authorised_def header_role_def Let_def split: if_splits)
  then show ?thesis
    unfolding initiate_def by (intro router.guarded keeps_then keeps_auth frame_intros keeps_if router.counters keeps_ret) simp_all
qed

lemma post_unauthorised:
  assumes "\<not> authorised e x path req" and "map_of json_routes path = Some (ch, h)" and "path \<noteq> ''/transaction/initiate''"
  shows "keeps e (holds (\<lambda>d. but_keys d = x)) (registerJsonPost path ch h req)"
  unfolding registerJsonPost_def
  by (intro router.guarded keeps_then keeps_auth frame_intros keeps_if router.counters keeps_ret)
    (use assms in \<open>auto simp: authorised_def required_channel_def Let_def\<close>)

lemma auth_token_keeps: "keeps e (holds P) (auth_token req)"
  unfolding auth_token_def Let_def validateApiKey_def getApiKeyDetails_def by (intro keeps_intros frame_intros)



section \<open>The rate limit\<close>

text \<open>Requests as pairs of a time and an address; the first number counts those of one address that
  were let through.\<close>

fun rate_run :: "(nat \<times> string) list \<Rightarrow> gate_state \<Rightarrow> string list \<times> gate_state" where
  "rate_run [] g = ([], g)"
| "rate_run ((t, ip) # calls) g = (case rate_step t ip g of (ok, g1) \<Rightarrow> (case rate_run calls g1 of (ips, g2) \<Rightarrow>
     (if ok then ip # ips else ips, g2)))"

text \<open>How many more requests of an address the limit can let through in the minute from \<open>a\<close>.\<close>

fun rate_left :: "nat \<Rightarrow> rate_bucket option \<Rightarrow> nat" where
  "rate_left a None = (if 60 \<le> a then 200 else 400)"
| "rate_left a (Some b) = (if a \<le> rb_start b then 200 - rb_count b else 200 + (200 - rb_count b))"

lemmas rate_defs = rate_step_def evictStaleBuckets_def RATE_LIMIT_WINDOW_def RATE_LIMIT_MAX_def STALE_BUCKET_TTL_def

lemma rate_left_evict:
  "t < a + 60 \<Longrightarrow> rate_left a (evictStaleBuckets t bs ip) \<le> rate_left a (bs ip)"
  by (auto simp: rate_defs split: option.split)

definition rate_bucket_at :: "nat \<Rightarrow> rate_bucket option \<Rightarrow> rate_bucket" where
  "rate_bucket_at t x = (let b = (case x of None \<Rightarrow> \<lparr>rb_count = 0, rb_start = 0\<rparr> | Some b \<Rightarrow> b) in
     if int t - int (rb_start b) \<ge> 60 then \<lparr>rb_count = 0, rb_start = t\<rparr> else b)"

lemma rate_left_call:
  assumes "a \<le> t" and "t < a + 60"
  shows "if rb_count (rate_bucket_at t x) \<ge> 200 then rate_left a (Some (rate_bucket_at t x)) \<le> rate_left a x
    else rate_left a (Some ((rate_bucket_at t x)\<lparr>rb_count := rb_count (rate_bucket_at t x) + 1\<rparr>)) + 1 \<le> rate_left a x"
  using assms by (auto simp: rate_bucket_at_def Let_def split: option.split)

lemma rate_step_bucket:
  assumes "rate_step t ip g = (ok, g')"
  obtains bs where "bs = rate_buckets g \<or> bs = evictStaleBuckets t (rate_buckets g)"
    "ok \<longleftrightarrow> rb_count (rate_bucket_at t (bs ip)) < 200"
    "rate_buckets g' = bs(ip \<mapsto> if ok then (rate_bucket_at t (bs ip))\<lparr>rb_count := rb_count (rate_bucket_at t (bs ip)) + 1\<rparr>
       else rate_bucket_at t (bs ip))"
proof (cases "eviction_counter g + 1 \<ge> EVICTION_INTERVAL_REQUESTS")
  case True
  with assms that [of "evictStaleBuckets t (rate_buckets g)"] show ?thesis
    by (auto simp: rate_step_def rate_bucket_at_def RATE_LIMIT_WINDOW_def RATE_LIMIT_MAX_def Let_def split: if_splits)
next
  case False
  with assms that [of "rate_buckets g"] show ?thesis
    by (auto simp: rate_step_def rate_bucket_at_def RATE_LIMIT_WINDOW_def RATE_LIMIT_MAX_def Let_def split: if_splits)
qed

lemma rate_left_step:
  assumes "rate_step t ip g = (ok, g')" and "a \<le> t" and "t < a + 60"
  shows "rate_left a (rate_buckets g' ip') + (if ok \<and> ip' = ip then 1 else 0) \<le> rate_left a (rate_buckets g ip')"
proof -
  obtain bs where bs: "bs = rate_buckets g \<or> bs = evictStaleBuckets t (rate_buckets g)"
    and ok: "ok \<longleftrightarrow> rb_count (rate_bucket_at t (bs ip)) < 200"
    and g': "rate_buckets g' = bs(ip \<mapsto> if ok then (rate_bucket_at t (bs ip))\<lparr>rb_count := rb_count (rate_bucket_at t (bs ip)) + 1\<rparr>
       else rate_bucket_at t (bs ip))"
    by (rule rate_step_bucket [OF assms(1)])
  have evict: "rate_left a (bs i) \<le> rate_left a (rate_buckets g i)" for i
    using bs rate_left_evict [OF assms(3)] by auto
  show ?thesis
    using rate_left_call [OF assms(2,3), of "bs ip"] evict [of ip] evict [of ip'] ok
    by (cases "ip' = ip"; cases ok) (simp_all add: g' del: rate_left.simps)
qed

lemma rate_run_bound:
  assumes "\<forall>(t, ip) \<in> set calls. a \<le> t \<and> t < a + 60" and "rate_run calls g = (ips, g')"
  shows "count_list ips ip \<le> rate_left a (rate_buckets g ip)"
  using assms
proof (induction calls arbitrary: g ips)
  case (Cons call calls)
  obtain t i ok g1 ips1 where eqs: "call = (t, i)" "rate_step t i g = (ok, g1)" "rate_run calls g1 = (ips1, g')"
    using Cons.prems(2) by (cases call; auto split: prod.splits)
  with Cons.IH [of g1 ips1] Cons.prems rate_left_step [OF eqs(2), of a ip] show ?case
    by (auto split: if_splits)
qed simp

text \<open>C29: However the requests arrive, the rate limit lets through at most twice its maximum of one address within
  any sixty seconds, whatever other addresses send and whichever buckets are evicted in between.\<close>

theorem rate_limit_bound:
  assumes "\<forall>(t, ip) \<in> set calls. a \<le> t \<and> t < a + nat RATE_LIMIT_WINDOW" and "rate_run calls g = (ips, g')"
  shows "count_list ips ip \<le> 2 * RATE_LIMIT_MAX"
proof -
  have "rate_left a x \<le> 2 * RATE_LIMIT_MAX" for x
    by (cases x) (simp_all add: RATE_LIMIT_MAX_def le_diff_conv)
  with rate_run_bound [of calls a g ips g' ip] assms show ?thesis
    by (fastforce simp: RATE_LIMIT_WINDOW_def intro: order_trans)
qed

text \<open>A burst inside a window is let through up to the maximum; a second one after the window ends, so that
  twice the maximum less one can pass within a minute.\<close>

lemma rate_burst:
  assumes "rate_buckets g ip = Some \<lparr>rb_count = c, rb_start = s\<rparr>" and "s \<le> t" and "t < s + 60" and "c + n \<le> 200"
    and "eviction_counter g + n < 10000"
  shows "\<exists>g'. rate_run (replicate n (t, ip)) g = (replicate n ip, g') \<and>
     rate_buckets g' ip = Some \<lparr>rb_count = c + n, rb_start = s\<rparr> \<and> eviction_counter g' = eviction_counter g + n"
  using assms
proof (induction n arbitrary: c g)
  case (Suc n)
  define g1 where "g1 = g\<lparr>rate_buckets := (rate_buckets g)(ip \<mapsto> \<lparr>rb_count = c + 1, rb_start = s\<rparr>),
    eviction_counter := eviction_counter g + 1\<rparr>"
  have step: "rate_step t ip g = (True, g1)"
    using Suc.prems by (simp add: rate_step_def g1_def Let_def EVICTION_INTERVAL_REQUESTS_def RATE_LIMIT_WINDOW_def RATE_LIMIT_MAX_def)
  obtain g' where "rate_run (replicate n (t, ip)) g1 = (replicate n ip, g')"
    "rate_buckets g' ip = Some \<lparr>rb_count = c + 1 + n, rb_start = s\<rparr>" "eviction_counter g' = eviction_counter g1 + n"
    using Suc.IH [of g1 "c + 1"] Suc.prems by (auto simp: g1_def)
  then show ?case by (simp add: step) (simp add: g1_def)
qed simp

lemma rate_run_append:
  "rate_run (xs @ ys) g = (case rate_run xs g of (a, g1) \<Rightarrow> (case rate_run ys g1 of (b, g2) \<Rightarrow> (a @ b, g2)))"
  by (induction xs arbitrary: g) (auto split: prod.split)

definition two_bursts :: "(nat \<times> string) list" where
  "two_bursts = replicate 199 (119, ''x'') @ replicate 200 (120, ''x'')"

lemma rate_limit_bound_witness:
  "\<exists>ips g'. rate_run two_bursts ((gate demo_world)\<lparr>rate_buckets := [''x'' \<mapsto> \<lparr>rb_count = 1, rb_start = 60\<rparr>]\<rparr>) = (ips, g') \<and>
     count_list ips ''x'' = 399 \<and> 399 \<le> 2 * RATE_LIMIT_MAX"
proof -
  define g where "g = (gate demo_world)\<lparr>rate_buckets := [''x'' \<mapsto> \<lparr>rb_count = 1, rb_start = 60\<rparr>]\<rparr>"
  have g0: "rate_buckets g ''x'' = Some \<lparr>rb_count = 1, rb_start = 60\<rparr>" "eviction_counter g = 0"
    by (simp_all add: g_def demo_world_def)
  obtain g1 where r1: "rate_run (replicate 199 (119, ''x'')) g = (replicate 199 ''x'', g1)"
    and g1: "rate_buckets g1 ''x'' = Some \<lparr>rb_count = 200, rb_start = 60\<rparr>" "eviction_counter g1 = 199"
    using rate_burst [OF g0(1), of 119 199] g0(2) by auto
  define g2 where "g2 = g1\<lparr>rate_buckets := (rate_buckets g1)(''x'' \<mapsto> \<lparr>rb_count = 1, rb_start = 120\<rparr>), eviction_counter := 200\<rparr>"
  have step: "rate_step 120 ''x'' g1 = (True, g2)"
    using g1 by (simp add: rate_step_def g2_def Let_def EVICTION_INTERVAL_REQUESTS_def RATE_LIMIT_WINDOW_def RATE_LIMIT_MAX_def)
  obtain g3 where r2: "rate_run (replicate 199 (120, ''x'')) g2 = (replicate 199 ''x'', g3)"
    using rate_burst [of g2 "''x''" 1 120 120 199] by (auto simp: g2_def)
  have "replicate 200 (120, ''x'') = (120::nat, ''x'') # replicate 199 (120, ''x'')"
    by (simp flip: replicate_Suc)
  then have run: "rate_run two_bursts g = (replicate 199 ''x'' @ ''x'' # replicate 199 ''x'', g3)"
    by (simp add: two_bursts_def rate_run_append r1 step r2)
  have n: "count_list (replicate 199 ''x'' @ ''x'' # replicate 199 ''x'') ''x'' = 399"
    by (simp add: count_list_eq_length_filter)
  have "\<forall>(t, ip) \<in> set two_bursts. 119 \<le> t \<and> t < 119 + nat RATE_LIMIT_WINDOW"
    by (auto simp: two_bursts_def RATE_LIMIT_WINDOW_def)
  from rate_limit_bound [OF this run, of "''x''"] run n show ?thesis unfolding g_def by auto
qed

end
