(* ===== verification/Sanitizer.thy ===== *)
theory Sanitizer
  imports Router
begin

text \<open>
  What the log may show of a request: the sanitiser of \<^verbatim>\<open>parser&router.cpp\<close> against its
  specification, the relation between values that differ at most below the sensitive keys.
\<close>

inductive same_public :: "json \<Rightarrow> json \<Rightarrow> bool" where
  obj: "list_all2 (\<lambda>x y. fst x = fst y \<and> (fst x \<in> set kSensitiveKeys \<or> same_public (snd x) (snd y))) kvs kvs' \<Longrightarrow>
    same_public (JObj kvs) (JObj kvs')"
| arr: "list_all2 same_public xs ys \<Longrightarrow> same_public (JArr xs) (JArr ys)"
| leaf: "\<not> is_object j \<Longrightarrow> (\<And>xs. j \<noteq> JArr xs) \<Longrightarrow> same_public j j"

inductive_simps same_public_simps [simp]:
  "same_public (JObj kvs) j" "same_public (JArr xs) j" "same_public JNull j" "same_public (JBool b) j"
  "same_public (JInt i) j" "same_public (JNum x) j" "same_public (JStr s) j"

lemma map_eq_rel: "map f xs = map f ys \<longleftrightarrow> list_all2 (\<lambda>x y. f x = f y) xs ys"
  by (simp add: list.rel_eq [symmetric] list.rel_map)

lemma sanitize_leaf: "sanitizeForLog j' = j \<Longrightarrow> \<not> is_object j \<Longrightarrow> (\<And>xs. j \<noteq> JArr xs) \<Longrightarrow> j' = j"
  by (cases j') auto

lemma sanitize_iff: "sanitizeForLog j = sanitizeForLog j' \<longleftrightarrow> same_public j j'"
proof (induction j arbitrary: j')
  case (JObj kvs)
  let ?f = "\<lambda>(k, v). (k, if k \<in> set kSensitiveKeys then JStr ''****'' else sanitizeForLog v)"
  have "list_all2 (\<lambda>x y. ?f x = ?f y) kvs kvs' =
    list_all2 (\<lambda>x y. fst x = fst y \<and> (fst x \<in> set kSensitiveKeys \<or> same_public (snd x) (snd y))) kvs kvs'" for kvs'
  proof (rule list.rel_cong [OF refl refl])
    fix x y :: "string \<times> json"
    assume "x \<in> set kvs"
    then have "sanitizeForLog (snd x) = sanitizeForLog (snd y) \<longleftrightarrow> same_public (snd x) (snd y)"
      using JObj.IH [of x "snd x"] by (simp add: snds.intros prod_set_simps)
    then show "?f x = ?f y \<longleftrightarrow> fst x = fst y \<and> (fst x \<in> set kSensitiveKeys \<or> same_public (snd x) (snd y))"
      by (auto simp: case_prod_beta)
  qed
  then show ?case by (cases j') (auto simp: map_eq_rel)
next
  case (JArr xs)
  have "list_all2 (\<lambda>x y. sanitizeForLog x = sanitizeForLog y) xs ys = list_all2 same_public xs ys" for ys
    using JArr.IH by (intro list.rel_cong_simp) auto
  then show ?case by (cases j') (auto simp: map_eq_rel)
qed (auto dest: sanitize_leaf [OF sym])

text \<open>C31: The log shows nothing of a sensitive member: two bodies are logged alike exactly when they are alike
  everywhere but below the keys of \<^verbatim>\<open>kSensitiveKeys\<close>, at any depth.\<close>

theorem sanitize_noninterference: "sanitizeForLog j = sanitizeForLog j' \<longleftrightarrow> same_public j j'"
  by (rule sanitize_iff)

end
