(* ===== verification/DbConfig.thy ===== *)
theory DbConfig
  imports Session
begin

text \<open>
  \<^verbatim>\<open>DbConfig.cpp\<close>: the credentials of the database in \<^verbatim>\<open>db.ini\<close>, written in plain text by
  hand and replaced by a sealed file at the first start. Key derivation and the cipher are OpenSSL's
  and are parameters, as are the host name, the files and what becomes of writing them.
\<close>

section \<open>Credentials and parameters\<close>

record DbCredentials =
  host :: string
  port :: int
  user :: string
  pass :: string
  dbName :: string

definition default_creds :: DbCredentials where
  "default_creds = \<lparr>host = [], port = 33060, user = [], pass = [], dbName = []\<rparr>"

text \<open>\<open>hostname\<close> and \<open>random_nonce\<close> are \<open>None\<close> when the system call fails. \<open>pbkdf2 password salt rounds\<close>
  is a key of 32 bytes. \<open>exe_dir\<close> is the directory of the executable where the platform gives it. Of a write,
  \<open>reaches_disk\<close> is the text that is in the file afterwards; the code does not look.\<close>

record config_env =
  hostname :: "string option"
  random_nonce :: "string option"
  pbkdf2 :: "string \<Rightarrow> string \<Rightarrow> nat \<Rightarrow> string option"
  seal :: "string \<Rightarrow> string \<Rightarrow> string \<Rightarrow> string \<times> string"
  unseal :: "string \<Rightarrow> string \<Rightarrow> string \<Rightarrow> string \<Rightarrow> string option"
  exe_dir :: "string option"
  can_write :: "string \<Rightarrow> bool"
  can_rename :: bool
  reaches_disk :: "string \<Rightarrow> string"

type_synonym files = "string \<Rightarrow> string option"

definition PEPPER :: string where "PEPPER = ''CardAPIServer-v1-rohan-secure-2026''"
definition PBKDF2_ITER :: nat where "PBKDF2_ITER = 200000"
definition NONCE_LEN :: nat where "NONCE_LEN = 12"
definition TAG_LEN_cfg :: nat where "TAG_LEN_cfg = 16"
definition MAGIC :: string where "MAGIC = ''DBCFG_V1_ENC''"

definition newline :: char where "newline = CHR 0x0A"
definition CR :: char where "CR = CHR 0x0D"

section \<open>Hexadecimal text\<close>

definition hex_digit :: "nat \<Rightarrow> char" where
  "hex_digit n = (if n < 10 then char_of (48 + n) else char_of (87 + n))"

definition toHex :: "string \<Rightarrow> string" where
  "toHex buf = concat (map (\<lambda>c. let n = of_char c in [hex_digit (n div 16), hex_digit (n mod 16)]) buf)"

definition hex_value :: "char \<Rightarrow> nat option" where
  "hex_value c = (let n = of_char c in
     if 48 \<le> n \<and> n \<le> 57 then Some (n - 48)
     else if 65 \<le> n \<and> n \<le> 70 then Some (n - 55)
     else if 97 \<le> n \<and> n \<le> 102 then Some (n - 87) else None)"

text \<open>\<^verbatim>\<open>ss >> std::hex >> byte\<close> on two characters: blanks are skipped, a sign is read, the rest of
  the text is ignored, and \<^verbatim>\<open>byte\<close> is zero when no digit is found.\<close>

fun read_hex :: "nat \<Rightarrow> string \<Rightarrow> nat" where
  "read_hex n [] = n"
| "read_hex n (c # cs) = (case hex_value c of None \<Rightarrow> n | Some d \<Rightarrow> read_hex (16 * n + d) cs)"

definition hex_byte :: "string \<Rightarrow> char" where
  "hex_byte s = (case dropWhile isspace s of
      [] \<Rightarrow> char_of (0::nat)
    | c # cs \<Rightarrow> if c = CHR ''-'' then char_of ((2 ^ 32 - read_hex 0 cs) mod 256)
               else if c = CHR ''+'' then char_of (read_hex 0 cs)
               else char_of (read_hex 0 (c # cs)))"

fun hex_pairs :: "string \<Rightarrow> string" where
  "hex_pairs (a # b # cs) = hex_byte [a, b] # hex_pairs cs"
| "hex_pairs _ = []"

definition fromHex :: "string \<Rightarrow> string outcome" where
  "fromHex hex = (if length hex mod 2 \<noteq> 0 then Exn (RuntimeErr ''[DbConfig] Invalid hex string (odd length)'')
     else Val (hex_pairs hex))"

section \<open>Plain text\<close>

text \<open>The lines that \<^verbatim>\<open>std::getline\<close> reads one after the other.\<close>

function lines :: "string \<Rightarrow> string list" where
  "lines s = (if s = [] then [] else takeWhile (\<lambda>c. c \<noteq> newline) s # lines (drop 1 (dropWhile (\<lambda>c. c \<noteq> newline) s)))"
  by pat_completeness auto
termination
proof (relation "measure length")
  fix s :: string
  assume "s \<noteq> []"
  moreover have "length (dropWhile (\<lambda>c. c \<noteq> newline) s) \<le> length s" by (rule length_dropWhile_le)
  ultimately show "(drop 1 (dropWhile (\<lambda>c. c \<noteq> newline) s), s) \<in> measure length"
    by (cases s) (auto simp: length_dropWhile_le le_imp_less_Suc diff_le_self intro: le_less_trans [OF diff_le_self])
qed simp

declare lines.simps [simp del]

definition strip_cr :: "string \<Rightarrow> string" where
  "strip_cr s = (if s \<noteq> [] \<and> last s = CR then butlast s else s)"

text \<open>\<^verbatim>\<open>key = val\<close> at the first \<^verbatim>\<open>=\<close> of a line that is neither blank nor a header nor a comment.\<close>

definition split_line :: "string \<Rightarrow> (string \<times> string) option" where
  "split_line raw = (let line = strip_cr raw in
     if line = [] \<or> hd line \<in> {CHR ''['', CHR ''#'', CHR '';''} then None
     else if CHR ''='' \<notin> set line then None
     else Some (trim_space (takeWhile (\<lambda>c. c \<noteq> CHR ''='') line), trim_space (drop 1 (dropWhile (\<lambda>c. c \<noteq> CHR ''='') line))))"

definition set_field :: "string \<Rightarrow> string \<Rightarrow> DbCredentials \<times> bool \<Rightarrow> (DbCredentials \<times> bool) outcome" where
  "set_field key val state = (case state of (creds, anyField) \<Rightarrow>
     if key = ''host'' then Val (creds\<lparr>host := val\<rparr>, True)
     else if key = ''port'' then (case stoi val of
         None \<Rightarrow> Exn (InvalidArg ''stoi'') | Some n \<Rightarrow> Val (creds\<lparr>port := n\<rparr>, True))
     else if key = ''user'' then Val (creds\<lparr>user := val\<rparr>, True)
     else if key = ''pass'' then Val (creds\<lparr>pass := val\<rparr>, True)
     else if key = ''name'' then Val (creds\<lparr>dbName := val\<rparr>, True)
     else Val (creds, anyField))"

fun parse_lines :: "string list \<Rightarrow> DbCredentials \<times> bool \<Rightarrow> (DbCredentials \<times> bool) outcome" where
  "parse_lines [] state = Val state"
| "parse_lines (line # rest) state = (case split_line line of
      None \<Rightarrow> parse_lines rest state
    | Some (key, val) \<Rightarrow> obind (set_field key val state) (parse_lines rest))"

definition missing :: "string \<Rightarrow> exn" where
  "missing field = RuntimeErr (''[DbConfig] db.ini missing '' @ [CHR 0x27] @ field @ [CHR 0x27])"

definition parsePlainText :: "string \<Rightarrow> DbCredentials outcome" where
  "parsePlainText content = obind (parse_lines (lines content) (default_creds, False)) (\<lambda>(creds, anyField).
     if \<not> anyField then Exn (RuntimeErr ''[DbConfig] db.ini parsed but no recognised fields found'')
     else if host creds = [] then Exn (missing ''host'')
     else if user creds = [] then Exn (missing ''user'')
     else if pass creds = [] then Exn (missing ''pass'')
     else if dbName creds = [] then Exn (missing ''name'')
     else Val creds)"

definition serializePlain :: "DbCredentials \<Rightarrow> string" where
  "serializePlain c = ''[database]'' @ [newline] @ ''host='' @ host c @ [newline] @ ''port='' @ int_str (port c) @ [newline] @
     ''user='' @ user c @ [newline] @ ''pass='' @ pass c @ [newline] @ ''name='' @ dbName c @ [newline]"

section \<open>The sealed file\<close>

definition deriveKey :: "config_env \<Rightarrow> string outcome" where
  "deriveKey c = (case hostname c of
      None \<Rightarrow> Exn (RuntimeErr ''[DbConfig] gethostname() failed'')
    | Some h \<Rightarrow> (case pbkdf2 c PEPPER (h @ ''::'' @ PEPPER) PBKDF2_ITER of
        None \<Rightarrow> Exn (RuntimeErr ''[DbConfig] PBKDF2 key derivation failed'')
      | Some key \<Rightarrow> Val key))"

definition encryptCredentials :: "config_env \<Rightarrow> DbCredentials \<Rightarrow> string outcome" where
  "encryptCredentials c cr = obind (deriveKey c) (\<lambda>key. case random_nonce c of
      None \<Rightarrow> Exn (RuntimeErr (''[DbConfig] RAND_bytes failed '' @ em_dash @ '' cannot generate nonce''))
    | Some nonce \<Rightarrow> (case seal c key nonce (serializePlain cr) of (ciphertext, tag) \<Rightarrow>
        Val (MAGIC @ [newline] @ toHex nonce @ [newline] @ toHex tag @ [newline] @ toHex ciphertext @ [newline])))"

definition open_sealed :: "config_env \<Rightarrow> string \<Rightarrow> string \<Rightarrow> string \<Rightarrow> DbCredentials outcome" where
  "open_sealed c nonceHex tagHex cipherHex =
     obind (fromHex (strip_cr nonceHex)) (\<lambda>nonce.
     obind (fromHex (strip_cr tagHex)) (\<lambda>tag.
     obind (fromHex (strip_cr cipherHex)) (\<lambda>ciphertext.
     obind (deriveKey c) (\<lambda>key. case unseal c key nonce tag ciphertext of
         None \<Rightarrow> Exn (RuntimeErr (''[DbConfig] *** SECURITY ALERT: DB config file has been TAMPERED or moved to a '' @
            ''different machine '' @ em_dash @ '' authentication tag mismatch. Startup aborted to protect database credentials. ***''))
       | Some plaintext \<Rightarrow> parsePlainText plaintext))))"

definition decryptAndVerify :: "config_env \<Rightarrow> string \<Rightarrow> DbCredentials outcome" where
  "decryptAndVerify c content = (let ls = lines content in
     if length ls < 1 \<or> ls ! 0 \<noteq> MAGIC then Exn (RuntimeErr ''[DbConfig] Unrecognised file format'')
     else if length ls < 2 \<or> length (ls ! 1) \<noteq> NONCE_LEN * 2 then Exn (RuntimeErr ''[DbConfig] Corrupt nonce in config file'')
     else if length ls < 3 \<or> length (ls ! 2) \<noteq> TAG_LEN_cfg * 2 then Exn (RuntimeErr ''[DbConfig] Corrupt GCM tag in config file'')
     else if length ls < 4 \<or> ls ! 3 = [] then Exn (RuntimeErr ''[DbConfig] Corrupt ciphertext in config file'')
     else open_sealed c (ls ! 1) (ls ! 2) (ls ! 3))"

section \<open>Loading\<close>

definition basename :: "string \<Rightarrow> string" where
  "basename path = rev (takeWhile (\<lambda>c. c \<noteq> CHR ''/'' \<and> c \<noteq> CHR 0x5C) (rev path))"

definition candidates :: "config_env \<Rightarrow> string \<Rightarrow> string list" where
  "candidates c path = (let fname = basename path in [path, ''../'' @ fname, ''../../'' @ fname] @
     (case exe_dir c of None \<Rightarrow> [] | Some d \<Rightarrow> [d @ fname]))"

definition findFile :: "files \<Rightarrow> string list \<Rightarrow> string option" where
  "findFile fs ps = List.find (\<lambda>p. fs p \<noteq> None) ps"

text \<open>Replacing the plain text: a temporary file that is renamed, or a direct overwrite.\<close>

definition overwrite :: "config_env \<Rightarrow> string \<Rightarrow> string \<Rightarrow> files \<Rightarrow> unit outcome \<times> files" where
  "overwrite c resolved encrypted fs = (let tmp = resolved @ ''.tmp'' in
     if \<not> can_write c tmp then (Exn (RuntimeErr (''[DbConfig] Cannot write temporary file: '' @ tmp)), fs)
     else let fs = fs(tmp \<mapsto> reaches_disk c encrypted) in
       if can_rename c then (Val (), fs(resolved := fs tmp, tmp := None))
       else if \<not> can_write c resolved then
         (Exn (RuntimeErr (''[DbConfig] Cannot overwrite '' @ [CHR 0x27] @ resolved @ [CHR 0x27] @ '' with encrypted version'')), fs)
       else (Val (), fs(resolved \<mapsto> reaches_disk c encrypted, tmp := None)))"

definition is_encrypted :: "string \<Rightarrow> bool" where
  "is_encrypted content \<longleftrightarrow> length content \<ge> length MAGIC \<and> take (length MAGIC) content = MAGIC"

definition seal_file :: "config_env \<Rightarrow> string \<Rightarrow> string \<Rightarrow> files \<Rightarrow> DbCredentials outcome \<times> files" where
  "seal_file c resolved content fs = (case parsePlainText content of
      Val cr \<Rightarrow> (case encryptCredentials c cr of
          Val encrypted \<Rightarrow> (case overwrite c resolved encrypted fs of
              (Val _, fs') \<Rightarrow> (Val cr, fs')
            | (Exn x, fs') \<Rightarrow> (Exn x, fs')
            | (Abort, fs') \<Rightarrow> (Abort, fs'))
        | Exn x \<Rightarrow> (Exn x, fs)
        | Abort \<Rightarrow> (Abort, fs))
    | Exn x \<Rightarrow> (Exn x, fs)
    | Abort \<Rightarrow> (Abort, fs))"

definition load :: "config_env \<Rightarrow> string \<Rightarrow> files \<Rightarrow> DbCredentials outcome \<times> files" where
  "load c path fs = (case findFile fs (candidates c path) of
      None \<Rightarrow> (Exn (RuntimeErr (''[DbConfig] Could not find '' @ [CHR 0x27] @ basename path @ [CHR 0x27])), fs)
    | Some resolved \<Rightarrow> (let content = the (fs resolved) in
        if is_encrypted content then (decryptAndVerify c content, fs)
        else seal_file c resolved content fs))"

section \<open>Hexadecimal round trip\<close>

lemma hex_digit_laws:
  assumes "n < 16"
  shows "hex_value (hex_digit n) = Some n" "\<not> isspace (hex_digit n)" "hex_digit n \<noteq> CHR ''-''" "hex_digit n \<noteq> CHR ''+''"
    "hex_digit n \<noteq> newline" "hex_digit n \<noteq> CR"
proof -
  have v: "of_char (hex_digit n) = (if n < 10 then 48 + n else 87 + n)"
    using assms by (simp add: hex_digit_def)
  have ne: "hex_digit n \<noteq> c" if "of_char c < (48::nat)" for c
  proof
    assume "hex_digit n = c"
    with v that have "(if n < 10 then 48 + n else 87 + n) < (48::nat)" by simp
    then show False by (simp split: if_splits)
  qed
  show "hex_value (hex_digit n) = Some n" "\<not> isspace (hex_digit n)"
    using assms by (auto simp: hex_value_def isspace_def v Let_def)
  show "hex_digit n \<noteq> CHR ''-''" "hex_digit n \<noteq> CHR ''+''" "hex_digit n \<noteq> newline" "hex_digit n \<noteq> CR"
    by (rule ne; simp add: newline_def CR_def)+
qed

lemma toHex_simps [simp]: "toHex [] = []"
  "toHex (c # cs) = hex_digit (of_char c div 16) # hex_digit (of_char c mod 16) # toHex cs"
  by (simp_all add: toHex_def Let_def)

lemma length_toHex [simp]: "length (toHex s) = 2 * length s"
  by (induction s) simp_all

lemma byte_lt: "of_char c div 16 < (16::nat)"
proof -
  have "of_char c < (256::nat)" by simp
  then show ?thesis by (simp add: less_mult_imp_div_less)
qed

lemma hex_pairs_toHex: "hex_pairs (toHex s) = s"
proof (induction s)
  case (Cons c cs)
  let ?a = "of_char c div 16 :: nat" and ?b = "of_char c mod 16 :: nat"
  have "hex_byte [hex_digit ?a, hex_digit ?b] = char_of (16 * ?a + ?b)"
    using hex_digit_laws [OF byte_lt, of c] hex_digit_laws [of ?b] by (simp add: hex_byte_def)
  also have "16 * ?a + ?b = of_char c" by simp
  finally have "hex_byte [hex_digit ?a, hex_digit ?b] = c" by simp
  with Cons show ?case by simp
qed simp

lemma fromHex_toHex [simp]: "fromHex (toHex s) = Val s"
  by (simp add: fromHex_def hex_pairs_toHex)

lemma toHex_chars: "x \<in> set (toHex s) \<Longrightarrow> x \<noteq> newline \<and> x \<noteq> CR"
  by (induction s) (auto simp: hex_digit_laws byte_lt)

lemma strip_cr_toHex [simp]: "strip_cr (toHex s) = toHex s"
proof (cases "toHex s = []")
  case False
  then have "last (toHex s) \<noteq> CR" using toHex_chars [of "last (toHex s)" s] last_in_set by blast
  then show ?thesis by (simp add: strip_cr_def)
qed (simp add: strip_cr_def)

text \<open>A flipped bit of the file that only changes the case of a hexadecimal digit is not noticed.\<close>

lemma hex_case: "fromHex (map toupper (toHex s)) = Val s"
proof -
  have digit: "hex_value (toupper (hex_digit n)) = Some n \<and> \<not> isspace (toupper (hex_digit n)) \<and>
      toupper (hex_digit n) \<noteq> CHR ''-'' \<and> toupper (hex_digit n) \<noteq> CHR ''+''" if "n < 16" for n
  proof -
    have v: "of_char (toupper (hex_digit n)) = (if n < 10 then 48 + n else 55 + n)"
      using that by (simp add: hex_digit_def toupper_def)
    have "toupper (hex_digit n) \<noteq> c" if "of_char c < (48::nat)" for c
    proof
      assume "toupper (hex_digit n) = c"
      with v that have "(if n < 10 then 48 + n else 55 + n) < (48::nat)" by simp
      then show False by (simp split: if_splits)
    qed
    then show ?thesis using that by (auto simp: hex_value_def isspace_def v Let_def)
  qed
  have "hex_pairs (map toupper (toHex s)) = s"
  proof (induction s)
    case (Cons c cs)
    have "16 * (of_char c div 16) + of_char c mod 16 = (of_char c :: nat)" by simp
    then have "char_of (16 * (of_char c div 16) + of_char c mod 16 :: nat) = c" by (metis char_of_char)
    with Cons digit [OF byte_lt, of c] digit [of "of_char c mod 16"] show ?case by (simp add: hex_byte_def)
  qed simp
  then show ?thesis by (simp add: fromHex_def)
qed

section \<open>Reading what was written\<close>

lemma lines_line: "newline \<notin> set s \<Longrightarrow> lines (s @ newline # t) = s # lines t"
proof -
  assume n: "newline \<notin> set s"
  then have "takeWhile (\<lambda>c. c \<noteq> newline) (s @ newline # t) = s" "dropWhile (\<lambda>c. c \<noteq> newline) (s @ newline # t) = newline # t"
    by (induction s) auto
  then show ?thesis by (subst lines.simps) simp
qed

lemma lines_nil [simp]: "lines [] = []"
  by (simp add: lines.simps)

lemma lines_no_newline: "l \<in> set (lines s) \<Longrightarrow> newline \<notin> set l"
proof (induction s rule: lines.induct)
  case (1 s)
  then show ?case
    by (subst (asm) (2) lines.simps) (auto split: if_splits dest: set_takeWhileD)
qed

lemma trim_fixed: "v = [] \<or> \<not> isspace (hd v) \<and> \<not> isspace (last v) \<Longrightarrow> trim_space v = v"
proof (cases "v = []")
  case False
  moreover assume "v = [] \<or> \<not> isspace (hd v) \<and> \<not> isspace (last v)"
  ultimately have h: "\<not> isspace (hd v)" and l: "\<not> isspace (hd (rev v))" by (auto simp: hd_rev)
  have "dropWhile isspace v = v" using h by (cases v) auto
  moreover have "dropWhile isspace (rev v) = rev v" using l by (cases "rev v") auto
  ultimately show ?thesis by (simp add: trim_space_def)
qed (simp add: trim_space_def)

lemma trim_ends: "trim_space v = [] \<or> \<not> isspace (hd (trim_space v)) \<and> \<not> isspace (last (trim_space v))"
proof (cases "trim_space v = []")
  case False
  define u where "u = dropWhile isspace v"
  define t where "t = dropWhile isspace (rev u)"
  have trim: "trim_space v = rev t" by (simp add: trim_space_def t_def u_def)
  with False have "t \<noteq> []" by simp
  then have last: "\<not> isspace (last (trim_space v))"
    unfolding trim t_def using hd_dropWhile [of isspace "rev u"] by (simp add: last_rev)
  have "rev u = takeWhile isspace (rev u) @ t" by (simp add: t_def)
  then have "u = rev t @ rev (takeWhile isspace (rev u))" by (metis rev_append rev_rev_ident)
  then have "hd (trim_space v) = hd u" and "u \<noteq> []" using \<open>t \<noteq> []\<close> by (auto simp: trim) (metis hd_append2 rev_is_Nil_conv)
  with hd_dropWhile [of isspace v] last show ?thesis by (simp add: u_def)
qed simp

lemma trim_trim [simp]: "trim_space (trim_space v) = trim_space v"
  by (rule trim_fixed) (rule trim_ends)

lemma set_trim: "set (trim_space v) \<subseteq> set v"
  by (auto simp: trim_space_def dest!: set_dropWhileD)

lemma isdigit_ne: "isdigit c \<Longrightarrow> c \<noteq> CHR ''-''" "isdigit c \<Longrightarrow> c \<noteq> CHR ''+''" "isdigit c \<Longrightarrow> \<not> isspace c"
    "isdigit c \<Longrightarrow> c \<noteq> newline"
  by (auto simp: isdigit_def isspace_def newline_def Let_def)

lemma takeWhile_digits: "list_all isdigit ds \<Longrightarrow> takeWhile isdigit ds = ds"
  by (induction ds) simp_all

lemma stoi_digits: "list_all isdigit ds \<Longrightarrow> ds \<noteq> [] \<Longrightarrow> digits_value ds < 2 ^ 31 \<Longrightarrow> 0 \<le> digits_value ds \<Longrightarrow> stoi ds = Some (digits_value ds)"
  by (cases ds) (simp_all add: stoi_def isdigit_ne Let_def takeWhile_digits)

lemma stoi_negative: "list_all isdigit ds \<Longrightarrow> ds \<noteq> [] \<Longrightarrow> digits_value ds \<le> 2 ^ 31 \<Longrightarrow> 0 \<le> digits_value ds \<Longrightarrow>
    stoi (CHR ''-'' # ds) = Some (- digits_value ds)"
  by (simp add: stoi_def isspace_def Let_def takeWhile_digits)

lemma stoi_int_str: "- (2 ^ 31) \<le> n \<Longrightarrow> n < 2 ^ 31 \<Longrightarrow> stoi (int_str n) = Some n"
  using nat_str_value [of "nat n"] nat_str_value [of "nat (- n)"]
  by (auto simp: int_str_def stoi_digits stoi_negative)

lemma stoi_range: "stoi s = Some n \<Longrightarrow> - (2 ^ 31) \<le> n \<and> n < 2 ^ 31"
  by (auto simp: stoi_def Let_def split: if_splits prod.splits)

lemma int_str_ends: "int_str n \<noteq> [] \<and> \<not> isspace (hd (int_str n)) \<and> \<not> isspace (last (int_str n)) \<and> newline \<notin> set (int_str n)"
proof -
  have n: "\<forall>c\<in>set (nat_str k). isdigit c" "nat_str k \<noteq> []" for k using nat_str_value [of k] by (auto simp: list_all_iff)
  have "\<not> isspace (hd (nat_str k)) \<and> \<not> isspace (last (nat_str k)) \<and> newline \<notin> set (nat_str k)" for k
    using n(1) [of k] isdigit_ne(3,4) hd_in_set [OF n(2)] last_in_set [OF n(2)] by auto
  with n show ?thesis by (auto simp: int_str_def isspace_def newline_def)
qed

text \<open>The credentials a file of \<^verbatim>\<open>key=value\<close> lines can hold.\<close>

definition clean :: "string \<Rightarrow> bool" where
  "clean v \<longleftrightarrow> v \<noteq> [] \<and> trim_space v = v \<and> newline \<notin> set v"

definition creds_ok :: "DbCredentials \<Rightarrow> bool" where
  "creds_ok c \<longleftrightarrow> clean (host c) \<and> clean (user c) \<and> clean (pass c) \<and> clean (dbName c) \<and> - (2 ^ 31) \<le> port c \<and> port c < 2 ^ 31"

lemma split_pair:
  assumes "trim_space v = v" and "key \<noteq> []" and "hd key \<notin> {CHR ''['', CHR ''#'', CHR '';''}" and "CHR ''='' \<notin> set key"
    and "trim_space key = key"
  shows "split_line (key @ CHR ''='' # v) = Some (key, v)"
proof -
  let ?l = "key @ CHR ''='' # v"
  have "last ?l \<noteq> CR" using trim_ends [of v] assms(1) by (auto simp: CR_def isspace_def)
  then have cr: "strip_cr ?l = ?l" by (simp add: strip_cr_def)
  have "takeWhile (\<lambda>c. c \<noteq> CHR ''='') ?l = key" "dropWhile (\<lambda>c. c \<noteq> CHR ''='') ?l = CHR ''='' # v"
    using assms(4) by (induction key) auto
  with assms show ?thesis by (simp add: split_line_def cr)
qed

lemma split_field:
  assumes "trim_space v = v" and "key \<in> {''host'', ''port'', ''user'', ''pass'', ''name''}"
  shows "split_line (key @ CHR ''='' # v) = Some (key, v)"
proof (rule split_pair [OF assms(1)])
  show "trim_space key = key" using assms(2) by (intro trim_fixed) (auto simp: isspace_def)
qed (use assms(2) in auto)

lemma lines_field: "newline \<notin> set v \<Longrightarrow> newline \<notin> set key \<Longrightarrow>
    lines (key @ ''='' @ v @ [newline] @ t) = (key @ ''='' @ v) # lines t"
  using lines_line [of "key @ ''='' @ v" t] by (simp add: newline_def)

lemma parse_serialize:
  assumes "creds_ok c"
  shows "parsePlainText (serializePlain c) = Val c"
proof -
  note split = split_field [where key = "''host''", simplified] split_field [where key = "''port''", simplified]
    split_field [where key = "''user''", simplified] split_field [where key = "''pass''", simplified]
    split_field [where key = "''name''", simplified]
  have port: "trim_space (int_str (port c)) = int_str (port c)" "newline \<notin> set (int_str (port c))"
    using int_str_ends [of "port c"] by (auto intro: trim_fixed)
  have head: "split_line ''[database]'' = None" by (simp add: split_line_def strip_cr_def CR_def Let_def)
  have "lines (serializePlain c) = [''[database]'', ''host='' @ host c, ''port='' @ int_str (port c), ''user='' @ user c,
      ''pass='' @ pass c, ''name='' @ dbName c]"
    using assms port(2) lines_line [of "''[database]''"] lines_field [of _ "''host''"] lines_field [of _ "''port''"]
      lines_field [of _ "''user''"] lines_field [of _ "''pass''"] lines_field [of _ "''name''" "[]"]
    by (simp add: serializePlain_def creds_ok_def clean_def) (simp add: newline_def)
  with assms show ?thesis
    by (simp add: parsePlainText_def head split port set_field_def stoi_int_str creds_ok_def clean_def default_creds_def)
qed

definition tidy :: "DbCredentials \<Rightarrow> bool" where
  "tidy c \<longleftrightarrow> (\<forall>v\<in>{host c, user c, pass c, dbName c}. trim_space v = v \<and> newline \<notin> set v) \<and>
     - (2 ^ 31) \<le> port c \<and> port c < 2 ^ 31"

lemma set_field_tidy:
  assumes "set_field key val (c, b) = Val (c', b')" and "tidy c" and "trim_space val = val" and "newline \<notin> set val"
  shows "tidy c'"
  using assms stoi_range [of val] by (auto simp: set_field_def tidy_def split: if_splits option.splits)

lemma split_line_tidy:
  assumes "split_line raw = Some (key, val)" and "newline \<notin> set raw"
  shows "trim_space val = val \<and> newline \<notin> set val"
proof -
  let ?v = "drop 1 (dropWhile (\<lambda>c. c \<noteq> CHR ''='') (strip_cr raw))"
  have v: "val = trim_space ?v" using assms(1) by (auto simp: split_line_def Let_def split: if_splits)
  have "set (strip_cr raw) \<subseteq> set raw" by (auto simp: strip_cr_def dest: in_set_butlastD)
  moreover have "set ?v \<subseteq> set (strip_cr raw)" by (meson order_trans set_drop_subset set_dropWhileD subsetI)
  ultimately have "newline \<notin> set val" using set_trim [of ?v] assms(2) v by blast
  then show ?thesis by (simp add: v)
qed

lemma parse_lines_tidy:
  assumes "parse_lines ls (c, b) = Val (c', b')" and "\<forall>l\<in>set ls. newline \<notin> set l" and "tidy c"
  shows "tidy c'"
  using assms
proof (induction ls arbitrary: c b)
  case (Cons l ls)
  show ?case
  proof (cases "split_line l")
    case None
    with Cons show ?thesis by auto
  next
    case (Some kv)
    obtain k v where kv: "kv = (k, v)" by (cases kv)
    obtain c1 b1 where set: "set_field k v (c, b) = Val (c1, b1)" and rest: "parse_lines ls (c1, b1) = Val (c', b')"
      using Cons.prems(1) Some kv by (cases "set_field k v (c, b)") auto
    have "tidy c1" using set_field_tidy [OF set Cons.prems(3)] split_line_tidy [of l k v] Some kv Cons.prems(2) by auto
    with Cons.IH [OF rest] Cons.prems(2) show ?thesis by simp
  qed
qed simp

lemma parse_ok:
  assumes "parsePlainText s = Val c" shows "creds_ok c"
proof -
  obtain c' b where p: "parse_lines (lines s) (default_creds, False) = Val (c', b)"
    using assms by (cases "parse_lines (lines s) (default_creds, False)") (auto simp: parsePlainText_def)
  have "tidy default_creds" by (simp add: tidy_def default_creds_def trim_space_def)
  from parse_lines_tidy [OF p _ this] lines_no_newline have "tidy c'" by blast
  with assms p show ?thesis by (auto simp: parsePlainText_def creds_ok_def clean_def tidy_def split: if_splits)
qed

section \<open>Properties\<close>

text \<open>What the code relies on of OpenSSL: nonces and tags have their length, and a sealed text opens.\<close>

definition sealing_ok :: "config_env \<Rightarrow> DbCredentials \<Rightarrow> bool" where
  "sealing_ok c cr \<longleftrightarrow> (\<forall>key nonce. deriveKey c = Val key \<longrightarrow> random_nonce c = Some nonce \<longrightarrow> length nonce = NONCE_LEN \<and>
     (case seal c key nonce (serializePlain cr) of (ciphertext, tag) \<Rightarrow> length tag = TAG_LEN_cfg \<and> ciphertext \<noteq> [] \<and>
        unseal c key nonce tag ciphertext = Some (serializePlain cr)))"

lemma other_key [simp]: "deriveKey (c\<lparr>random_nonce := n\<rparr>) = deriveKey c"
  by (cases "hostname c") (simp_all add: deriveKey_def)

lemma other_nonce [simp]: "decryptAndVerify (c\<lparr>random_nonce := n\<rparr>) = decryptAndVerify c"
    "candidates (c\<lparr>random_nonce := n\<rparr>) = candidates c"
  by (simp_all add: decryptAndVerify_def open_sealed_def candidates_def fun_eq_iff Let_def)

lemma magic_line: "newline \<notin> set MAGIC" "is_encrypted (MAGIC @ s)"
  by (simp_all add: MAGIC_def newline_def is_encrypted_def)

lemma decrypt_encrypt_creds:
  assumes "encryptCredentials c cr = Val enc" and "sealing_ok c cr" and "creds_ok cr"
  shows "decryptAndVerify c enc = Val cr \<and> is_encrypted enc"
proof -
  obtain key nonce ct tag where key: "deriveKey c = Val key" and nonce: "random_nonce c = Some nonce"
    and seal: "seal c key nonce (serializePlain cr) = (ct, tag)"
    and enc: "enc = MAGIC @ [newline] @ toHex nonce @ [newline] @ toHex tag @ [newline] @ toHex ct @ [newline]"
    using assms(1) by (cases "deriveKey c") (auto simp: encryptCredentials_def split: option.splits prod.splits)
  have ok: "length nonce = NONCE_LEN" "length tag = TAG_LEN_cfg" "ct \<noteq> []" "unseal c key nonce tag ct = Some (serializePlain cr)"
    using assms(2) key nonce seal by (auto simp: sealing_ok_def)
  have nl: "newline \<notin> set (toHex x)" for x using toHex_chars by blast
  have "lines enc = [MAGIC, toHex nonce, toHex tag, toHex ct]"
    using lines_line [OF magic_line(1)] lines_line [OF nl] by (simp add: enc)
  moreover have "toHex ct \<noteq> []" using ok(3) by (cases ct) simp_all
  ultimately show ?thesis
    using ok parse_serialize [OF assms(3)] key
    by (simp add: decryptAndVerify_def open_sealed_def enc magic_line(2) numeral_2_eq_2 numeral_3_eq_3)
qed

lemma find_again:
  assumes "List.find P xs = Some r" and "\<And>x. P' x \<Longrightarrow> x = r \<or> P x" and "P' r"
  shows "List.find P' xs = Some r"
  using assms by (induction xs) (auto split: if_splits)

lemma overwritten:
  assumes "overwrite c p enc fs = (Val u, fs1)" and "\<And>s. reaches_disk c s = s"
  shows "fs1 p = Some enc" "fs1 q \<noteq> None \<Longrightarrow> q = p \<or> fs q \<noteq> None"
  using assms(1) by (auto simp: overwrite_def assms(2) Let_def split: if_splits)

text \<open>C33: The credentials that a start of the server reads from the file, in plain text or sealed, are those that
  every later start reads: the first start leaves a sealed file behind, which opens to the same
  host, port, user, password and name, and is not changed again.\<close>

theorem config_roundtrip:
  assumes first: "load c path fs = (Val cr, fs1)" and "sealing_ok c cr" and "\<forall>s. reaches_disk c s = s"
  shows "load (c\<lparr>random_nonce := n\<rparr>) path fs1 = (Val cr, fs1) \<and>
    (\<exists>p s. findFile fs1 (candidates c path) = Some p \<and> fs1 p = Some s \<and> is_encrypted s)"
proof -
  obtain p where p: "findFile fs (candidates c path) = Some p" using first by (auto simp: load_def split: option.splits)
  then obtain s where s: "fs p = Some s" by (auto simp: findFile_def find_Some_iff)
  show ?thesis
  proof (cases "is_encrypted s")
    case True
    with first p s show ?thesis by (auto simp: load_def)
  next
    case False
    then have "seal_file c p s fs = (Val cr, fs1)" using first p s by (simp add: load_def)
    then obtain enc u where parse: "parsePlainText s = Val cr" and enc: "encryptCredentials c cr = Val enc"
      and w: "overwrite c p enc fs = (Val u, fs1)"
      by (auto simp: seal_file_def split: outcome.splits prod.splits)
    have disk: "reaches_disk c s = s" for s using assms(3) by simp
    note new = overwritten [OF w disk]
    have "findFile fs1 (candidates c path) = Some p"
      unfolding findFile_def by (rule find_again [OF p [unfolded findFile_def]]) (use new in auto)
    with new(1) decrypt_encrypt_creds [OF enc assms(2) parse_ok [OF parse]] assms(3) show ?thesis
      by (simp add: load_def)
  qed
qed

definition demo_creds :: DbCredentials where
  "demo_creds = \<lparr>host = ''localhost'', port = 33060, user = ''root'', pass = ''a=b #'', dbName = ''bankingdb''\<rparr>"

definition demo_config :: config_env where
  "demo_config = \<lparr>hostname = Some ''h'', random_nonce = Some (replicate 12 CHR ''n''), pbkdf2 = (\<lambda>p s n. Some ''k''),
     seal = (\<lambda>k n t. (t, replicate 16 CHR ''t'')), unseal = (\<lambda>k n t s. Some s), exe_dir = None,
     can_write = (\<lambda>p. True), can_rename = True, reaches_disk = (\<lambda>s. s)\<rparr>"

lemma demo_creds_ok: "creds_ok demo_creds"
  by (simp add: creds_ok_def clean_def demo_creds_def newline_def trim_fixed isspace_def)

lemma config_roundtrip_witness:
  "\<exists>fs1. load demo_config ''db.ini'' [''../db.ini'' \<mapsto> serializePlain demo_creds] = (Val demo_creds, fs1) \<and>
     load (demo_config\<lparr>random_nonce := None\<rparr>) ''db.ini'' fs1 = (Val demo_creds, fs1)"
proof -
  have seal: "sealing_ok demo_config demo_creds"
    by (simp add: sealing_ok_def demo_config_def NONCE_LEN_def TAG_LEN_cfg_def serializePlain_def)
  have base: "basename ''db.ini'' = ''db.ini''" by (simp add: basename_def)
  have "\<not> is_encrypted (serializePlain demo_creds)" by (simp add: is_encrypted_def MAGIC_def serializePlain_def)
  then obtain fs1 where run: "load demo_config ''db.ini'' [''../db.ini'' \<mapsto> serializePlain demo_creds] = (Val demo_creds, fs1)"
    by (simp add: load_def findFile_def candidates_def base demo_config_def seal_file_def parse_serialize demo_creds_ok
        encryptCredentials_def deriveKey_def overwrite_def Let_def)
  have "\<forall>s. reaches_disk demo_config s = s" by (simp add: demo_config_def)
  from config_roundtrip [OF run seal this, of None] run show ?thesis by blast
qed

end
