(* ===== verification/Logger.thy ===== *)
theory Logger
  imports DbConfig "HOL-Library.AList"
begin

text \<open>
  \<^verbatim>\<open>TransactionLogger.cpp\<close>: identifiers of requests, the lines of the log, the record that a
  traced function leaves, and the files the lines go to. The clock, the identity of the thread, the
  random bytes and the answers of the file system are parameters.
\<close>

section \<open>Levels and fields\<close>

record log_field =
  lf_key :: string
  lf_value :: string

record source_location =
  sl_file :: string
  sl_line :: nat
  sl_function :: string

definition kTraceSeverity :: nat where "kTraceSeverity = 0"
definition kDebugSeverity :: nat where "kDebugSeverity = 10"
definition kInfoSeverity :: nat where "kInfoSeverity = 20"
definition kWarnSeverity :: nat where "kWarnSeverity = 30"
definition kErrorSeverity :: nat where "kErrorSeverity = 40"
definition kWriteAttempts :: nat where "kWriteAttempts = 3"

definition upperAscii :: "string \<Rightarrow> string" where
  "upperAscii s = map toupper s"

definition severityOf :: "string \<Rightarrow> nat" where
  "severityOf level = (let u = upperAscii level in
     if u = ''TRACE'' then kTraceSeverity
     else if u = ''DEBUG'' then kDebugSeverity
     else if u = ''INFO'' then kInfoSeverity
     else if u = ''WARN'' \<or> u = ''WARNING'' then kWarnSeverity
     else if u = ''ERROR'' \<or> u = ''FATAL'' then kErrorSeverity
     else kInfoSeverity)"

text \<open>The value of \<^verbatim>\<open>TRANSACTION_LOG_LEVEL\<close>, if it is set.\<close>

definition configuredMinimumSeverity :: "string option \<Rightarrow> nat" where
  "configuredMinimumSeverity configured = (case configured of None \<Rightarrow> kInfoSeverity
     | Some level \<Rightarrow> if level = [] then kInfoSeverity else severityOf level)"

definition hasField :: "log_field list \<Rightarrow> string \<Rightarrow> bool" where
  "hasField fls key \<longleftrightarrow> list_ex (\<lambda>f. lf_key f = key) fls"

definition add_field :: "string \<Rightarrow> string \<Rightarrow> log_field list \<Rightarrow> log_field list" where
  "add_field key val fls = (if hasField fls key then fls else fls @ [\<lparr>lf_key = key, lf_value = val\<rparr>])"

definition appendSourceLocation :: "source_location \<Rightarrow> log_field list \<Rightarrow> log_field list" where
  "appendSourceLocation loc fls = add_field ''sourceFunction'' (sl_function loc)
     (add_field ''sourceLine'' (nat_str (sl_line loc)) (add_field ''sourceFile'' (sl_file loc) fls))"

section \<open>Lines\<close>

definition escape_char :: "char \<Rightarrow> string" where
  "escape_char c = (if c = CHR 0x22 then [CHR 0x5C, CHR 0x22]
     else if c = CHR 0x5C then [CHR 0x5C, CHR 0x5C]
     else if c = CHR 0x0A then [CHR 0x5C, CHR ''n'']
     else if c = CHR 0x0D then [CHR 0x5C, CHR ''r'']
     else if c = CHR 0x09 then [CHR 0x5C, CHR ''t'']
     else if of_char c \<ge> (32 :: nat) then [c] else [])"

definition escapeText :: "string \<Rightarrow> string" where
  "escapeText s = concat (map escape_char s)"

definition fieldOrDash :: "string \<Rightarrow> string" where
  "fieldOrDash s = (if s = [] then ''-'' else s)"

definition quoted :: "string \<Rightarrow> string" where
  "quoted s = CHR 0x22 # s @ [CHR 0x22]"

definition formatFieldValue :: "string \<Rightarrow> string" where
  "formatFieldValue s = (let e = escapeText s in
     if e = [] then quoted []
     else if list_ex (\<lambda>c. isspace c \<or> c = CHR ''|'' \<or> c = CHR ''='') e then quoted e else e)"

record log_call =
  lc_level :: string
  lc_uuid :: string
  lc_channel :: string
  lc_event :: string
  lc_message :: string
  lc_fields :: "log_field list"

text \<open>The identifier and channel of the current thread, set by a scope that gives the previous ones back, and the call
  that \<^verbatim>\<open>logCurrent\<close> makes of them.\<close>

record log_context =
  cx_uuid :: string
  cx_channel :: string

definition enter_context :: "string \<Rightarrow> string \<Rightarrow> log_context \<Rightarrow> log_context \<times> log_context" where
  "enter_context uuid channel previous = (\<lparr>cx_uuid = uuid, cx_channel = channel\<rparr>, previous)"

definition logCurrent :: "log_context \<Rightarrow> string \<Rightarrow> string \<Rightarrow> string \<Rightarrow> log_field list \<Rightarrow> log_call" where
  "logCurrent cx level event message fls = \<lparr>lc_level = level, lc_uuid = cx_uuid cx, lc_channel = cx_channel cx,
     lc_event = event, lc_message = message, lc_fields = fls\<rparr>"

definition fields_written :: "source_location \<Rightarrow> log_call \<Rightarrow> log_field list" where
  "fields_written loc c = (if severityOf (lc_level c) \<ge> kErrorSeverity \<and> \<not> hasField (lc_fields c) ''sourceFile''
     then appendSourceLocation loc (lc_fields c) else lc_fields c)"

definition log_line :: "string \<Rightarrow> string \<Rightarrow> source_location \<Rightarrow> log_call \<Rightarrow> string" where
  "log_line timestamp thread loc c = timestamp @ '' | '' @ fieldOrDash (lc_level c) @
     '' | uuid='' @ fieldOrDash (lc_uuid c) @ '' | channel='' @ fieldOrDash (lc_channel c) @
     '' | event='' @ fieldOrDash (lc_event c) @ '' | message='' @ quoted (escapeText (lc_message c)) @
     '' | thread='' @ thread @
     concat (map (\<lambda>f. '' '' @ lf_key f @ ''='' @ formatFieldValue (lf_value f)) (fields_written loc c)) @ [newline]"

section \<open>Identifiers\<close>

unbundle bit_operations_syntax

text \<open>Sixteen random bytes with the version and variant bits set.\<close>

definition uuid_bytes :: "8 word list \<Rightarrow> 8 word list" where
  "uuid_bytes bytes = bytes[6 := (bytes ! 6 AND 0x0F) OR 0x40, 8 := (bytes ! 8 AND 0x3F) OR 0x80]"

definition byte_hex :: "8 word \<Rightarrow> string" where
  "byte_hex b = [hex_digit (unat b div 16), hex_digit (unat b mod 16)]"

definition generateUuid :: "8 word list \<Rightarrow> string" where
  "generateUuid bytes = concat (map (\<lambda>i. (if i \<in> {4, 6, 8, 10} then ''-'' else []) @ byte_hex (uuid_bytes bytes ! i)) [0..<16])"

section \<open>Traced functions\<close>

text \<open>\<^verbatim>\<open>ScopedFunctionTrace\<close>: the name, the place and whether an end has been logged; the calls of the
  logger it makes, as level, event, message and fields.\<close>

record fun_trace =
  tr_name :: string
  tr_loc :: source_location
  tr_completed :: bool

type_synonym trace_log = "(string \<times> string \<times> string \<times> log_field list) list"

definition withFunction :: "string \<Rightarrow> log_field list \<Rightarrow> log_field list" where
  "withFunction name fls = \<lparr>lf_key = ''function'', lf_value = name\<rparr> # fls"

definition trace_enter :: "string \<Rightarrow> log_field list \<Rightarrow> source_location \<Rightarrow> fun_trace \<times> trace_log" where
  "trace_enter name fls loc = (\<lparr>tr_name = name, tr_loc = loc, tr_completed = False\<rparr>,
     [(''TRACE'', ''function_enter'', ''Entering function'', appendSourceLocation loc (withFunction name fls))])"

text \<open>What the body may call, with the milliseconds since the start.\<close>

datatype trace_op = Checkpoint string string "log_field list" source_location
  | Fail string "log_field list" source_location nat
  | Success "log_field list" source_location nat

fun trace_do :: "trace_op \<Rightarrow> fun_trace \<Rightarrow> fun_trace \<times> trace_log" where
  "trace_do (Checkpoint step msg fls loc) t = (t, [(''DEBUG'', ''function_step'', msg,
     appendSourceLocation loc (withFunction (tr_name t) fls @ [\<lparr>lf_key = ''step'', lf_value = step\<rparr>]))])"
| "trace_do (Fail reason fls loc ms) t = (if tr_completed t then (t, [])
     else (t\<lparr>tr_completed := True\<rparr>, [(''ERROR'', ''function_failed'', ''Function failed'', appendSourceLocation loc
       (withFunction (tr_name t) fls @ [\<lparr>lf_key = ''durationMs'', lf_value = nat_str ms\<rparr>, \<lparr>lf_key = ''reason'', lf_value = reason\<rparr>]))]))"
| "trace_do (Success fls loc ms) t = (if tr_completed t then (t, [])
     else (t\<lparr>tr_completed := True\<rparr>, [(''TRACE'', ''function_exit'', ''Leaving function'', appendSourceLocation loc
       (withFunction (tr_name t) fls @ [\<lparr>lf_key = ''durationMs'', lf_value = nat_str ms\<rparr>]))]))"

fun trace_body :: "trace_op list \<Rightarrow> fun_trace \<Rightarrow> fun_trace \<times> trace_log" where
  "trace_body [] t = (t, [])"
| "trace_body (op # ops) t = (case trace_do op t of (t1, l1) \<Rightarrow> (case trace_body ops t1 of (t2, l2) \<Rightarrow> (t2, l1 @ l2)))"

definition trace_leave :: "bool \<Rightarrow> nat \<Rightarrow> fun_trace \<Rightarrow> trace_log" where
  "trace_leave thrown ms t = (if tr_completed t then []
     else let fls = [\<lparr>lf_key = ''function'', lf_value = tr_name t\<rparr>, \<lparr>lf_key = ''durationMs'', lf_value = nat_str ms\<rparr>,
            \<lparr>lf_key = ''sourceFile'', lf_value = sl_file (tr_loc t)\<rparr>, \<lparr>lf_key = ''sourceLine'', lf_value = nat_str (sl_line (tr_loc t))\<rparr>,
            \<lparr>lf_key = ''sourceFunction'', lf_value = sl_function (tr_loc t)\<rparr>]
       in if thrown then [(''ERROR'', ''function_exception'', ''Function exited by exception'', fls)]
          else [(''TRACE'', ''function_exit'', ''Leaving function'', fls)])"

text \<open>A whole call: the construction of the trace, what the body logs, and its destruction.\<close>

definition traced :: "string \<Rightarrow> log_field list \<Rightarrow> source_location \<Rightarrow> trace_op list \<Rightarrow> bool \<Rightarrow> nat \<Rightarrow> trace_log" where
  "traced name fls loc ops thrown ms = (case trace_enter name fls loc of (t, l) \<Rightarrow>
     (case trace_body ops t of (t', l') \<Rightarrow> l @ l' @ trace_leave thrown ms t'))"

section \<open>Files\<close>

text \<open>The files of the log with their contents, and the members of the logger. \<open>ls_open\<close> is whether
  \<^verbatim>\<open>file_\<close> is open, which is then the current file. The raw descriptor for \<^verbatim>\<open>fsync\<close> is left out.
  The sequence number is 32 bits wide in the code: it would wrap after four billion files.\<close>

record log_sys =
  ls_dir :: string
  ls_current :: string
  ls_max :: nat
  ls_bytes :: nat
  ls_seq :: nat
  ls_initialized :: bool
  ls_disabled :: bool
  ls_open :: bool
  ls_min :: nat
  ls_files :: "(string \<times> string) list"

text \<open>What the file system answers during one attempt: whether directories can be created, whether the
  directory exists (\<open>None\<close> for an error) and is one, whether the current file can be looked up, measured,
  opened and written, and whether it is still there after the write; and the time for a file name.\<close>

record log_io =
  io_mkdir :: bool
  io_dir :: "bool option"
  io_is_dir :: bool
  io_stat :: bool
  io_size :: bool
  io_open :: bool
  io_header :: bool
  io_write :: bool
  io_stays :: bool
  io_stamp :: string

definition log_header :: string where
  "log_header = ''# Payment Switching Engine readable transaction log'' @ [newline] @
     ''# Search any request with: uuid=<transactionUuid>'' @ [newline] @
     ''# Format: time | level | uuid | channel | event | message | key=value...'' @ [newline]"

definition append_file :: "string \<Rightarrow> string \<Rightarrow> (string \<times> string) list \<Rightarrow> (string \<times> string) list" where
  "append_file f text fs = AList.update f ((case map_of fs f of None \<Rightarrow> [] | Some old \<Rightarrow> old) @ text) fs"

definition log_name :: "string \<Rightarrow> string \<Rightarrow> nat \<Rightarrow> string" where
  "log_name dir stamp n = dir @ ''/log_'' @ stamp @ ''_'' @ nat_str n @ ''.log''"

lemma log_name_inj: "log_name dir stamp m = log_name dir stamp n \<longleftrightarrow> m = n"
proof
  assume "log_name dir stamp m = log_name dir stamp n"
  then have "nat_str m = nat_str n" by (simp add: log_name_def)
  then have "int m = int n" using nat_str_value by metis
  then show "m = n" by simp
qed simp

text \<open>\<^verbatim>\<open>while (exists(candidate)) { ++fileSequence_; candidate = ...; }\<close>\<close>

function numbered_file :: "(string \<times> string) list \<Rightarrow> string \<Rightarrow> string \<Rightarrow> nat \<Rightarrow> string \<times> nat" where
  "numbered_file fs dir stamp n = (if log_name dir stamp (n + 1) \<in> fst ` set fs then numbered_file fs dir stamp (n + 1)
     else (log_name dir stamp (n + 1), n + 1))"
  by pat_completeness auto
termination
proof (relation "measure (\<lambda>(fs, dir, stamp, n). card {k. n < k \<and> log_name dir stamp k \<in> fst ` set fs})")
  fix fs :: "(string \<times> string) list" and dir stamp :: string and n :: nat
  let ?A = "\<lambda>n. {k. n < k \<and> log_name dir stamp k \<in> fst ` set fs}"
  assume taken: "log_name dir stamp (n + 1) \<in> fst ` set fs"
  have "inj (log_name dir stamp)" by (auto simp: inj_def log_name_inj)
  then have "finite (?A n)" by (rule finite_subset [OF _ finite_vimageI [of "fst ` set fs"], rotated 2]) auto
  moreover have "?A (n + 1) \<subset> ?A n" using taken by auto
  ultimately have "card (?A (n + 1)) < card (?A n)" by (rule psubset_card_mono)
  then show "((fs, dir, stamp, n + 1), (fs, dir, stamp, n)) \<in>
      measure (\<lambda>(fs, dir, stamp, n). card {k. n < k \<and> log_name dir stamp k \<in> fst ` set fs})" by simp
qed simp

declare numbered_file.simps [simp del]

definition free_file :: "(string \<times> string) list \<Rightarrow> string \<Rightarrow> string \<Rightarrow> nat \<Rightarrow> string \<times> nat" where
  "free_file fs dir stamp n = (let candidate = dir @ ''/log_'' @ stamp @ ''.log'' in
     if candidate \<in> fst ` set fs then numbered_file fs dir stamp n else (candidate, n))"

definition forget :: "log_sys \<Rightarrow> log_sys" where
  "forget s = s\<lparr>ls_initialized := False, ls_bytes := 0\<rparr>"

definition writeHeaderLocked :: "log_io \<Rightarrow> log_sys \<Rightarrow> bool \<times> log_sys" where
  "writeHeaderLocked io s = (if \<not> io_header io then (False, forget (s\<lparr>ls_open := False\<rparr>))
     else (True, s\<lparr>ls_bytes := ls_bytes s + length log_header, ls_files := append_file (ls_current s) log_header (ls_files s)\<rparr>))"

definition openNewFileLocked :: "log_io \<Rightarrow> log_sys \<Rightarrow> bool \<times> log_sys" where
  "openNewFileLocked io s = (let s = s\<lparr>ls_open := False\<rparr> in
     if \<not> io_mkdir io then (False, forget s)
     else let (candidate, n) = free_file (ls_files s) (ls_dir s) (io_stamp io) (ls_seq s);
              s = s\<lparr>ls_current := candidate, ls_seq := n, ls_bytes := 0\<rparr> in
       if \<not> io_open io then (False, s\<lparr>ls_initialized := False\<rparr>)
       else writeHeaderLocked io (s\<lparr>ls_open := True, ls_initialized := True, ls_files := append_file candidate [] (ls_files s)\<rparr>))"

definition default_dir :: string where
  "default_dir = ''bin/debug/log''"

definition ensureInitializedLocked :: "log_io \<Rightarrow> log_sys \<Rightarrow> bool \<times> log_sys" where
  "ensureInitializedLocked io s =
     (if ls_disabled s then (False, s)
      else if ls_initialized s \<and> ls_open s then (True, s)
      else let s = (if ls_dir s = [] then s\<lparr>ls_dir := default_dir\<rparr> else s) in
        if \<not> io_mkdir io then (False, s\<lparr>ls_initialized := False\<rparr>) else openNewFileLocked io s)"

definition rotateIfNeededLocked :: "log_io \<Rightarrow> nat \<Rightarrow> log_sys \<Rightarrow> bool \<times> log_sys" where
  "rotateIfNeededLocked io n s = (if ls_max s = 0 \<or> ls_bytes s + n \<le> ls_max s then (True, s) else openNewFileLocked io s)"

text \<open>The size on disk replaces the counted one; a file that has shrunk is opened again, as is one that is not
  open.\<close>

definition reopen :: "log_io \<Rightarrow> log_sys \<Rightarrow> bool \<times> log_sys" where
  "reopen io s = (if io_open io then (True, s\<lparr>ls_open := True\<rparr>) else (False, forget (s\<lparr>ls_open := False\<rparr>)))"

definition refresh_size :: "log_io \<Rightarrow> log_sys \<Rightarrow> bool \<times> log_sys" where
  "refresh_size io s = (if \<not> io_size io then (True, s)
     else let disk = length (the (map_of (ls_files s) (ls_current s)));
              (ok, s) = (if disk < ls_bytes s then reopen io s else (True, s))
          in if ok then (True, s\<lparr>ls_bytes := disk\<rparr>) else (False, s))"

definition ensureWritableFileLocked :: "log_io \<Rightarrow> nat \<Rightarrow> log_sys \<Rightarrow> bool \<times> log_sys" where
  "ensureWritableFileLocked io n s0 = (case ensureInitializedLocked io s0 of (False, s) \<Rightarrow> (False, s) | (True, s) \<Rightarrow>
     if io_dir io \<noteq> Some True then ensureInitializedLocked io (forget (s\<lparr>ls_open := False\<rparr>))
     else if \<not> io_is_dir io then (False, forget s)
     else if \<not> io_stat io \<or> ls_current s = [] \<or> ls_current s \<notin> fst ` set (ls_files s) then openNewFileLocked io s
     else (case refresh_size io s of (False, s) \<Rightarrow> (False, s) | (True, s) \<Rightarrow>
       (case (if ls_open s then (True, s) else reopen io s) of (False, s) \<Rightarrow> (False, s) | (True, s) \<Rightarrow>
       (case (if ls_bytes s = 0 then writeHeaderLocked io s else (True, s)) of (False, s) \<Rightarrow> (False, s) | (True, s) \<Rightarrow>
         rotateIfNeededLocked io n s))))"

definition writePayloadLocked :: "log_io \<Rightarrow> string \<Rightarrow> log_sys \<Rightarrow> bool \<times> log_sys" where
  "writePayloadLocked io payload s =
     (if \<not> ls_open s then (False, s\<lparr>ls_initialized := False\<rparr>)
      else if \<not> io_write io then (False, forget (s\<lparr>ls_open := False\<rparr>))
      else let s = s\<lparr>ls_files := append_file (ls_current s) payload (ls_files s)\<rparr> in
        if \<not> io_stays io then (False, forget (s\<lparr>ls_open := False, ls_files := AList.delete (ls_current s) (ls_files s)\<rparr>))
        else (True, s\<lparr>ls_bytes := ls_bytes s + length payload\<rparr>))"

text \<open>\<open>left\<close> attempts remain.\<close>

fun write_attempts :: "(nat \<Rightarrow> log_io) \<Rightarrow> string \<Rightarrow> nat \<Rightarrow> log_sys \<Rightarrow> bool \<times> log_sys" where
  "write_attempts io payload 0 s = (False, s)"
| "write_attempts io payload (Suc left) s = (case ensureWritableFileLocked (io left) (length payload) s of
      (False, s) \<Rightarrow> write_attempts io payload left s
    | (True, s) \<Rightarrow> (case writePayloadLocked (io left) payload s of
        (True, s) \<Rightarrow> (True, s)
      | (False, s) \<Rightarrow> write_attempts io payload left (if left > 0 then snd (openNewFileLocked (io left) s) else s)))"

text \<open>One call of \<^verbatim>\<open>log\<close>: the first component says whether the line was written.\<close>

definition write_log :: "(nat \<Rightarrow> log_io) \<Rightarrow> string \<Rightarrow> string \<Rightarrow> source_location \<Rightarrow> log_call \<Rightarrow> log_sys \<Rightarrow> bool \<times> log_sys" where
  "write_log io timestamp thread loc c s = (if severityOf (lc_level c) < ls_min s then (False, s)
     else write_attempts io (log_line timestamp thread loc c) kWriteAttempts s)"

definition initialize_log :: "log_io \<Rightarrow> string option \<Rightarrow> string \<Rightarrow> nat \<Rightarrow> log_sys \<Rightarrow> log_sys" where
  "initialize_log io env_level dir maxFileBytes s = (if ls_initialized s then s
     else snd (openNewFileLocked io (s\<lparr>ls_dir := dir, ls_max := maxFileBytes, ls_min := configuredMinimumSeverity env_level\<rparr>)))"

definition shutdown_log :: "log_sys \<Rightarrow> log_sys" where
  "shutdown_log s = s\<lparr>ls_open := False, ls_initialized := False\<rparr>"

section \<open>What is written\<close>

lemma map_of_append [simp]: "map_of (append_file f t fs) = (map_of fs)(f \<mapsto> (case map_of fs f of None \<Rightarrow> [] | Some old \<Rightarrow> old) @ t)"
  by (simp add: append_file_def update_conv fun_eq_iff)

lemma numbered_fresh: "fst (numbered_file fs dir stamp n) \<notin> fst ` set fs"
proof (induction fs dir stamp n rule: numbered_file.induct)
  case (1 fs dir stamp n)
  then show ?case by (subst numbered_file.simps) auto
qed

lemma free_fresh: "free_file fs dir stamp n = (f, m) \<Longrightarrow> map_of fs f = None"
  using numbered_fresh [of fs dir stamp n] by (auto simp: free_file_def map_of_eq_None_iff Let_def split: if_splits)

definition all_ok :: "log_io \<Rightarrow> bool" where
  "all_ok io \<longleftrightarrow> io_mkdir io \<and> io_dir io = Some True \<and> io_is_dir io \<and> io_stat io \<and> io_size io \<and> io_open io \<and>
     io_header io \<and> io_write io \<and> io_stays io"

text \<open>The files of \<open>fs\<close> are kept, but an empty one may have got its header.\<close>

definition kept :: "(string \<times> string) list \<Rightarrow> (string \<times> string) list \<Rightarrow> bool" where
  "kept fs fs' \<longleftrightarrow> (\<forall>f t. map_of fs f = Some t \<longrightarrow> map_of fs' f = Some t \<or> t = [] \<and> map_of fs' f = Some log_header)"

text \<open>The current file is open and holds \<open>old\<close>.\<close>

definition ready :: "(string \<times> string) list \<Rightarrow> string \<Rightarrow> log_sys \<Rightarrow> bool" where
  "ready fs old s \<longleftrightarrow> ls_open s \<and> map_of (ls_files s) (ls_current s) = Some old \<and> ls_bytes s = length old \<and>
     (old = log_header \<or> map_of fs (ls_current s) = Some old) \<and> kept fs (ls_files s)"

lemma open_new_ok:
  assumes "all_ok io"
  shows "\<exists>s'. openNewFileLocked io s = (True, s') \<and> ls_initialized s' \<and> ls_open s' \<and> ls_max s' = ls_max s \<and> ls_disabled s' = ls_disabled s \<and>
    map_of (ls_files s) (ls_current s') = None \<and> map_of (ls_files s') = (map_of (ls_files s))(ls_current s' \<mapsto> log_header) \<and>
    ls_bytes s' = length log_header"
  using assms free_fresh [of "ls_files s" "ls_dir s" "io_stamp io" "ls_seq s"]
  by (cases "free_file (ls_files s) (ls_dir s) (io_stamp io) (ls_seq s)")
    (auto simp: openNewFileLocked_def writeHeaderLocked_def all_ok_def Let_def)

lemma open_new_ready:
  assumes "all_ok io" and "kept fs (ls_files s)"
  shows "\<exists>s'. openNewFileLocked io s = (True, s') \<and> ready fs log_header s' \<and> ls_max s' = ls_max s \<and> ls_initialized s' \<and>
    ls_disabled s' = ls_disabled s"
  using open_new_ok [OF assms(1), of s] assms(2) by (fastforce simp: ready_def kept_def)

lemma kept_refl [simp]: "kept fs fs"
  by (simp add: kept_def)

lemma header_size: "0 < length log_header"
  by (simp add: log_header_def)

lemma initialized_ok:
  assumes "all_ok io" and "\<not> ls_disabled s"
  shows "\<exists>s'. ensureInitializedLocked io s = (True, s') \<and> ls_open s' \<and> ls_max s' = ls_max s \<and> \<not> ls_disabled s' \<and>
    (s' = s \<or> ready (ls_files s) log_header s')"
proof (cases "ls_initialized s \<and> ls_open s")
  case True
  with assms show ?thesis by (simp add: ensureInitializedLocked_def)
next
  case False
  let ?s = "if ls_dir s = [] then s\<lparr>ls_dir := default_dir\<rparr> else s"
  have "ensureInitializedLocked io s = openNewFileLocked io ?s"
    using assms False by (auto simp: ensureInitializedLocked_def all_ok_def Let_def)
  moreover have "ls_files ?s = ls_files s" "ls_max ?s = ls_max s" "ls_disabled ?s = ls_disabled s" by auto
  ultimately show ?thesis
    using open_new_ready [OF assms(1), of "ls_files s" ?s] assms(2) by (auto simp: ready_def)
qed

lemma rotate_ready:
  assumes "all_ok io" and "ready fs old s"
  shows "\<exists>s' old'. rotateIfNeededLocked io n s = (True, s') \<and> ready fs old' s' \<and> ls_max s' = ls_max s \<and>
    (ls_max s = 0 \<or> length old' + n \<le> ls_max s \<or> old' = log_header)"
proof (cases "ls_max s = 0 \<or> ls_bytes s + n \<le> ls_max s")
  case True
  with assms(2) show ?thesis by (auto simp: rotateIfNeededLocked_def ready_def)
next
  case False
  have "kept fs (ls_files s)" using assms(2) by (simp add: ready_def)
  from open_new_ready [OF assms(1) this] False show ?thesis by (fastforce simp: rotateIfNeededLocked_def)
qed

lemma writable_ok:
  assumes "all_ok io" and "\<not> ls_disabled s"
  shows "\<exists>s' old. ensureWritableFileLocked io n s = (True, s') \<and> ready (ls_files s) old s' \<and>
    (ls_max s = 0 \<or> length old + n \<le> ls_max s \<or> old = log_header)"
proof -
  let ?fs = "ls_files s"
  obtain s1 where init: "ensureInitializedLocked io s = (True, s1)" and s1: "ls_open s1" "ls_max s1 = ls_max s"
    and cases: "s1 = s \<or> ready ?fs log_header s1"
    using initialized_ok [OF assms] by blast
  have kept: "kept ?fs (ls_files s1)" using cases by (auto simp: ready_def)
  show ?thesis
  proof (cases "ls_current s1 = [] \<or> ls_current s1 \<notin> fst ` set (ls_files s1)")
    case True
    with open_new_ready [OF assms(1) kept] assms(1) show ?thesis
      by (fastforce simp: ensureWritableFileLocked_def init all_ok_def)
  next
    case False
    then obtain t where t: "map_of (ls_files s1) (ls_current s1) = Some t" by (metis map_of_eq_None_iff not_None_eq)
    define s2 where "s2 = s1\<lparr>ls_bytes := length t\<rparr>"
    have refresh: "refresh_size io s1 = (True, s2)"
      using assms(1) s1(1) t by (auto simp: refresh_size_def reopen_def all_ok_def s2_def Let_def)
    define s3 where "s3 = (if t = [] then s2\<lparr>ls_bytes := length log_header,
      ls_files := append_file (ls_current s2) log_header (ls_files s2)\<rparr> else s2)"
    have header: "(if ls_bytes s2 = 0 then writeHeaderLocked io s2 else (True, s2)) = (True, s3)"
      using assms(1) by (auto simp: s2_def s3_def writeHeaderLocked_def all_ok_def)
    have "ready ?fs (if t = [] then log_header else t) s3"
      using t s1(1) cases kept header_size by (auto simp: ready_def s3_def s2_def kept_def)
    from rotate_ready [OF assms(1) this, of n] show ?thesis
      using False assms(1) s1 init refresh header
      by (auto simp: ensureWritableFileLocked_def all_ok_def s2_def s3_def split: if_splits)
  qed
qed

text \<open>C35: When the file system answers, a call of the logger at or above the configured level appends its line to one file,
  after the header or what the file held before; it loses nothing of the other files, and a
  file grows beyond the maximum only by a line that did not fit behind the header either.\<close>

theorem log_written:
  assumes "all_ok (io (kWriteAttempts - 1))" and "\<not> ls_disabled s" and "ls_min s \<le> severityOf (lc_level c)"
  shows "\<exists>s' old. write_log io ts th loc c s = (True, s') \<and>
    map_of (ls_files s') (ls_current s') = Some (old @ log_line ts th loc c) \<and>
    (old = log_header \<or> map_of (ls_files s) (ls_current s') = Some old) \<and>
    (\<forall>f t. f \<noteq> ls_current s' \<longrightarrow> map_of (ls_files s) f = Some t \<longrightarrow> t \<noteq> [] \<longrightarrow> map_of (ls_files s') f = Some t) \<and>
    (ls_max s = 0 \<or> length (old @ log_line ts th loc c) \<le> ls_max s \<or> old = log_header)"
proof -
  let ?line = "log_line ts th loc c" and ?io = "io (kWriteAttempts - 1)"
  obtain s1 old where w: "ensureWritableFileLocked ?io (length ?line) s = (True, s1)" and r: "ready (ls_files s) old s1"
    and size: "ls_max s = 0 \<or> length old + length ?line \<le> ls_max s \<or> old = log_header"
    using writable_ok [OF assms(1,2)] by blast
  define s2 where "s2 = s1\<lparr>ls_files := append_file (ls_current s1) ?line (ls_files s1), ls_bytes := ls_bytes s1 + length ?line\<rparr>"
  have "writePayloadLocked ?io ?line s1 = (True, s2)"
    using assms(1) r by (simp add: writePayloadLocked_def all_ok_def ready_def s2_def Let_def)
  with w assms(3) have "write_log io ts th loc c s = (True, s2)"
    by (simp add: write_log_def kWriteAttempts_def numeral_3_eq_3)
  moreover have "map_of (ls_files s2) (ls_current s2) = Some (old @ ?line)" using r by (simp add: s2_def ready_def)
  moreover have "old = log_header \<or> map_of (ls_files s) (ls_current s2) = Some old"
    "\<forall>f t. f \<noteq> ls_current s2 \<longrightarrow> map_of (ls_files s) f = Some t \<longrightarrow> t \<noteq> [] \<longrightarrow> map_of (ls_files s2) f = Some t"
    using r by (auto simp: s2_def ready_def kept_def)
  ultimately show ?thesis using size by auto
qed

section \<open>Lines, identifiers and traces\<close>

definition breaks :: "string \<Rightarrow> nat" where
  "breaks s = count_list s newline"

lemma breaks_simps [simp]: "breaks [] = 0" "c \<noteq> newline \<Longrightarrow> breaks (c # s) = breaks s" "breaks [newline] = 1"
  "breaks (s @ t) = breaks s + breaks t"
  by (simp_all add: breaks_def)

lemma breaks_concat: "breaks (concat xs) = sum_list (map breaks xs)"
  by (induction xs) simp_all

lemma breaks_escape [simp]: "breaks (escapeText s) = 0"
proof -
  have "breaks (escape_char c) = 0" for c by (auto simp: escape_char_def newline_def breaks_def)
  then show ?thesis by (induction s) (simp_all add: escapeText_def)
qed

lemma breaks_quoted [simp]: "breaks (quoted s) = breaks s" "breaks (fieldOrDash s) = breaks s"
  by (simp_all add: quoted_def fieldOrDash_def newline_def breaks_def)

lemma breaks_format [simp]: "breaks (formatFieldValue s) = 0"
  by (simp add: formatFieldValue_def Let_def)

text \<open>How many lines a call of the logger writes: messages and field values are escaped, but the level, the identifier, the
  channel, the event and the names of fields are written as they are, so that every line break in
  them begins a further line of the log.\<close>

theorem log_line_breaks:
  "breaks (log_line ts th loc c) = 1 + breaks ts + breaks th + breaks (lc_level c) + breaks (lc_uuid c) + breaks (lc_channel c) +
     breaks (lc_event c) + sum_list (map (breaks \<circ> lf_key) (fields_written loc c))"
proof -
  have "sum_list (map (\<lambda>f. breaks ('' '' @ lf_key f @ ''='' @ formatFieldValue (lf_value f))) fls) =
    sum_list (map (breaks \<circ> lf_key) fls)" for fls
    by (induction fls) (simp_all add: newline_def)
  moreover have "CHR ''x'' \<noteq> newline" "breaks (CHR 0x0A # []) = 1" by (simp_all add: newline_def breaks_def)
  ultimately show ?thesis by (simp add: log_line_def breaks_concat o_def newline_def)
qed

text \<open>The identifiers of requests are version 4 UUIDs: 36 characters, dashes at their four places, version 4,
  variant 8 to b, and hexadecimal digits everywhere else.\<close>

theorem uuid_v4:
  assumes "length bytes = 16"
  shows "length (generateUuid bytes) = 36 \<and> (\<forall>i\<in>{8, 13, 18, 23}. generateUuid bytes ! i = CHR ''-'') \<and>
    generateUuid bytes ! 14 = CHR ''4'' \<and> generateUuid bytes ! 19 \<in> {CHR ''8'', CHR ''9'', CHR ''a'', CHR ''b''} \<and>
    (\<forall>i < 36. i \<notin> {8, 13, 18, 23} \<longrightarrow> hex_value (generateUuid bytes ! i) \<noteq> None)"
proof -
  define u where "u = uuid_bytes bytes"
  define H where "H = (\<lambda>i. hex_digit (unat (u ! i) div 16))"
  define L where "L = (\<lambda>i. hex_digit (unat (u ! i) mod 16))"
  have "[0..<16] = [0, 1, 2, 3, 4, 5, 6, 7, 8, 9, 10, 11, 12, 13, 14, 15::nat]" by (simp add: upt_rec)
  then have uuid: "generateUuid bytes = [H 0, L 0, H 1, L 1, H 2, L 2, H 3, L 3, CHR ''-'', H 4, L 4, H 5, L 5, CHR ''-'',
      H 6, L 6, H 7, L 7, CHR ''-'', H 8, L 8, H 9, L 9, CHR ''-'', H 10, L 10, H 11, L 11, H 12, L 12, H 13, L 13,
      H 14, L 14, H 15, L 15]"
    by (simp add: generateUuid_def byte_hex_def H_def L_def u_def)
  have "unat (u ! i) div 16 < 16" for i using unsigned_less [of "u ! i", where 'a = nat] by (simp add: less_mult_imp_div_less)
  then have hex: "hex_value (H i) \<noteq> None" "hex_value (L i) \<noteq> None" for i
    using hex_digit_laws(1) by (simp_all add: H_def L_def)
  have nibble: "unat x div 16 = unat (drop_bit 4 x)" for x :: "8 word" by (simp add: unat_drop_bit_eq) (simp add: drop_bit_eq_div)
  have "u ! 6 = (bytes ! 6 AND 0x0F) OR 0x40" "u ! 8 = (bytes ! 8 AND 0x3F) OR 0x80"
    using assms by (simp_all add: u_def uuid_bytes_def)
  then have "drop_bit 4 (u ! 6) = 4" and v: "drop_bit 4 (u ! 8) = (drop_bit 4 (bytes ! 8) AND 3) OR 8"
    by (simp_all add: drop_bit_or drop_bit_and)
  have chars: "char_of (52::nat) = CHR ''4''" "char_of (56::nat) = CHR ''8''" "char_of (57::nat) = CHR ''9''"
    "char_of (97::nat) = CHR ''a''" "char_of (98::nat) = CHR ''b''" by code_simp+
  from \<open>drop_bit 4 (u ! 6) = 4\<close> have "H 6 = CHR ''4''" by (simp add: H_def nibble hex_digit_def chars)
  moreover have "H 8 \<in> {CHR ''8'', CHR ''9'', CHR ''a'', CHR ''b''}"
  proof -
    define y where "y = drop_bit 4 (bytes ! 8) AND 3"
    have "y = take_bit 2 (drop_bit 4 (bytes ! 8))" by (simp add: y_def take_bit_eq_mask mask_eq_exp_minus_1)
    then have "unat y < 4" by (simp add: take_bit_eq_mod unat_mod_distrib)
    then have "unat y = 0 \<or> unat y = 1 \<or> unat y = 2 \<or> unat y = 3" by linarith
    then have "y = 0 \<or> y = 1 \<or> y = 2 \<or> y = 3" by (simp add: word_unat_eq_iff)
    with v show ?thesis by (auto simp: H_def nibble hex_digit_def chars simp flip: y_def)
  qed
  moreover have "hex_value (CHR ''4'') \<noteq> None" by (simp add: hex_value_def)
  ultimately show ?thesis
    using hex by (simp add: uuid numeral_nat nth_Cons' less_Suc_eq all_conj_distrib)
qed

definition is_end :: "string \<times> string \<times> string \<times> log_field list \<Rightarrow> bool" where
  "is_end l \<longleftrightarrow> fst (snd l) \<in> {''function_failed'', ''function_exit'', ''function_exception''}"

lemma trace_body_ends:
  "trace_body ops t = (t', l) \<Longrightarrow> length (filter is_end l) = (if tr_completed t' \<and> \<not> tr_completed t then 1 else 0) \<and>
    (tr_completed t \<longrightarrow> tr_completed t')"
proof (induction ops arbitrary: t l)
  case (Cons op ops)
  obtain t1 l1 where d: "trace_do op t = (t1, l1)" by (cases "trace_do op t")
  obtain l2 where b: "trace_body ops t1 = (t', l2)" and l: "l = l1 @ l2" using Cons.prems d by (auto split: prod.splits)
  from Cons.IH [OF b] d l show ?case by (cases op) (auto simp: is_end_def split: if_splits)
qed simp

text \<open>A traced function leaves one record of its end, whatever it logs on the way and however often it reports success
  or failure, and none of its other records looks like one.\<close>

theorem trace_ends_once: "length (filter is_end (traced name fls loc ops thrown ms)) = 1"
proof -
  obtain t l where e: "trace_enter name fls loc = (t, l)" by (cases "trace_enter name fls loc")
  obtain t' l' where b: "trace_body ops t = (t', l')" by (cases "trace_body ops t")
  from e have "\<not> tr_completed t" "filter is_end l = []" by (auto simp: trace_enter_def is_end_def)
  with trace_body_ends [OF b] show ?thesis
    by (simp add: traced_def e b trace_leave_def is_end_def Let_def)
qed

lemma uuid_v4_witness: "length (generateUuid (replicate 16 0xFF)) = 36 \<and> generateUuid (replicate 16 0xFF) ! 14 = CHR ''4''"
  using uuid_v4 [of "replicate 16 0xFF"] by simp

definition demo_io :: log_io where
  "demo_io = \<lparr>io_mkdir = True, io_dir = Some True, io_is_dir = True, io_stat = True, io_size = True, io_open = True,
     io_header = True, io_write = True, io_stays = True, io_stamp = ''20260101_000000''\<rparr>"

text \<open>A logger whose current file is full.\<close>

definition demo_log :: log_sys where
  "demo_log = \<lparr>ls_dir = ''log'', ls_current = ''log/log_20260101_000000.log'', ls_max = 5, ls_bytes = 5, ls_seq = 0,
     ls_initialized = True, ls_disabled = False, ls_open = True, ls_min = 20,
     ls_files = [(''log/log_20260101_000000.log'', ''full!'')]\<rparr>"

definition demo_call :: log_call where
  "demo_call = \<lparr>lc_level = ''ERROR'', lc_uuid = [], lc_channel = ''ATM'', lc_event = ''e'', lc_message = ''m'', lc_fields = []\<rparr>"

definition demo_loc :: source_location where
  "demo_loc = \<lparr>sl_file = ''f'', sl_line = 1, sl_function = ''g''\<rparr>"

lemma log_written_witness:
  "\<exists>s' old. write_log (\<lambda>_. demo_io) ''t'' ''1'' demo_loc demo_call demo_log = (True, s') \<and>
     map_of (ls_files s') (ls_current s') = Some (old @ log_line ''t'' ''1'' demo_loc demo_call)"
proof -
  have "all_ok demo_io" by (simp add: all_ok_def demo_io_def)
  moreover have "severityOf ''ERROR'' = 40" by code_simp
  then have "ls_min demo_log \<le> severityOf (lc_level demo_call)" by (simp add: demo_log_def demo_call_def)
  moreover have "\<not> ls_disabled demo_log" by (simp add: demo_log_def)
  ultimately show ?thesis
    using log_written [of "\<lambda>_. demo_io" demo_log demo_call "''t''" "''1''" demo_loc] by blast
qed

end
