(* ===== verification/RequestLog.thy ===== *)
theory RequestLog
  imports Sanitizer Logger
begin

text \<open>
  What the router writes to the log about a request that reaches its handler: its arrival, the body
  and the answer after the sanitiser, and the line of its end with four members of the answer.
\<close>

definition responseField :: "env \<Rightarrow> json \<Rightarrow> string \<Rightarrow> string" where
  "responseField e response key = (case jfind response key of
      None \<Rightarrow> [] | Some JNull \<Rightarrow> [] | Some (JStr s) \<Rightarrow> s | Some v \<Rightarrow> dump_json e v)"

definition fld :: "string \<Rightarrow> string \<Rightarrow> log_field" where
  "fld key val = \<lparr>lf_key = key, lf_value = val\<rparr>"

definition logRequest :: "env \<Rightarrow> string \<Rightarrow> string \<Rightarrow> int \<Rightarrow> int \<Rightarrow> json \<Rightarrow> log_call" where
  "logRequest e reqId channel ms httpStatus response =
     (let transactionId = responseField e response ''transactionId'';
          status = responseField e response ''status'';
          errorCode = responseField e response ''errorCode'';
          message = responseField e response ''message''
      in \<lparr>lc_level = (if httpStatus \<ge> 500 then ''ERROR'' else if httpStatus \<ge> 400 then ''WARN'' else ''INFO''),
          lc_uuid = reqId, lc_channel = channel, lc_event = ''request_finished'', lc_message = ''HTTP request completed'',
          lc_fields = [fld ''durationMs'' (int_str ms), fld ''httpStatus'' (int_str httpStatus)] @
            (if transactionId \<noteq> [] then [fld ''transactionId'' transactionId] else []) @
            (if status \<noteq> [] then [fld ''status'' status] else []) @
            (if errorCode \<noteq> [] then [fld ''errorCode'' errorCode] else []) @
            (if message \<noteq> [] then [fld ''responseMessage'' (truncateForLog message 500)] else [])\<rparr>)"

definition context_of :: "string \<Rightarrow> string \<Rightarrow> log_context" where
  "context_of reqId channel = \<lparr>cx_uuid = reqId, cx_channel = channel\<rparr>"

text \<open>\<^verbatim>\<open>POST /transaction/initiate\<close>: \<open>finished\<close> is the answer with its identifiers.\<close>

definition initiate_log :: "env \<Rightarrow> string \<Rightarrow> string \<Rightarrow> string \<Rightarrow> json \<Rightarrow> json \<Rightarrow> json \<Rightarrow> int \<Rightarrow> log_call list" where
  "initiate_log e reqId addr channelId data response finished ms = (let status = httpStatusFor response in
     [logCurrent (context_of reqId ''TRANSACTION'') ''INFO'' ''request_received'' ''Transaction request received''
        [fld ''path'' ''/transaction/initiate'', fld ''remoteAddr'' addr],
      logCurrent (context_of reqId channelId) ''INFO'' ''request_body'' ''Incoming request body''
        [fld ''channel'' channelId, fld ''body'' (dump_json e (sanitizeForLog data))],
      logCurrent (context_of reqId channelId) ''INFO'' ''response_body'' ''Outgoing response body''
        [fld ''channel'' channelId, fld ''httpStatus'' (int_str status), fld ''body'' (dump_json e (sanitizeForLog response))],
      logRequest e reqId channelId ms status finished])"

text \<open>The routes of \<^verbatim>\<open>registerJsonPost\<close>: the answer has its identifiers already, and they are erased for
  the log.\<close>

fun jerase :: "json \<Rightarrow> string \<Rightarrow> json" where
  "jerase (JObj kvs) k = JObj (filter (\<lambda>(k', v). k' \<noteq> k) kvs)"
| "jerase j k = j"

definition post_log :: "env \<Rightarrow> string \<Rightarrow> string \<Rightarrow> string \<Rightarrow> string \<Rightarrow> json \<Rightarrow> json \<Rightarrow> int \<Rightarrow> log_call list" where
  "post_log e reqId addr path channel request response ms = (let status = httpStatusFor response;
        responseForLog = jerase (jerase response ''requestId'') ''transactionUuid'' in
     [logCurrent (context_of reqId channel) ''INFO'' ''request_received'' ''HTTP request received''
        [fld ''path'' path, fld ''remoteAddr'' addr],
      logCurrent (context_of reqId channel) ''INFO'' ''request_received'' ''Incoming request''
        [fld ''channel'' channel, fld ''requestBody'' (dump_json e (sanitizeForLog request))],
      logCurrent (context_of reqId channel) ''INFO'' ''response_sent'' ''Outgoing response''
        [fld ''channel'' channel, fld ''httpStatus'' (int_str status),
         fld ''responseBody'' (dump_json e (sanitizeForLog responseForLog))],
      logRequest e reqId channel ms status response])"

section \<open>What reaches the log\<close>

definition shown :: "string list" where
  "shown = [''transactionId'', ''status'', ''errorCode'', ''message'']"

text \<open>Answers that the log may not tell apart: alike but for sensitive members, and with the same four
  members that are logged as they are.\<close>

definition same_answer :: "json \<Rightarrow> json \<Rightarrow> bool" where
  "same_answer j j' \<longleftrightarrow> same_public j j' \<and> (\<forall>k \<in> set shown. jfind j k = jfind j' k)"

lemma jfind_jerase: "jfind (jerase j k) k' = (if k' = k then None else jfind j k')"
proof (cases j)
  case (JObj kvs)
  then show ?thesis by (induction kvs arbitrary: j) auto
qed simp_all

lemma sanitize_jerase: "sanitizeForLog (jerase j k) = jerase (sanitizeForLog j) k"
  by (cases j) (auto simp: filter_map o_def case_prod_beta intro!: map_cong filter_cong)

lemma logRequest_cong:
  assumes "\<forall>k \<in> set shown. jfind j k = jfind j' k"
  shows "logRequest e reqId channel ms st j = logRequest e reqId channel ms st j'"
  using assms by (simp add: logRequest_def responseField_def shown_def)

lemma status_cong: "\<forall>k \<in> set shown. jfind j k = jfind j' k \<Longrightarrow> httpStatusFor j = httpStatusFor j'"
  by (simp add: httpStatusFor_def shown_def)



end
