(* ===== verification/HttpServer.thy ===== *)
theory HttpServer
  imports Machines "HOL-Library.Multiset"
begin

text \<open>
  The part of \<^verbatim>\<open>httplib.h\<close> that the start and the end of the server depend on: the thread pool with its
  bounded queue, binding and listening, and \<^verbatim>\<open>stop\<close>. The listening thread, the worker threads and
  whoever calls \<^verbatim>\<open>stop\<close> move in any order; a critical section of the pool is one step, and a
  thread that waits has no step. What a connection asks for is left to the handlers.
\<close>

section \<open>State\<close>

type_synonym conn = nat

text \<open>A worker waits for a job, runs one, or has left its loop.\<close>

datatype worker = Waiting | Running conn | Exited

text \<open>Where \<^verbatim>\<open>Server::listen\<close> is: not called, bound, in its loop, joining worker \<open>i\<close> (with the result it
  will give), or returned.\<close>

datatype listen_pc = Idle | Bound | Accepting | Joining bool nat | Returned bool

text \<open>The members of \<^verbatim>\<open>ThreadPool\<close> and \<^verbatim>\<open>Server\<close>; \<open>svr_sock\<close> is whether \<^verbatim>\<open>svr_sock_\<close> differs from
  \<^verbatim>\<open>INVALID_SOCKET\<close>. The last four list the connections put into the queue, taken from it, done and refused.\<close>

record http_sys =
  jobs :: "conn list"
  tp_shutdown :: bool
  max_queued :: nat
  workers :: "worker list"
  new_task_queue :: "nat \<times> nat"
  svr_sock :: bool
  is_running :: bool
  is_decommissioned :: bool
  lpc :: listen_pc
  accepted :: "conn list"
  started :: "conn list"
  served :: "conn list"
  refused :: "conn list"

definition new_server :: "nat \<times> nat \<Rightarrow> http_sys" where
  "new_server nq = \<lparr>jobs = [], tp_shutdown = False, max_queued = 0, workers = [], new_task_queue = nq, svr_sock = False,
     is_running = False, is_decommissioned = False, lpc = Idle, accepted = [], started = [], served = [], refused = []\<rparr>"

section \<open>The thread pool\<close>

definition thread_pool :: "nat \<Rightarrow> nat \<Rightarrow> http_sys \<Rightarrow> http_sys" where
  "thread_pool n mqr s = s\<lparr>jobs := [], tp_shutdown := False, max_queued := mqr, workers := replicate n Waiting\<rparr>"

definition enqueue :: "conn \<Rightarrow> http_sys \<Rightarrow> bool \<times> http_sys" where
  "enqueue c s = (if max_queued s > 0 \<and> length (jobs s) \<ge> max_queued s then (False, s)
     else (True, s\<lparr>jobs := jobs s @ [c]\<rparr>))"

text \<open>One round of a worker up to its job; \<open>None\<close> while it waits on the condition.\<close>

definition worker_take :: "http_sys \<Rightarrow> (worker \<times> http_sys) option" where
  "worker_take s = (case jobs s of
      [] \<Rightarrow> if tp_shutdown s then Some (Exited, s) else None
    | c # rest \<Rightarrow> Some (Running c, s\<lparr>jobs := rest, started := started s @ [c]\<rparr>))"

definition tp_stop :: "http_sys \<Rightarrow> http_sys" where
  "tp_stop s = s\<lparr>tp_shutdown := True\<rparr>"

section \<open>Listening\<close>

text \<open>\<open>ok\<close> is whether the socket could be made, bound and listened on.\<close>

definition bind_to_port :: "bool \<Rightarrow> http_sys \<Rightarrow> bool \<times> http_sys" where
  "bind_to_port ok s = (if is_decommissioned s \<or> \<not> ok then (False, s\<lparr>is_decommissioned := True\<rparr>)
     else (True, s\<lparr>svr_sock := True\<rparr>))"

definition listen_enter :: "http_sys \<Rightarrow> http_sys" where
  "listen_enter s = (if is_decommissioned s then s\<lparr>lpc := Returned False\<rparr>
     else (thread_pool (fst (new_task_queue s)) (snd (new_task_queue s)) s)\<lparr>is_running := True, lpc := Accepting\<rparr>)"

text \<open>A connection that the queue refuses is closed at once.\<close>

definition listen_accept :: "conn \<Rightarrow> http_sys \<Rightarrow> http_sys" where
  "listen_accept c s = (case enqueue c s of
      (True, s) \<Rightarrow> s\<lparr>accepted := accepted s @ [c]\<rparr>
    | (False, s) \<Rightarrow> s\<lparr>refused := refused s @ [c]\<rparr>)"

definition listen_leave :: "bool \<Rightarrow> http_sys \<Rightarrow> http_sys" where
  "listen_leave ret s = s\<lparr>is_running := False, is_decommissioned := \<not> ret, lpc := Returned ret\<rparr>"

text \<open>\<^verbatim>\<open>Server::stop\<close>; \<open>None\<close> is a failed assertion.\<close>

definition stop :: "http_sys \<Rightarrow> http_sys option" where
  "stop s = (if is_running s then (if svr_sock s then Some (s\<lparr>svr_sock := False, is_decommissioned := False\<rparr>) else None)
     else Some (s\<lparr>is_decommissioned := False\<rparr>))"

inductive http_step :: "http_sys \<Rightarrow> http_sys \<Rightarrow> bool" where
  bind: "lpc s = Idle \<Longrightarrow> bind_to_port ok s = (b, s') \<Longrightarrow> http_step s (s'\<lparr>lpc := if b then Bound else Returned False\<rparr>)"
| enter: "lpc s = Bound \<Longrightarrow> http_step s (listen_enter s)"
| accept: "lpc s = Accepting \<Longrightarrow> svr_sock s \<Longrightarrow> http_step s (listen_accept c s)"
| accept_error: "lpc s = Accepting \<Longrightarrow> svr_sock s \<Longrightarrow> http_step s ((tp_stop s)\<lparr>lpc := Joining False 0\<rparr>)"
| closed: "lpc s = Accepting \<Longrightarrow> \<not> svr_sock s \<Longrightarrow> http_step s ((tp_stop s)\<lparr>lpc := Joining True 0\<rparr>)"
| join: "lpc s = Joining ret i \<Longrightarrow> i < length (workers s) \<Longrightarrow> workers s ! i = Exited \<Longrightarrow>
    http_step s (s\<lparr>lpc := Joining ret (Suc i)\<rparr>)"
| leave: "lpc s = Joining ret (length (workers s)) \<Longrightarrow> http_step s (listen_leave ret s)"
| take: "i < length (workers s) \<Longrightarrow> workers s ! i = Waiting \<Longrightarrow> worker_take s = Some (w, s') \<Longrightarrow>
    http_step s (s'\<lparr>workers := (workers s)[i := w]\<rparr>)"
| done_job: "i < length (workers s) \<Longrightarrow> workers s ! i = Running c \<Longrightarrow>
    http_step s (s\<lparr>workers := (workers s)[i := Waiting], served := served s @ [c]\<rparr>)"

abbreviation http_move :: "http_sys \<Rightarrow> http_sys \<Rightarrow> bool" where
  "http_move s s' \<equiv> http_step s s' \<or> stop s = Some s'"

section \<open>Invariant\<close>

fun running_conn :: "worker \<Rightarrow> conn multiset" where
  "running_conn (Running c) = {#c#}"
| "running_conn _ = {#}"

definition in_work :: "http_sys \<Rightarrow> conn multiset" where
  "in_work s = sum_list (map running_conn (workers s))"

text \<open>What holds of the workers at each point of \<^verbatim>\<open>listen\<close>.\<close>

fun workers_ok :: "listen_pc \<Rightarrow> http_sys \<Rightarrow> bool" where
  "workers_ok Idle s = (workers s = [] \<and> jobs s = [] \<and> \<not> is_running s)"
| "workers_ok Bound s = (workers s = [] \<and> jobs s = [] \<and> \<not> is_running s)"
| "workers_ok Accepting s = (Exited \<notin> set (workers s) \<and> \<not> tp_shutdown s \<and> is_running s)"
| "workers_ok (Joining ret i) s = (tp_shutdown s \<and> is_running s \<and> i \<le> length (workers s) \<and> (\<forall>k<i. workers s ! k = Exited))"
| "workers_ok (Returned ret) s = (set (workers s) \<subseteq> {Exited} \<and> jobs s = [] \<and> \<not> is_running s)"

definition http_inv :: "http_sys \<Rightarrow> bool" where
  "http_inv s \<longleftrightarrow> 0 < fst (new_task_queue s) \<and> workers_ok (lpc s) s \<and> (Exited \<in> set (workers s) \<longrightarrow> jobs s = []) \<and>
     accepted s = started s @ jobs s \<and> mset (started s) = in_work s + mset (served s) \<and>
     (0 < max_queued s \<longrightarrow> length (jobs s) \<le> max_queued s) \<and>
     (workers s = [] \<or> length (workers s) = fst (new_task_queue s)) \<and>
     (is_running s \<longrightarrow> length (workers s) = fst (new_task_queue s) \<and> max_queued s = snd (new_task_queue s))"

lemmas http_defs = bind_to_port_def listen_enter_def thread_pool_def listen_accept_def enqueue_def tp_stop_def
  listen_leave_def worker_take_def

lemma sum_list_update_split:
  fixes xs :: "'a :: comm_monoid_add list"
  assumes "i < length xs"
  shows "\<exists>r. sum_list xs = xs ! i + r \<and> (\<forall>x. sum_list (xs[i := x]) = x + r)"
  using assms
proof (induction xs arbitrary: i)
  case (Cons y ys)
  show ?case
  proof (cases i)
    case (Suc k)
    with Cons obtain r where "sum_list ys = ys ! k + r" "\<And>x. sum_list (ys[k := x]) = x + r" by fastforce
    with Suc show ?thesis by (intro exI [of _ "y + r"]) (simp add: algebra_simps)
  qed auto
qed simp

lemma in_work_update:
  assumes "i < length ws"
  shows "sum_list (map running_conn (ws[i := w])) + running_conn (ws ! i) = sum_list (map running_conn ws) + running_conn w"
proof -
  from sum_list_update_split [of i "map running_conn ws"] assms obtain r where
    "sum_list (map running_conn ws) = running_conn (ws ! i) + r"
    "\<And>x. sum_list ((map running_conn ws)[i := x]) = x + r" by auto
  then show ?thesis by (simp add: map_update)
qed

lemma set_update_other: "x \<in> set (xs[i := y]) \<Longrightarrow> x \<noteq> y \<Longrightarrow> x \<in> set xs"
  using set_update_subset_insert by fastforce


lemma job_taken_inv:
  assumes "http_inv s" and i: "i < length (workers s)" "workers s ! i = Waiting" and take: "worker_take s = Some (w, s')"
  shows "http_inv (s'\<lparr>workers := (workers s)[i := w]\<rparr>)"
proof -
  have work: "sum_list (map running_conn ((workers s)[i := w])) = in_work s + running_conn w"
    using in_work_update [OF i(1), of w] i(2) by (simp add: in_work_def)
  have waits: "Waiting \<in> set (workers s)" using i nth_mem by metis
  show ?thesis
  proof (cases "jobs s")
    case Nil
    with take have w: "w = Exited" "s' = s" "tp_shutdown s" by (auto simp: worker_take_def split: if_splits)
    have "workers_ok (lpc s) (s\<lparr>workers := (workers s)[i := Exited]\<rparr>)"
      using assms(1) i w(3) waits by (cases "lpc s") (auto simp: http_inv_def nth_list_update)
    with assms(1) w work Nil show ?thesis by (auto simp: http_inv_def in_work_def)
  next
    case (Cons c rest)
    with take have w: "w = Running c" "s' = s\<lparr>jobs := rest, started := started s @ [c]\<rparr>"
      by (auto simp: worker_take_def)
    have open_: "Exited \<notin> set (workers s)" using assms(1) Cons by (auto simp: http_inv_def)
    then have shut: "Exited \<notin> set ((workers s)[i := Running c])" using set_update_other by fastforce
    have "workers_ok (lpc s) (s\<lparr>jobs := rest, started := started s @ [c], workers := (workers s)[i := Running c]\<rparr>)"
      using assms(1) i Cons shut open_ by (cases "lpc s") (auto simp: http_inv_def nth_list_update in_set_conv_nth)
    with assms(1) w work Cons shut show ?thesis by (auto simp: http_inv_def in_work_def)
  qed
qed

lemma job_done_inv:
  assumes "http_inv s" and i: "i < length (workers s)" "workers s ! i = Running c"
  shows "http_inv (s\<lparr>workers := (workers s)[i := Waiting], served := served s @ [c]\<rparr>)"
proof -
  have work: "add_mset c (sum_list (map running_conn ((workers s)[i := Waiting]))) = in_work s"
    using in_work_update [OF i(1), of Waiting] i(2) by (simp add: in_work_def)
  have runs: "Running c \<in> set (workers s)" using i nth_mem by metis
  have "workers_ok (lpc s) (s\<lparr>workers := (workers s)[i := Waiting], served := served s @ [c]\<rparr>)"
    using assms(1) i runs
    by (cases "lpc s") (auto simp: http_inv_def nth_list_update dest: set_update_other)
  with assms(1) work show ?thesis
    by (auto simp: http_inv_def in_work_def dest: set_update_other)
qed

lemma listen_leave_inv:
  assumes "http_inv s" and "lpc s = Joining ret (length (workers s))"
  shows "http_inv (listen_leave ret s)"
proof -
  have all: "set (workers s) \<subseteq> {Exited}" using assms by (auto simp: http_inv_def in_set_conv_nth)
  have "workers s \<noteq> []" using assms by (auto simp: http_inv_def)
  with all have "Exited \<in> set (workers s)" by (cases "workers s") auto
  with assms(1) all show ?thesis by (auto simp: http_inv_def listen_leave_def in_work_def)
qed

lemma http_inv_step: "http_step s s' \<Longrightarrow> http_inv s \<Longrightarrow> http_inv s'"
proof (induction rule: http_step.induct)
  case (enter s)
  then have "sum_list (map running_conn (replicate n Waiting)) = {#}" for n by (induction n) simp_all
  with enter show ?case by (auto simp: http_inv_def http_defs in_work_def)
next
  case (join s ret i)
  then show ?case by (auto simp: http_inv_def in_work_def less_Suc_eq)
next
  case (leave s ret)
  then show ?case by (auto intro: listen_leave_inv)
next
  case (take i s w s')
  then show ?case by (auto intro: job_taken_inv)
next
  case (done_job i s c)
  then show ?case by (auto intro: job_done_inv)
qed (auto simp: http_inv_def http_defs in_work_def split: if_splits prod.splits)

lemma http_inv_stop: "stop s = Some s' \<Longrightarrow> http_inv s \<Longrightarrow> http_inv s'"
  by (cases "lpc s") (auto simp: stop_def http_inv_def in_work_def split: if_splits)

definition http_start :: "http_sys \<Rightarrow> bool" where
  "http_start s \<longleftrightarrow> (\<exists>n m. 0 < n \<and> s = new_server (n, m))"

interpretation http: machine http_start http_move http_inv
proof unfold_locales
  show "http_inv s" if "http_start s" for s using that by (auto simp: http_start_def http_inv_def new_server_def in_work_def)
qed (blast intro: http_inv_step http_inv_stop)

abbreviation http_reachable :: "http_sys \<Rightarrow> bool" where
  "http_reachable \<equiv> reachable_by http_start http_move"


section \<open>Draining\<close>

text \<open>The socket is closed and \<^verbatim>\<open>listen\<close> has not returned; and how many steps are left at most.\<close>

definition closing :: "http_sys \<Rightarrow> bool" where
  "closing s \<longleftrightarrow> is_running s \<and> \<not> svr_sock s"

fun worker_steps :: "worker \<Rightarrow> nat" where
  "worker_steps Waiting = 1"
| "worker_steps (Running c) = 2"
| "worker_steps Exited = 0"

fun listen_steps :: "listen_pc \<Rightarrow> nat \<Rightarrow> nat" where
  "listen_steps Accepting n = n + 2"
| "listen_steps (Joining ret i) n = n + 1 - i"
| "listen_steps _ n = 0"

definition drain :: "http_sys \<Rightarrow> nat" where
  "drain s = 2 * length (jobs s) + sum_list (map worker_steps (workers s)) + listen_steps (lpc s) (length (workers s))"

lemma worker_steps_update:
  assumes "i < length ws"
  shows "sum_list (map worker_steps (ws[i := w])) + worker_steps (ws ! i) = sum_list (map worker_steps ws) + worker_steps w"
proof -
  from sum_list_update_split [of i "map worker_steps ws"] assms obtain r where
    "sum_list (map worker_steps ws) = worker_steps (ws ! i) + r"
    "\<And>x. sum_list ((map worker_steps ws)[i := x]) = x + r" by auto
  then show ?thesis by (simp add: map_update)
qed

lemma running_pcs: "http_inv s \<Longrightarrow> is_running s \<Longrightarrow> lpc s = Accepting \<or> (\<exists>ret i. lpc s = Joining ret i)"
  by (cases "lpc s") (auto simp: http_inv_def)

lemma drain_step:
  assumes "http_step s s'" and "http_inv s" and "closing s"
  shows "drain s' < drain s \<and> (closing s' \<or> (\<exists>ret. lpc s' = Returned ret))"
  using assms(1)
proof cases
  case (take i w t)
  have "sum_list (map worker_steps ((workers s)[i := w])) + 1 = sum_list (map worker_steps (workers s)) + worker_steps w"
    using worker_steps_update [OF take(2), of w] take(3) by simp
  with take(1,4) assms(3) show ?thesis by (auto simp: drain_def closing_def worker_take_def split: list.splits if_splits)
next
  case (done_job i c)
  have "sum_list (map worker_steps ((workers s)[i := Waiting])) + 2 = sum_list (map worker_steps (workers s)) + 1"
    using worker_steps_update [OF done_job(2), of Waiting] done_job(3) by simp
  with done_job(1) assms(3) show ?thesis by (simp add: drain_def closing_def)
qed (use assms(2,3) in \<open>auto simp: drain_def closing_def http_inv_def http_defs\<close>)

lemma returned_stuck: "http_inv s \<Longrightarrow> lpc s = Returned ret \<Longrightarrow> \<not> http_step s s'"
  by (auto simp: http_inv_def elim!: http_step.cases dest!: nth_mem)

lemma closing_moves:
  assumes "http_inv s" and "closing s"
  shows "\<exists>s'. http_step s s'"
proof -
  from running_pcs [OF assms(1)] assms(2) consider "lpc s = Accepting" | ret i where "lpc s = Joining ret i"
    by (auto simp: closing_def)
  then show ?thesis
  proof cases
    case 1
    with assms(2) http_step.closed show ?thesis by (auto simp: closing_def)
  next
    case 2
    with assms(1) have i: "i \<le> length (workers s)" and shut: "tp_shutdown s" by (auto simp: http_inv_def)
    show ?thesis
    proof (cases "i = length (workers s)")
      case True
      with 2 http_step.leave show ?thesis by blast
    next
      case False
      with i have i: "i < length (workers s)" by simp
      have "worker_take s \<noteq> None" using shut by (auto simp: worker_take_def split: list.split)
      with i 2 show ?thesis
        by (cases "workers s ! i") (auto intro: http_step.take http_step.done_job http_step.join)
    qed
  qed
qed

lemma drains:
  assumes "(http_step ^^ n) s s'" and "http_inv s" and "closing s"
  shows "n + drain s' \<le> drain s \<and> http_inv s' \<and> (closing s' \<or> (\<exists>ret. lpc s' = Returned ret))"
  using assms(1)
proof (induction n arbitrary: s')
  case (Suc n)
  then obtain x where "(http_step ^^ n) s x" and step: "http_step x s'" by auto
  with Suc.IH have IH: "n + drain x \<le> drain s" "http_inv x" "closing x \<or> (\<exists>ret. lpc x = Returned ret)" by auto
  with returned_stuck step have "closing x" by blast
  with drain_step [OF step IH(2)] http_inv_step [OF step IH(2)] IH(1) show ?case by simp
qed (use assms(2,3) in simp)

section \<open>Properties\<close>

lemma returned_served:
  assumes "http_inv s" and "lpc s = Returned ret"
  shows "mset (served s) = mset (accepted s)"
proof -
  have "set (workers s) \<subseteq> {Exited}" using assms by (auto simp: http_inv_def)
  moreover have "set ws \<subseteq> {Exited} \<Longrightarrow> sum_list (map running_conn ws) = {#}" for ws by (induction ws) auto
  ultimately have "in_work s = {#}" by (simp add: in_work_def)
  with assms show ?thesis by (auto simp: http_inv_def)
qed

text \<open>C4: The server shuts down gracefully: once its socket is closed, whatever the order in which the threads
  move, \<^verbatim>\<open>listen\<close> returns after at most as many steps as the queue and the workers have left, without a
  deadlock, and every connection that was accepted has been served, the queued ones too.\<close>

theorem graceful_stop:
  assumes "http_reachable s" and "closing s" and "(http_step ^^ n) s s'"
  shows "n \<le> drain s \<and> ((\<nexists>t. http_step s' t) \<longrightarrow> (\<exists>ret. lpc s' = Returned ret) \<and> mset (served s') = mset (accepted s'))"
proof -
  have len: "n \<le> drain s" and inv: "http_inv s'" and pc: "closing s' \<or> (\<exists>ret. lpc s' = Returned ret)"
    using drains [OF assms(3) http.reachable_inv [OF assms(1)] assms(2)] by auto
  have "\<exists>ret. lpc s' = Returned ret" if "\<nexists>t. http_step s' t" using that pc closing_moves [OF inv] by blast
  with len returned_served [OF inv] show ?thesis by blast
qed

text \<open>Connections are served in the order in which they are accepted, no more of them wait than the
  queue is wide, and no more of them are served at a time than there are workers.\<close>

theorem queue_bounded:
  assumes "http_reachable s" and "new_task_queue s = (n, m)" and "0 < m"
  shows "accepted s = started s @ jobs s \<and> (is_running s \<longrightarrow> length (jobs s) \<le> m) \<and> size (in_work s) \<le> n"
proof -
  have inv: "http_inv s" using http.reachable_inv [OF assms(1)] .
  have "size (sum_list (map running_conn ws)) \<le> length ws" for ws
  proof (induction ws)
    case (Cons w ws)
    then show ?case by (cases w) auto
  qed simp
  from this [of "workers s"] have "size (in_work s) \<le> length (workers s)" by (simp add: in_work_def)
  with inv assms(2,3) show ?thesis by (auto simp: http_inv_def)
qed


section \<open>A small server\<close>

text \<open>One worker and a queue of one: the worker serves the first connection, the second waits, the third is
  refused, and then \<^verbatim>\<open>stop\<close> is called.\<close>

definition small_server :: http_sys where
  "small_server = (new_server (1, 1))\<lparr>max_queued := 1, workers := [Running 7], is_running := True, svr_sock := True, lpc := Accepting,
     jobs := [8], started := [7], accepted := [7, 8], refused := [9]\<rparr>"

definition small_closing :: http_sys where
  "small_closing = small_server\<lparr>svr_sock := False\<rparr>"

lemma reach_http: "http_reachable s \<Longrightarrow> http_step s s' \<Longrightarrow> http_reachable s'"
  by (auto intro: reachable_by.next_state)

lemma small_reachable: "http_reachable small_server"
proof -
  let ?s0 = "new_server (1, 1)"
  let ?s1 = "?s0\<lparr>svr_sock := True, lpc := Bound\<rparr>"
  let ?s2 = "listen_enter ?s1"
  let ?s3 = "listen_accept 7 ?s2"
  let ?s4 = "?s3\<lparr>jobs := [], started := [7], workers := [Running 7]\<rparr>"
  have r0: "http_reachable ?s0" by (rule reachable_by.init) (auto simp: http_start_def)
  have h1: "http_step ?s0 ?s1"
    using http_step.bind [of ?s0 True True "?s0\<lparr>svr_sock := True\<rparr>"] by (simp add: new_server_def bind_to_port_def)
  have h2: "http_step ?s1 ?s2" by (rule http_step.enter) simp
  have h3: "http_step ?s2 ?s3" by (rule http_step.accept) (simp_all add: listen_enter_def new_server_def thread_pool_def)
  have h4: "http_step ?s3 ?s4"
    using http_step.take [of 0 ?s3 "Running 7" "?s3\<lparr>jobs := [], started := [7]\<rparr>"]
    by (simp add: http_defs new_server_def)
  have h5: "http_step ?s4 (listen_accept 8 ?s4)"
    by (rule http_step.accept) (simp_all add: http_defs new_server_def)
  have h6: "http_step (listen_accept 8 ?s4) (listen_accept 9 (listen_accept 8 ?s4))"
    by (rule http_step.accept) (simp_all add: http_defs new_server_def)
  have eq: "listen_accept 9 (listen_accept 8 ?s4) = small_server"
    by (simp add: http_defs new_server_def small_server_def)
  show ?thesis
    using reach_http [OF reach_http [OF reach_http [OF reach_http [OF reach_http [OF reach_http [OF r0 h1] h2] h3] h4] h5] h6]
    unfolding eq .
qed

lemma small_closing_reachable: "http_reachable small_closing"
  by (rule reachable_by.next_state [OF small_reachable]) (simp add: stop_def small_server_def small_closing_def new_server_def)

lemma closing_ends:
  assumes "http_inv s" and "closing s"
  shows "\<exists>n s'. (http_step ^^ n) s s' \<and> (\<nexists>t. http_step s' t)"
  using assms
proof (induction "drain s" arbitrary: s rule: less_induct)
  case less
  obtain x where step: "http_step s x" using closing_moves [OF less.prems] by blast
  note x = drain_step [OF step less.prems] http_inv_step [OF step less.prems(1)]
  from x(1) consider "closing x" "drain x < drain s" | ret where "lpc x = Returned ret" by blast
  then show ?case
  proof cases
    case 1
    from less.hyps [OF this(2) x(2) this(1)] obtain n s' where "(http_step ^^ n) x s'" "\<nexists>t. http_step s' t" by blast
    with step show ?thesis by (meson relpowp_Suc_I2)
  next
    case 2
    with returned_stuck [OF x(2)] step have "(http_step ^^ 1) s x \<and> (\<nexists>t. http_step x t)" by auto
    then show ?thesis by blast
  qed
qed

lemma graceful_stop_witness:
  "drain small_closing = 7 \<and> (\<exists>n s'. (http_step ^^ n) small_closing s' \<and> n \<le> 7 \<and> (\<exists>ret. lpc s' = Returned ret) \<and>
     mset (served s') = mset (accepted s'))"
proof -
  have closing: "closing small_closing" by (simp add: closing_def small_closing_def small_server_def)
  have drain: "drain small_closing = 7" by (simp add: drain_def small_closing_def small_server_def)
  obtain n s' where run: "(http_step ^^ n) small_closing s'" and stuck: "\<nexists>t. http_step s' t"
    using closing_ends [OF http.reachable_inv [OF small_closing_reachable] closing] by blast
  with graceful_stop [OF small_closing_reachable closing run] drain show ?thesis by fastforce
qed

lemma queue_bounded_witness: "accepted small_server = [7] @ jobs small_server \<and> length (jobs small_server) \<le> 1 \<and> size (in_work small_server) \<le> 1"
  using queue_bounded [OF small_reachable, of 1 1] by (simp add: small_server_def new_server_def)

text \<open>\<^verbatim>\<open>stop\<close> closes the socket only once the loop runs, and only once: called between binding and the loop it
  is lost, and the server accepts connections as if it had not been called; called again while the
  requests drain it fails an assertion, where assertions are compiled.\<close>

lemma stop_too_early: "lpc s = Bound \<Longrightarrow> http_inv s \<Longrightarrow> svr_sock s \<Longrightarrow> \<exists>t. stop s = Some t \<and> http_step t (listen_enter t) \<and>
    lpc (listen_enter t) = Accepting \<and> svr_sock (listen_enter t)"
  using http_step.enter [of "s\<lparr>is_decommissioned := False\<rparr>"]
  by (simp add: stop_def http_inv_def listen_enter_def thread_pool_def)

lemma stop_again: "closing s \<Longrightarrow> stop s = None"
  by (simp add: stop_def closing_def)

end
