(* ===== verification/Pool.thy ===== *)
theory Pool
  imports DbConfig Machines "HOL-Library.Multiset"
begin

text \<open>
  \<^verbatim>\<open>Database.cpp\<close>: the pool of database sessions. A session is a pointer, and the memory of a
  deleted session may be given to a later one. The critical sections of \<^verbatim>\<open>poolMutex_\<close>, the
  ping and the two halves of healing a session are one step each, and the threads that use the pool
  move between them in any order. The threads are a multiset of program points. Waiting for a free
  session and the wake-up need no step: a thread that waits has not begun. Opening a session and
  pinging it are the driver's, any outcome is possible.
\<close>

section \<open>State\<close>

type_synonym session = nat

record pool =
  poolReady :: bool
  allConnections :: "session option list"
  freeConnections :: "session list"
  staleReconnects :: nat
  poolSizeRuntime :: nat
  legacySession :: "session option"
  creds :: "DbCredentials option"

definition POOL_SIZE_DEFAULT :: int where "POOL_SIZE_DEFAULT = 10"
definition POOL_SIZE_MAX :: int where "POOL_SIZE_MAX = 50"
definition HEALTH_CHECK_RETRIES :: nat where "HEALTH_CHECK_RETRIES = 3"
definition POOL_CONNECT_RETRIES :: nat where "POOL_CONNECT_RETRIES = 3"

definition no_pool :: pool where
  "no_pool = \<lparr>poolReady = False, allConnections = [], freeConnections = [], staleReconnects = 0,
     poolSizeRuntime = nat POOL_SIZE_DEFAULT, legacySession = None, creds = None\<rparr>"

section \<open>Setting the pool up\<close>

definition pool_size :: "string option \<Rightarrow> nat" where
  "pool_size envVal = (let size = (case envVal of None \<Rightarrow> POOL_SIZE_DEFAULT | Some v \<Rightarrow>
         (case stoi v of None \<Rightarrow> POOL_SIZE_DEFAULT | Some n \<Rightarrow> n));
       size = (if size < 1 then 1 else size);
       size = (if size > POOL_SIZE_MAX then POOL_SIZE_MAX else size)
     in nat size)"

text \<open>A loop of attempts that stops at the first session.\<close>

fun first_success :: "nat \<Rightarrow> (nat \<Rightarrow> 'a option) \<Rightarrow> 'a option" where
  "first_success 0 attempt = None"
| "first_success (Suc n) attempt = (case attempt 0 of Some s \<Rightarrow> Some s | None \<Rightarrow> first_success n (\<lambda>k. attempt (Suc k)))"

text \<open>\<open>loaded\<close> is the outcome of \<^verbatim>\<open>DbConfig::load\<close>, \<open>connect i k\<close> that of attempt \<open>k\<close> for
  slot \<open>i\<close>. The result says whether the function returns; it throws without credentials or without a
  single session.\<close>

definition initPool :: "DbCredentials outcome \<Rightarrow> string option \<Rightarrow> (nat \<Rightarrow> nat \<Rightarrow> session option) \<Rightarrow> pool \<Rightarrow> bool \<times> pool" where
  "initPool loaded envVal connect p = (case loaded of
      Val c \<Rightarrow> (let p = p\<lparr>creds := Some c, poolSizeRuntime := pool_size envVal\<rparr> in
        if poolReady p then (True, p)
        else let new = List.map_filter (\<lambda>i. first_success POOL_CONNECT_RETRIES (connect i)) [0..<poolSizeRuntime p];
                 p = p\<lparr>allConnections := allConnections p @ map Some new, freeConnections := freeConnections p @ new\<rparr>
             in if new = [] then (False, p) else (True, p\<lparr>poolReady := True\<rparr>))
    | _ \<Rightarrow> (False, p))"

definition destroyPool :: "pool \<Rightarrow> pool" where
  "destroyPool p = p\<lparr>freeConnections := [], allConnections := [], poolReady := False\<rparr>"

record PoolHealth =
  ph_total :: nat
  ph_free :: nat
  ph_stale :: nat

definition poolHealth :: "pool \<Rightarrow> PoolHealth" where
  "poolHealth p = \<lparr>ph_total = length (allConnections p), ph_free = length (freeConnections p), ph_stale = staleReconnects p\<rparr>"

section \<open>Critical sections\<close>

text \<open>The front of the queue; \<open>None\<close> when it is empty: \<^verbatim>\<open>acquire\<close> throws after its timeout,
  \<^verbatim>\<open>tryAcquire\<close> returns nothing.\<close>

definition check_out :: "pool \<Rightarrow> (session \<times> pool) option" where
  "check_out p = (case freeConnections p of [] \<Rightarrow> None | s # rest \<Rightarrow> Some (s, p\<lparr>freeConnections := rest\<rparr>))"

fun replace_first :: "'a \<Rightarrow> 'a \<Rightarrow> 'a list \<Rightarrow> 'a list" where
  "replace_first x y [] = []"
| "replace_first x y (z # zs) = (if z = x then y # zs else z # replace_first x y zs)"

text \<open>The slot of a stale session gets the healed one, or \<^verbatim>\<open>nullptr\<close>.\<close>

definition set_slot :: "session \<Rightarrow> session option \<Rightarrow> pool \<Rightarrow> pool" where
  "set_slot stale s p = p\<lparr>allConnections := replace_first (Some stale) s (allConnections p)\<rparr>"

definition release_session :: "session option \<Rightarrow> pool \<Rightarrow> pool" where
  "release_session x p = (case x of None \<Rightarrow> p | Some s \<Rightarrow> p\<lparr>freeConnections := freeConnections p @ [s]\<rparr>)"

text \<open>\<^verbatim>\<open>getSession\<close>: the session outside the pool, which the first caller opens; \<open>new\<close> is what the driver gives.\<close>

definition getSession :: "session option \<Rightarrow> pool \<Rightarrow> (session \<times> pool) option" where
  "getSession new p = (case legacySession p of Some s \<Rightarrow> Some (s, p)
     | None \<Rightarrow> map_option (\<lambda>s. (s, p\<lparr>legacySession := Some s\<rparr>)) new)"

lemma getSession_new [simp]:
  "legacySession p = None \<Longrightarrow> getSession (Some s) p = Some (t, q) \<longleftrightarrow> t = s \<and> q = p\<lparr>legacySession := Some s\<rparr>"
  by (auto simp: getSession_def)

section \<open>Scoped connections\<close>

text \<open>\<^verbatim>\<open>ScopedConnection\<close> as the pointer it holds: the destructor, the move constructor (new and
  old pointer), and the move assignment to another object.\<close>

definition scoped_destroy :: "session option \<Rightarrow> pool \<Rightarrow> pool" where
  "scoped_destroy x p = (if x \<noteq> None then release_session x p else p)"

definition scoped_move :: "session option \<Rightarrow> session option \<times> session option" where
  "scoped_move x = (x, None)"

definition scoped_assign :: "session option \<Rightarrow> session option \<Rightarrow> pool \<Rightarrow> session option \<times> session option \<times> pool" where
  "scoped_assign x other p = (other, None, if x \<noteq> None then release_session x p else p)"

lemma scoped_assign_conserves:
  assumes "scoped_assign x other p = (x', other', p')"
  shows "mset (freeConnections p') + mset_set (set_option x') + mset_set (set_option other') =
    mset (freeConnections p) + mset_set (set_option x) + mset_set (set_option other)"
  using assms by (cases x) (auto simp: scoped_assign_def release_session_def)

section \<open>Threads\<close>

text \<open>Where a thread is: it has checked a session out, it has deleted a stale session and tries to
  connect, it has a healed session and must put it in the slot of the stale one, healing has failed
  and it must null the slot, or it uses a session.\<close>

datatype pool_pc = Checked session | Healing session nat | Healed session session | Failed session | Using session

text \<open>\<^verbatim>\<open>healSession_\<close>: after the stale session is closed and deleted, and after attempt \<open>i\<close> has failed.\<close>

definition heal_begin :: "session \<Rightarrow> pool \<Rightarrow> pool_pc \<times> pool" where
  "heal_begin s p = (Healing s 0, p\<lparr>staleReconnects := staleReconnects p + 1\<rparr>)"

definition heal_next :: "session \<Rightarrow> nat \<Rightarrow> pool_pc" where
  "heal_next s i = (if i + 1 = HEALTH_CHECK_RETRIES then Failed s else Healing s (i + 1))"

declare heal_begin_def [simp] heal_next_def [simp]

record pool_sys =
  pool :: pool
  live :: "session set"
  busy :: "pool_pc multiset"

inductive pool_step :: "pool_sys \<Rightarrow> pool_sys \<Rightarrow> bool" where
  acquire: "check_out (pool y) = Some (s, p) \<Longrightarrow> pool_step y (y\<lparr>pool := p, busy := add_mset (Checked s) (busy y)\<rparr>)"
| try_acquire: "check_out (pool y) = Some (s, p) \<Longrightarrow> pool_step y (y\<lparr>pool := p, busy := add_mset (Using s) (busy y)\<rparr>)"
| alive: "busy y = add_mset (Checked s) rest \<Longrightarrow> pool_step y (y\<lparr>busy := add_mset (Using s) rest\<rparr>)"
| stale: "busy y = add_mset (Checked s) rest \<Longrightarrow>
    pool_step y (y\<lparr>pool := snd (heal_begin s (pool y)), live := live y - {s},
      busy := add_mset (fst (heal_begin s (pool y))) rest\<rparr>)"
| reconnected: "busy y = add_mset (Healing s i) rest \<Longrightarrow> i < HEALTH_CHECK_RETRIES \<Longrightarrow> s' \<notin> live y \<Longrightarrow>
    pool_step y (y\<lparr>live := insert s' (live y), busy := add_mset (Healed s s') rest\<rparr>)"
| attempt_failed: "busy y = add_mset (Healing s i) rest \<Longrightarrow> i < HEALTH_CHECK_RETRIES \<Longrightarrow>
    pool_step y (y\<lparr>busy := add_mset (heal_next s i) rest\<rparr>)"
| healed: "busy y = add_mset (Healed s s') rest \<Longrightarrow>
    pool_step y (y\<lparr>pool := set_slot s (Some s') (pool y), busy := add_mset (Using s') rest\<rparr>)"
| lost: "busy y = add_mset (Failed s) rest \<Longrightarrow> pool_step y (y\<lparr>pool := set_slot s None (pool y), busy := rest\<rparr>)"
| release: "busy y = add_mset (Using s) rest \<Longrightarrow>
    pool_step y (y\<lparr>pool := release_session (Some s) (pool y), busy := rest\<rparr>)"
| legacy: "legacySession (pool y) = None \<Longrightarrow> s \<notin> live y \<Longrightarrow> getSession (Some s) (pool y) = Some (s, p) \<Longrightarrow>
    pool_step y (y\<lparr>pool := p, live := insert s (live y)\<rparr>)"

text \<open>A server starts with the pool that \<^verbatim>\<open>initPool\<close> makes of sessions with different addresses.\<close>

definition pool_start :: "pool_sys \<Rightarrow> bool" where
  "pool_start y \<longleftrightarrow> (\<exists>c envVal connect. initPool (Val c) envVal connect no_pool = (True, pool y)) \<and>
     distinct (freeConnections (pool y)) \<and> live y = set (freeConnections (pool y)) \<and> busy y = {#}"

section \<open>Invariant\<close>

text \<open>The live session a thread owns, and the entry of \<^verbatim>\<open>allConnections_\<close> that is its own.\<close>

fun owned :: "pool_pc \<Rightarrow> session multiset" where
  "owned (Checked s) = {#s#}"
| "owned (Healing s i) = {#}"
| "owned (Healed s s') = {#s'#}"
| "owned (Failed s) = {#}"
| "owned (Using s) = {#s#}"

fun slot :: "pool_pc \<Rightarrow> session" where
  "slot (Checked s) = s"
| "slot (Healing s i) = s"
| "slot (Healed s s') = s"
| "slot (Failed s) = s"
| "slot (Using s) = s"

definition held :: "pool_sys \<Rightarrow> session multiset" where
  "held y = sum_mset (image_mset owned (busy y))"

definition slots :: "pool_sys \<Rightarrow> session multiset" where
  "slots y = mset (List.map_filter id (allConnections (pool y)))"

definition sessions :: "pool_sys \<Rightarrow> session multiset" where
  "sessions y = mset (freeConnections (pool y)) + held y + (case legacySession (pool y) of None \<Rightarrow> {#} | Some s \<Rightarrow> {#s#})"

definition pool_inv :: "pool_sys \<Rightarrow> bool" where
  "pool_inv y \<longleftrightarrow> finite (live y) \<and> sessions y = mset_set (live y) \<and>
     slots y = mset (freeConnections (pool y)) + image_mset slot (busy y) \<and>
     (\<forall>s i. Healing s i \<in># busy y \<longrightarrow> i < HEALTH_CHECK_RETRIES)"

text \<open>The entries that are not null, under the changes of the list.\<close>

lemma entries_simps [simp]: "List.map_filter id (map Some xs) = xs" "List.map_filter id (None # ys) = List.map_filter id ys"
  "List.map_filter id (Some x # ys) = x # List.map_filter id ys" "List.map_filter id ([] :: 'a option list) = []"
  by (simp_all add: map_filter_simps) (induction xs; simp add: map_filter_simps)

lemma entries_replaced:
  assumes "s \<in># mset (List.map_filter id xs)"
  shows "mset (List.map_filter id (replace_first (Some s) x xs)) =
    mset (List.map_filter id xs) - {#s#} + (case x of None \<Rightarrow> {#} | Some s' \<Rightarrow> {#s'#})"
  using assms
proof (induction xs)
  case (Cons z zs)
  show ?case
  proof (cases "z = Some s")
    case True
    then show ?thesis by (simp split: option.split)
  next
    case False
    with Cons show ?thesis by (cases z) (auto split: option.splits)
  qed
qed simp

lemmas pool_defs = pool_inv_def sessions_def held_def slots_def check_out_def set_slot_def release_session_def

lemma mset_set_remove:
  assumes "finite A" and "add_mset s M = mset_set A"
  shows "M = mset_set (A - {s})"
proof -
  have "s \<in># mset_set A" by (simp flip: assms(2))
  with assms(1) have "insert s (A - {s}) = A" by auto
  with assms mset_set.insert [of "A - {s}" s] show ?thesis by simp
qed

text \<open>What a step does to the sessions, and to the entries of \<^verbatim>\<open>allConnections_\<close>.\<close>

lemma pool_step_sessions:
  assumes "pool_step y z"
  shows "(live z = live y \<and> sessions z = sessions y) \<or>
    (\<exists>s. live z = live y - {s} \<and> sessions y = add_mset s (sessions z)) \<or>
    (\<exists>s. s \<notin> live y \<and> live z = insert s (live y) \<and> sessions z = add_mset s (sessions y))"
  using assms
proof cases
  case (stale s rest)
  then show ?thesis by (intro disjI2 disjI1 exI [of _ s]) (simp add: pool_defs)
next
  case (reconnected s i rest s')
  then show ?thesis by (intro disjI2 exI [of _ s']) (simp add: pool_defs)
next
  case (legacy s p)
  then have "p = pool y\<lparr>legacySession := Some s\<rparr>" by simp
  with legacy show ?thesis by (intro disjI2 exI [of _ s]) (simp add: pool_defs)
qed (auto simp: pool_defs split: list.splits)

lemma pool_step_slots:
  assumes "pool_step y z" and "slots y = mset (freeConnections (pool y)) + image_mset slot (busy y)"
  shows "slots z = mset (freeConnections (pool z)) + image_mset slot (busy z)"
  using assms(1)
proof cases
  case (healed s s' rest)
  with assms(2) show ?thesis by (simp add: pool_defs entries_replaced)
next
  case (lost s rest)
  with assms(2) show ?thesis by (simp add: pool_defs entries_replaced)
qed (use assms(2) in \<open>auto simp: pool_defs split: list.splits\<close>)

lemma pool_step_tries:
  assumes "pool_step y z" and "\<forall>s i. Healing s i \<in># busy y \<longrightarrow> i < HEALTH_CHECK_RETRIES"
  shows "\<forall>s i. Healing s i \<in># busy z \<longrightarrow> i < HEALTH_CHECK_RETRIES"
  using assms(1)
proof cases
  case (stale s rest)
  with assms(2) show ?thesis by (auto simp: HEALTH_CHECK_RETRIES_def)
next
  case (attempt_failed s i rest)
  moreover have "i < 3" using assms(2) attempt_failed by (simp add: HEALTH_CHECK_RETRIES_def)
  ultimately show ?thesis using assms(2) by (auto simp: HEALTH_CHECK_RETRIES_def split: if_splits)
qed (use assms(2) in auto)

lemma pool_inv_step: "pool_step y z \<Longrightarrow> pool_inv y \<Longrightarrow> pool_inv z"
  using pool_step_sessions [of y z] pool_step_slots [of y z] pool_step_tries [of y z] mset_set_remove [of "live y"]
  unfolding pool_inv_def by auto

lemma initPool_ready:
  assumes "initPool (Val c) envVal connect no_pool = (True, p)"
  shows "allConnections p = map Some (freeConnections p)" "freeConnections p \<noteq> []" "legacySession p = None"
    "length (freeConnections p) \<le> 50"
proof -
  have size: "pool_size envVal \<le> 50"
    by (auto simp: pool_size_def POOL_SIZE_DEFAULT_def POOL_SIZE_MAX_def Let_def split: option.split)
  have len: "length (List.map_filter f xs) \<le> length xs" for f :: "nat \<Rightarrow> session option" and xs
    by (induction xs) (auto simp: map_filter_simps split: option.split)
  show "allConnections p = map Some (freeConnections p)" "freeConnections p \<noteq> []" "legacySession p = None"
    using assms by (auto simp: initPool_def no_pool_def Let_def split: if_splits)
  show "length (freeConnections p) \<le> 50"
    using assms len [of "\<lambda>i. first_success POOL_CONNECT_RETRIES (connect i)" "[0..<pool_size envVal]"] size
    by (auto simp: initPool_def no_pool_def Let_def split: if_splits)
qed

lemma pool_inv_start: "pool_start y \<Longrightarrow> pool_inv y"
  by (auto simp: pool_start_def pool_inv_def sessions_def held_def slots_def initPool_ready mset_set_set)

interpretation sessions: machine pool_start pool_step pool_inv
  by unfold_locales (auto intro: pool_inv_start pool_inv_step)

abbreviation pool_reachable :: "pool_sys \<Rightarrow> bool" where
  "pool_reachable \<equiv> reachable_by pool_start pool_step"

lemma distinct_counts: "(\<And>s. count (mset xs) s \<le> 1) \<Longrightarrow> distinct xs"
proof (induction xs)
  case (Cons x xs)
  have "count (mset xs) s \<le> count (mset (x # xs)) s" for s by simp
  with Cons.prems have "count (mset xs) s \<le> 1" for s using le_trans by blast
  moreover have "count (mset xs) x = 0" using Cons.prems [of x] by simp
  ultimately show ?case using Cons.IH by simp
qed simp

lemma count_sessions: "pool_reachable y \<Longrightarrow> count (sessions y) s = (if s \<in> live y then 1 else 0)"
  using sessions.reachable_inv [of y] by (auto simp: pool_inv_def)


section \<open>Leases\<close>

text \<open>What a pool promises, without queue, slots, health checks or addresses of the heap: the free sessions
  and the leased ones. A lease may end with the session broken, and a fresh session may take its place.\<close>

inductive lease_step :: "session multiset \<times> session multiset \<Rightarrow> session multiset \<times> session multiset \<Rightarrow> bool" where
  lend: "lease_step (add_mset s free, leased) (free, add_mset s leased)"
| give_back: "lease_step (free, add_mset s leased) (add_mset s free, leased)"
| broken: "lease_step (free, add_mset s leased) (free, leased)"
| fresh: "s \<notin># free + leased \<Longrightarrow> lease_step (free, leased) (free, add_mset s leased)"

definition lease_view :: "pool_sys \<Rightarrow> session multiset \<times> session multiset" where
  "lease_view y = (mset (freeConnections (pool y)), held y)"

lemma lease_view_step:
  assumes "pool_step y z" and "pool_inv y"
  shows "lease_view z = lease_view y \<or> lease_step (lease_view y) (lease_view z)"
  using assms(1)
proof cases
  case (acquire s p)
  then show ?thesis by (auto simp: lease_view_def pool_defs intro: lease_step.lend split: list.splits)
next
  case (try_acquire s p)
  then show ?thesis by (auto simp: lease_view_def pool_defs intro: lease_step.lend split: list.splits)
next
  case (stale s rest)
  then show ?thesis by (auto simp: lease_view_def pool_defs intro: lease_step.broken)
next
  case (reconnected s i rest s')
  have "set_mset (sessions y) = live y" using assms(2) by (simp add: pool_inv_def)
  with reconnected have "s' \<notin># mset (freeConnections (pool y)) + held y" by (auto simp: sessions_def)
  with reconnected show ?thesis by (auto simp: lease_view_def held_def intro: lease_step.fresh)
next
  case (release s rest)
  then show ?thesis by (auto simp: lease_view_def pool_defs intro: lease_step.give_back)
qed (auto simp: lease_view_def pool_defs)

text \<open>C20: The pool refines the system of leases: every run of the threads, seen through its free and its leased
  sessions, is a run of leases.\<close>

theorem pool_refines_leases:
  assumes "pool_reachable y" and "pool_step\<^sup>*\<^sup>* y z"
  shows "lease_step\<^sup>*\<^sup>* (lease_view y) (lease_view z)"
  using assms(2)
proof (induction rule: rtranclp_induct)
  case (step z z')
  then have "pool_inv z" using sessions.steps_inv sessions.reachable_inv [OF assms(1)] by blast
  from lease_view_step [OF step.hyps(2) this] step.IH show ?case by (auto intro: rtranclp.rtrancl_into_rtrancl)
qed simp

section \<open>Capacity\<close>

text \<open>The sessions that are free or will be given back, one for each entry that is not null.\<close>

definition capacity :: "pool_sys \<Rightarrow> nat" where
  "capacity y = size (slots y)"

lemma capacity_eq: "pool_inv y \<Longrightarrow> capacity y = length (freeConnections (pool y)) + size (busy y)"
  by (simp add: capacity_def pool_inv_def)

lemma capacity_step:
  assumes "pool_step y z" and "pool_inv y"
  shows "capacity z \<le> capacity y"
proof -
  have "length (freeConnections (pool z)) + size (busy z) \<le> length (freeConnections (pool y)) + size (busy y)"
    using assms(1) by cases (auto simp: check_out_def set_slot_def release_session_def split: list.splits)
  with capacity_eq [OF assms(2)] capacity_eq [OF pool_inv_step [OF assms]] show ?thesis by simp
qed

text \<open>Sessions that cannot be reconnected are lost for good: the capacity of the pool never grows, and when
  it has reached zero no thread gets a session in any later state.\<close>

theorem pool_drained_forever:
  assumes "pool_reachable y" and "pool_step\<^sup>*\<^sup>* y z"
  shows "capacity z \<le> capacity y \<and> (capacity y = 0 \<longrightarrow> check_out (pool z) = None)"
proof -
  have le: "capacity z \<le> capacity y \<and> pool_inv z"
    using assms(2)
    by (induction rule: rtranclp_induct)
      (auto simp: sessions.reachable_inv [OF assms(1)] intro: order_trans [OF capacity_step] pool_inv_step)
  with capacity_eq [of z] show ?thesis by (auto simp: check_out_def)
qed

section \<open>Progress\<close>

lemma using_released:
  assumes "Using s \<in># busy y" shows "\<exists>z. pool_step y z \<and> freeConnections (pool z) \<noteq> []"
proof -
  obtain rest where "busy y = add_mset (Using s) rest" using assms by (auto dest: multi_member_split)
  from pool_step.release [OF this] show ?thesis by (fastforce simp: release_session_def)
qed

text \<open>The steps that bring a thread from where it is to a session it can give back.\<close>

lemma reaches_using:
  assumes "x \<in># busy y" and "x \<noteq> Failed (slot x)" and "pool_inv y"
  shows "\<exists>z s. pool_step\<^sup>*\<^sup>* y z \<and> Using s \<in># busy z"
proof -
  obtain rest where b: "busy y = add_mset x rest" using assms(1) by (auto dest: multi_member_split)
  show ?thesis
  proof (cases x)
    case (Checked s)
    with pool_step.alive [of y s rest] b show ?thesis by (auto intro!: exI r_into_rtranclp)
  next
    case (Healing s i)
    have "finite (live y)" and i: "i < HEALTH_CHECK_RETRIES" using assms(1,3) Healing by (auto simp: pool_inv_def)
    then obtain s' where "s' \<notin> live y" using ex_new_if_finite infinite_UNIV_nat by blast
    with pool_step.reconnected [of y s i rest s'] b Healing i
    have "pool_step y (y\<lparr>live := insert s' (live y), busy := add_mset (Healed s s') rest\<rparr>)" by simp
    moreover from pool_step.healed [of "y\<lparr>live := insert s' (live y), busy := add_mset (Healed s s') rest\<rparr>"]
    have "\<exists>z. pool_step (y\<lparr>live := insert s' (live y), busy := add_mset (Healed s s') rest\<rparr>) z \<and> Using s' \<in># busy z"
      by (auto intro!: exI)
    ultimately show ?thesis by (meson converse_rtranclp_into_rtranclp r_into_rtranclp)
  next
    case (Healed s s')
    with pool_step.healed [of y s s' rest] b show ?thesis by (auto intro!: exI r_into_rtranclp)
  next
    case (Failed s)
    with assms(2) show ?thesis by simp
  next
    case (Using s)
    with assms(1) show ?thesis by blast
  qed
qed

text \<open>C21: As long as a session is free, in use or being healed, a session can become free: whoever waits is
  served if the threads in the pool finish and the database answers.\<close>

theorem pool_serves:
  assumes "pool_reachable y" and "freeConnections (pool y) \<noteq> [] \<or> (\<exists>x. x \<in># busy y \<and> x \<noteq> Failed (slot x))"
  shows "\<exists>z s p. pool_step\<^sup>*\<^sup>* y z \<and> check_out (pool z) = Some (s, p)"
proof -
  have "\<exists>z. pool_step\<^sup>*\<^sup>* y z \<and> freeConnections (pool z) \<noteq> []"
  proof (cases "freeConnections (pool y) = []")
    case True
    with assms(2) reaches_using sessions.reachable_inv [OF assms(1)] obtain z s where
      "pool_step\<^sup>*\<^sup>* y z" "Using s \<in># busy z" by blast
    moreover from this(2) obtain z' where "pool_step z z'" "freeConnections (pool z') \<noteq> []"
      using using_released by blast
    ultimately show ?thesis by (meson rtranclp.rtrancl_into_rtrancl)
  qed blast
  then show ?thesis by (auto simp: check_out_def neq_Nil_conv split: list.splits)
qed

text \<open>How many steps a thread has left at most.\<close>

fun steps_left :: "pool_pc \<Rightarrow> nat" where
  "steps_left (Checked s) = 6"
| "steps_left (Healing s i) = 5 - i"
| "steps_left (Healed s s') = 2"
| "steps_left (Failed s) = 1"
| "steps_left (Using s) = 1"

text \<open>A step of a thread that has a session: no thread begins and no legacy session is opened.\<close>

definition thread_step :: "pool_sys \<Rightarrow> pool_sys \<Rightarrow> bool" where
  "thread_step y z \<longleftrightarrow> pool_step y z \<and> size (busy z) \<le> size (busy y) \<and> legacySession (pool z) = legacySession (pool y)"

definition work :: "pool_sys \<Rightarrow> nat" where
  "work y = sum_mset (image_mset steps_left (busy y))"

lemma thread_step_work:
  assumes "thread_step y z" and "pool_inv y"
  shows "work z < work y"
proof -
  from assms(1) have "pool_step y z" and size: "size (busy z) \<le> size (busy y)"
    and legacy: "legacySession (pool z) = legacySession (pool y)" by (simp_all add: thread_step_def)
  from this(1) show ?thesis
  proof cases
    case (reconnected s i rest s')
    with assms(2) have "i < HEALTH_CHECK_RETRIES" by simp
    with reconnected show ?thesis by (simp add: work_def HEALTH_CHECK_RETRIES_def)
  next
    case (attempt_failed s i rest)
    then show ?thesis by (auto simp: work_def HEALTH_CHECK_RETRIES_def)
  qed (use size legacy in \<open>auto simp: work_def\<close>)
qed

text \<open>C22: The threads in the pool finish: from any reachable state, a run in which no further thread begins has at most
  six steps for each thread, so that an \<^verbatim>\<open>acquire\<close> ends after a bounded number of attempts to
  reconnect, whatever the database answers.\<close>

theorem pool_terminates:
  assumes "pool_reachable y" and "(thread_step ^^ n) y z"
  shows "n \<le> 6 * size (busy y)"
proof -
  have "n + work z \<le> work y \<and> pool_inv z"
    using assms(2)
  proof (induction n arbitrary: z)
    case 0
    with sessions.reachable_inv [OF assms(1)] show ?case by simp
  next
    case (Suc n)
    then obtain x where "(thread_step ^^ n) y x" and step: "thread_step x z" by auto
    with Suc.IH have "n + work x \<le> work y" "pool_inv x" by auto
    with thread_step_work [OF step] pool_inv_step [of x z] step show ?case by (auto simp: thread_step_def)
  qed
  moreover have "work y \<le> 6 * size (busy y)"
  proof -
    have "steps_left x \<le> 6" for x by (cases x) simp_all
    then have "sum_mset (image_mset steps_left M) \<le> 6 * size M" for M by (induction M) (simp_all add: add_mono)
    then show ?thesis by (simp add: work_def)
  qed
  ultimately show ?thesis by linarith
qed

section \<open>A small pool\<close>

text \<open>Two sessions, each opened at the second attempt.\<close>

definition demo_connect :: "nat \<Rightarrow> nat \<Rightarrow> session option" where
  "demo_connect i k = (if k = 1 then Some (i + 7) else None)"

definition demo_pool :: pool where
  "demo_pool = snd (initPool (Val demo_creds) (Some '' +2'') demo_connect no_pool)"

definition demo_sys :: pool_sys where
  "demo_sys = \<lparr>pool = demo_pool, live = {7, 8}, busy = {#}\<rparr>"

lemma demo_init: "initPool (Val demo_creds) (Some '' +2'') demo_connect no_pool =
  (True, \<lparr>poolReady = True, allConnections = [Some 7, Some 8], freeConnections = [7, 8], staleReconnects = 0,
     poolSizeRuntime = 2, legacySession = None, creds = Some demo_creds\<rparr>)"
proof -
  have size: "pool_size (Some '' +2'') = 2" by code_simp
  have "[0..<2] = [0, 1::nat]" by (simp add: upt_rec)
  then show ?thesis
    by (simp add: initPool_def no_pool_def size POOL_CONNECT_RETRIES_def numeral_3_eq_3 map_filter_simps demo_connect_def Let_def)
qed

lemma demo_pool_simps [simp]: "freeConnections demo_pool = [7, 8]" "allConnections demo_pool = [Some 7, Some 8]"
  by (simp_all add: demo_pool_def demo_init)

lemma demo_start: "pool_reachable demo_sys"
proof (rule reachable_by.init)
  have "initPool (Val demo_creds) (Some '' +2'') demo_connect no_pool = (True, demo_pool)"
    by (simp add: demo_pool_def demo_init)
  then show "pool_start demo_sys" unfolding pool_start_def by (auto simp: demo_sys_def)
qed

text \<open>A thread takes the first session, finds it stale and replaces it by one at the same address.\<close>

definition demo_used :: pool_sys where
  "demo_used = \<lparr>pool = demo_pool\<lparr>freeConnections := [8], staleReconnects := staleReconnects demo_pool + 1\<rparr>,
     live = {7, 8}, busy = {#Using 7#}\<rparr>"

lemma demo_run: "pool_step\<^sup>*\<^sup>* demo_sys demo_used"
proof -
  let ?p1 = "demo_pool\<lparr>freeConnections := [8]\<rparr>"
  let ?p2 = "?p1\<lparr>staleReconnects := staleReconnects demo_pool + 1\<rparr>"
  have "pool_step\<^sup>*\<^sup>* demo_sys \<lparr>pool = ?p1, live = {7, 8}, busy = {#Checked 7#}\<rparr>"
    using pool_step.acquire [of demo_sys 7 ?p1] by (simp add: demo_sys_def check_out_def r_into_rtranclp)
  also have "pool_step\<^sup>*\<^sup>* \<dots> \<lparr>pool = ?p2, live = {8}, busy = {#Healing 7 0#}\<rparr>"
    using pool_step.stale [of "\<lparr>pool = ?p1, live = {7, 8}, busy = {#Checked 7#}\<rparr>" 7 "{#}"] by (simp add: insert_Diff_if r_into_rtranclp)
  also have "pool_step\<^sup>*\<^sup>* \<dots> \<lparr>pool = ?p2, live = {7, 8}, busy = {#Healed 7 7#}\<rparr>"
    using pool_step.reconnected [of "\<lparr>pool = ?p2, live = {8}, busy = {#Healing 7 0#}\<rparr>" 7 0 "{#}" 7]
    by (simp add: HEALTH_CHECK_RETRIES_def r_into_rtranclp)
  also have "pool_step\<^sup>*\<^sup>* \<dots> demo_used"
    using pool_step.healed [of "\<lparr>pool = ?p2, live = {7, 8}, busy = {#Healed 7 7#}\<rparr>" 7 7 "{#}"]
    by (simp add: demo_used_def set_slot_def demo_pool_def demo_init r_into_rtranclp)
  finally show ?thesis by simp
qed

lemma demo_used_reachable: "pool_reachable demo_used"
  using demo_run demo_start by (induction rule: rtranclp_induct) (auto intro: reachable_by.next_state)


lemma pool_refines_leases_witness: "lease_step\<^sup>*\<^sup>* ({#7, 8#}, {#}) ({#8#}, {#7#})"
  using pool_refines_leases [OF demo_start demo_run] by (simp add: lease_view_def demo_sys_def demo_used_def held_def add_mset_commute)

lemma pool_drained_forever_witness: "capacity demo_used \<le> capacity demo_sys \<and> capacity demo_sys = 2"
  using pool_drained_forever [OF demo_start demo_run] by (simp add: capacity_def slots_def demo_sys_def)

lemma pool_serves_witness: "\<exists>z s p. pool_step\<^sup>*\<^sup>* demo_used z \<and> check_out (pool z) = Some (s, p)"
  using pool_serves [OF demo_used_reachable] by (simp add: demo_used_def)

lemma pool_terminates_witness: "\<nexists>z. (thread_step ^^ 7) demo_used z"
  using pool_terminates [OF demo_used_reachable, of 7] by (fastforce simp: demo_used_def)

end
