(* ===== verification/Monitor.thy ===== *)
theory Monitor
  imports Access Pool
begin

text \<open>
  What the server tells of itself: \<^verbatim>\<open>GET /health\<close>, \<^verbatim>\<open>GET /status\<close> and \<^verbatim>\<open>GET /metrics\<close> of
  \<^verbatim>\<open>parser&router.cpp\<close>, from the counters of the router and the pool of sessions.
\<close>

definition THREAD_POOL_SIZE :: int where "THREAD_POOL_SIZE = 1000"

definition get_health :: "pool \<Rightarrow> json" where
  "get_health p = (let ph = poolHealth p in
     jobj [(''status'', JStr ''UP''), (''message'', JStr ''Payment Switching Engine v3.0 running''),
       (''dbPool'', jobj [(''total'', JInt (int (ph_total ph))), (''free'', JInt (int (ph_free ph))),
          (''staleReconnects'', JInt (int (ph_stale ph)))])])"

definition get_status :: "gate_state \<Rightarrow> pool \<Rightarrow> json" where
  "get_status g p = (let ph = poolHealth p in
     jobj [(''status'', JStr ''UP''), (''active_requests'', JInt (active_requests g)), (''total_requests'', JInt (total_requests g)),
       (''ok_responses'', JInt (ok_responses g)), (''fail_responses'', JInt (fail_responses g)),
       (''thread_pool'', JInt THREAD_POOL_SIZE), (''db_pool_size'', JInt (int (poolSizeRuntime p))),
       (''db_pool_free'', JInt (int (ph_free ph))), (''db_stale_reconnects'', JInt (int (ph_stale ph)))])"

definition metric_line :: "string \<Rightarrow> int \<Rightarrow> string" where
  "metric_line name n = name @ '' '' @ int_str n @ [newline]"

definition get_metrics :: "gate_state \<Rightarrow> string" where
  "get_metrics g = ''# HELP engine_total_requests Total HTTP requests'' @ [newline] @
     ''# TYPE engine_total_requests counter'' @ [newline] @ metric_line ''engine_total_requests'' (total_requests g) @
     ''# HELP engine_active_requests Active requests in flight'' @ [newline] @
     ''# TYPE engine_active_requests gauge'' @ [newline] @ metric_line ''engine_active_requests'' (active_requests g) @
     ''# HELP engine_ok_responses Total 2xx responses'' @ [newline] @ metric_line ''engine_ok_responses'' (ok_responses g) @
     ''# HELP engine_fail_responses Total non-2xx responses'' @ [newline] @ metric_line ''engine_fail_responses'' (fail_responses g)"

text \<open>The reported total counts the slots of lost sessions as well.\<close>

lemma reported_total: "ph_total (poolHealth (pool y)) = capacity y + count_list (allConnections (pool y)) None"
proof -
  have "length xs = length (List.map_filter id xs) + count_list xs None" for xs :: "session option list"
    by (induction xs) (auto simp: map_filter_simps split: option.split)
  then show ?thesis by (simp add: poolHealth_def capacity_def slots_def)
qed

lemma reported_free: "pool_reachable y \<Longrightarrow> int (ph_free (poolHealth (pool y))) \<le> int (capacity y)"
  using sessions.reachable_inv [of y] capacity_eq [of y] by (simp add: poolHealth_def)

end
