(* ===== verification/Lifecycle.thy ===== *)
theory Lifecycle
  imports HttpServer Monitor
begin

text \<open>
  \<^verbatim>\<open>main\<close> of \<^verbatim>\<open>parser&router.cpp\<close>: the pool of workers and the pre-flight answers, and the life
  of the process from opening the pool of sessions to destroying it, with the signal handler and the
  detached threads by which \<^verbatim>\<open>atm.cpp\<close> reverses a timed-out withdrawal. Workers, detached threads,
  signals and \<^verbatim>\<open>main\<close> itself move in any order.
\<close>

section \<open>Workers\<close>

definition MAX_QUEUED_REQUESTS :: int where "MAX_QUEUED_REQUESTS = 2000"

definition engine_server :: http_sys where
  "engine_server = new_server (nat THREAD_POOL_SIZE, nat MAX_QUEUED_REQUESTS)"

section \<open>Pre-flight requests\<close>

definition addCORS :: "(string \<times> string) list \<Rightarrow> (string \<times> string) list" where
  "addCORS hs = hs @ [(''Access-Control-Allow-Origin'', ''*''),
     (''Access-Control-Allow-Methods'', ''GET, POST, OPTIONS''),
     (''Access-Control-Allow-Headers'', ''Content-Type, Authorization, X-Request-ID, X-Transaction-UUID'')]"

definition options_routes :: "string list" where
  "options_routes = [''/transaction/initiate'', ''/reversal/initiate'', ''/account/add'', ''/account/details'',
     ''/account/freeze'', ''/account/unfreeze'', ''/account/list'', ''/card/activate'', ''/card/block'', ''/card/set_limit'',
     ''/card/reset_pin'', ''/3ds/verify'', ''/auth/token'', ''/health'', ''/status'', ''/metrics'']"

text \<open>The status and the headers of the answer.\<close>

definition optHandler :: "string \<Rightarrow> (int \<times> (string \<times> string) list) option" where
  "optHandler path = (if path \<in> set options_routes then Some (204, addCORS []) else None)"

lemma preflight_answered: "post_route path \<noteq> None \<Longrightarrow> optHandler path = Some (204, addCORS [])"
  by (auto simp: post_route_def json_routes_def optHandler_def options_routes_def split: if_splits)

section \<open>The process\<close>

datatype main_pc = Booting | Serving | Destroyed | Exited int | Aborted

text \<open>A detached thread has not looked at \<^verbatim>\<open>g_engineShutdown\<close> yet, reverses (with the program points at which
  it uses the pool), or is over.\<close>

datatype rev_pc = Unchecked | Reversing "pool_pc multiset" | Over

text \<open>\<open>uses ! i\<close> are the program points of the handler that worker \<open>i\<close> runs; the \<open>busy\<close> of \<open>db\<close> is not used.\<close>

record engine =
  main_at :: main_pc
  http :: http_sys
  db :: pool_sys
  uses :: "pool_pc multiset list"
  revs :: "rev_pc list"
  g_engineShutdown :: bool

fun rev_points :: "rev_pc \<Rightarrow> pool_pc multiset" where
  "rev_points (Reversing B) = B"
| "rev_points _ = {#}"

definition setATMEngineShutdown :: "engine \<Rightarrow> engine" where
  "setATMEngineShutdown e = e\<lparr>g_engineShutdown := True\<rparr>"

definition onSignal :: "engine \<Rightarrow> engine" where
  "onSignal e = (let e = setATMEngineShutdown e in case stop (http e) of
      Some h \<Rightarrow> e\<lparr>http := h\<rparr>
    | None \<Rightarrow> e\<lparr>main_at := Aborted\<rparr>)"

text \<open>What the detached thread does first.\<close>

definition check_shutdown :: "bool \<Rightarrow> rev_pc" where
  "check_shutdown down = (if down then Over else Reversing {#})"

text \<open>The sessions that \<^verbatim>\<open>destroyPool\<close> closes and deletes.\<close>

definition pool_entries :: "pool \<Rightarrow> session list" where
  "pool_entries p = List.map_filter id (allConnections p)"

definition tear_down :: "pool_sys \<Rightarrow> pool_sys" where
  "tear_down y = y\<lparr>pool := destroyPool (pool y), live := live y - set (pool_entries (pool y))\<rparr>"

text \<open>The first part of \<^verbatim>\<open>main\<close>: the outcomes of reading the credentials and of connecting are free.\<close>

definition init_db :: "DbCredentials outcome \<Rightarrow> string option \<Rightarrow> (nat \<Rightarrow> nat \<Rightarrow> session option) \<Rightarrow> engine \<Rightarrow> engine" where
  "init_db loaded env connect e = (case initPool loaded env connect (pool (db e)) of
      (True, p) \<Rightarrow> e\<lparr>main_at := Serving, db := \<lparr>pool = p, live = set (freeConnections p), busy = {#}\<rparr>\<rparr>
    | (False, p) \<Rightarrow> e\<lparr>main_at := Exited 1\<rparr>)"

text \<open>A handler has given its sessions back when it returns.\<close>

definition returns_clean :: "engine \<Rightarrow> http_sys \<Rightarrow> bool" where
  "returns_clean e h \<longleftrightarrow> (\<forall>i < length (workers (http e)). workers h ! i \<noteq> workers (http e) ! i \<longrightarrow> uses e ! i = {#})"

abbreviation alive :: "engine \<Rightarrow> bool" where
  "alive e \<equiv> main_at e = Serving \<or> main_at e = Destroyed"

inductive engine_step :: "engine \<Rightarrow> engine \<Rightarrow> bool" where
  boot: "main_at e = Booting \<Longrightarrow> distinct (freeConnections (snd (initPool loaded env connect (pool (db e))))) \<Longrightarrow>
    engine_step e (init_db loaded env connect e)"
| signal: "main_at e = Serving \<Longrightarrow> engine_step e (onSignal e)"
| serve: "main_at e = Serving \<Longrightarrow> http_step (http e) h \<Longrightarrow> returns_clean e h \<Longrightarrow> engine_step e (e\<lparr>http := h\<rparr>)"
| handle: "main_at e = Serving \<Longrightarrow> i < length (workers (http e)) \<Longrightarrow> workers (http e) ! i = Running c \<Longrightarrow>
    pool_step ((db e)\<lparr>busy := uses e ! i\<rparr>) y \<Longrightarrow> engine_step e (e\<lparr>db := y, uses := (uses e)[i := busy y]\<rparr>)"
| timed_out: "main_at e = Serving \<Longrightarrow> i < length (workers (http e)) \<Longrightarrow> workers (http e) ! i = Running c \<Longrightarrow>
    engine_step e (e\<lparr>revs := revs e @ [Unchecked]\<rparr>)"
| check: "alive e \<Longrightarrow> k < length (revs e) \<Longrightarrow> revs e ! k = Unchecked \<Longrightarrow>
    engine_step e (e\<lparr>revs := (revs e)[k := check_shutdown (g_engineShutdown e)]\<rparr>)"
| reverse: "alive e \<Longrightarrow> k < length (revs e) \<Longrightarrow> revs e ! k = Reversing B \<Longrightarrow> pool_step ((db e)\<lparr>busy := B\<rparr>) y \<Longrightarrow>
    engine_step e (e\<lparr>db := y, revs := (revs e)[k := Reversing (busy y)]\<rparr>)"
| reversed: "alive e \<Longrightarrow> k < length (revs e) \<Longrightarrow> revs e ! k = Reversing {#} \<Longrightarrow>
    engine_step e (e\<lparr>revs := (revs e)[k := Over]\<rparr>)"
| destroy: "main_at e = Serving \<Longrightarrow> lpc (http e) = Returned ret \<Longrightarrow>
    engine_step e (e\<lparr>main_at := Destroyed, db := tear_down (db e)\<rparr>)"
| exit: "main_at e = Destroyed \<Longrightarrow> engine_step e (e\<lparr>main_at := Exited 0\<rparr>)"

definition engine_start :: "engine \<Rightarrow> bool" where
  "engine_start e \<longleftrightarrow> main_at e = Booting \<and> http e = engine_server \<and> pool (db e) = no_pool \<and>
     uses e = replicate (nat THREAD_POOL_SIZE) {#} \<and> revs e = [] \<and> \<not> g_engineShutdown e"

abbreviation engine_reachable :: "engine \<Rightarrow> bool" where
  "engine_reachable \<equiv> reachable_by engine_start engine_step"

section \<open>Invariant\<close>

text \<open>All program points together.\<close>

definition joint :: "engine \<Rightarrow> pool_sys" where
  "joint e = (db e)\<lparr>busy := sum_list (uses e) + sum_list (map rev_points (revs e))\<rparr>"

definition idle_clean :: "engine \<Rightarrow> bool" where
  "idle_clean e \<longleftrightarrow> (\<forall>i < length (uses e). uses e ! i \<noteq> {#} \<longrightarrow>
     i < length (workers (http e)) \<and> (\<exists>c. workers (http e) ! i = Running c))"

definition engine_inv :: "engine \<Rightarrow> bool" where
  "engine_inv e \<longleftrightarrow> http_inv (http e) \<and> length (uses e) = fst (new_task_queue (http e)) \<and> idle_clean e \<and>
     (main_at e = Booting \<longrightarrow> pool (db e) = no_pool \<and> sum_list (uses e) = {#} \<and> revs e = []) \<and>
     (main_at e = Serving \<longrightarrow> pool_inv (joint e)) \<and>
     (main_at e \<in> {Destroyed, Exited 0} \<longrightarrow> (\<exists>ret. lpc (http e) = Returned ret))"

text \<open>A step of one thread is a step of all.\<close>

lemma pool_step_frame:
  assumes "pool_step (y\<lparr>busy := B\<rparr>) z"
  shows "pool_step (y\<lparr>busy := B + R\<rparr>) (z\<lparr>busy := busy z + R\<rparr>)"
  using assms
proof cases
  case (acquire s p)
  with pool_step.acquire [of "y\<lparr>busy := B + R\<rparr>" s p] show ?thesis by simp
next
  case (try_acquire s p)
  with pool_step.try_acquire [of "y\<lparr>busy := B + R\<rparr>" s p] show ?thesis by simp
next
  case (alive s rest)
  with pool_step.alive [of "y\<lparr>busy := B + R\<rparr>" s "rest + R"] show ?thesis by simp
next
  case (stale s rest)
  with pool_step.stale [of "y\<lparr>busy := B + R\<rparr>" s "rest + R"] show ?thesis by simp
next
  case (reconnected s i rest s')
  with pool_step.reconnected [of "y\<lparr>busy := B + R\<rparr>" s i "rest + R" s'] show ?thesis by simp
next
  case (attempt_failed s i rest)
  with pool_step.attempt_failed [of "y\<lparr>busy := B + R\<rparr>" s i "rest + R"] show ?thesis by simp
next
  case (healed s s' rest)
  with pool_step.healed [of "y\<lparr>busy := B + R\<rparr>" s s' "rest + R"] show ?thesis by simp
next
  case (lost s rest)
  with pool_step.lost [of "y\<lparr>busy := B + R\<rparr>" s "rest + R"] show ?thesis by simp
next
  case (release s rest)
  with pool_step.release [of "y\<lparr>busy := B + R\<rparr>" s "rest + R"] show ?thesis by simp
next
  case (legacy s p)
  with pool_step.legacy [of "y\<lparr>busy := B + R\<rparr>" s p] show ?thesis by (cases y) simp
qed


lemma joint_handle:
  assumes "i < length (uses e)" and "pool_step ((db e)\<lparr>busy := uses e ! i\<rparr>) y"
  shows "pool_step (joint e) (joint (e\<lparr>db := y, uses := (uses e)[i := busy y]\<rparr>))"
proof -
  from sum_list_update_split [OF assms(1)] obtain r where
    r: "sum_list (uses e) = uses e ! i + r" "\<And>x. sum_list ((uses e)[i := x]) = x + r" by auto
  from pool_step_frame [OF assms(2), of "r + sum_list (map rev_points (revs e))"] show ?thesis
    by (simp add: joint_def r add.assoc)
qed

lemma rev_points_update:
  assumes "k < length rs"
  shows "\<exists>r. sum_list (map rev_points rs) = rev_points (rs ! k) + r \<and> (\<forall>x. sum_list (map rev_points (rs[k := x])) = rev_points x + r)"
proof -
  from sum_list_update_split [of k "map rev_points rs"] assms obtain r where
    "sum_list (map rev_points rs) = rev_points (rs ! k) + r" "\<And>x. sum_list ((map rev_points rs)[k := x]) = x + r" by auto
  then show ?thesis by (intro exI [of _ r]) (simp add: map_update)
qed

lemma joint_reverse:
  assumes "k < length (revs e)" and "revs e ! k = Reversing B" and "pool_step ((db e)\<lparr>busy := B\<rparr>) y"
  shows "pool_step (joint e) (joint (e\<lparr>db := y, revs := (revs e)[k := Reversing (busy y)]\<rparr>))"
proof -
  from rev_points_update [OF assms(1)] assms(2) obtain r where
    r: "sum_list (map rev_points (revs e)) = B + r" "\<And>x. sum_list (map rev_points ((revs e)[k := x])) = rev_points x + r" by auto
  from pool_step_frame [OF assms(3), of "r + sum_list (uses e)"] show ?thesis
    by (simp add: joint_def r ac_simps)
qed

lemma joint_quiet:
  assumes "k < length (revs e)" and "rev_points (revs e ! k) = {#}" and "rev_points x = {#}"
  shows "joint (e\<lparr>revs := (revs e)[k := x]\<rparr>) = joint e"
proof -
  from rev_points_update [OF assms(1)] obtain r where
    "sum_list (map rev_points (revs e)) = rev_points (revs e ! k) + r"
    "\<And>x. sum_list (map rev_points ((revs e)[k := x])) = rev_points x + r" by auto
  with assms(2,3) show ?thesis by (simp add: joint_def)
qed

lemma http_step_shape:
  "http_step s h \<Longrightarrow> new_task_queue h = new_task_queue s \<and> (workers s = [] \<or> lpc s = Bound \<or> length (workers h) = length (workers s))"
  by (auto simp: http_defs elim!: http_step.cases split: if_splits list.splits prod.splits)

lemma serve_clean:
  assumes "idle_clean e" and "http_inv (http e)" and "http_step (http e) h" and "returns_clean e h"
  shows "idle_clean (e\<lparr>http := h\<rparr>)"
proof -
  have "i < length (workers h) \<and> (\<exists>c. workers h ! i = Running c)" if "i < length (uses e)" "uses e ! i \<noteq> {#}" for i
  proof -
    from assms(1) that obtain c where i: "i < length (workers (http e))" and run: "workers (http e) ! i = Running c"
      by (auto simp: idle_clean_def)
    then have "workers (http e) \<noteq> []" by auto
    moreover from this assms(2) have "lpc (http e) \<noteq> Bound" by (auto simp: http_inv_def)
    ultimately have "length (workers h) = length (workers (http e))" using http_step_shape [OF assms(3)] by blast
    moreover have "workers h ! i = workers (http e) ! i" using assms(4) i that(2) by (auto simp: returns_clean_def)
    ultimately show ?thesis using i run by simp
  qed
  then show ?thesis by (simp add: idle_clean_def)
qed

lemma stop_shape: "stop s = Some h \<Longrightarrow> new_task_queue h = new_task_queue s \<and> workers h = workers s \<and> lpc h = lpc s"
  by (auto simp: stop_def split: if_splits)

lemma returned_unused:
  assumes "http_inv (http e)" and "idle_clean e" and "lpc (http e) = Returned ret" and "U \<in> set (uses e)"
  shows "U = {#}"
proof (rule ccontr)
  assume "U \<noteq> {#}"
  with assms(2,4) obtain i c where "i < length (workers (http e))" "workers (http e) ! i = Running c"
    by (auto simp: idle_clean_def in_set_conv_nth)
  then have "Running c \<in> set (workers (http e))" using nth_mem by metis
  with assms(1,3) show False by (auto simp: http_inv_def)
qed

lemma signal_inv: "engine_inv e \<Longrightarrow> main_at e = Serving \<Longrightarrow> engine_inv (onSignal e)"
  by (cases "stop (http e)")
    (auto simp: onSignal_def setATMEngineShutdown_def engine_inv_def idle_clean_def joint_def Let_def dest: stop_shape http_inv_stop)

lemma boot_inv:
  assumes "engine_inv e" and "main_at e = Booting"
    and dist: "distinct (freeConnections (snd (initPool loaded env connect (pool (db e)))))"
  shows "engine_inv (init_db loaded env connect e)"
proof -
  obtain ok p where init: "initPool loaded env connect (pool (db e)) = (ok, p)" by (cases "initPool loaded env connect (pool (db e))")
  show ?thesis
  proof (cases ok)
    case True
    have np: "pool (db e) = no_pool" and quiet: "sum_list (uses e) = {#}" "revs e = []"
      using assms(1,2) by (simp_all add: engine_inv_def)
    from True init np obtain c where "initPool (Val c) env connect no_pool = (True, p)"
      by (cases loaded) (auto simp: initPool_def)
    with dist init np have "pool_start \<lparr>pool = p, live = set (freeConnections p), busy = {#}\<rparr>" by (auto simp: pool_start_def)
    from pool_inv_start [OF this] assms(1,2) quiet True init show ?thesis
      by (auto simp: init_db_def engine_inv_def joint_def idle_clean_def)
  next
    case False
    with assms(1,2) init show ?thesis by (auto simp: init_db_def engine_inv_def idle_clean_def)
  qed
qed

lemma engine_inv_step: "engine_step e e' \<Longrightarrow> engine_inv e \<Longrightarrow> engine_inv e'"
proof (induction rule: engine_step.induct)
  case (boot e loaded env connect)
  then show ?case by (intro boot_inv)
next
  case (signal e)
  then show ?case by (intro signal_inv)
next
  case (serve e h)
  then have "idle_clean (e\<lparr>http := h\<rparr>)" by (intro serve_clean) (auto simp: engine_inv_def)
  with serve http_inv_step [OF serve(2)] http_step_shape [OF serve(2)] show ?case by (auto simp: engine_inv_def joint_def)
next
  case (handle e i c y)
  have i: "i < length (uses e)" using handle(2,5) by (auto simp: engine_inv_def http_inv_def)
  have "idle_clean (e\<lparr>db := y, uses := (uses e)[i := busy y]\<rparr>)"
    using handle i by (auto simp: engine_inv_def idle_clean_def nth_list_update split: if_splits)
  with handle(1,5) pool_inv_step [OF joint_handle [OF i handle(4)]] show ?case by (auto simp: engine_inv_def)
next
  case (timed_out e i c)
  then show ?case by (auto simp: engine_inv_def joint_def idle_clean_def)
next
  case (check e k)
  have "joint (e\<lparr>revs := (revs e)[k := check_shutdown (g_engineShutdown e)]\<rparr>) = joint e"
    by (rule joint_quiet) (use check in \<open>auto simp: check_shutdown_def\<close>)
  with check show ?case by (auto simp: engine_inv_def idle_clean_def)
next
  case (reverse e k B y)
  with pool_inv_step [OF joint_reverse [OF reverse(2-4)]] show ?case by (auto simp: engine_inv_def idle_clean_def)
next
  case (reversed e k)
  have "joint (e\<lparr>revs := (revs e)[k := Over]\<rparr>) = joint e"
    by (rule joint_quiet) (use reversed in auto)
  with reversed show ?case by (auto simp: engine_inv_def idle_clean_def)
qed (auto simp: engine_inv_def idle_clean_def)

lemma engine_inv_start: "engine_start e \<Longrightarrow> engine_inv e"
proof -
  have "sum_list (replicate n {#}) = {#}" for n :: nat by (induction n) simp_all
  then show "engine_start e \<Longrightarrow> engine_inv e"
    by (auto simp: engine_start_def engine_inv_def idle_clean_def engine_server_def new_server_def http_inv_def in_work_def
        THREAD_POOL_SIZE_def)
qed

interpretation life: machine engine_start engine_step engine_inv
  by unfold_locales (rule engine_inv_start, assumption, rule engine_inv_step)


section \<open>Properties\<close>

lemma unused_sum: "(\<And>U. U \<in> set Us \<Longrightarrow> U = {#}) \<Longrightarrow> sum_list Us = ({#} :: pool_pc multiset)"
  by (induction Us) auto

text \<open>C5: The process ends in order: when the pool of sessions is destroyed, and when \<^verbatim>\<open>main\<close> returns after
  that, every request that was accepted has been served and no handler holds a session.\<close>

theorem shutdown_after_requests:
  assumes "engine_reachable e" and "main_at e = Destroyed \<or> main_at e = Exited 0"
  shows "mset (served (http e)) = mset (accepted (http e)) \<and> sum_list (uses e) = {#}"
proof -
  have inv: "engine_inv e" using life.reachable_inv [OF assms(1)] .
  with assms(2) obtain ret where ret: "lpc (http e) = Returned ret" by (auto simp: engine_inv_def)
  with inv have "U = {#}" if "U \<in> set (uses e)" for U using returned_unused that by (auto simp: engine_inv_def)
  with unused_sum have "sum_list (uses e) = {#}" by blast
  with returned_served [OF _ ret] inv show ?thesis by (auto simp: engine_inv_def)
qed

lemma in_difference_count:
  assumes "count (mset xs) s + count M s = (if s \<in> A then 1 else 0)"
  shows "s \<in> A - set xs \<longleftrightarrow> s \<in># M"
proof (cases "s \<in> A")
  case True
  with assms have "count (mset xs) s + count M s = 1" by simp
  moreover have "s \<in> set xs \<longleftrightarrow> count (mset xs) s > 0" and "s \<in># M \<longleftrightarrow> count M s > 0" by simp_all
  ultimately have "s \<in># M \<longleftrightarrow> s \<notin> set xs" by linarith
  with True show ?thesis by simp
next
  case False
  with assms have "count M s = 0" by simp
  with False show ?thesis by (simp add: not_in_iff)
qed


text \<open>The flag does not protect a reversal that has passed its check: the session it uses when the pool is
  destroyed is closed and deleted under it.\<close>

lemma reversal_loses_session:
  assumes "engine_reachable e" and "main_at e = Serving" and "Reversing B \<in> set (revs e)" and "Using s \<in># B"
  shows "s \<notin> live (tear_down (db e))"
proof -
  have "\<exists>x \<in> set (revs e). Using s \<in># rev_points x" using assms(3,4) by (intro bexI [of _ "Reversing B"]) simp_all
  then have "Using s \<in># busy (joint e)" by (simp add: joint_def)
  moreover have "pool_inv (joint e)" using life.reachable_inv [OF assms(1)] assms(2) by (simp add: engine_inv_def)
  ultimately have "s \<in># slots (joint e)" by (force simp: pool_inv_def image_iff)
  then have "s \<in> set (pool_entries (pool (db e)))" by (simp add: joint_def slots_def pool_entries_def)
  then show ?thesis by (simp add: tear_down_def)
qed


section \<open>Runs\<close>

text \<open>The server has opened its pool and serves one request, on worker 0.\<close>

definition boot_engine :: engine where
  "boot_engine = \<lparr>main_at = Booting, http = engine_server, db = \<lparr>pool = no_pool, live = {}, busy = {#}\<rparr>,
     uses = replicate (nat THREAD_POOL_SIZE) {#}, revs = [], g_engineShutdown = False\<rparr>"

definition ready_engine :: engine where
  "ready_engine = boot_engine\<lparr>main_at := Serving, db := demo_sys\<rparr>"

definition bound_server :: http_sys where
  "bound_server = engine_server\<lparr>svr_sock := True, lpc := Bound\<rparr>"

definition one_request :: http_sys where
  "one_request = (listen_accept 1 (listen_enter bound_server))\<lparr>jobs := [], started := [1],
     workers := (replicate (nat THREAD_POOL_SIZE) Waiting)[0 := Running 1]\<rparr>"

lemma reach_engine: "engine_reachable e \<Longrightarrow> engine_step e e' \<Longrightarrow> engine_reachable e'"
  by (rule reachable_by.next_state)

text \<open>While no handler uses a session, the server can take any of its steps.\<close>

lemma clean_serve:
  assumes "engine_reachable e" and "main_at e = Serving" and "set (uses e) \<subseteq> {{#}}" and "http_step (http e) h"
  shows "engine_reachable (e\<lparr>http := h\<rparr>)"
proof -
  have "uses e ! i = {#}" if "i < length (workers (http e))" for i
  proof -
    have "length (workers (http e)) = length (uses e)"
      using life.reachable_inv [OF assms(1)] that by (auto simp: engine_inv_def http_inv_def)
    with that assms(3) show ?thesis by (auto simp: subset_iff)
  qed
  with reach_engine [OF assms(1) engine_step.serve [OF assms(2,4)]] show ?thesis by (simp add: returns_clean_def)
qed

lemma clean_serves:
  assumes "http_step\<^sup>*\<^sup>* h0 h" and "engine_reachable (e\<lparr>http := h0\<rparr>)" and "main_at e = Serving" and "set (uses e) \<subseteq> {{#}}"
  shows "engine_reachable (e\<lparr>http := h\<rparr>)"
  using assms(1)
proof (induction rule: rtranclp_induct)
  case (step y z)
  with clean_serve [of "e\<lparr>http := y\<rparr>" z] assms(3,4) show ?case by simp
qed (use assms(2) in simp)

lemma drained:
  assumes "engine_reachable e" and "main_at e = Serving" and "set (uses e) \<subseteq> {{#}}" and "closing (http e)"
  shows "\<exists>h ret. engine_reachable (e\<lparr>http := h\<rparr>) \<and> lpc h = Returned ret"
proof -
  have inv: "http_inv (http e)" using life.reachable_inv [OF assms(1)] by (simp add: engine_inv_def)
  from closing_ends [OF inv assms(4)] obtain n h where run: "(http_step ^^ n) (http e) h" and stuck: "\<nexists>t. http_step h t" by blast
  from drains [OF run inv assms(4)] closing_moves [of h] stuck have "\<exists>ret. lpc h = Returned ret" by blast
  moreover have "http_step\<^sup>*\<^sup>* (http e) h" using run by (rule relpowp_imp_rtranclp)
  from clean_serves [OF this _ assms(2,3)] assms(1) have "engine_reachable (e\<lparr>http := h\<rparr>)" by simp
  ultimately show ?thesis by blast
qed

lemma ready_reachable: "engine_reachable ready_engine"
proof -
  have "engine_start boot_engine" by (simp add: engine_start_def boot_engine_def)
  moreover have "engine_step boot_engine ready_engine"
    using engine_step.boot [of boot_engine "Val demo_creds" "Some '' +2''" demo_connect]
    by (simp add: boot_engine_def ready_engine_def demo_sys_def demo_pool_def demo_init init_db_def)
  ultimately show ?thesis by (meson reach_engine reachable_by.init)
qed

lemma bound_reachable: "engine_reachable (ready_engine\<lparr>http := bound_server\<rparr>)"
proof (rule clean_serve [OF ready_reachable])
  show "http_step (http ready_engine) bound_server"
    using http_step.bind [of engine_server True True "engine_server\<lparr>svr_sock := True\<rparr>"]
    by (simp add: engine_server_def new_server_def bind_to_port_def bound_server_def ready_engine_def boot_engine_def)
qed (auto simp: ready_engine_def boot_engine_def)


lemma accepting_server: "lpc (listen_enter bound_server) = Accepting \<and> svr_sock (listen_enter bound_server)"
  by (simp add: listen_enter_def thread_pool_def bound_server_def engine_server_def new_server_def)

lemma one_request_steps: "http_step\<^sup>*\<^sup>* bound_server one_request"
proof -
  let ?s2 = "listen_enter bound_server" let ?s3 = "listen_accept 1 ?s2"
  have b: "http_step bound_server ?s2" by (rule http_step.enter) (simp add: bound_server_def)
  have a: "http_step ?s2 ?s3" using accepting_server by (intro http_step.accept) auto
  have s3: "jobs ?s3 = [1]" "started ?s3 = []" "workers ?s3 = replicate (nat THREAD_POOL_SIZE) Waiting"
    by (simp_all add: listen_accept_def enqueue_def listen_enter_def thread_pool_def bound_server_def engine_server_def new_server_def
        MAX_QUEUED_REQUESTS_def)
  then have "worker_take ?s3 = Some (Running 1, ?s3\<lparr>jobs := [], started := [1]\<rparr>)" by (simp add: worker_take_def)
  from http_step.take [OF _ _ this, of 0] s3 have "http_step ?s3 one_request"
    by (simp add: one_request_def THREAD_POOL_SIZE_def)
  with b a show ?thesis by (meson rtranclp.rtrancl_refl rtranclp.rtrancl_into_rtrancl)
qed


text \<open>The request is a withdrawal that has timed out: its reversal has passed the check and uses session 7.\<close>

definition serving_engine :: engine where
  "serving_engine = ready_engine\<lparr>http := one_request\<rparr>"

definition reversing_engine :: engine where
  "reversing_engine = serving_engine\<lparr>db := \<lparr>pool = demo_pool\<lparr>freeConnections := [8]\<rparr>, live = {7, 8}, busy = {#Using 7#}\<rparr>,
     revs := [Reversing {#Using 7#}]\<rparr>"

lemma engine_simps [simp]:
  "main_at serving_engine = Serving" "uses serving_engine = replicate (nat THREAD_POOL_SIZE) {#}" "revs serving_engine = []"
  "http serving_engine = one_request" "db serving_engine = demo_sys" "g_engineShutdown serving_engine = False"
  by (simp_all add: serving_engine_def ready_engine_def boot_engine_def)

lemma one_request_simps [simp]: "is_running one_request" "svr_sock one_request" "lpc one_request = Accepting"
  "workers one_request = (replicate (nat THREAD_POOL_SIZE) Waiting)[0 := Running 1]" "accepted one_request = [1]"
  by (simp_all add: one_request_def listen_accept_def enqueue_def listen_enter_def thread_pool_def bound_server_def engine_server_def
      new_server_def MAX_QUEUED_REQUESTS_def)

lemma serving_reachable: "engine_reachable serving_engine"
  using clean_serves [OF one_request_steps bound_reachable]
  by (simp add: serving_engine_def ready_engine_def boot_engine_def set_replicate_conv_if)

lemma reversing_reachable: "engine_reachable reversing_engine"
proof -
  let ?e1 = "serving_engine\<lparr>revs := [Unchecked]\<rparr>" let ?e2 = "serving_engine\<lparr>revs := [Reversing {#}]\<rparr>"
  have "engine_step serving_engine ?e1"
    using engine_step.timed_out [of serving_engine 0 1] by (simp add: THREAD_POOL_SIZE_def)
  moreover have "engine_step ?e1 ?e2" using engine_step.check [of ?e1 0] by (simp add: check_shutdown_def)
  moreover have "engine_step ?e2 reversing_engine"
    using engine_step.reverse [of ?e2 0 "{#}" "\<lparr>pool = demo_pool\<lparr>freeConnections := [8]\<rparr>, live = {7, 8}, busy = {#Using 7#}\<rparr>"]
      pool_step.try_acquire [of demo_sys 7 "demo_pool\<lparr>freeConnections := [8]\<rparr>"]
    by (simp add: demo_sys_def check_out_def reversing_engine_def)
  ultimately show ?thesis using serving_reachable reach_engine by blast
qed

text \<open>A signal, and the requests drain.\<close>

lemma signalled:
  assumes "engine_reachable e" and "main_at e = Serving" and "http e = one_request" and "set (uses e) \<subseteq> {{#}}"
  shows "\<exists>h ret. engine_reachable (e\<lparr>g_engineShutdown := True, http := h\<rparr>) \<and> lpc h = Returned ret"
proof -
  let ?e = "e\<lparr>http := one_request\<lparr>svr_sock := False, is_decommissioned := False\<rparr>, g_engineShutdown := True\<rparr>"
  have "onSignal e = ?e" using assms(3) by (simp add: onSignal_def setATMEngineShutdown_def stop_def Let_def)
  with engine_step.signal [OF assms(2)] reach_engine [OF assms(1)] have "engine_reachable ?e" by metis
  from drained [OF this] assms(2,4) show ?thesis by (simp add: closing_def)
qed

lemma shutdown_after_requests_witness:
  "\<exists>e. engine_reachable e \<and> main_at e = Destroyed \<and> mset (served (http e)) = mset (accepted (http e)) \<and> sum_list (uses e) = {#}"
proof -
  have "set (uses serving_engine) \<subseteq> {{#}}" by auto
  from signalled [OF serving_reachable _ _ this] obtain h ret where
    r: "engine_reachable (serving_engine\<lparr>g_engineShutdown := True, http := h\<rparr>)" (is "engine_reachable ?e") and "lpc h = Returned ret"
    by auto
  with engine_step.destroy [of ?e ret] have "engine_reachable (?e\<lparr>main_at := Destroyed, db := tear_down (db ?e)\<rparr>)"
    by (auto intro: reach_engine)
  from shutdown_after_requests [OF this] this show ?thesis by (intro exI) auto
qed


text \<open>Session 7 is closed while the reversal uses it.\<close>

lemma reversal_outlives_pool:
  "\<exists>e. engine_reachable e \<and> main_at e = Destroyed \<and> g_engineShutdown e \<and> Reversing {#Using 7#} \<in> set (revs e) \<and> 7 \<notin> live (db e)"
proof -
  have "set (uses reversing_engine) \<subseteq> {{#}}" by (auto simp: reversing_engine_def)
  from signalled [OF reversing_reachable _ _ this] obtain h ret where
    r: "engine_reachable (reversing_engine\<lparr>g_engineShutdown := True, http := h\<rparr>)" (is "engine_reachable ?e") and ret: "lpc h = Returned ret"
    by (auto simp: reversing_engine_def)
  let ?d = "?e\<lparr>main_at := Destroyed, db := tear_down (db ?e)\<rparr>"
  have "engine_step ?e ?d" by (rule engine_step.destroy [of ?e ret]) (simp_all add: reversing_engine_def ret)
  with r have "engine_reachable ?d" by (rule reach_engine)
  moreover have "7 \<notin> live (db ?d)"
    using reversal_loses_session [OF r, of "{#Using 7#}" 7] by (simp add: reversing_engine_def)
  ultimately show ?thesis by (intro exI [of _ ?d]) (simp add: reversing_engine_def)
qed


text \<open>Three more ends: a signal between binding and the loop leaves the server running, with the reversals of
  time-outs switched off; a second signal aborts it before the accepted request is served, where
  assertions are compiled; and when the port cannot be bound the process reports success.\<close>

lemma early_signal_lost:
  "\<exists>e. engine_reachable e \<and> g_engineShutdown e \<and> lpc (http e) = Accepting \<and> svr_sock (http e) \<and> check_shutdown (g_engineShutdown e) = Over"
proof -
  let ?e = "ready_engine\<lparr>http := bound_server\<rparr>"
  have "onSignal ?e = ?e\<lparr>g_engineShutdown := True\<rparr>"
    by (simp add: onSignal_def setATMEngineShutdown_def stop_def bound_server_def engine_server_def new_server_def Let_def)
  moreover have "main_at ?e = Serving" by (simp add: ready_engine_def)
  ultimately have "engine_reachable (?e\<lparr>g_engineShutdown := True\<rparr>)" (is "engine_reachable ?f")
    using reach_engine [OF bound_reachable engine_step.signal] by metis
  moreover have "main_at ?f = Serving" and "set (uses ?f) \<subseteq> {{#}}" by (auto simp: ready_engine_def boot_engine_def)
  moreover have "http_step (http ?f) (listen_enter bound_server)"
    using http_step.enter [of bound_server] by (simp add: bound_server_def)
  ultimately have "engine_reachable (?f\<lparr>http := listen_enter bound_server\<rparr>)" by (rule clean_serve)
  with accepting_server show ?thesis
    by (intro exI [of _ "?f\<lparr>http := listen_enter bound_server\<rparr>"]) (simp add: check_shutdown_def)
qed

lemma second_signal_aborts:
  "\<exists>e. engine_reachable e \<and> main_at e = Aborted \<and> accepted (http e) = [1] \<and> served (http e) = []"
proof -
  let ?e = "onSignal serving_engine"
  have once: "?e = serving_engine\<lparr>g_engineShutdown := True, http := one_request\<lparr>svr_sock := False, is_decommissioned := False\<rparr>\<rparr>"
    by (simp add: onSignal_def setATMEngineShutdown_def stop_def Let_def)
  have "engine_reachable ?e" using reach_engine [OF serving_reachable engine_step.signal] by simp
  moreover have "main_at ?e = Serving" by (simp add: once)
  ultimately have "engine_reachable (onSignal ?e)" using reach_engine engine_step.signal by blast
  moreover have "onSignal ?e = ?e\<lparr>main_at := Aborted\<rparr>"
    unfolding once by (simp add: onSignal_def setATMEngineShutdown_def stop_def Let_def)
  moreover have "served one_request = []"
    by (simp add: one_request_def listen_accept_def enqueue_def listen_enter_def thread_pool_def bound_server_def engine_server_def
        new_server_def MAX_QUEUED_REQUESTS_def)
  ultimately show ?thesis by (intro exI [of _ "onSignal ?e"]) (simp add: once)
qed

lemma bind_failure_reports_success:
  "\<exists>e. engine_reachable e \<and> main_at e = Exited 0 \<and> lpc (http e) = Returned False \<and> accepted (http e) = []"
proof -
  let ?h = "engine_server\<lparr>is_decommissioned := True, lpc := Returned False\<rparr>"
  let ?e = "ready_engine\<lparr>http := ?h\<rparr>"
  let ?d = "?e\<lparr>main_at := Destroyed, db := tear_down (db ?e)\<rparr>"
  have "http_step (http ready_engine) ?h"
    using http_step.bind [of engine_server False False "engine_server\<lparr>is_decommissioned := True\<rparr>"]
    by (simp add: engine_server_def new_server_def bind_to_port_def ready_engine_def boot_engine_def)
  moreover have "main_at ready_engine = Serving" "set (uses ready_engine) \<subseteq> {{#}}"
    by (auto simp: ready_engine_def boot_engine_def)
  ultimately have "engine_reachable ?e" using clean_serve [OF ready_reachable] by blast
  moreover have "engine_step ?e ?d" by (rule engine_step.destroy [of ?e False]) (simp_all add: ready_engine_def)
  moreover have "engine_step ?d (?d\<lparr>main_at := Exited 0\<rparr>)" by (rule engine_step.exit) simp
  ultimately have "engine_reachable (?d\<lparr>main_at := Exited 0\<rparr>)" using reach_engine by blast
  then show ?thesis
    by (intro exI [of _ "?d\<lparr>main_at := Exited 0\<rparr>"]) (simp add: engine_server_def new_server_def)
qed

end
