(* ===== verification/JsonDump.thy ===== *)
theory JsonDump
  imports Json "HOL-Library.Word"
begin

text \<open>
  The serializer of \<^verbatim>\<open>include/json.hpp\<close>: \<^verbatim>\<open>dump\<close> with both layouts,
  \<^verbatim>\<open>dump_escaped\<close> with its UTF-8 decoder and its three error handlers, and
  \<^verbatim>\<open>dump_integer\<close> on 64-bit words with its digit buffer. What is written is the list of
  bytes; the 512-byte string buffer only holds bytes back. The shortest decimal form of a
  \<^verbatim>\<open>double\<close> (\<^verbatim>\<open>dump_float\<close>) is a parameter.
\<close>

section \<open>Integers\<close>

text \<open>\<^verbatim>\<open>count_digits\<close>: four digits at a time.\<close>

function count_digits :: "64 word \<Rightarrow> nat" where
  "count_digits x =
     (if x < 10 then 1
      else if x < 100 then 2
      else if x < 1000 then 3
      else if x < 10000 then 4
      else count_digits (x div 10000) + 4)"
  by pat_completeness auto
termination
  by (relation "measure unat")
    (simp_all add: unat_div word_less_nat_alt not_less)

declare count_digits.simps [simp del]

definition digits_to_99 :: "(char \<times> char) list" where
  "digits_to_99 = map (\<lambda>i. (digit_char (i div 10), digit_char (i mod 10))) [0..<100]"

text \<open>The digits are written from the back: \<open>p\<close> is \<^verbatim>\<open>buffer_ptr\<close>.\<close>

function fill_digits :: "64 word \<Rightarrow> nat \<Rightarrow> string \<Rightarrow> string" where
  "fill_digits a p buf =
     (if 100 \<le> a then
        (let d = digits_to_99 ! unat (a mod 100)
         in fill_digits (a div 100) (p - 2) (buf[p - 1 := snd d, p - 2 := fst d]))
      else if 10 \<le> a then
        (let d = digits_to_99 ! unat a in buf[p - 1 := snd d, p - 2 := fst d])
      else buf[p - 1 := digit_char (unat a)])"
  by pat_completeness auto
termination
  by (relation "measure (\<lambda>(a, p, buf). unat a)")
    (simp_all add: unat_div word_le_nat_alt)

declare fill_digits.simps [simp del]

definition remove_sign :: "64 word \<Rightarrow> 64 word" where
  "remove_sign x = - (x + 1) + 1"

text \<open>\<^verbatim>\<open>dump_integer\<close> on \<^verbatim>\<open>int64_t\<close> (\<open>sg\<close>) or \<^verbatim>\<open>uint64_t\<close>, over whatever the buffer holds.\<close>

definition dump_integer :: "bool \<Rightarrow> 64 word \<Rightarrow> string \<Rightarrow> string" where
  "dump_integer sg x buf =
     (if x = 0 then ''0''
      else if sg \<and> sint x < 0 then
        (let a = remove_sign x; n = 1 + count_digits a
         in take n (fill_digits a n (buf[0 := CHR ''-''])))
      else (let n = count_digits x in take n (fill_digits x n buf)))"

section \<open>Strings\<close>

text \<open>The table of the decoder: the class of each byte, then the next state by state and class.\<close>

definition utf8d :: "nat list" where
  "utf8d =
     replicate 128 0 @ replicate 16 1 @ replicate 16 9 @ replicate 32 7 @
     [8, 8] @ replicate 30 2 @
     [0xA, 0x3, 0x3, 0x3, 0x3, 0x3, 0x3, 0x3, 0x3, 0x3, 0x3, 0x3, 0x3, 0x4, 0x3, 0x3] @
     [0xB, 0x6, 0x6, 0x6, 0x5, 0x8, 0x8, 0x8, 0x8, 0x8, 0x8, 0x8, 0x8, 0x8, 0x8, 0x8] @
     [0x0, 0x1, 0x2, 0x3, 0x5, 0x8, 0x7, 0x1, 0x1, 0x1, 0x4, 0x6, 0x1, 0x1, 0x1, 0x1] @
     [1, 1, 1, 1, 1, 1, 1, 1, 1, 1, 1, 1, 1, 1, 1, 1, 1, 0, 1, 1, 1, 1, 1, 0, 1, 0, 1, 1, 1, 1, 1, 1] @
     [1, 2, 1, 1, 1, 1, 1, 2, 1, 2, 1, 1, 1, 1, 1, 1, 1, 1, 1, 1, 1, 1, 1, 2, 1, 1, 1, 1, 1, 1, 1, 1] @
     [1, 2, 1, 1, 1, 1, 1, 1, 1, 2, 1, 1, 1, 1, 1, 1, 1, 1, 1, 1, 1, 1, 1, 3, 1, 3, 1, 1, 1, 1, 1, 1] @
     [1, 3, 1, 1, 1, 1, 1, 3, 1, 3, 1, 1, 1, 1, 1, 1, 1, 3, 1, 1, 1, 1, 1, 1, 1, 1, 1, 1, 1, 1, 1, 1]"

abbreviation (input) UTF8_ACCEPT :: nat where "UTF8_ACCEPT \<equiv> 0"
abbreviation (input) UTF8_REJECT :: nat where "UTF8_REJECT \<equiv> 1"

definition utf8_next :: "nat \<Rightarrow> nat \<Rightarrow> nat" where
  "utf8_next state byte = utf8d ! (256 + state * 16 + utf8d ! byte)"

definition utf8_codep :: "nat \<Rightarrow> nat \<Rightarrow> nat \<Rightarrow> nat" where
  "utf8_codep state codep byte =
     (if state \<noteq> UTF8_ACCEPT then or (and byte 0x3F) (push_bit 6 codep)
      else and (drop_bit (utf8d ! byte) 0xFF) byte)"

definition decode :: "nat \<Rightarrow> nat \<Rightarrow> nat \<Rightarrow> nat \<times> nat" where
  "decode state codep byte = (utf8_next state byte, utf8_codep state codep byte)"

datatype error_handler = Strict | Replace | Ignore

definition hex_bytes :: "nat \<Rightarrow> string" where
  "hex_bytes b = [''0123456789ABCDEF'' ! (b div 16), ''0123456789ABCDEF'' ! (b mod 16)]"

text \<open>\<^verbatim>\<open>%04x\<close> of a \<^verbatim>\<open>uint16_t\<close>.\<close>

definition hex4 :: "nat \<Rightarrow> string" where
  "hex4 n = (let h = (\<lambda>k. ''0123456789abcdef'' ! (n div 16 ^ k mod 16)) in [h 3, h 2, h 1, h 0])"

text \<open>What is copied to the buffer when a code point is complete; \<open>c\<close> is its last byte.\<close>

definition escaped :: "bool \<Rightarrow> nat \<Rightarrow> char \<Rightarrow> string" where
  "escaped ensure_ascii cp c =
     (if cp = 0x08 then [CHR 0x5C, CHR ''b'']
      else if cp = 0x09 then [CHR 0x5C, CHR ''t'']
      else if cp = 0x0A then [CHR 0x5C, CHR ''n'']
      else if cp = 0x0C then [CHR 0x5C, CHR ''f'']
      else if cp = 0x0D then [CHR 0x5C, CHR ''r'']
      else if cp = 0x22 then [CHR 0x5C, CHR 0x22]
      else if cp = 0x5C then [CHR 0x5C, CHR 0x5C]
      else if cp \<le> 0x1F \<or> (ensure_ascii \<and> 0x7F \<le> cp) then
        (if cp \<le> 0xFFFF then [CHR 0x5C, CHR ''u''] @ hex4 cp
         else [CHR 0x5C, CHR ''u''] @ hex4 (0xD7C0 + drop_bit 10 cp)
              @ [CHR 0x5C, CHR ''u''] @ hex4 (0xDC00 + and cp 0x3FF))
      else [c])"

definition replacement :: "bool \<Rightarrow> string" where
  "replacement ensure_ascii = (if ensure_ascii then [CHR 0x5C] @ ''ufffd'' else [CHR 0xEF, CHR 0xBF, CHR 0xBD])"

definition type_error_316 :: "string \<Rightarrow> exn" where
  "type_error_316 m = JsonErr (''[json.exception.type_error.316] '' @ m)"

text \<open>
  The loop of \<^verbatim>\<open>dump_escaped\<close> at index \<open>i\<close> with \<open>s\<close> to go: \<open>out\<close> is what stands
  before \<^verbatim>\<open>bytes_after_last_accept\<close> and \<open>pend\<close> what has been copied since.
\<close>

record escaper =
  es_state :: nat
  es_codep :: nat
  es_out :: string
  es_pend :: string
  es_undumped :: nat

function dump_loop :: "bool \<Rightarrow> error_handler \<Rightarrow> nat \<Rightarrow> string \<Rightarrow> escaper \<Rightarrow> exn + escaper" where
  "dump_loop ea eh i [] e = Inr e"
| "dump_loop ea eh i (c # s) e = (case decode (es_state e) (es_codep e) (of_char c) of
      (st, cp) \<Rightarrow>
        if st = UTF8_ACCEPT then
          dump_loop ea eh (Suc i) s (e\<lparr>es_state := st, es_codep := cp,
            es_out := es_out e @ es_pend e @ escaped ea cp c, es_pend := [], es_undumped := 0\<rparr>)
        else if st = UTF8_REJECT then
          (if eh = Strict then
             Inl (type_error_316 (''invalid UTF-8 byte at index '' @ nat_str i @ '': 0x'' @ hex_bytes (of_char c)))
           else (let e' = e\<lparr>es_state := UTF8_ACCEPT, es_codep := cp,
                       es_out := es_out e @ (if eh = Replace then replacement ea else []),
                       es_pend := [], es_undumped := 0\<rparr>
                 in if 0 < es_undumped e then dump_loop ea eh i (c # s) e'
                    else dump_loop ea eh (Suc i) s e'))
        else dump_loop ea eh (Suc i) s (e\<lparr>es_state := st, es_codep := cp,
            es_pend := es_pend e @ (if ea then [] else [c]), es_undumped := Suc (es_undumped e)\<rparr>))"
  by pat_completeness auto
termination
  by (relation "measure (\<lambda>(ea, eh, i, s, e). 2 * length s + (if 0 < es_undumped e then 1 else 0))") auto

declare dump_loop.simps(2) [simp del]

definition escaper0 :: escaper where
  "escaper0 = \<lparr>es_state = UTF8_ACCEPT, es_codep = 0, es_out = [], es_pend = [], es_undumped = 0\<rparr>"

definition dump_escaped :: "bool \<Rightarrow> error_handler \<Rightarrow> string \<Rightarrow> string outcome" where
  "dump_escaped ea eh s = (case dump_loop ea eh 0 s escaper0 of
      Inl x \<Rightarrow> Exn x
    | Inr e \<Rightarrow>
        if es_state e = UTF8_ACCEPT then Val (es_out e @ es_pend e)
        else (case eh of
            Strict \<Rightarrow> Exn (type_error_316 (''incomplete UTF-8 string; last byte: 0x'' @ hex_bytes (of_char (last s))))
          | Ignore \<Rightarrow> Val (es_out e)
          | Replace \<Rightarrow> Val (es_out e @ replacement ea)))"

section \<open>Values\<close>

text \<open>The arguments of \<^verbatim>\<open>dump\<close> that do not change: the layout, the escapes, the step of indentation.\<close>

record dump_opts =
  pretty :: bool
  ensure_ascii :: bool
  handler :: error_handler
  indent_step :: nat
  float_str :: "real \<Rightarrow> string"

definition indentation :: "dump_opts \<Rightarrow> nat \<Rightarrow> string" where
  "indentation w n = (if pretty w then replicate n (CHR '' '') else [])"

definition line_end :: "dump_opts \<Rightarrow> string" where
  "line_end w = (if pretty w then [CHR 0x0A] else [])"

definition number_buffer :: string where
  "number_buffer = replicate 64 (CHR 0x00)"

fun dump_json_text :: "dump_opts \<Rightarrow> nat \<Rightarrow> json \<Rightarrow> string outcome"
  and dump_elements :: "dump_opts \<Rightarrow> nat \<Rightarrow> json list \<Rightarrow> string outcome"
  and dump_members :: "dump_opts \<Rightarrow> nat \<Rightarrow> (string \<times> json) list \<Rightarrow> string outcome" where
  "dump_json_text w ind (JObj kvs) =
     (if kvs = [] then Val ''{}''
      else obind (dump_members w (ind + indent_step w) kvs)
        (\<lambda>ms. Val (''{'' @ line_end w @ ms @ line_end w @ indentation w ind @ ''}'')))"
| "dump_json_text w ind (JArr xs) =
     (if xs = [] then Val ''[]''
      else obind (dump_elements w (ind + indent_step w) xs)
        (\<lambda>es. Val (''['' @ line_end w @ es @ line_end w @ indentation w ind @ '']'')))"
| "dump_json_text w ind (JStr s) =
     obind (dump_escaped (ensure_ascii w) (handler w) s) (\<lambda>t. Val ([CHR 0x22] @ t @ [CHR 0x22]))"
| "dump_json_text w ind (JBool b) = Val (if b then ''true'' else ''false'')"
| "dump_json_text w ind (JInt n) = Val (dump_integer (n < 0) (word_of_int n) number_buffer)"
| "dump_json_text w ind (JNum x) = Val (float_str w x)"
| "dump_json_text w ind JNull = Val ''null''"
| "dump_elements w ind [] = Val []"
| "dump_elements w ind (x # xs) =
     obind (dump_json_text w ind x) (\<lambda>t.
       if xs = [] then Val (indentation w ind @ t)
       else obind (dump_elements w ind xs) (\<lambda>ts. Val (indentation w ind @ t @ '','' @ line_end w @ ts)))"
| "dump_members w ind [] = Val []"
| "dump_members w ind ((k, v) # kvs) =
     obind (dump_escaped (ensure_ascii w) (handler w) k) (\<lambda>key.
     obind (dump_json_text w ind v) (\<lambda>t.
       let m = indentation w ind @ [CHR 0x22] @ key @ (if pretty w then [CHR 0x22] @ '': '' else [CHR 0x22] @ '':'') @ t
       in if kvs = [] then Val m
          else obind (dump_members w ind kvs) (\<lambda>ms. Val (m @ '','' @ line_end w @ ms))))"

end
