(* ===== verification/JsonLex.thy ===== *)
theory JsonLex
  imports Json
begin

text \<open>
  The lexer of \<^verbatim>\<open>include/json.hpp\<close> (class \<^verbatim>\<open>lexer\<close>): the text is the list of its
  bytes that have not been read, \<^verbatim>\<open>get()\<close> takes its head, the end of the list is \<^verbatim>\<open>eof\<close>,
  and \<^verbatim>\<open>unget()\<close> leaves the byte where it is. A scanner returns its token and the rest of the
  text; what a token carries (\<^verbatim>\<open>get_string\<close>, \<^verbatim>\<open>get_number_*\<close>) is a
  field of it. After a parse error nothing is read any more. Comments are not ignored, as the
  switch never asks for it. \<^verbatim>\<open>std::strtod\<close> is a parameter, \<open>None\<close> where its result is not
  finite; positions and the text last read, which only the wording of an exception shows, are left out.
\<close>

abbreviation byte_of :: "char \<Rightarrow> nat" where
  "byte_of c \<equiv> of_char c"

abbreviation quote :: char where "quote \<equiv> CHR 0x22"
abbreviation backslash :: char where "backslash \<equiv> CHR 0x5C"

section \<open>Tokens\<close>

datatype token_type = Uninitialized | Literal_true | Literal_false | Literal_null | Value_string
  | Value_unsigned | Value_integer | Value_float | Begin_array | Begin_object | End_array | End_object
  | Name_separator | Value_separator | Parse_error | End_of_input | Literal_or_value

datatype token = TTrue | TFalse | TNull | TString string | TUnsigned int | TInteger int
  | TFloat "real option" | TBeginArray | TBeginObject | TEndArray | TEndObject | TColon | TComma
  | TError string | TEnd

fun token_kind :: "token \<Rightarrow> token_type" where
  "token_kind TTrue = Literal_true"
| "token_kind TFalse = Literal_false"
| "token_kind TNull = Literal_null"
| "token_kind (TString s) = Value_string"
| "token_kind (TUnsigned n) = Value_unsigned"
| "token_kind (TInteger n) = Value_integer"
| "token_kind (TFloat x) = Value_float"
| "token_kind TBeginArray = Begin_array"
| "token_kind TBeginObject = Begin_object"
| "token_kind TEndArray = End_array"
| "token_kind TEndObject = End_object"
| "token_kind TColon = Name_separator"
| "token_kind TComma = Value_separator"
| "token_kind (TError m) = Parse_error"
| "token_kind TEnd = End_of_input"

fun token_type_name :: "token_type \<Rightarrow> string" where
  "token_type_name Uninitialized = ''<uninitialized>''"
| "token_type_name Literal_true = ''true literal''"
| "token_type_name Literal_false = ''false literal''"
| "token_type_name Literal_null = ''null literal''"
| "token_type_name Value_string = ''string literal''"
| "token_type_name Value_unsigned = ''number literal''"
| "token_type_name Value_integer = ''number literal''"
| "token_type_name Value_float = ''number literal''"
| "token_type_name Begin_array = [CHR 0x27] @ ''['' @ [CHR 0x27]"
| "token_type_name Begin_object = [CHR 0x27] @ ''{'' @ [CHR 0x27]"
| "token_type_name End_array = [CHR 0x27] @ '']'' @ [CHR 0x27]"
| "token_type_name End_object = [CHR 0x27] @ ''}'' @ [CHR 0x27]"
| "token_type_name Name_separator = [CHR 0x27] @ '':'' @ [CHR 0x27]"
| "token_type_name Value_separator = [CHR 0x27] @ '','' @ [CHR 0x27]"
| "token_type_name Parse_error = ''<parse error>''"
| "token_type_name End_of_input = ''end of input''"
| "token_type_name Literal_or_value = [CHR 0x27] @ ''['' @ [CHR 0x27] @ '', '' @ [CHR 0x27] @ ''{'' @ [CHR 0x27]
     @ '', or a literal''"

section \<open>Strings\<close>

fun hex_nibble :: "char \<Rightarrow> nat option" where
  "hex_nibble c = (let n = byte_of c in
     if 48 \<le> n \<and> n \<le> 57 then Some (n - 0x30)
     else if 65 \<le> n \<and> n \<le> 70 then Some (n - 0x37)
     else if 97 \<le> n \<and> n \<le> 102 then Some (n - 0x57)
     else None)"

text \<open>The code point of the four hex digits after a \<^verbatim>\<open>u\<close>; \<open>None\<close> is the result -1.\<close>

fun hex_digits :: "nat list \<Rightarrow> nat \<Rightarrow> string \<Rightarrow> (nat \<times> string) option" where
  "hex_digits [] cp s = Some (cp, s)"
| "hex_digits (factor # fs) cp [] = None"
| "hex_digits (factor # fs) cp (c # s) = (case hex_nibble c of
      Some d \<Rightarrow> hex_digits fs (cp + push_bit factor d) s
    | None \<Rightarrow> None)"

definition get_codepoint :: "string \<Rightarrow> (nat \<times> string) option" where
  "get_codepoint s = hex_digits [12, 8, 4, 0] 0 s"

fun next_byte_in_range :: "(nat \<times> nat) list \<Rightarrow> string \<Rightarrow> (string \<times> string) option" where
  "next_byte_in_range [] s = Some ([], s)"
| "next_byte_in_range ((lo, hi) # ranges) [] = None"
| "next_byte_in_range ((lo, hi) # ranges) (c # s) =
     (if lo \<le> byte_of c \<and> byte_of c \<le> hi
      then map_option (\<lambda>(bs, r). (c # bs, r)) (next_byte_in_range ranges s)
      else None)"

text \<open>The bytes of a code point.\<close>

definition utf8_encode :: "nat \<Rightarrow> string" where
  "utf8_encode cp =
     (if cp < 0x80 then [char_of cp]
      else if cp \<le> 0x7FF then
        [char_of (or 0xC0 (drop_bit 6 cp)), char_of (or 0x80 (and cp 0x3F))]
      else if cp \<le> 0xFFFF then
        [char_of (or 0xE0 (drop_bit 12 cp)), char_of (or 0x80 (and (drop_bit 6 cp) 0x3F)),
         char_of (or 0x80 (and cp 0x3F))]
      else
        [char_of (or 0xF0 (drop_bit 18 cp)), char_of (or 0x80 (and (drop_bit 12 cp) 0x3F)),
         char_of (or 0x80 (and (drop_bit 6 cp) 0x3F)), char_of (or 0x80 (and cp 0x3F))])"

definition msg_hex_digits :: string where
  "msg_hex_digits = ''invalid string: '' @ [CHR 0x27, backslash] @ ''u'' @ [CHR 0x27] @ '' must be followed by 4 hex digits''"

definition msg_surrogate :: string where
  "msg_surrogate = ''invalid string: surrogate U+D800..U+DBFF must be followed by U+DC00..U+DFFF''"

definition msg_utf8 :: string where
  "msg_utf8 = ''invalid string: ill-formed UTF-8 byte''"

text \<open>What follows a backslash and a \<^verbatim>\<open>u\<close>: one code point, or a pair of surrogates.\<close>

definition scan_unicode :: "string \<Rightarrow> string + (string \<times> string)" where
  "scan_unicode s = (case get_codepoint s of
      None \<Rightarrow> Inl msg_hex_digits
    | Some (cp1, r) \<Rightarrow>
        if 0xD800 \<le> cp1 \<and> cp1 \<le> 0xDBFF then
          (if take 2 r = [backslash, CHR ''u''] then
             (case get_codepoint (drop 2 r) of
                None \<Rightarrow> Inl msg_hex_digits
              | Some (cp2, r2) \<Rightarrow>
                  if 0xDC00 \<le> cp2 \<and> cp2 \<le> 0xDFFF
                  then Inr (utf8_encode (push_bit 10 cp1 + cp2 - 0x35FDC00), r2)
                  else Inl msg_surrogate)
           else Inl msg_surrogate)
        else if 0xDC00 \<le> cp1 \<and> cp1 \<le> 0xDFFF
        then Inl ''invalid string: surrogate U+DC00..U+DFFF must follow U+D800..U+DBFF''
        else Inr (utf8_encode cp1, r))"

definition scan_escape :: "string \<Rightarrow> string + (string \<times> string)" where
  "scan_escape s = (case s of
      [] \<Rightarrow> Inl ''invalid string: forbidden character after backslash''
    | c # r \<Rightarrow>
        if c = quote then Inr ([quote], r)
        else if c = backslash then Inr ([backslash], r)
        else if c = CHR ''/'' then Inr (''/'', r)
        else if c = CHR ''b'' then Inr ([CHR 0x08], r)
        else if c = CHR ''f'' then Inr ([CHR 0x0C], r)
        else if c = CHR ''n'' then Inr ([CHR 0x0A], r)
        else if c = CHR ''r'' then Inr ([CHR 0x0D], r)
        else if c = CHR ''t'' then Inr ([CHR 0x09], r)
        else if c = CHR ''u'' then scan_unicode r
        else Inl ''invalid string: forbidden character after backslash'')"

text \<open>The continuation bytes a byte asks for; \<open>None\<close> for a byte that starts no character.\<close>

definition lead_ranges :: "nat \<Rightarrow> (nat \<times> nat) list option" where
  "lead_ranges b =
     (if b \<le> 0x7F then Some []
      else if 0xC2 \<le> b \<and> b \<le> 0xDF then Some [(0x80, 0xBF)]
      else if b = 0xE0 then Some [(0xA0, 0xBF), (0x80, 0xBF)]
      else if (0xE1 \<le> b \<and> b \<le> 0xEC) \<or> b = 0xEE \<or> b = 0xEF then Some [(0x80, 0xBF), (0x80, 0xBF)]
      else if b = 0xED then Some [(0x80, 0x9F), (0x80, 0xBF)]
      else if b = 0xF0 then Some [(0x90, 0xBF), (0x80, 0xBF), (0x80, 0xBF)]
      else if 0xF1 \<le> b \<and> b \<le> 0xF3 then Some [(0x80, 0xBF), (0x80, 0xBF), (0x80, 0xBF)]
      else if b = 0xF4 then Some [(0x80, 0x8F), (0x80, 0xBF), (0x80, 0xBF)]
      else None)"

definition control_names :: "string list" where
  "control_names = [''NUL'', ''SOH'', ''STX'', ''ETX'', ''EOT'', ''ENQ'', ''ACK'', ''BEL'', ''BS'', ''HT'', ''LF'',
     ''VT'', ''FF'', ''CR'', ''SO'', ''SI'', ''DLE'', ''DC1'', ''DC2'', ''DC3'', ''DC4'', ''NAK'', ''SYN'', ''ETB'',
     ''CAN'', ''EM'', ''SUB'', ''ESC'', ''FS'', ''GS'', ''RS'', ''US'']"

definition control_code :: "nat \<Rightarrow> string" where
  "control_code b = ''00'' @ [''0123456789ABCDEF'' ! (b div 16), ''0123456789ABCDEF'' ! (b mod 16)]"

definition msg_control :: "nat \<Rightarrow> string" where
  "msg_control b = ''invalid string: control character U+'' @ control_code b @ '' ('' @ control_names ! b
     @ '') must be escaped to '' @ [backslash] @ ''u'' @ control_code b
     @ (if b = 8 then '' or '' @ [backslash] @ ''b''
        else if b = 9 then '' or '' @ [backslash] @ ''t''
        else if b = 10 then '' or '' @ [backslash] @ ''n''
        else if b = 12 then '' or '' @ [backslash] @ ''f''
        else if b = 13 then '' or '' @ [backslash] @ ''r''
        else [])"

lemma hex_digits_length: "hex_digits fs cp s = Some (n, r) \<Longrightarrow> length r + length fs = length s"
  by (induction fs cp s rule: hex_digits.induct) (auto split: option.splits simp del: hex_nibble.simps)

lemma get_codepoint_length: "get_codepoint s = Some (n, r) \<Longrightarrow> length r < length s"
  unfolding get_codepoint_def by (drule hex_digits_length) simp

lemma scan_unicode_length: "scan_unicode s = Inr (bs, r) \<Longrightarrow> length r < length s"
  unfolding scan_unicode_def by (auto split: option.splits if_splits dest!: get_codepoint_length)

lemma scan_escape_length: "scan_escape s = Inr (bs, r) \<Longrightarrow> length r < length s"
  unfolding scan_escape_def by (auto split: list.splits if_splits dest: scan_unicode_length)

lemma next_byte_length: "next_byte_in_range rs s = Some (bs, r) \<Longrightarrow> s = bs @ r"
  by (induction rs s arbitrary: bs rule: next_byte_in_range.induct) (auto split: if_splits)

text \<open>\<^verbatim>\<open>add\<close>: bytes of the token buffer before those that the rest of the scan adds.\<close>

fun add_front :: "string \<Rightarrow> string + (string \<times> string) \<Rightarrow> string + (string \<times> string)" where
  "add_front bs (Inl m) = Inl m"
| "add_front bs (Inr (t, r)) = Inr (bs @ t, r)"

lemma add_front_Inr: "add_front bs x = Inr (t, r) \<longleftrightarrow> (\<exists>t'. t = bs @ t' \<and> x = Inr (t', r))"
  by (cases "(bs, x)" rule: add_front.cases) auto

text \<open>The rest of a string after its opening quote.\<close>

function scan_chars :: "string \<Rightarrow> string + (string \<times> string)" where
  "scan_chars s = (case s of
      [] \<Rightarrow> Inl ''invalid string: missing closing quote''
    | c # s' \<Rightarrow>
        if c = quote then Inr ([], s')
        else if c = backslash then
          (case scan_escape s' of
             Inl m \<Rightarrow> Inl m
           | Inr (bs, r) \<Rightarrow> add_front bs (scan_chars r))
        else if byte_of c \<le> 0x1F then Inl (msg_control (byte_of c))
        else (case lead_ranges (byte_of c) of
             None \<Rightarrow> Inl msg_utf8
           | Some ranges \<Rightarrow> (case next_byte_in_range ranges s' of
                 None \<Rightarrow> Inl msg_utf8
               | Some (bs, r) \<Rightarrow> add_front (c # bs) (scan_chars r))))"
  by pat_completeness auto
termination
  by (relation "measure length") (auto dest!: scan_escape_length next_byte_length)

declare scan_chars.simps [simp del]

section \<open>Numbers\<close>

datatype num_state = NMinus | NZero | NAny1 | NDecimal1 | NDecimal2 | NExponent | NSign | NAny2

datatype num_type = NUnsigned | NInteger | NFloat

datatype num_move = NGoto num_state | NDone | NFail string

definition msg_digit_after :: "char \<Rightarrow> string" where
  "msg_digit_after c = ''invalid number; expected digit after '' @ [CHR 0x27, c, CHR 0x27]"

definition msg_exponent :: string where
  "msg_exponent = ''invalid number; expected '' @ [CHR 0x27, CHR ''+'', CHR 0x27] @ '', '' @ [CHR 0x27, CHR ''-'', CHR 0x27]
     @ '', or digit after exponent''"

text \<open>Where the number goes on after its next byte, one definition for each label of \<^verbatim>\<open>scan_number\<close>;
  \<open>None\<close> is the end of the text.\<close>

definition number_minus :: "char option \<Rightarrow> num_move" where
  "number_minus c = (case c of
      Some d \<Rightarrow> if d = CHR ''0'' then NGoto NZero
                else if isdigit d then NGoto NAny1 else NFail (msg_digit_after CHR ''-'')
    | None \<Rightarrow> NFail (msg_digit_after CHR ''-''))"

definition number_zero :: "char option \<Rightarrow> num_move" where
  "number_zero c = (case c of
      Some d \<Rightarrow> if d = CHR ''.'' then NGoto NDecimal1
                else if d = CHR ''e'' \<or> d = CHR ''E'' then NGoto NExponent else NDone
    | None \<Rightarrow> NDone)"

definition number_any1 :: "char option \<Rightarrow> num_move" where
  "number_any1 c = (case c of
      Some d \<Rightarrow> if isdigit d then NGoto NAny1
                else if d = CHR ''.'' then NGoto NDecimal1
                else if d = CHR ''e'' \<or> d = CHR ''E'' then NGoto NExponent else NDone
    | None \<Rightarrow> NDone)"

definition number_decimal1 :: "char option \<Rightarrow> num_move" where
  "number_decimal1 c = (case c of
      Some d \<Rightarrow> if isdigit d then NGoto NDecimal2 else NFail (msg_digit_after CHR ''.'')
    | None \<Rightarrow> NFail (msg_digit_after CHR ''.''))"

definition number_decimal2 :: "char option \<Rightarrow> num_move" where
  "number_decimal2 c = (case c of
      Some d \<Rightarrow> if isdigit d then NGoto NDecimal2
                else if d = CHR ''e'' \<or> d = CHR ''E'' then NGoto NExponent else NDone
    | None \<Rightarrow> NDone)"

definition number_exponent :: "char option \<Rightarrow> num_move" where
  "number_exponent c = (case c of
      Some d \<Rightarrow> if d = CHR ''+'' \<or> d = CHR ''-'' then NGoto NSign
                else if isdigit d then NGoto NAny2 else NFail msg_exponent
    | None \<Rightarrow> NFail msg_exponent)"

definition number_sign :: "char option \<Rightarrow> num_move" where
  "number_sign c = (case c of
      Some d \<Rightarrow> if isdigit d then NGoto NAny2 else NFail ''invalid number; expected digit after exponent sign''
    | None \<Rightarrow> NFail ''invalid number; expected digit after exponent sign'')"

definition number_any2 :: "char option \<Rightarrow> num_move" where
  "number_any2 c = (case c of
      Some d \<Rightarrow> if isdigit d then NGoto NAny2 else NDone
    | None \<Rightarrow> NDone)"

fun num_next :: "num_state \<Rightarrow> char option \<Rightarrow> num_move" where
  "num_next NMinus c = number_minus c"
| "num_next NZero c = number_zero c"
| "num_next NAny1 c = number_any1 c"
| "num_next NDecimal1 c = number_decimal1 c"
| "num_next NDecimal2 c = number_decimal2 c"
| "num_next NExponent c = number_exponent c"
| "num_next NSign c = number_sign c"
| "num_next NAny2 c = number_any2 c"

lemmas num_state_defs [simp] = number_minus_def number_zero_def number_any1_def number_decimal1_def
  number_decimal2_def number_exponent_def number_sign_def number_any2_def

text \<open>\<^verbatim>\<open>number_type\<close>, set on entering a state.\<close>

fun num_enter :: "num_state \<Rightarrow> num_type \<Rightarrow> num_type" where
  "num_enter NMinus ty = NInteger"
| "num_enter NDecimal1 ty = NFloat"
| "num_enter NExponent ty = NFloat"
| "num_enter st ty = ty"

fun add_digit :: "char \<Rightarrow> string + (num_type \<times> string \<times> string) \<Rightarrow> string + (num_type \<times> string \<times> string)" where
  "add_digit c (Inl m) = Inl m"
| "add_digit c (Inr (ty, ds, r)) = Inr (ty, c # ds, r)"

lemma add_digit_Inr: "add_digit c x = Inr (ty, ds, r) \<longleftrightarrow> (\<exists>ds'. ds = c # ds' \<and> x = Inr (ty, ds', r))"
  by (cases "(c, x)" rule: add_digit.cases) auto

text \<open>The type of the number, the bytes of it that were left and the rest of the text.\<close>

fun run_number :: "num_state \<Rightarrow> num_type \<Rightarrow> string \<Rightarrow> string + (num_type \<times> string \<times> string)" where
  "run_number st ty [] = (case num_next st None of
      NFail m \<Rightarrow> Inl m
    | _ \<Rightarrow> Inr (num_enter st ty, [], []))"
| "run_number st ty (c # s) = (case num_next st (Some c) of
      NGoto st' \<Rightarrow> add_digit c (run_number st' (num_enter st ty) s)
    | NDone \<Rightarrow> Inr (num_enter st ty, [], c # s)
    | NFail m \<Rightarrow> Inl m)"

text \<open>\<^verbatim>\<open>strtoull\<close> and \<^verbatim>\<open>strtoll\<close>, and \<^verbatim>\<open>strtod\<close> where they are out of range.\<close>

definition number_token :: "(string \<Rightarrow> real option) \<Rightarrow> num_type \<Rightarrow> string \<Rightarrow> token" where
  "number_token strtod ty buf = (case ty of
      NUnsigned \<Rightarrow> (let n = digits_value buf in if n < 2 ^ 64 then TUnsigned n else TFloat (strtod buf))
    | NInteger \<Rightarrow> (let n = - digits_value (tl buf) in if - (2 ^ 63) \<le> n then TInteger n else TFloat (strtod buf))
    | NFloat \<Rightarrow> TFloat (strtod buf))"

definition scan_number :: "(string \<Rightarrow> real option) \<Rightarrow> char \<Rightarrow> string \<Rightarrow> token \<times> string" where
  "scan_number strtod c s = (let st = (if c = CHR ''-'' then NMinus else if c = CHR ''0'' then NZero else NAny1) in
     case run_number st NUnsigned s of
       Inl m \<Rightarrow> (TError m, [])
     | Inr (ty, ds, r) \<Rightarrow> (number_token strtod ty (c # ds), r))"

lemma run_number_length: "run_number st ty s = Inr (ty', ds, r) \<Longrightarrow> s = ds @ r"
  by (induction st ty s arbitrary: ty' ds r rule: run_number.induct) (auto simp: add_digit_Inr split: num_move.splits)

lemma scan_number_length: "length (snd (scan_number strtod c s)) \<le> length s"
  unfolding scan_number_def Let_def by (auto split: sum.split dest: run_number_length)

section \<open>The scanner\<close>

definition scan_literal :: "string \<Rightarrow> token \<Rightarrow> string \<Rightarrow> token \<times> string" where
  "scan_literal text tok s = (if take (length text) s = text then (tok, drop (length text) s)
     else (TError ''invalid literal'', []))"

definition json_ws :: "char \<Rightarrow> bool" where
  "json_ws c \<longleftrightarrow> c = CHR '' '' \<or> c = CHR 0x09 \<or> c = CHR 0x0A \<or> c = CHR 0x0D"

definition skip_whitespace :: "string \<Rightarrow> string" where
  "skip_whitespace s = dropWhile json_ws s"

text \<open>\<open>None\<close> where the byte order mark is incomplete.\<close>

definition skip_bom :: "string \<Rightarrow> string option" where
  "skip_bom s = (case s of
      c # r \<Rightarrow> if c = CHR 0xEF then (if take 2 r = [CHR 0xBB, CHR 0xBF] then Some (drop 2 r) else None) else Some s
    | [] \<Rightarrow> Some [])"

text \<open>The switch of \<^verbatim>\<open>scan()\<close> on the current byte; the literals are read behind their first letter.\<close>

definition scan_token :: "(string \<Rightarrow> real option) \<Rightarrow> char \<Rightarrow> string \<Rightarrow> token \<times> string" where
  "scan_token strtod c r =
       (if c = CHR ''['' then (TBeginArray, r)
        else if c = CHR '']'' then (TEndArray, r)
        else if c = CHR ''{'' then (TBeginObject, r)
        else if c = CHR ''}'' then (TEndObject, r)
        else if c = CHR '':'' then (TColon, r)
        else if c = CHR '','' then (TComma, r)
        else if c = CHR ''t'' then scan_literal ''rue'' TTrue r
        else if c = CHR ''f'' then scan_literal ''alse'' TFalse r
        else if c = CHR ''n'' then scan_literal ''ull'' TNull r
        else if c = quote then
          (case scan_chars r of Inl m \<Rightarrow> (TError m, []) | Inr (t, r') \<Rightarrow> (TString t, r'))
        else if c = CHR ''-'' \<or> isdigit c then scan_number strtod c r
        else if c = CHR 0x00 then (TEnd, r)
        else (TError ''invalid literal'', []))"

text \<open>\<^verbatim>\<open>scan()\<close> after the first token.\<close>

definition scan :: "(string \<Rightarrow> real option) \<Rightarrow> string \<Rightarrow> token \<times> string" where
  "scan strtod s = (case skip_whitespace s of [] \<Rightarrow> (TEnd, []) | c # r \<Rightarrow> scan_token strtod c r)"

text \<open>\<^verbatim>\<open>scan()\<close> on the first token, which skips the byte order mark.\<close>

definition scan_first :: "(string \<Rightarrow> real option) \<Rightarrow> string \<Rightarrow> token \<times> string" where
  "scan_first strtod s = (case skip_bom s of
      None \<Rightarrow> (TError ''invalid BOM; must be 0xEF 0xBB 0xBF if given'', [])
    | Some r \<Rightarrow> scan strtod r)"

lemma scan_chars_length: "scan_chars s = Inr (t, r) \<Longrightarrow> length r < length s"
proof (induction s arbitrary: t r rule: scan_chars.induct)
  case (1 s)
  show ?case
  proof (cases s)
    case Nil
    with 1(3) show ?thesis by (simp add: scan_chars.simps)
  next
    case (Cons c s')
    consider "c = quote" | "c \<noteq> quote" "c = backslash" | "c \<noteq> quote" "c \<noteq> backslash" by blast
    then show ?thesis
    proof cases
      case 1
      with Cons \<open>scan_chars s = Inr (t, r)\<close> show ?thesis by (simp add: scan_chars.simps)
    next
      case 2
      with Cons \<open>scan_chars s = Inr (t, r)\<close> obtain bs r1 t' where
        "scan_escape s' = Inr (bs, r1)" and "scan_chars r1 = Inr (t', r)"
        by (subst (asm) scan_chars.simps) (auto simp: add_front_Inr split: sum.splits)
      with 1(1) [OF Cons 2] Cons show ?thesis by (force dest: scan_escape_length)
    next
      case 3
      with Cons \<open>scan_chars s = Inr (t, r)\<close> obtain rs bs r1 t' where
        "\<not> byte_of c \<le> 0x1F" "lead_ranges (byte_of c) = Some rs" "next_byte_in_range rs s' = Some (bs, r1)"
        and "scan_chars r1 = Inr (t', r)"
        by (subst (asm) scan_chars.simps) (auto simp: add_front_Inr split: if_splits option.splits)
      with 1(2) [OF Cons 3] Cons show ?thesis by (force dest: next_byte_length)
    qed
  qed
qed

text \<open>Every token but the end of the text takes at least one byte.\<close>

lemma scan_literal_length: "length (snd (scan_literal text tok s)) \<le> length s"
  by (simp add: scan_literal_def)

lemma scan_token_length: "length (snd (scan_token strtod c w)) \<le> length w"
proof -
  have "length (snd (case scan_chars w of Inl m \<Rightarrow> (TError m, []) | Inr (t, r') \<Rightarrow> (TString t, r'))) \<le> length w"
    by (auto split: sum.split dest: scan_chars_length)
  then show ?thesis
    by (simp add: scan_token_def scan_literal_length scan_number_length)
qed

lemma scan_length:
  assumes "scan strtod s = (t, r)"
  shows "length r < length s \<or> t = TEnd \<and> r = []"
proof (cases "skip_whitespace s")
  case Nil
  with assms show ?thesis by (simp add: scan_def)
next
  case (Cons c w)
  have "length (c # w) \<le> length s"
    unfolding Cons [symmetric] skip_whitespace_def by (rule length_dropWhile_le)
  moreover have "length r \<le> length w"
    using assms Cons scan_token_length [of strtod c w] by (simp add: scan_def)
  ultimately show ?thesis by simp
qed

end
