(* ===== verification/JsonNumber.thy ===== *)
theory JsonNumber
  imports JsonDump JsonLex
begin

text \<open>
  Numbers as text: \<^verbatim>\<open>dump_integer\<close> writes the decimal form of every 64-bit integer,
  whatever its buffer held, and the number scanner of the lexer reads it back.
\<close>

section \<open>Printing\<close>

lemma nat_str_small: "n < 10 \<Longrightarrow> nat_str n = [digit_char n]"
  by (subst nat_str.simps) simp

lemma nat_str_step: "10 \<le> n \<Longrightarrow> nat_str n = nat_str (n div 10) @ [digit_char (n mod 10)]"
  by (subst nat_str.simps) simp

lemma nat_str_hundred:
  assumes "100 \<le> n"
  shows "nat_str n = nat_str (n div 100) @ [digit_char (n mod 100 div 10), digit_char (n mod 100 mod 10)]"
proof -
  have "n div 10 div 10 = n div 100" "n div 10 mod 10 = n mod 100 div 10" "n mod 10 = n mod 100 mod 10"
    by (simp_all add: div_mult2_eq [symmetric] mod_mult2_eq [of n 10 10, simplified] mod_mod_cancel)
  with assms show ?thesis
    using nat_str_step [of n] nat_str_step [of "n div 10"] by (simp add: div_le_mono [of 100 n 10, simplified])
qed

lemma length_nat_str: "length (nat_str n) = (if n < 10 then 1 else Suc (length (nat_str (n div 10))))"
  by (subst nat_str.simps) simp

lemma length_nat_str_pos [simp]: "0 < length (nat_str n)"
  by (subst nat_str.simps) simp

lemma length_nat_str_digits:
  "n < 10 \<Longrightarrow> length (nat_str n) = 1"
  "10 \<le> n \<Longrightarrow> n < 100 \<Longrightarrow> length (nat_str n) = 2"
  "100 \<le> n \<Longrightarrow> n < 1000 \<Longrightarrow> length (nat_str n) = 3"
  "1000 \<le> n \<Longrightarrow> n < 10000 \<Longrightarrow> length (nat_str n) = 4"
proof -
  show *: "n < 10 \<Longrightarrow> length (nat_str n) = 1" for n
    by (simp add: length_nat_str)
  show **: "10 \<le> n \<Longrightarrow> n < 100 \<Longrightarrow> length (nat_str n) = 2" for n
    using * [of "n div 10"] by (simp add: length_nat_str [of n] div_less_iff_less_mult)
  show ***: "100 \<le> n \<Longrightarrow> n < 1000 \<Longrightarrow> length (nat_str n) = 3" for n
    using ** [of "n div 10"] by (simp add: length_nat_str [of n] div_less_iff_less_mult less_eq_div_iff_mult_less_eq)
  show "1000 \<le> n \<Longrightarrow> n < 10000 \<Longrightarrow> length (nat_str n) = 4" for n
    using *** [of "n div 10"] by (simp add: length_nat_str [of n] div_less_iff_less_mult less_eq_div_iff_mult_less_eq)
qed

lemma count_digits_correct: "count_digits x = length (nat_str (unat x))"
proof (induction x rule: count_digits.induct)
  case (1 x)
  have lt: "x < 10 \<longleftrightarrow> unat x < 10" "x < 100 \<longleftrightarrow> unat x < 100" "x < 1000 \<longleftrightarrow> unat x < 1000"
    "x < 10000 \<longleftrightarrow> unat x < 10000"
    by (simp_all add: word_less_nat_alt)
  show ?case
  proof (cases "x < 10000")
    case True
    then have "unat x < 10000" by (simp add: lt)
    then consider "unat x < 10" | "10 \<le> unat x" "unat x < 100" | "100 \<le> unat x" "unat x < 1000"
      | "1000 \<le> unat x" "unat x < 10000" by linarith
    then show ?thesis
      by cases (subst count_digits.simps, simp add: lt length_nat_str_digits)+
  next
    case False
    then have "10000 \<le> unat x" by (simp add: lt)
    moreover have "unat (x div 10000) = unat x div 10000"
      by (simp add: unat_div)
    moreover have "length (nat_str (unat x)) = 4 + length (nat_str (unat x div 10000))"
      using \<open>10000 \<le> unat x\<close>
      by (simp add: length_nat_str [of "unat x"] length_nat_str [of "unat x div 10"]
          length_nat_str [of "unat x div 100"] length_nat_str [of "unat x div 1000"] div_mult2_eq [symmetric]
          div_less_iff_less_mult)
    ultimately show ?thesis
      using False 1 by (subst count_digits.simps) (simp add: lt)
  qed
qed

lemma digits_to_99_nth: "i < 100 \<Longrightarrow> digits_to_99 ! i = (digit_char (i div 10), digit_char (i mod 10))"
  by (simp only: digits_to_99_def nth_map_upt diff_zero add_0)

lemma put_two:
  assumes "2 \<le> p" "p \<le> length buf"
  shows "buf[p - Suc 0 := y, p - 2 := x] = take (p - 2) buf @ [x, y] @ drop p buf"
proof -
  obtain q where p: "p = Suc (Suc q)" using assms(1) by (metis Suc_le_D numeral_2_eq_2 Suc_le_mono)
  with assms have "Suc q < length buf" by simp
  then have "buf[Suc q := y, q := x] = take q buf @ x # y # drop (Suc (Suc q)) buf"
    by (simp add: upd_conv_take_nth_drop [of q] upd_conv_take_nth_drop [of "Suc q"])
  then show ?thesis by (simp add: p)
qed

lemma put_one:
  assumes "0 < p" "p \<le> length buf"
  shows "buf[p - Suc 0 := x] = take (p - Suc 0) buf @ [x] @ drop p buf"
  using assms by (simp add: upd_conv_take_nth_drop)

text \<open>The digits stand before \<open>p\<close>, and nothing else of the buffer changes.\<close>

lemma fill_digits_correct:
  assumes "length (nat_str (unat a)) \<le> p" "p \<le> length buf"
  shows "fill_digits a p buf = take (p - length (nat_str (unat a))) buf @ nat_str (unat a) @ drop p buf"
  using assms
proof (induction a p buf rule: fill_digits.induct)
  case (1 a p buf)
  have le: "100 \<le> a \<longleftrightarrow> 100 \<le> unat a" "10 \<le> a \<longleftrightarrow> 10 \<le> unat a"
    by (simp_all add: word_le_nat_alt)
  show ?case
  proof (cases "100 \<le> a")
    case True
    define d where "d = digits_to_99 ! unat (a mod 100)"
    define buf' where "buf' = buf[p - 1 := snd d, p - 2 := fst d]"
    define n where "n = unat a div 100"
    have big: "100 \<le> unat a" and dm: "unat (a mod 100) = unat a mod 100" "unat (a div 100) = n"
      using True by (simp_all add: le unat_div unat_mod n_def)
    have str: "nat_str (unat a) = nat_str n @ [fst d, snd d]"
      unfolding nat_str_hundred [OF big] by (simp add: d_def dm digits_to_99_nth n_def)
    then have p: "length (nat_str n) \<le> p - 2" "2 \<le> p" using "1.prems" by simp_all
    have buf': "buf' = take (p - 2) buf @ [fst d, snd d] @ drop p buf"
      unfolding buf'_def using p "1.prems" by (simp add: put_two)
    have "fill_digits a p buf = fill_digits (a div 100) (p - 2) buf'"
      using True by (subst fill_digits.simps) (simp add: d_def buf'_def Let_def)
    also have "\<dots> = take (p - 2 - length (nat_str n)) buf' @ nat_str n @ drop (p - 2) buf'"
      using 1(1) [OF True refl, folded d_def, folded buf'_def] p "1.prems" unfolding dm
      by (simp add: buf'_def)
    also have "take (p - 2 - length (nat_str n)) buf' = take (p - length (nat_str (unat a))) buf"
      unfolding str buf' using p "1.prems" by (cases "length buf \<le> p - 2") (simp_all add: min_def)
    also have "drop (p - 2) buf' = [fst d, snd d] @ drop p buf"
      unfolding buf' using p "1.prems" by simp
    finally show ?thesis by (simp add: str)
  next
    case small: False
    then have lt: "unat a < 100" by (simp add: le)
    show ?thesis
    proof (cases "10 \<le> a")
      case True
      then have "nat_str (unat a) = [digit_char (unat a div 10), digit_char (unat a mod 10)]"
        using lt by (simp add: le nat_str_step nat_str_small)
      with True small lt "1.prems" show ?thesis
        by (subst fill_digits.simps) (simp add: digits_to_99_nth put_two, simp add: numeral_2_eq_2)
    next
      case False
      then have "nat_str (unat a) = [digit_char (unat a)]" by (simp add: le nat_str_small)
      with False small "1.prems" show ?thesis
        by (subst fill_digits.simps) (simp add: put_one)
    qed
  qed
qed

lemma length_nat_str_bound: "n < 10 ^ k \<Longrightarrow> 0 < k \<Longrightarrow> length (nat_str n) \<le> k"
proof (induction k arbitrary: n)
  case (Suc k)
  show ?case
  proof (cases "n < 10 \<or> k = 0")
    case True
    with Suc.prems show ?thesis by (auto simp: length_nat_str [of n])
  next
    case False
    then have "n div 10 < 10 ^ k" using Suc.prems by (simp add: div_less_iff_less_mult mult.commute)
    with Suc.IH False show ?thesis by (simp add: length_nat_str [of n])
  qed
qed simp

lemma count_digits_bound: "count_digits x \<le> 20"
proof -
  have "unat x < 10 ^ 20" using unsigned_less [of x] by (rule order.strict_trans2) simp
  then show ?thesis using length_nat_str_bound [of "unat x" 20] by (simp add: count_digits_correct)
qed

lemma remove_sign_correct: "sint x < 0 \<Longrightarrow> unat (remove_sign x) = nat (- sint x)"
proof -
  assume "sint x < 0"
  have x: "- (2 ^ 63) \<le> sint x" using sint_ge [of x] by simp
  have "remove_sign x = word_of_int (- sint x)" by (simp add: remove_sign_def)
  moreover have "take_bit 64 (- sint x) = - sint x"
    using \<open>sint x < 0\<close> x by (simp add: take_bit_int_eq_self)
  ultimately have "uint (remove_sign x) = - sint x"
    by (simp only: uint_word_of_int_eq) simp
  then show ?thesis by (simp add: unat_eq_nat_uint)
qed

lemma int_str_uint: "int_str (uint (x :: 64 word)) = nat_str (unat x)"
  by (simp add: int_str_def)

lemma zero_str: "nat_str 0 = ''0''"
  unfolding nat_str_small [of 0, simplified] digit_char_def by code_simp

lemma dump_integer_correct:
  assumes "length buf = 64"
  shows "dump_integer True x buf = int_str (sint x)"
    and "dump_integer False x buf = int_str (uint x)"
proof -
  have pos: "take (count_digits x) (fill_digits x (count_digits x) buf) = nat_str (unat x)"
    using assms count_digits_bound [of x] by (simp add: count_digits_correct fill_digits_correct)
  show unsigned: "dump_integer False x buf = int_str (uint x)"
    using pos by (simp add: dump_integer_def int_str_uint zero_str)
  show "dump_integer True x buf = int_str (sint x)"
  proof (cases "sint x < 0")
    case True
    define a where "a = remove_sign x"
    have a: "unat a = nat (- sint x)" by (simp add: a_def remove_sign_correct [OF True])
    have "take (Suc (count_digits a)) (fill_digits a (Suc (count_digits a)) (buf[0 := CHR ''-'']))
        = CHR ''-'' # nat_str (unat a)"
      using assms count_digits_bound [of a] by (cases buf) (simp_all add: count_digits_correct fill_digits_correct)
    with True a show ?thesis
      by (auto simp: dump_integer_def int_str_def Let_def a_def [symmetric])
  next
    case False
    moreover have "sint x < 2 ^ 63" using sint_lt [of x] by simp
    ultimately have "uint x = sint x" by (simp add: uint_sint take_bit_int_eq_self)
    moreover have "dump_integer True x buf = dump_integer False x buf"
      using False by (simp add: dump_integer_def)
    ultimately show ?thesis using unsigned by simp
  qed
qed

section \<open>Reading back\<close>

text \<open>What may follow a number: nothing that could be a part of it.\<close>

definition ends_number :: "string \<Rightarrow> bool" where
  "ends_number r \<longleftrightarrow> (case r of [] \<Rightarrow> True
     | c # _ \<Rightarrow> \<not> isdigit c \<and> c \<noteq> CHR ''.'' \<and> c \<noteq> CHR ''e'' \<and> c \<noteq> CHR ''E'')"

lemma num_next_end: "num_next st None = NDone \<or> (\<exists>m. num_next st None = NFail m)"
  by (cases st) simp_all

lemma num_next_ends: "num_next st None = NDone \<Longrightarrow> ends_number (c # r) \<Longrightarrow> num_next st (Some c) = NDone"
  by (cases st) (simp_all add: ends_number_def)

lemma run_number_ends:
  assumes "run_number st ty s = Inr (ty', ds, [])" and "ends_number r"
  shows "run_number st ty (s @ r) = Inr (ty', ds, r)"
  using assms(1)
proof (induction s arbitrary: st ty ds)
  case Nil
  then have nd: "num_next st None = NDone" and "ty' = num_enter st ty" "ds = []"
    using num_next_end [of st] by (auto split: num_move.splits)
  then show ?case
    using num_next_ends [OF nd] assms(2) by (cases r) simp_all
next
  case (Cons c s)
  then show ?case by (auto simp: add_digit_Inr split: num_move.splits)
qed

lemma run_number_all: "run_number st ty s = Inr (ty', ds, []) \<Longrightarrow> ds = s"
  using run_number_length by fastforce

lemma run_any1: "list_all isdigit ds \<Longrightarrow> run_number NAny1 ty ds = Inr (ty, ds, [])"
  by (induction ds) simp_all

lemma nat_str_head:
  assumes "nat_str n = c # ds"
  shows "isdigit c" and "list_all isdigit ds" and "c = CHR ''0'' \<longleftrightarrow> n = 0" and "n = 0 \<Longrightarrow> ds = []"
proof -
  show "isdigit c" "list_all isdigit ds" using nat_str_value [of n] assms by simp_all
  show "n = 0 \<Longrightarrow> ds = []" using assms by (simp add: zero_str)
  show "c = CHR ''0'' \<longleftrightarrow> n = 0"
    using assms
  proof (induction n arbitrary: c ds rule: nat_str.induct)
    case (1 n)
    show ?case
    proof (cases "n < 10")
      case True
      then have "c = digit_char n" using 1(2) by (simp add: nat_str_small)
      moreover have "CHR ''0'' = digit_char 0" using zero_str by (simp add: nat_str_small)
      moreover have "digit_char n = digit_char 0 \<longleftrightarrow> n = 0"
        using digit_char_laws(3) [OF True] digit_char_laws(3) [of 0] by (metis add_cancel_left_right of_nat_eq_0_iff zero_less_numeral)
      ultimately show ?thesis by simp
    next
      case False
      then have step: "nat_str n = nat_str (n div 10) @ [digit_char (n mod 10)]" by (simp add: nat_str_step)
      obtain c' ds' where q: "nat_str (n div 10) = c' # ds'"
        using nat_str_value [of "n div 10"] by (cases "nat_str (n div 10)") simp_all
      with step 1(2) have "c = c'" by simp
      with 1(1) [OF False q] False show ?thesis by (simp add: div_eq_0_iff)
    qed
  qed
qed

lemma scan_number_nat:
  assumes "nat_str n = c # ds" "n < 2 ^ 64" "ends_number r"
  shows "scan_number strtod c (ds @ r) = (TUnsigned (int n), r)"
proof -
  note h = nat_str_head [OF assms(1)]
  have "digits_value (c # ds) = int n" using nat_str_value [of n] assms(1) by simp
  moreover have "c \<noteq> CHR ''-''" using h(1) by (auto simp: isdigit_def Let_def)
  moreover have "run_number (if n = 0 then NZero else NAny1) NUnsigned (ds @ r) = Inr (NUnsigned, ds, r)"
    using h by (intro run_number_ends [OF _ assms(3)]) (simp add: run_any1)
  moreover have "int n < 2 ^ 64" using assms(2) by simp
  ultimately show ?thesis
    using h(3) by (simp add: scan_number_def number_token_def Let_def)
qed

lemma scan_number_negative:
  assumes "0 < n" "n \<le> 2 ^ 63" "ends_number r"
  shows "scan_number strtod (CHR ''-'') (nat_str n @ r) = (TInteger (- int n), r)"
proof -
  obtain c ds where s: "nat_str n = c # ds"
    using nat_str_value [of n] by (cases "nat_str n") simp_all
  note h = nat_str_head [OF s]
  have v: "digits_value (c # ds) = int n" using nat_str_value [of n] s by simp
  have "run_number NMinus NUnsigned (c # ds) = Inr (NInteger, c # ds, [])"
    using h assms(1) by (simp add: run_any1)
  then have "run_number NMinus NUnsigned (nat_str n @ r) = Inr (NInteger, c # ds, r)"
    unfolding s by (rule run_number_ends [OF _ assms(3)])
  moreover have "int n \<le> 2 ^ 63" using assms(2) by simp
  ultimately show ?thesis
    using v by (simp add: scan_number_def number_token_def Let_def)
qed

lemma skip_whitespace_cons: "\<not> json_ws c \<Longrightarrow> skip_whitespace (c # r) = c # r"
  by (simp add: skip_whitespace_def)

lemma scan_digit:
  assumes "isdigit c \<or> c = CHR ''-''"
  shows "scan strtod (c # r) = scan_number strtod c r"
proof -
  have "of_char c \<in> {45 :: nat} \<union> {48..57}" using assms by (auto simp: isdigit_def Let_def)
  then have ne: "c \<notin> {CHR 0x20, CHR 0x09, CHR 0x0A, CHR 0x0D, CHR ''['', CHR '']'', CHR ''{'', CHR ''}'', CHR '':'',
      CHR '','', CHR ''t'', CHR ''f'', CHR ''n'', quote}"
    by auto
  then have "skip_whitespace (c # r) = c # r" by (simp add: skip_whitespace_cons json_ws_def)
  moreover have "scan_token strtod c r = scan_number strtod c r"
    using assms ne by (elim disjE) (simp_all add: scan_token_def)
  ultimately show ?thesis by (simp add: scan_def)
qed

fun int_token :: "int \<Rightarrow> token" where
  "int_token i = (if i < 0 then TInteger i else TUnsigned i)"

lemma scan_int:
  assumes "- (2 ^ 63) \<le> i" "i < 2 ^ 64" "ends_number r"
  shows "scan strtod (int_str i @ r) = (int_token i, r)"
proof (cases "i < 0")
  case True
  then have n: "0 < nat (- i)" "nat (- i) \<le> 2 ^ 63" using assms(1) by (simp_all add: nat_le_iff)
  from scan_number_negative [OF this assms(3)] True show ?thesis
    by (simp add: int_str_def scan_digit)
next
  case False
  obtain c ds where s: "nat_str (nat i) = c # ds"
    using nat_str_value [of "nat i"] by (cases "nat_str (nat i)") simp_all
  have "nat i < 2 ^ 64" using False assms(2) by (simp add: nat_less_iff)
  from scan_number_nat [OF s this assms(3)] nat_str_head(1) [OF s] False s show ?thesis
    by (simp add: int_str_def scan_digit)
qed

text \<open>A text that reads as one floating-point number.\<close>

definition float_text :: "string \<Rightarrow> bool" where
  "float_text t \<longleftrightarrow> (case t of [] \<Rightarrow> False
     | c # ds \<Rightarrow> (isdigit c \<or> c = CHR ''-'') \<and>
         run_number (if c = CHR ''-'' then NMinus else if c = CHR ''0'' then NZero else NAny1) NUnsigned ds
           = Inr (NFloat, ds, []))"

lemma scan_float:
  assumes "float_text t" "ends_number r"
  shows "scan strtod (t @ r) = (TFloat (strtod t), r)"
proof -
  obtain c ds where t: "t = c # ds" using assms(1) by (cases t) (simp_all add: float_text_def)
  define st where "st = (if c = CHR ''-'' then NMinus else if c = CHR ''0'' then NZero else NAny1)"
  have run: "run_number st NUnsigned (ds @ r) = Inr (NFloat, ds, r)"
    using assms by (intro run_number_ends) (simp_all add: float_text_def t st_def)
  have "scan strtod (t @ r) = scan_number strtod c (ds @ r)"
    using assms(1) by (simp add: t float_text_def scan_digit)
  also have "\<dots> = (TFloat (strtod t), r)"
    unfolding scan_number_def Let_def st_def [symmetric] run by (simp add: number_token_def t)
  finally show ?thesis .
qed

end
