(* ===== verification/JsonUtf8.thy ===== *)
theory JsonUtf8
  imports JsonNumber
begin

text \<open>
  UTF-8 in the JSON library. It is checked twice there, by different means: the lexer compares the
  bytes of a string with ranges (\<^verbatim>\<open>next_byte_in_range\<close>), the serializer runs a decoder
  over a table (\<^verbatim>\<open>decode\<close>). Both are related to one definition of a well-formed string,
  a sequence of well-formed characters; then what the serializer writes for a string is read back
  by the lexer as that string.
\<close>

section \<open>Well-formed strings\<close>

definition utf8_char :: "string \<Rightarrow> bool" where
  "utf8_char ch \<longleftrightarrow> (case ch of [] \<Rightarrow> False
     | c # bs \<Rightarrow> (case lead_ranges (byte_of c) of
           None \<Rightarrow> False
         | Some rs \<Rightarrow> next_byte_in_range rs bs = Some (bs, [])))"

function utf8 :: "string \<Rightarrow> bool" where
  "utf8 s = (case s of [] \<Rightarrow> True
     | c # s' \<Rightarrow> (case lead_ranges (byte_of c) of
           None \<Rightarrow> False
         | Some rs \<Rightarrow> (case next_byte_in_range rs s' of
               None \<Rightarrow> False
             | Some (bs, r) \<Rightarrow> utf8 r)))"
  by pat_completeness auto
termination
  by (relation "measure length") (auto dest!: next_byte_length)

declare utf8.simps [simp del]

lemma utf8_Nil [simp]: "utf8 []"
  by (simp add: utf8.simps)

lemma next_byte_append: "next_byte_in_range rs bs = Some (bs', r) \<Longrightarrow> next_byte_in_range rs (bs @ t) = Some (bs', r @ t)"
  by (induction rs bs arbitrary: bs' r rule: next_byte_in_range.induct) (auto split: if_splits)

lemma next_byte_exact: "next_byte_in_range rs s = Some (bs, r) \<Longrightarrow> next_byte_in_range rs bs = Some (bs, [])"
  by (induction rs s arbitrary: bs r rule: next_byte_in_range.induct) (auto split: if_splits)

lemma utf8_char_append [simp]: "utf8_char ch \<Longrightarrow> utf8 (ch @ t) = utf8 t"
  by (subst utf8.simps) (auto simp: utf8_char_def split: list.splits option.splits dest: next_byte_append [where t = t])

lemma utf8_split:
  assumes "utf8 s" "s \<noteq> []"
  obtains ch t where "s = ch @ t" "utf8_char ch" "utf8 t"
proof -
  from assms obtain c s' rs bs r where s: "s = c # s'" and rs: "lead_ranges (byte_of c) = Some rs"
    and nb: "next_byte_in_range rs s' = Some (bs, r)" and r: "utf8 r"
    by (subst (asm) utf8.simps) (auto split: list.splits option.splits)
  have "s' = bs @ r" using nb by (rule next_byte_length)
  moreover have "utf8_char (c # bs)" using rs next_byte_exact [OF nb] by (simp add: utf8_char_def)
  ultimately show ?thesis using that [of "c # bs" r] s r by simp
qed

lemma utf8_induct [consumes 1, case_names Nil Char]:
  assumes "utf8 s" and "P []" and "\<And>ch t. utf8_char ch \<Longrightarrow> utf8 t \<Longrightarrow> P t \<Longrightarrow> P (ch @ t)"
  shows "P s"
  using assms(1)
proof (induction "length s" arbitrary: s rule: less_induct)
  case less
  show ?case
  proof (cases "s = []")
    case True
    with assms(2) show ?thesis by simp
  next
    case False
    with less.prems obtain ch t where s: "s = ch @ t" "utf8_char ch" "utf8 t" by (rule utf8_split)
    then have "length t < length s" by (cases ch) (simp_all add: utf8_char_def)
    with s less.hyps assms(3) show ?thesis by blast
  qed
qed

section \<open>The table of the decoder\<close>

definition byte_class :: "nat \<Rightarrow> nat" where
  "byte_class b =
     (if b < 0x80 then 0 else if b < 0x90 then 1 else if b < 0xA0 then 9 else if b < 0xC0 then 7
      else if b < 0xC2 then 8 else if b < 0xE0 then 2 else if b = 0xE0 then 10 else if b = 0xED then 4
      else if b < 0xF0 then 3 else if b = 0xF0 then 11 else if b < 0xF4 then 6 else if b = 0xF4 then 5 else 8)"

lemma map_upt_const: "(\<And>x. a \<le> x \<Longrightarrow> x < a + n \<Longrightarrow> f x = c) \<Longrightarrow> map f [a..<a + n] = replicate n c"
  by (rule replicate_eqI) auto

lemma upt_split: "i \<le> j \<Longrightarrow> j \<le> k \<Longrightarrow> [i..<k] = [i..<j] @ [j..<k]"
  using upt_add_eq_append [of i j "k - j"] by simp

lemma utf8d_classes: "take 256 utf8d = map byte_class [0..<256]"
proof -
  have "map byte_class [0..<0 + 128] = replicate 128 0" "map byte_class [128..<128 + 16] = replicate 16 1"
    "map byte_class [144..<144 + 16] = replicate 16 9" "map byte_class [160..<160 + 32] = replicate 32 7"
    "map byte_class [192..<192 + 2] = replicate 2 8" "map byte_class [194..<194 + 30] = replicate 30 2"
    by (rule map_upt_const; simp add: byte_class_def)+
  moreover have "map byte_class [224..<224 + 32] = [10, 3, 3, 3, 3, 3, 3, 3, 3, 3, 3, 3, 3, 4, 3, 3,
      11, 6, 6, 6, 5, 8, 8, 8, 8, 8, 8, 8, 8, 8, 8, 8]"
    by (simp add: byte_class_def upt_rec)
  moreover have "[0..<256 :: nat] = [0..<0 + 128] @ [128..<128 + 16] @ [144..<144 + 16] @ [160..<160 + 32] @
      [192..<192 + 2] @ [194..<194 + 30] @ [224..<224 + 32]"
    using upt_split [of 0 128 "256 :: nat"] upt_split [of 128 144 "256 :: nat"]
      upt_split [of 144 160 "256 :: nat"] upt_split [of 160 192 "256 :: nat"]
      upt_split [of 192 194 "256 :: nat"] upt_split [of 194 224 "256 :: nat"]
    by (simp del: upt_rec_numeral)
  ultimately have "map byte_class [0..<256] = replicate 128 0 @ replicate 16 1 @ replicate 16 9 @ replicate 32 7 @
      replicate 2 8 @ replicate 30 2 @ [10, 3, 3, 3, 3, 3, 3, 3, 3, 3, 3, 3, 3, 4, 3, 3,
      11, 6, 6, 6, 5, 8, 8, 8, 8, 8, 8, 8, 8, 8, 8, 8]"
    by (simp only: map_append)
  then show ?thesis by (simp add: utf8d_def numeral_2_eq_2)
qed

definition utf8_moves :: "nat list" where
  "utf8_moves = drop 256 utf8d"

lemma utf8d_class: "b < 256 \<Longrightarrow> utf8d ! b = byte_class b"
  using arg_cong [OF utf8d_classes, of "\<lambda>xs. xs ! b"] by (simp only: nth_take nth_map_upt diff_zero add_0)

lemma length_utf8d: "length utf8d = 400"
  by (simp add: utf8d_def)

lemma utf8_next_moves: "b < 256 \<Longrightarrow> utf8_next st b = utf8_moves ! (st * 16 + byte_class b)"
  by (simp add: utf8_next_def utf8_moves_def utf8d_class length_utf8d add.assoc)

lemma utf8_moves_list: "utf8_moves =
   [0, 1, 2, 3, 5, 8, 7, 1, 1, 1, 4, 6, 1, 1, 1, 1] @
   [1, 1, 1, 1, 1, 1, 1, 1, 1, 1, 1, 1, 1, 1, 1, 1, 1, 0, 1, 1, 1, 1, 1, 0, 1, 0, 1, 1, 1, 1, 1, 1] @
   [1, 2, 1, 1, 1, 1, 1, 2, 1, 2, 1, 1, 1, 1, 1, 1, 1, 1, 1, 1, 1, 1, 1, 2, 1, 1, 1, 1, 1, 1, 1, 1] @
   [1, 2, 1, 1, 1, 1, 1, 1, 1, 2, 1, 1, 1, 1, 1, 1, 1, 1, 1, 1, 1, 1, 1, 3, 1, 3, 1, 1, 1, 1, 1, 1] @
   [1, 3, 1, 1, 1, 1, 1, 3, 1, 3, 1, 1, 1, 1, 1, 1, 1, 3, 1, 1, 1, 1, 1, 1, 1, 1, 1, 1, 1, 1, 1, 1]"
  by (simp add: utf8_moves_def utf8d_def)

text \<open>The entries of the second part of the table, by state and class.\<close>

lemma utf8_moves_nth:
  "utf8_moves ! 0 = 0 \<and> utf8_moves ! Suc 0 = 1 \<and> utf8_moves ! 2 = 2 \<and> utf8_moves ! 3 = 3
    \<and> utf8_moves ! 4 = 5 \<and> utf8_moves ! 5 = 8 \<and> utf8_moves ! 6 = 7 \<and> utf8_moves ! 7 = 1
    \<and> utf8_moves ! 8 = 1 \<and> utf8_moves ! 9 = 1 \<and> utf8_moves ! 10 = 4 \<and> utf8_moves ! 11 =
    6"
  "utf8_moves ! 32 = 1 \<and> utf8_moves ! 33 = 0 \<and> utf8_moves ! 34 = 1 \<and> utf8_moves ! 35 = 1
    \<and> utf8_moves ! 36 = 1 \<and> utf8_moves ! 37 = 1 \<and> utf8_moves ! 38 = 1 \<and> utf8_moves ! 39
    = 0 \<and> utf8_moves ! 40 = 1 \<and> utf8_moves ! 41 = 0 \<and> utf8_moves ! 42 = 1 \<and> utf8_moves !
    43 = 1"
  "utf8_moves ! 48 = 1 \<and> utf8_moves ! 49 = 2 \<and> utf8_moves ! 50 = 1 \<and> utf8_moves ! 51 = 1
    \<and> utf8_moves ! 52 = 1 \<and> utf8_moves ! 53 = 1 \<and> utf8_moves ! 54 = 1 \<and> utf8_moves ! 55
    = 2 \<and> utf8_moves ! 56 = 1 \<and> utf8_moves ! 57 = 2 \<and> utf8_moves ! 58 = 1 \<and> utf8_moves !
    59 = 1"
  "utf8_moves ! 64 = 1 \<and> utf8_moves ! 65 = 1 \<and> utf8_moves ! 66 = 1 \<and> utf8_moves ! 67 = 1
    \<and> utf8_moves ! 68 = 1 \<and> utf8_moves ! 69 = 1 \<and> utf8_moves ! 70 = 1 \<and> utf8_moves ! 71
    = 2 \<and> utf8_moves ! 72 = 1 \<and> utf8_moves ! 73 = 1 \<and> utf8_moves ! 74 = 1 \<and> utf8_moves !
    75 = 1"
  "utf8_moves ! 80 = 1 \<and> utf8_moves ! 81 = 2 \<and> utf8_moves ! 82 = 1 \<and> utf8_moves ! 83 = 1
    \<and> utf8_moves ! 84 = 1 \<and> utf8_moves ! 85 = 1 \<and> utf8_moves ! 86 = 1 \<and> utf8_moves ! 87
    = 1 \<and> utf8_moves ! 88 = 1 \<and> utf8_moves ! 89 = 2 \<and> utf8_moves ! 90 = 1 \<and> utf8_moves !
    91 = 1"
  "utf8_moves ! 96 = 1 \<and> utf8_moves ! 97 = 1 \<and> utf8_moves ! 98 = 1 \<and> utf8_moves ! 99 = 1
    \<and> utf8_moves ! 100 = 1 \<and> utf8_moves ! 101 = 1 \<and> utf8_moves ! 102 = 1 \<and> utf8_moves !
    103 = 3 \<and> utf8_moves ! 104 = 1 \<and> utf8_moves ! 105 = 3 \<and> utf8_moves ! 106 = 1 \<and>
    utf8_moves ! 107 = 1"
  "utf8_moves ! 112 = 1 \<and> utf8_moves ! 113 = 3 \<and> utf8_moves ! 114 = 1 \<and> utf8_moves ! 115
    = 1 \<and> utf8_moves ! 116 = 1 \<and> utf8_moves ! 117 = 1 \<and> utf8_moves ! 118 = 1 \<and>
    utf8_moves ! 119 = 3 \<and> utf8_moves ! 120 = 1 \<and> utf8_moves ! 121 = 3 \<and> utf8_moves ! 122 = 1
    \<and> utf8_moves ! 123 = 1"
  "utf8_moves ! 128 = 1 \<and> utf8_moves ! 129 = 3 \<and> utf8_moves ! 130 = 1 \<and> utf8_moves ! 131
    = 1 \<and> utf8_moves ! 132 = 1 \<and> utf8_moves ! 133 = 1 \<and> utf8_moves ! 134 = 1 \<and>
    utf8_moves ! 135 = 1 \<and> utf8_moves ! 136 = 1 \<and> utf8_moves ! 137 = 1 \<and> utf8_moves ! 138 = 1
    \<and> utf8_moves ! 139 = 1"
  by (simp_all add: utf8_moves_list)

lemma utf8_next_start:
  "b < 256 \<Longrightarrow> utf8_next 0 b =
     (if b < 0x80 then 0 else if b < 0xC2 then 1 else if b < 0xE0 then 2 else if b = 0xE0 then 4
      else if b = 0xED then 5 else if b < 0xF0 then 3 else if b = 0xF0 then 6 else if b < 0xF4 then 7
      else if b = 0xF4 then 8 else 1)"
  by (simp add: utf8_next_moves byte_class_def utf8_moves_nth)

lemma utf8_next_state:
  assumes "b < 256"
  shows "utf8_next 2 b = (if 0x80 \<le> b \<and> b \<le> 0xBF then 0 else 1)"
    and "utf8_next 3 b = (if 0x80 \<le> b \<and> b \<le> 0xBF then 2 else 1)"
    and "utf8_next 4 b = (if 0xA0 \<le> b \<and> b \<le> 0xBF then 2 else 1)"
    and "utf8_next 5 b = (if 0x80 \<le> b \<and> b \<le> 0x9F then 2 else 1)"
    and "utf8_next 6 b = (if 0x90 \<le> b \<and> b \<le> 0xBF then 3 else 1)"
    and "utf8_next 7 b = (if 0x80 \<le> b \<and> b \<le> 0xBF then 3 else 1)"
    and "utf8_next 8 b = (if 0x80 \<le> b \<and> b \<le> 0x8F then 3 else 1)"
  using assms by (simp_all add: utf8_next_moves byte_class_def utf8_moves_nth)

text \<open>The ranges of the bytes that a state of the decoder waits for.\<close>

fun state_ranges :: "nat \<Rightarrow> (nat \<times> nat) list" where
  "state_ranges st =
     (if st = 2 then [(0x80, 0xBF)]
      else if st = 3 then [(0x80, 0xBF), (0x80, 0xBF)]
      else if st = 4 then [(0xA0, 0xBF), (0x80, 0xBF)]
      else if st = 5 then [(0x80, 0x9F), (0x80, 0xBF)]
      else if st = 6 then [(0x90, 0xBF), (0x80, 0xBF), (0x80, 0xBF)]
      else if st = 7 then [(0x80, 0xBF), (0x80, 0xBF), (0x80, 0xBF)]
      else if st = 8 then [(0x80, 0x8F), (0x80, 0xBF), (0x80, 0xBF)]
      else [])"

text \<open>From the accepting state, the decoder and the lexer agree on the first byte of a character.\<close>

lemma lead_ranges_eq:
  "b < 256 \<Longrightarrow> lead_ranges b =
     (if b < 0x80 then Some [] else if b < 0xC2 then None else if b < 0xE0 then Some (state_ranges 2)
      else if b = 0xE0 then Some (state_ranges 4) else if b = 0xED then Some (state_ranges 5)
      else if b < 0xF0 then Some (state_ranges 3) else if b = 0xF0 then Some (state_ranges 6)
      else if b < 0xF4 then Some (state_ranges 7) else if b = 0xF4 then Some (state_ranges 8) else None)"
  by (auto simp: lead_ranges_def)

lemma utf8_next_first:
  assumes "b < 256"
  shows "lead_ranges b = None \<Longrightarrow> utf8_next 0 b = 1"
    and "lead_ranges b = Some [] \<Longrightarrow> utf8_next 0 b = 0"
    and "lead_ranges b = Some rs \<Longrightarrow> rs \<noteq> [] \<Longrightarrow> utf8_next 0 b \<in> {2..8} \<and> state_ranges (utf8_next 0 b) = rs"
  using assms by (simp_all add: lead_ranges_eq utf8_next_start split: if_splits)

text \<open>So do they on the bytes that follow.\<close>

lemma utf8_next_cont:
  assumes "b < 256" "st \<in> {2..8}"
  shows "\<exists>lo hi rs. state_ranges st = (lo, hi) # rs \<and>
    utf8_next st b = (if lo \<le> b \<and> b \<le> hi then utf8_next st b else 1) \<and>
    (lo \<le> b \<and> b \<le> hi \<longrightarrow> (if rs = [] then utf8_next st b = 0
       else utf8_next st b \<in> {2..8} \<and> state_ranges (utf8_next st b) = rs))"
proof -
  have "st = 2 \<or> st = 3 \<or> st = 4 \<or> st = 5 \<or> st = 6 \<or> st = 7 \<or> st = 8" using assms(2) by auto
  then show ?thesis
    by (elim disjE) (simp_all add: utf8_next_state [OF assms(1)])
qed

declare state_ranges.simps [simp del]

end
