(* ===== verification/JsonString.thy ===== *)
theory JsonString
  imports JsonUtf8
begin

text \<open>
  Strings between the two ends of the JSON library: \<^verbatim>\<open>dump_escaped\<close> accepts exactly the
  well-formed strings, and what it writes for one, with or without escapes for what is not ASCII, is
  read back as that string; every string the lexer reads is well-formed.
\<close>

section \<open>Code points\<close>

definition cp_add :: "nat \<Rightarrow> char \<Rightarrow> nat" where
  "cp_add cp c = cp * 64 + byte_of c mod 64"

definition first_codep :: "nat \<Rightarrow> nat" where
  "first_codep b = and (drop_bit (utf8d ! b) 0xFF) b"

definition code_point :: "string \<Rightarrow> nat" where
  "code_point ch = (case ch of [] \<Rightarrow> 0 | c # bs \<Rightarrow> foldl cp_add (first_codep (byte_of c)) bs)"

lemma and_63: "and b 0x3F = b mod 64" for b :: nat
  using take_bit_eq_mask [of 6 b] by (simp add: take_bit_eq_mod mask_eq_exp_minus_1)

lemma and_low:
  fixes b :: nat
  shows "and 0xFF b = b mod 256" "and 0x3F b = b mod 64" "and 0x1F b = b mod 32" "and 0x0F b = b mod 16"
    "and 7 b = b mod 8" "and 3 b = b mod 4"
  using take_bit_eq_mask [of 8 b] take_bit_eq_mask [of 6 b] take_bit_eq_mask [of 5 b] take_bit_eq_mask [of 4 b]
    take_bit_eq_mask [of 3 b] take_bit_eq_mask [of 2 b]
  by (simp_all add: take_bit_eq_mod mask_eq_exp_minus_1 and.commute)

lemma or_high: "x < 2 ^ n \<Longrightarrow> or (push_bit n y) x = push_bit n y + x" for x y :: nat
proof -
  assume "x < 2 ^ n"
  then have "x = take_bit n x" by (simp add: take_bit_nat_eq_self)
  then have "\<not> bit (push_bit n y) k \<or> \<not> bit x k" for k
    by (metis bit_push_bit_iff bit_take_bit_iff leD)
  then show ?thesis by (simp add: disjunctive_add)
qed

lemma utf8_codep_cont: "st \<noteq> 0 \<Longrightarrow> utf8_codep st cp (byte_of c) = cp_add cp c"
proof -
  assume "st \<noteq> 0"
  have "or (and (byte_of c) 0x3F) (push_bit 6 cp) = push_bit 6 cp + byte_of c mod 64"
    using or_high [of "byte_of c mod 64" 6 cp] by (simp add: and_63 or.commute)
  with \<open>st \<noteq> 0\<close> show ?thesis
    by (simp add: utf8_codep_def cp_add_def push_bit_eq_mult)
qed

lemma utf8_codep_first: "utf8_codep 0 cp b = first_codep b"
  by (simp add: utf8_codep_def first_codep_def)

lemma first_cp:
  assumes "b < 256"
  shows "lead_ranges b = Some rs \<Longrightarrow> first_codep b =
    (if b < 0x80 then b else if b < 0xE0 then b - 0xC0 else if b < 0xF0 then b - 0xE0 else b - 0xF0)"
proof -
  have mods: "0xC0 \<le> b \<Longrightarrow> b < 0xE0 \<Longrightarrow> b mod 64 = b - 0xC0" "0xE0 \<le> b \<Longrightarrow> b < 0xF0 \<Longrightarrow> b mod 32 = b - 0xE0"
    "0xF0 \<le> b \<Longrightarrow> b < 0xF4 \<Longrightarrow> b mod 4 = b - 0xF0"
    by (rule mod_nat_eqI; simp)+
  assume "lead_ranges b = Some rs"
  then show ?thesis
    using assms mods unfolding first_codep_def utf8d_class [OF assms] lead_ranges_eq [OF assms]
    by (simp add: byte_class_def and_low drop_bit_eq_div split: if_splits)
qed

section \<open>What the serializer writes\<close>

definition piece :: "bool \<Rightarrow> string \<Rightarrow> string" where
  "piece ea ch = (if ea then [] else butlast ch) @ escaped ea (code_point ch) (last ch)"

function escaped_string :: "bool \<Rightarrow> string \<Rightarrow> string" where
  "escaped_string ea s = (case s of [] \<Rightarrow> []
     | c # s' \<Rightarrow> (case lead_ranges (byte_of c) of
           None \<Rightarrow> []
         | Some rs \<Rightarrow> (case next_byte_in_range rs s' of
               None \<Rightarrow> []
             | Some (bs, r) \<Rightarrow> piece ea (c # bs) @ escaped_string ea r)))"
  by pat_completeness auto
termination
  by (relation "measure (\<lambda>(ea, s). length s)") (auto dest!: next_byte_length)

declare escaped_string.simps [simp del]

lemma escaped_string_Nil [simp]: "escaped_string ea [] = []"
  by (simp add: escaped_string.simps)

lemma escaped_string_char: "utf8_char ch \<Longrightarrow> escaped_string ea (ch @ t) = piece ea ch @ escaped_string ea t"
  by (subst escaped_string.simps)
    (auto simp: utf8_char_def split: list.splits option.splits dest: next_byte_append [where t = t])

definition ready :: "escaper \<Rightarrow> bool" where
  "ready e \<longleftrightarrow> es_state e = 0 \<and> es_pend e = [] \<and> es_undumped e = 0"

lemma byte_of_less [simp]: "byte_of c < 256"
  using of_char_mod_256 [of c, where 'a = nat] by (metis mod_less_divisor zero_less_numeral)

text \<open>The bytes after the first one of a character.\<close>

lemma cont_run:
  assumes "es_state e \<in> {2..8}" and "next_byte_in_range (state_ranges (es_state e)) s = Some (bs, r)"
  shows "dump_loop ea eh i s e = dump_loop ea eh (i + length bs) r
    (e\<lparr>es_state := 0, es_codep := foldl cp_add (es_codep e) bs,
       es_out := es_out e @ es_pend e @ (if ea then [] else butlast bs)
         @ escaped ea (foldl cp_add (es_codep e) bs) (last bs),
       es_pend := [], es_undumped := 0\<rparr>)"
  using assms
proof (induction s arbitrary: e i bs)
  case Nil
  then obtain lo hi rs where "state_ranges (es_state e) = (lo, hi) # rs"
    using utf8_next_cont [of 0 "es_state e"] by auto
  with Nil show ?case by simp
next
  case (Cons c s)
  define b where "b = byte_of c"
  have b: "b < 256" by (simp add: b_def)
  from utf8_next_cont [OF b Cons.prems(1)] obtain lo hi rs where
    sr: "state_ranges (es_state e) = (lo, hi) # rs" and
    next_st: "lo \<le> b \<and> b \<le> hi \<longrightarrow> (if rs = [] then utf8_next (es_state e) b = 0
       else utf8_next (es_state e) b \<in> {2..8} \<and> state_ranges (utf8_next (es_state e) b) = rs)" by blast
  from Cons.prems(2) sr obtain bs' where range: "lo \<le> b \<and> b \<le> hi" and bs: "bs = c # bs'"
    and rest: "next_byte_in_range rs s = Some (bs', r)"
    by (auto simp: b_def split: if_splits)
  have cp: "utf8_codep (es_state e) (es_codep e) b = cp_add (es_codep e) c"
    unfolding b_def using Cons.prems(1) by (intro utf8_codep_cont) auto
  show ?case
  proof (cases "rs = []")
    case True
    with rest have "bs' = []" "r = s" by simp_all
    with True range next_st bs cp show ?thesis
      by (simp add: dump_loop.simps(2) decode_def b_def)
  next
    case False
    define e' where "e' = e\<lparr>es_state := utf8_next (es_state e) b, es_codep := cp_add (es_codep e) c,
      es_pend := es_pend e @ (if ea then [] else [c]), es_undumped := Suc (es_undumped e)\<rparr>"
    have st: "es_state e' \<in> {2..8}" "state_ranges (es_state e') = rs"
      using False range next_st by (simp_all add: e'_def)
    have "bs' \<noteq> []" using rest False by (cases rs; cases s) (auto split: if_splits)
    have "dump_loop ea eh i (c # s) e = dump_loop ea eh (Suc i) s e'"
      using st(1) cp by (simp add: dump_loop.simps(2) decode_def b_def [symmetric] e'_def)
    also have "\<dots> = dump_loop ea eh (Suc i + length bs') r
        (e'\<lparr>es_state := 0, es_codep := foldl cp_add (es_codep e') bs',
          es_out := es_out e' @ es_pend e' @ (if ea then [] else butlast bs')
            @ escaped ea (foldl cp_add (es_codep e') bs') (last bs'),
          es_pend := [], es_undumped := 0\<rparr>)"
      using st rest by (intro Cons.IH) simp_all
    finally show ?thesis
      unfolding bs e'_def using \<open>bs' \<noteq> []\<close> by simp
  qed
qed

lemma cont_fail:
  assumes "es_state e \<in> {2..8}" and "next_byte_in_range (state_ranges (es_state e)) s = None"
  shows "case dump_loop ea Strict i s e of Inl x \<Rightarrow> True | Inr e' \<Rightarrow> es_state e' \<noteq> 0"
  using assms
proof (induction s arbitrary: e i)
  case Nil
  then show ?case by simp
next
  case (Cons c s)
  define b where "b = byte_of c"
  have b: "b < 256" by (simp add: b_def)
  from utf8_next_cont [OF b Cons.prems(1)] obtain lo hi rs where
    sr: "state_ranges (es_state e) = (lo, hi) # rs" and
    out: "utf8_next (es_state e) b = (if lo \<le> b \<and> b \<le> hi then utf8_next (es_state e) b else 1)" and
    next_st: "lo \<le> b \<and> b \<le> hi \<longrightarrow> (if rs = [] then utf8_next (es_state e) b = 0
       else utf8_next (es_state e) b \<in> {2..8} \<and> state_ranges (utf8_next (es_state e) b) = rs)" by blast
  show ?case
  proof (cases "lo \<le> b \<and> b \<le> hi")
    case False
    then have "utf8_next (es_state e) b = 1" by (subst out) (rule if_not_P)
    then show ?thesis by (simp add: dump_loop.simps(2) decode_def b_def)
  next
    case True
    with Cons.prems(2) sr have none: "next_byte_in_range rs s = None"
      by (auto simp: b_def)
    then have "rs \<noteq> []" by auto
    define e' where "e' = e\<lparr>es_state := utf8_next (es_state e) b, es_codep := utf8_codep (es_state e) (es_codep e) b,
      es_pend := es_pend e @ (if ea then [] else [c]), es_undumped := Suc (es_undumped e)\<rparr>"
    have st: "es_state e' \<in> {2..8}" "state_ranges (es_state e') = rs"
      using \<open>rs \<noteq> []\<close> True next_st by (simp_all add: e'_def)
    have "dump_loop ea Strict i (c # s) e = dump_loop ea Strict (Suc i) s e'"
      using st(1) by (simp add: dump_loop.simps(2) decode_def b_def [symmetric] e'_def)
    with Cons.IH [of e' "Suc i"] st none show ?thesis by simp
  qed
qed

text \<open>One character.\<close>

lemma char_run:
  assumes "utf8_char ch" "ready e"
  shows "dump_loop ea eh i (ch @ r) e = dump_loop ea eh (i + length ch) r
    (e\<lparr>es_codep := code_point ch, es_out := es_out e @ piece ea ch\<rparr>)"
proof -
  obtain c bs rs where ch: "ch = c # bs" and lead: "lead_ranges (byte_of c) = Some rs"
    and nb: "next_byte_in_range rs bs = Some (bs, [])"
    using assms(1) by (auto simp: utf8_char_def split: list.splits option.splits)
  note first = utf8_next_first [OF byte_of_less, of c]
  show ?thesis
  proof (cases "rs = []")
    case True
    with nb have "bs = []" by simp
    with True first(2) lead ch assms(2) show ?thesis
      by (cases e) (simp add: dump_loop.simps(2) decode_def ready_def code_point_def piece_def utf8_codep_first)
  next
    case False
    define e' where "e' = e\<lparr>es_state := utf8_next 0 (byte_of c), es_codep := first_codep (byte_of c),
      es_pend := (if ea then [] else [c]), es_undumped := 1\<rparr>"
    have st: "es_state e' \<in> {2..8}" "state_ranges (es_state e') = rs"
      using first(3) [OF lead False] by (simp_all add: e'_def)
    have "bs \<noteq> []" using nb False by (cases rs; cases bs) auto
    have "dump_loop ea eh i (ch @ r) e = dump_loop ea eh (Suc i) (bs @ r) e'"
      using st(1) assms(2) by (simp add: ch dump_loop.simps(2) decode_def e'_def ready_def utf8_codep_first)
    also have "\<dots> = dump_loop ea eh (Suc i + length bs) r
        (e'\<lparr>es_state := 0, es_codep := foldl cp_add (es_codep e') bs,
          es_out := es_out e' @ es_pend e' @ (if ea then [] else butlast bs)
            @ escaped ea (foldl cp_add (es_codep e') bs) (last bs),
          es_pend := [], es_undumped := 0\<rparr>)"
      using st next_byte_append [OF nb, of r] by (intro cont_run) simp_all
    finally show ?thesis
      using \<open>bs \<noteq> []\<close> assms(2) by (cases e) (simp add: e'_def ch ready_def code_point_def piece_def)
  qed
qed

lemma ready_update [simp]: "ready (e\<lparr>es_codep := cp, es_out := out\<rparr>) = ready e"
  by (simp add: ready_def)

lemma string_run:
  assumes "utf8 s" "ready e"
  shows "\<exists>cp. dump_loop ea eh i s e = Inr (e\<lparr>es_codep := cp, es_out := es_out e @ escaped_string ea s\<rparr>)"
  using assms
proof (induction s arbitrary: i e rule: utf8_induct)
  case Nil
  have "e = e\<lparr>es_codep := es_codep e, es_out := es_out e @ []\<rparr>" by simp
  then show ?case by (metis dump_loop.simps(1) escaped_string_Nil)
next
  case (Char ch t)
  from Char(3) [of "e\<lparr>es_codep := code_point ch, es_out := es_out e @ piece ea ch\<rparr>" "i + length ch"] Char(4)
  show ?case
    by (simp add: char_run [OF Char(1,4)] escaped_string_char [OF Char(1)])
qed

lemma string_fail:
  assumes "\<not> utf8 s" "ready e"
  shows "case dump_loop ea Strict i s e of Inl x \<Rightarrow> True | Inr e' \<Rightarrow> es_state e' \<noteq> 0"
  using assms
proof (induction "length s" arbitrary: s i e rule: less_induct)
  case less
  then obtain c s' where s: "s = c # s'" by (cases s) simp_all
  note first = utf8_next_first [OF byte_of_less, of c]
  show ?case
  proof (cases "lead_ranges (byte_of c)")
    case None
    with first(1) less.prems(2) show ?thesis
      by (simp add: s dump_loop.simps(2) decode_def ready_def)
  next
    case (Some rs)
    show ?thesis
    proof (cases "next_byte_in_range rs s'")
      case None
      then have "rs \<noteq> []" by auto
      define e' where "e' = e\<lparr>es_state := utf8_next 0 (byte_of c), es_codep := first_codep (byte_of c),
        es_pend := (if ea then [] else [c]), es_undumped := 1\<rparr>"
      have st: "es_state e' \<in> {2..8}" "state_ranges (es_state e') = rs"
        using first(3) [OF Some \<open>rs \<noteq> []\<close>] by (simp_all add: e'_def)
      have "dump_loop ea Strict i s e = dump_loop ea Strict (Suc i) s' e'"
        using st(1) less.prems(2)
        by (simp add: s dump_loop.simps(2) decode_def e'_def ready_def utf8_codep_first)
      with cont_fail [of e' s' ea "Suc i"] st None show ?thesis by simp
    next
      case nb: (Some p)
      obtain bs r where p: "p = (bs, r)" by fastforce
      have ch: "utf8_char (c # bs)" using Some next_byte_exact nb p by (simp add: utf8_char_def)
      have s': "s' = bs @ r" using nb p next_byte_length by simp
      have "\<not> utf8 r" using less.prems(1) utf8_char_append [OF ch, of r] by (simp add: s s')
      with less.hyps [of r] less.prems(2) char_run [OF ch less.prems(2), of ea Strict i r] show ?thesis
        by (simp add: s s')
    qed
  qed
qed

theorem dump_escaped_utf8: "utf8 s \<Longrightarrow> dump_escaped ea eh s = Val (escaped_string ea s)"
  using string_run [of s escaper0 ea eh 0] by (auto simp: dump_escaped_def escaper0_def ready_def)

theorem dump_escaped_strict: "\<not> utf8 s \<Longrightarrow> \<exists>x. dump_escaped ea Strict s = Exn x"
  using string_fail [of s escaper0 ea 0] by (auto simp: dump_escaped_def escaper0_def ready_def split: sum.splits)

section \<open>Encoding\<close>

lemma or_bits:
  fixes x :: nat
  shows "x < 64 \<Longrightarrow> or 0x80 x = 0x80 + x" "x < 32 \<Longrightarrow> or 0xC0 x = 0xC0 + x" "x < 16 \<Longrightarrow> or 0xE0 x = 0xE0 + x"
    "x < 8 \<Longrightarrow> or 0xF0 x = 0xF0 + x"
  using or_high [of x 6 2] or_high [of x 6 3] or_high [of x 5 7] or_high [of x 4 15]
  by (simp_all add: push_bit_eq_mult)

lemma encode2: "2 \<le> x \<Longrightarrow> x < 32 \<Longrightarrow> y < 64 \<Longrightarrow> utf8_encode (x * 64 + y) = [char_of (0xC0 + x), char_of (0x80 + y)]"
  by (simp add: utf8_encode_def drop_bit_eq_div and_63 or_bits)

lemma split64: "z < 64 \<Longrightarrow> (p * 64 + z) div 64 = p" "z < 64 \<Longrightarrow> (p * 64 + z) mod 64 = z" for p z :: nat
  by simp_all

lemma encode3:
  assumes "x < 16" "y < 64" "z < 64" "32 \<le> x * 64 + y"
  shows "utf8_encode ((x * 64 + y) * 64 + z) = [char_of (0xE0 + x), char_of (0x80 + y), char_of (0x80 + z)]"
proof -
  define p where "p = x * 64 + y"
  define cp where "cp = p * 64 + z"
  have p: "p div 64 = x" "p mod 64 = y" using assms(2) unfolding p_def by (rule split64)+
  have cp: "cp div 64 = p" "cp mod 64 = z" using assms(3) unfolding cp_def by (rule split64)+
  have "p < 1024" using assms(1,2) by (simp add: p_def)
  then have "\<not> cp \<le> 0x7FF" "cp \<le> 0xFFFF" using assms(3,4) by (simp_all add: cp_def p_def)
  moreover have "cp div 4096 = x" using div_mult2_eq [of cp 64 64] p cp by simp
  ultimately show ?thesis
    using assms(1-3) p cp unfolding p_def [symmetric] cp_def [symmetric]
    by (simp add: utf8_encode_def drop_bit_eq_div and_63 or_bits)
qed

lemma encode4:
  assumes "x < 8" "y < 64" "z < 64" "w < 64" "16 \<le> x * 64 + y"
  shows "utf8_encode (((x * 64 + y) * 64 + z) * 64 + w)
    = [char_of (0xF0 + x), char_of (0x80 + y), char_of (0x80 + z), char_of (0x80 + w)]"
proof -
  define p where "p = x * 64 + y"
  define q where "q = p * 64 + z"
  define cp where "cp = q * 64 + w"
  have p: "p div 64 = x" "p mod 64 = y" using assms(2) unfolding p_def by (rule split64)+
  have q: "q div 64 = p" "q mod 64 = z" using assms(3) unfolding q_def by (rule split64)+
  have cp: "cp div 64 = q" "cp mod 64 = w" using assms(4) unfolding cp_def by (rule split64)+
  have "\<not> cp \<le> 0xFFFF" using assms(5) by (simp add: cp_def q_def p_def)
  moreover have "cp div 4096 = p" "cp div 262144 = x"
    using div_mult2_eq [of cp 64 64] div_mult2_eq [of cp 4096 64] p q cp by simp_all
  ultimately show ?thesis
    using assms(1-4) p q cp unfolding p_def [symmetric] q_def [symmetric] cp_def [symmetric]
    by (simp add: utf8_encode_def drop_bit_eq_div and_63 or_bits)
qed

text \<open>The bytes of a well-formed character are those of its code point, which is no surrogate.\<close>

definition scalar_value :: "nat \<Rightarrow> bool" where
  "scalar_value cp \<longleftrightarrow> cp < 0xD800 \<or> (0xE000 \<le> cp \<and> cp \<le> 0x10FFFF)"

lemma byte_char: "byte_of c = n \<Longrightarrow> c = char_of n"
  by auto

lemma continuation:
  assumes "next_byte_in_range ((lo, hi) # rs) s = Some (bs, r)" "0x80 \<le> lo" "hi \<le> 0xBF"
  obtains c s' bs' where "s = c # s'" "bs = c # bs'" "next_byte_in_range rs s' = Some (bs', r)"
    "byte_of c = 0x80 + byte_of c mod 64" "lo - 0x80 \<le> byte_of c mod 64" "byte_of c mod 64 \<le> hi - 0x80"
proof -
  from assms(1) obtain c s' bs' where s: "s = c # s'" "bs = c # bs'" "next_byte_in_range rs s' = Some (bs', r)"
    and range: "lo \<le> byte_of c" "byte_of c \<le> hi"
    by (cases s) (auto split: if_splits)
  have "byte_of c mod 64 = byte_of c - 0x80"
    using range assms(2,3) by (intro mod_nat_eqI) auto
  with range assms(2,3) show ?thesis by (intro that [OF s]) auto
qed

lemma first_byte:
  assumes "lead_ranges (byte_of c) = Some rs" "rs \<noteq> []"
  shows "(\<exists>x. byte_of c = 0xC0 + x \<and> 2 \<le> x \<and> x < 32 \<and> first_codep (byte_of c) = x \<and> rs = [(0x80, 0xBF)]) \<or>
    (\<exists>x lo hi. byte_of c = 0xE0 + x \<and> x < 16 \<and> first_codep (byte_of c) = x \<and> rs = [(lo, hi), (0x80, 0xBF)] \<and>
       0x80 \<le> lo \<and> hi \<le> 0xBF \<and> (x = 0 \<longrightarrow> 0xA0 \<le> lo) \<and> (x = 13 \<longrightarrow> hi \<le> 0x9F)) \<or>
    (\<exists>x lo hi. byte_of c = 0xF0 + x \<and> x < 5 \<and> first_codep (byte_of c) = x \<and>
       rs = [(lo, hi), (0x80, 0xBF), (0x80, 0xBF)] \<and>
       0x80 \<le> lo \<and> hi \<le> 0xBF \<and> (x = 0 \<longrightarrow> 0x90 \<le> lo) \<and> (x = 4 \<longrightarrow> hi \<le> 0x8F))"
proof -
  define b where "b = byte_of c"
  have b: "b < 256" by (simp add: b_def)
  have cp: "first_codep b = (if b < 0x80 then b else if b < 0xE0 then b - 0xC0 else if b < 0xF0 then b - 0xE0 else b - 0xF0)"
    using first_cp [OF b] assms(1) by (simp add: b_def)
  have lead: "lead_ranges b = Some rs" using assms(1) by (simp add: b_def)
  consider "0xC2 \<le> b" "b < 0xE0" "rs = state_ranges 2" | "b = 0xE0" "rs = state_ranges 4" | "b = 0xED" "rs = state_ranges 5"
    | "0xE0 < b" "b < 0xF0" "b \<noteq> 0xED" "rs = state_ranges 3" | "b = 0xF0" "rs = state_ranges 6"
    | "0xF0 < b" "b < 0xF4" "rs = state_ranges 7" | "b = 0xF4" "rs = state_ranges 8"
    using lead assms(2) unfolding lead_ranges_eq [OF b] by (simp split: if_splits)
  then show ?thesis
  proof cases
    case 1
    then have "b = 0xC0 + (b - 0xC0) \<and> 2 \<le> b - 0xC0 \<and> b - 0xC0 < 32 \<and> first_codep b = b - 0xC0 \<and> rs = [(0x80, 0xBF)]"
      by (simp add: cp state_ranges.simps, arith)
    then show ?thesis unfolding b_def by blast
  next
    case 4
    then have "b = 0xE0 + (b - 0xE0) \<and> b - 0xE0 < 16 \<and> first_codep b = b - 0xE0 \<and> b - 0xE0 \<noteq> 0 \<and> b - 0xE0 \<noteq> 13"
      and "rs = [(0x80, 0xBF), (0x80, 0xBF)]"
      by (simp_all add: cp state_ranges.simps, arith)
    then show ?thesis unfolding b_def by fastforce
  next
    case 6
    then have "b = 0xF0 + (b - 0xF0) \<and> b - 0xF0 < 5 \<and> first_codep b = b - 0xF0 \<and> b - 0xF0 \<noteq> 0 \<and> b - 0xF0 \<noteq> 4"
      and "rs = [(0x80, 0xBF), (0x80, 0xBF), (0x80, 0xBF)]"
      by (simp_all add: cp state_ranges.simps, arith)
    then show ?thesis unfolding b_def by fastforce
  qed (insert cp, simp_all add: state_ranges.simps b_def [symmetric])
qed

lemma multibyte:
  assumes "utf8_char (c # bs)" "bs \<noteq> []"
  shows "utf8_encode (code_point (c # bs)) = c # bs \<and> scalar_value (code_point (c # bs)) \<and> 0x80 \<le> code_point (c # bs)"
proof -
  obtain rs where lead: "lead_ranges (byte_of c) = Some rs" and nb: "next_byte_in_range rs bs = Some (bs, [])"
    using assms(1) by (auto simp: utf8_char_def split: option.splits)
  with assms(2) have "rs \<noteq> []" by auto
  from first_byte [OF lead this] show ?thesis
  proof (elim disjE exE conjE)
    fix x assume x: "byte_of c = 0xC0 + x" "2 \<le> x" "x < 32" "first_codep (byte_of c) = x" and rs: "rs = [(0x80, 0xBF)]"
    from nb [unfolded rs] obtain d where bs: "bs = [d]" and d: "byte_of d = 0x80 + byte_of d mod 64"
      by (elim continuation) auto
    define y where "y = byte_of d mod 64"
    have y: "y < 64" "d = char_of (0x80 + y)" using byte_char [OF d] by (simp_all add: y_def)
    have c: "c = char_of (0xC0 + x)" using x(1) by (rule byte_char)
    have "code_point (c # bs) = x * 64 + y" using x(4) by (simp add: code_point_def bs cp_add_def y_def)
    moreover have "c # bs = [char_of (0xC0 + x), char_of (0x80 + y)]" using bs c y(2) by simp
    ultimately show ?thesis
      using encode2 [OF x(2,3) y(1)] x(2,3) y(1) by (simp add: scalar_value_def)
  next
    fix x lo hi
    assume x: "byte_of c = 0xE0 + x" "x < 16" "first_codep (byte_of c) = x" and rs: "rs = [(lo, hi), (0x80, 0xBF)]"
      and lo: "0x80 \<le> lo" "hi \<le> 0xBF" "x = 0 \<longrightarrow> 0xA0 \<le> lo" "x = 13 \<longrightarrow> hi \<le> 0x9F"
    from nb [unfolded rs] lo(1,2) obtain d bs1 where bs: "bs = d # bs1" and d: "byte_of d = 0x80 + byte_of d mod 64"
      "lo - 0x80 \<le> byte_of d mod 64" "byte_of d mod 64 \<le> hi - 0x80" and nb1: "next_byte_in_range [(0x80, 0xBF)] bs1 = Some (bs1, [])"
      by (elim continuation) auto
    from nb1 obtain f where bs1: "bs1 = [f]" and f: "byte_of f = 0x80 + byte_of f mod 64"
      by (elim continuation) auto
    define y where "y = byte_of d mod 64"
    define z where "z = byte_of f mod 64"
    have yz: "y < 64" "z < 64" "d = char_of (0x80 + y)" "f = char_of (0x80 + z)"
      using byte_char [OF d(1)] byte_char [OF f] by (simp_all add: y_def z_def)
    have y: "lo - 0x80 \<le> y" "y \<le> hi - 0x80" using d by (simp_all add: y_def)
    have c: "c = char_of (0xE0 + x)" using x(1) by (rule byte_char)
    have cp: "code_point (c # bs) = (x * 64 + y) * 64 + z"
      using x(3) by (simp add: code_point_def bs bs1 cp_add_def y_def z_def)
    have low: "32 \<le> x * 64 + y" using lo(3) y(1) by (cases "x = 0") auto
    have "x < 13 \<or> x = 13 \<and> y < 32 \<or> 13 < x" using lo(4) y(2) by auto
    then have "scalar_value ((x * 64 + y) * 64 + z)"
      unfolding scalar_value_def using yz(1,2) x(2) by (elim disjE) auto
    moreover have "c # bs = [char_of (0xE0 + x), char_of (0x80 + y), char_of (0x80 + z)]" using bs bs1 c yz(3,4) by simp
    ultimately show ?thesis unfolding cp using encode3 [OF x(2) yz(1,2) low] low by simp
  next
    fix x lo hi
    assume x: "byte_of c = 0xF0 + x" "x < 5" "first_codep (byte_of c) = x" and rs: "rs = [(lo, hi), (0x80, 0xBF), (0x80, 0xBF)]"
      and lo: "0x80 \<le> lo" "hi \<le> 0xBF" "x = 0 \<longrightarrow> 0x90 \<le> lo" "x = 4 \<longrightarrow> hi \<le> 0x8F"
    from nb [unfolded rs] lo(1,2) obtain d bs1 where bs: "bs = d # bs1" and d: "byte_of d = 0x80 + byte_of d mod 64"
      "lo - 0x80 \<le> byte_of d mod 64" "byte_of d mod 64 \<le> hi - 0x80"
      and nb1: "next_byte_in_range [(0x80, 0xBF), (0x80, 0xBF)] bs1 = Some (bs1, [])"
      by (elim continuation) auto
    from nb1 obtain f bs2 where bs1: "bs1 = f # bs2" and f: "byte_of f = 0x80 + byte_of f mod 64"
      and nb2: "next_byte_in_range [(0x80, 0xBF)] bs2 = Some (bs2, [])"
      by (elim continuation) auto
    from nb2 obtain g where bs2: "bs2 = [g]" and g: "byte_of g = 0x80 + byte_of g mod 64"
      by (elim continuation) auto
    define y where "y = byte_of d mod 64"
    define z where "z = byte_of f mod 64"
    define w where "w = byte_of g mod 64"
    have yzw: "y < 64" "z < 64" "w < 64" "d = char_of (0x80 + y)" "f = char_of (0x80 + z)" "g = char_of (0x80 + w)"
      using byte_char [OF d(1)] byte_char [OF f] byte_char [OF g] by (simp_all add: y_def z_def w_def)
    have y: "lo - 0x80 \<le> y" "y \<le> hi - 0x80" using d by (simp_all add: y_def)
    have c: "c = char_of (0xF0 + x)" using x(1) by (rule byte_char)
    have cp: "code_point (c # bs) = ((x * 64 + y) * 64 + z) * 64 + w"
      using x(3) by (simp add: code_point_def bs bs1 bs2 cp_add_def y_def z_def w_def)
    have low: "16 \<le> x * 64 + y" using lo(3) y(1) by (cases "x = 0") auto
    have "x * 64 + y < 272" using lo(4) y(2) x(2) yzw(1) by (cases "x = 4") auto
    then have "scalar_value (((x * 64 + y) * 64 + z) * 64 + w)"
      unfolding scalar_value_def using yzw(2,3) low by auto
    moreover have "x < 8" using x(2) by simp
    moreover have "c # bs = [char_of (0xF0 + x), char_of (0x80 + y), char_of (0x80 + z), char_of (0x80 + w)]"
      using bs bs1 bs2 c yzw(4-6) by simp
    ultimately show ?thesis unfolding cp using encode4 [OF \<open>x < 8\<close> yzw(1-3) low] low by simp
  qed
qed

lemma single_byte:
  assumes "utf8_char [c]"
  shows "byte_of c < 0x80" and "code_point [c] = byte_of c"
proof -
  obtain rs where lead: "lead_ranges (byte_of c) = Some rs" and nb: "next_byte_in_range rs [] = Some ([], [])"
    using assms by (auto simp: utf8_char_def split: option.splits)
  then have rs: "lead_ranges (byte_of c) = Some []" by (cases rs) auto
  show "byte_of c < 0x80" using rs by (auto simp: lead_ranges_def split: if_splits)
  with first_cp [OF byte_of_less lead] show "code_point [c] = byte_of c" by (simp add: code_point_def)
qed

lemma encode_code_point:
  assumes "utf8_char ch"
  shows "utf8_encode (code_point ch) = ch" and "scalar_value (code_point ch)"
proof -
  obtain c bs where ch: "ch = c # bs" using assms by (cases ch) (simp_all add: utf8_char_def)
  have "utf8_encode (code_point ch) = ch \<and> scalar_value (code_point ch)"
  proof (cases "bs = []")
    case True
    with single_byte [of c] assms show ?thesis by (simp add: ch utf8_encode_def scalar_value_def)
  next
    case False
    with multibyte [of c bs] assms show ?thesis by (simp add: ch)
  qed
  then show "utf8_encode (code_point ch) = ch" "scalar_value (code_point ch)" by simp_all
qed

section \<open>Reading what was written\<close>

lemma hex_nibble_char: "d < 16 \<Longrightarrow> hex_nibble (''0123456789abcdef'' ! d) = Some d"
proof -
  have "\<forall>d\<in>set [0..<16]. hex_nibble (''0123456789abcdef'' ! d) = Some d" by code_simp
  then show "d < 16 \<Longrightarrow> ?thesis" by simp
qed

lemma hex4_digits: "n < 65536 \<Longrightarrow>
    n div 16 ^ 3 mod 16 * 4096 + n div 16 ^ 2 mod 16 * 256 + n div 16 ^ 1 mod 16 * 16 + n div 16 ^ 0 mod 16 = n" for n :: nat
proof -
  assume "n < 65536"
  define a where "a = n div 16"
  define b where "b = a div 16"
  define c where "c = b div 16"
  have "n = a * 16 + n mod 16" "a = b * 16 + a mod 16" "b = c * 16 + b mod 16"
    by (simp_all add: a_def b_def c_def)
  moreover have "n div 256 = b" "n div 4096 = c"
    using div_mult2_eq [of n 16 16] div_mult2_eq [of n 256 16] by (simp_all add: a_def b_def c_def)
  moreover have "c < 16" using \<open>n < 65536\<close> \<open>n div 4096 = c\<close> by (auto simp: div_less_iff_less_mult)
  ultimately show ?thesis by (simp add: a_def [symmetric])
qed

lemma get_codepoint_hex4:
  assumes "n < 65536"
  shows "get_codepoint (hex4 n @ r) = Some (n, r)"
proof -
  define a b c d where "a = n div 16 ^ 3 mod 16" and "b = n div 16 ^ 2 mod 16" and "c = n div 16 ^ 1 mod 16"
    and "d = n div 16 ^ 0 mod 16"
  have "a < 16" "b < 16" "c < 16" "d < 16" by (simp_all add: a_def b_def c_def d_def)
  then have "get_codepoint (hex4 n @ r) = Some (a * 4096 + b * 256 + c * 16 + d, r)"
    unfolding hex4_def Let_def a_def [symmetric] b_def [symmetric] c_def [symmetric] d_def [symmetric]
    by (simp add: get_codepoint_def hex_nibble_char push_bit_eq_mult del: hex_nibble.simps)
  moreover have "a * 4096 + b * 256 + c * 16 + d = n"
    unfolding a_def b_def c_def d_def by (rule hex4_digits [OF assms])
  ultimately show ?thesis by (simp only:)
qed

lemma scan_chars_escape:
  "scan_escape s = Inr (bs, r) \<Longrightarrow> scan_chars (backslash # s) = add_front bs (scan_chars r)"
  by (subst scan_chars.simps) simp

lemma scan_unicode_hex4:
  assumes "scalar_value cp" "cp \<le> 0xFFFF"
  shows "scan_unicode (hex4 cp @ r) = Inr (utf8_encode cp, r)"
  using assms by (auto simp: scan_unicode_def get_codepoint_hex4 scalar_value_def)

lemma scan_unicode_pair:
  assumes "scalar_value cp" "0xFFFF < cp"
  shows "scan_unicode (hex4 (0xD7C0 + drop_bit 10 cp) @ [backslash, CHR ''u''] @ hex4 (0xDC00 + and cp 0x3FF) @ r)
    = Inr (utf8_encode cp, r)"
proof -
  define h where "h = cp div 1024"
  define l where "l = cp mod 1024"
  have cp: "cp = h * 1024 + l" and l: "l < 1024" by (simp_all add: h_def l_def)
  have h: "0x40 \<le> h" "h \<le> 0x43F" using assms l unfolding cp scalar_value_def by linarith+
  have bits: "drop_bit 10 cp = h" "and cp 0x3FF = l"
    using take_bit_eq_mask [of 10 cp] by (simp_all add: h_def l_def drop_bit_eq_div take_bit_eq_mod mask_eq_exp_minus_1)
  have "(0xD7C0 + h) * 1024 + (0xDC00 + l) - 0x35FDC00 = cp" by (simp add: cp)
  then show ?thesis
    using h l by (simp add: bits scan_unicode_def get_codepoint_hex4 push_bit_eq_mult)
qed

text \<open>The escape of a byte that is not copied.\<close>

lemma scan_escape_u: "scan_escape (CHR ''u'' # s) = scan_unicode s"
  by (simp add: scan_escape_def)

lemma scan_escape_simple:
  "scan_escape (CHR ''b'' # r) = Inr ([CHR 0x08], r)" "scan_escape (CHR ''t'' # r) = Inr ([CHR 0x09], r)"
  "scan_escape (CHR ''n'' # r) = Inr ([CHR 0x0A], r)" "scan_escape (CHR ''f'' # r) = Inr ([CHR 0x0C], r)"
  "scan_escape (CHR ''r'' # r) = Inr ([CHR 0x0D], r)" "scan_escape (quote # r) = Inr ([quote], r)"
  "scan_escape (backslash # r) = Inr ([backslash], r)"
  by (simp_all add: scan_escape_def)

lemma encode_simple:
  "utf8_encode 0x08 = [CHR 0x08]" "utf8_encode 0x09 = [CHR 0x09]" "utf8_encode 0x0A = [CHR 0x0A]"
  "utf8_encode 0x0C = [CHR 0x0C]" "utf8_encode 0x0D = [CHR 0x0D]" "utf8_encode 0x22 = [quote]"
  "utf8_encode 0x5C = [backslash]"
  by code_simp+

lemma scan_escaped:
  assumes "utf8_char ch" "escaped ea (code_point ch) (last ch) \<noteq> [last ch]"
  shows "scan_chars (escaped ea (code_point ch) (last ch) @ r) = add_front ch (scan_chars r)"
proof -
  define cp where "cp = code_point ch"
  have enc: "ch = utf8_encode cp" and sv: "scalar_value cp"
    using encode_code_point [OF assms(1)] by (simp_all add: cp_def)
  consider "cp = 8" | "cp = 9" | "cp = 10" | "cp = 12" | "cp = 13" | "cp = 0x22" | "cp = 0x5C"
    | (u) "cp \<notin> {8, 9, 10, 12, 13, 0x22, 0x5C}" "cp \<le> 0x1F \<or> (ea \<and> 0x7F \<le> cp)"
    using assms(2) unfolding cp_def [symmetric] escaped_def by (auto split: if_splits)
  then have "scan_chars (escaped ea cp (last ch) @ r) = add_front (utf8_encode cp) (scan_chars r)"
  proof cases
    case u
    then have esc: "escaped ea cp (last ch) = (if cp \<le> 0xFFFF then [backslash, CHR ''u''] @ hex4 cp
         else [backslash, CHR ''u''] @ hex4 (0xD7C0 + drop_bit 10 cp)
              @ [backslash, CHR ''u''] @ hex4 (0xDC00 + and cp 0x3FF))"
      by (auto simp: escaped_def)
    show ?thesis
    proof (cases "cp \<le> 0xFFFF")
      case True
      then show ?thesis
        using scan_unicode_hex4 [OF sv, of r] by (simp add: esc scan_chars_escape scan_escape_u)
    next
      case False
      then show ?thesis
        using scan_unicode_pair [OF sv, of r] by (simp add: esc scan_chars_escape scan_escape_u)
    qed
  qed (simp_all add: escaped_def encode_simple scan_chars_escape scan_escape_simple)
  moreover have "utf8_encode cp = ch" using enc by simp
  ultimately show ?thesis by (simp only: cp_def)
qed

lemma scan_copied:
  assumes "utf8_char ch" "escaped ea (code_point ch) (last ch) = [last ch]" "\<not> ea \<or> length ch = 1"
  shows "scan_chars (ch @ r) = add_front ch (scan_chars r)"
proof -
  obtain c bs where ch: "ch = c # bs" using assms(1) by (cases ch) (simp_all add: utf8_char_def)
  then obtain rs where lead: "lead_ranges (byte_of c) = Some rs" and nb: "next_byte_in_range rs bs = Some (bs, [])"
    using assms(1) by (auto simp: utf8_char_def split: option.splits)
  have plain: "0x1F < byte_of c" "byte_of c \<noteq> 0x22" "byte_of c \<noteq> 0x5C"
  proof -
    have "0x1F < byte_of c \<and> byte_of c \<noteq> 0x22 \<and> byte_of c \<noteq> 0x5C"
    proof (cases "bs = []")
      case True
      with single_byte [of c] assms(1,2) show ?thesis
        by (auto simp: ch escaped_def split: if_splits)
    next
      case False
      with nb have "rs \<noteq> []" by auto
      from first_byte [OF lead this] show ?thesis by auto
    qed
    then show "0x1F < byte_of c" "byte_of c \<noteq> 0x22" "byte_of c \<noteq> 0x5C" by simp_all
  qed
  then have "c \<noteq> quote" "c \<noteq> backslash" by auto
  with plain lead next_byte_append [OF nb, of r] show ?thesis
    by (subst scan_chars.simps) (simp add: ch)
qed

lemma scan_piece:
  assumes "utf8_char ch"
  shows "scan_chars (piece ea ch @ r) = add_front ch (scan_chars r)"
proof -
  obtain c bs where ch: "ch = c # bs" using assms by (cases ch) (simp_all add: utf8_char_def)
  show ?thesis
  proof (cases "bs = []")
    case True
    then have "piece ea ch = escaped ea (code_point ch) (last ch)" "length ch = 1" "[last ch] = ch"
      by (simp_all add: piece_def ch)
    then show ?thesis
      using scan_escaped [OF assms, of ea r] scan_copied [OF assms, of ea r]
      by (cases "escaped ea (code_point ch) (last ch) = [last ch]") simp_all
  next
    case False
    then have big: "0x80 \<le> code_point ch" using multibyte [of c bs] assms by (simp add: ch)
    show ?thesis
    proof (cases ea)
      case True
      with big have "escaped ea (code_point ch) (last ch) \<noteq> [last ch]" by (simp add: escaped_def hex4_def Let_def)
      with scan_escaped [OF assms] True show ?thesis by (simp add: piece_def)
    next
      case ea: False
      with big have "escaped ea (code_point ch) (last ch) = [last ch]" by (simp add: escaped_def)
      moreover from this have "piece ea ch = ch" using ea by (simp add: piece_def ch)
      ultimately show ?thesis using scan_copied [OF assms] ea by simp
    qed
  qed
qed

theorem scan_escaped_string:
  assumes "utf8 s"
  shows "scan_chars (escaped_string ea s @ [quote] @ r) = Inr (s, r)"
  using assms
proof (induction s rule: utf8_induct)
  case Nil
  then show ?case by (simp add: scan_chars.simps)
next
  case (Char ch t)
  then show ?case by (simp add: escaped_string_char scan_piece)
qed

section \<open>What is read is well-formed\<close>

lemma lead_ranges_cases:
  "2 \<le> x \<Longrightarrow> x < 32 \<Longrightarrow> lead_ranges (0xC0 + x) = Some [(0x80, 0xBF)]"
  "x < 16 \<Longrightarrow> lead_ranges (0xE0 + x) = Some [(if x = 0 then 0xA0 else 0x80, if x = 13 then 0x9F else 0xBF), (0x80, 0xBF)]"
  "x < 5 \<Longrightarrow> lead_ranges (0xF0 + x) =
     Some [(if x = 0 then 0x90 else 0x80, if x = 4 then 0x8F else 0xBF), (0x80, 0xBF), (0x80, 0xBF)]"
  by (auto simp: lead_ranges_def)

lemma byte_of_char_of: "n < 256 \<Longrightarrow> byte_of (char_of n) = n"
  by simp

lemma utf8_encode_char:
  assumes "scalar_value cp"
  shows "utf8_char (utf8_encode cp)"
proof -
  consider "cp < 0x80" | "0x80 \<le> cp" "cp \<le> 0x7FF" | "0x800 \<le> cp" "cp \<le> 0xFFFF" | "0x10000 \<le> cp" by linarith
  then show ?thesis
  proof cases
    case 1
    then show ?thesis by (simp add: utf8_encode_def utf8_char_def lead_ranges_def)
  next
    case 2
    define x y where "x = cp div 64" and "y = cp mod 64"
    have cp: "cp = x * 64 + y" and y: "y < 64" by (simp_all add: x_def y_def)
    have x: "2 \<le> x" "x < 32" using 2 cp y by linarith+
    show ?thesis unfolding cp encode2 [OF x y] utf8_char_def list.case byte_of_char_of
      using x y by (simp add: byte_of_char_of lead_ranges_cases)
  next
    case 3
    define p z where "p = cp div 64" and "z = cp mod 64"
    define x y where "x = p div 64" and "y = p mod 64"
    have p: "p = x * 64 + y" and cp: "cp = p * 64 + z" and yz: "y < 64" "z < 64"
      by (simp_all add: p_def z_def x_def y_def)
    have x: "x < 16" "32 \<le> x * 64 + y" using 3 cp p yz by linarith+
    have low: "x = 0 \<longrightarrow> 32 \<le> y" using x(2) by auto
    have high: "x = 13 \<longrightarrow> y \<le> 31"
      using assms 3 cp p yz unfolding scalar_value_def by auto
    show ?thesis unfolding cp p encode3 [OF x(1) yz x(2)] utf8_char_def list.case
      using x yz low high by (simp add: byte_of_char_of lead_ranges_cases)
  next
    case 4
    define q w where "q = cp div 64" and "w = cp mod 64"
    define p z where "p = q div 64" and "z = q mod 64"
    define x y where "x = p div 64" and "y = p mod 64"
    have p: "p = x * 64 + y" and q: "q = p * 64 + z" and cp: "cp = q * 64 + w" and yzw: "y < 64" "z < 64" "w < 64"
      by (simp_all add: p_def q_def z_def w_def x_def y_def)
    have top: "cp \<le> 0x10FFFF" using assms 4 by (simp add: scalar_value_def)
    have x: "x < 5" "16 \<le> x * 64 + y" using 4 top cp q p yzw by linarith+
    have low: "x = 0 \<longrightarrow> 16 \<le> y" using x(2) by auto
    have high: "x = 4 \<longrightarrow> y \<le> 15" using top cp q p yzw by auto
    have "x < 8" using x(1) by simp
    show ?thesis unfolding cp q p encode4 [OF \<open>x < 8\<close> yzw x(2)] utf8_char_def list.case
      using x yzw low high by (simp add: byte_of_char_of lead_ranges_cases)
  qed
qed

lemma hex_nibble_less: "hex_nibble c = Some d \<Longrightarrow> d < 16"
  by (auto simp: Let_def split: if_splits)

lemma get_codepoint_less: "get_codepoint s = Some (n, r) \<Longrightarrow> n < 65536"
proof -
  assume "get_codepoint s = Some (n, r)"
  then obtain a b c d where "a < 16" "b < 16" "c < 16" "d < 16" "n = a * 4096 + b * 256 + c * 16 + d"
    unfolding get_codepoint_def
    by (cases s; cases "tl s"; cases "tl (tl s)"; cases "tl (tl (tl s))")
      (auto simp: push_bit_eq_mult simp del: hex_nibble.simps dest!: hex_nibble_less split: option.splits)
  then show ?thesis by simp
qed

lemma utf8_char_ascii: "byte_of c < 0x80 \<Longrightarrow> utf8_char [c]"
  by (simp add: utf8_char_def lead_ranges_def)

lemma scan_unicode_char: "scan_unicode s = Inr (bs, r) \<Longrightarrow> utf8_char bs"
proof -
  assume scan: "scan_unicode s = Inr (bs, r)"
  then obtain cp1 r1 where 1: "get_codepoint s = Some (cp1, r1)"
    by (auto simp: scan_unicode_def split: option.splits)
  note less = get_codepoint_less [OF 1]
  show ?thesis
  proof (cases "0xD800 \<le> cp1 \<and> cp1 \<le> 0xDBFF")
    case True
    with scan 1 obtain cp2 r2 where low: "0xDC00 \<le> cp2" "cp2 \<le> 0xDFFF"
      and bs: "bs = utf8_encode (push_bit 10 cp1 + cp2 - 0x35FDC00)"
      by (auto simp: scan_unicode_def split: option.splits if_splits)
    have "scalar_value (push_bit 10 cp1 + cp2 - 0x35FDC00)"
      using True low by (simp add: scalar_value_def push_bit_eq_mult) linarith
    then show ?thesis unfolding bs by (rule utf8_encode_char)
  next
    case False
    with scan 1 less have "scalar_value cp1" "bs = utf8_encode cp1"
      by (auto simp: scan_unicode_def scalar_value_def split: if_splits)
    then show ?thesis by (simp add: utf8_encode_char)
  qed
qed

lemma scan_escape_char: "scan_escape s = Inr (bs, r) \<Longrightarrow> utf8_char bs"
  unfolding scan_escape_def by (auto split: list.splits if_splits intro: utf8_char_ascii scan_unicode_char)

theorem scan_chars_utf8: "scan_chars s = Inr (t, r) \<Longrightarrow> utf8 t"
proof (induction s arbitrary: t r rule: scan_chars.induct)
  case (1 s)
  then obtain c s' where s: "s = c # s'" by (cases s) (simp_all add: scan_chars.simps)
  consider "c = quote" | "c \<noteq> quote" "c = backslash" | "c \<noteq> quote" "c \<noteq> backslash" by blast
  then show ?case
  proof cases
    case 1
    with s \<open>scan_chars s = Inr (t, r)\<close> show ?thesis by (simp add: scan_chars.simps)
  next
    case 2
    with s \<open>scan_chars s = Inr (t, r)\<close> obtain bs r1 t' where
      e: "scan_escape s' = Inr (bs, r1)" and t: "t = bs @ t'" "scan_chars r1 = Inr (t', r)"
      by (subst (asm) scan_chars.simps) (auto simp: add_front_Inr split: sum.splits)
    have "utf8 t'" using 1(1) [OF s 2] e t(2) by simp
    then show ?thesis using scan_escape_char [OF e] by (simp add: t)
  next
    case 3
    with s \<open>scan_chars s = Inr (t, r)\<close> obtain rs bs r1 t' where
      "\<not> byte_of c \<le> 0x1F" and l: "lead_ranges (byte_of c) = Some rs" "next_byte_in_range rs s' = Some (bs, r1)"
      and t: "t = (c # bs) @ t'" "scan_chars r1 = Inr (t', r)"
      by (subst (asm) scan_chars.simps) (auto simp: add_front_Inr split: if_splits option.splits)
    moreover have "utf8_char (c # bs)" using l next_byte_exact by (simp add: utf8_char_def)
    moreover have "utf8 t'" using 1(2) [OF s 3] l t(2) \<open>\<not> byte_of c \<le> 0x1F\<close> by simp
    ultimately show ?thesis by (metis utf8_char_append)
  qed
qed

text \<open>Bytes that need no escape are taken as they are.\<close>

definition plain_byte :: "char \<Rightarrow> bool" where
  "plain_byte c \<longleftrightarrow> 0x1F < byte_of c \<and> c \<noteq> quote \<and> c \<noteq> backslash"

lemma scan_plain:
  assumes "utf8 s" "list_all plain_byte s"
  shows "scan_chars (s @ [quote] @ r) = Inr (s, r)"
  using assms
proof (induction s rule: utf8_induct)
  case Nil
  then show ?case by (simp add: scan_chars.simps)
next
  case (Char ch t)
  obtain c bs where ch: "ch = c # bs" using Char(1) by (cases ch) (simp_all add: utf8_char_def)
  then obtain rs where "lead_ranges (byte_of c) = Some rs" "next_byte_in_range rs bs = Some (bs, [])"
    using Char(1) by (auto simp: utf8_char_def split: option.splits)
  with next_byte_append [of rs bs bs "[]" "t @ [quote] @ r"] Char show ?case
    by (subst scan_chars.simps) (simp add: ch plain_byte_def)
qed

end
