(* ===== verification/JsonParse.thy ===== *)
theory JsonParse
  imports JsonLex
begin

text \<open>
  The parser of \<^verbatim>\<open>include/json.hpp\<close>: \<^verbatim>\<open>json_sax_dom_parser\<close>, which builds the
  value, and \<^verbatim>\<open>sax_parse_internal\<close>, the loop over the tokens with its stack \<open>states\<close>
  (\<open>True\<close> inside an array). \<^verbatim>\<open>ref_stack\<close> holds pointers to the containers that are open;
  here each open container is a frame with what it holds so far, put into the one around it when it
  is closed. A frame of an object has the key \<^verbatim>\<open>object_element\<close> points to.
\<close>

section \<open>Building the value\<close>

datatype frame = FArr "json list" | FObj "(string \<times> json) list" "string option"

record dom =
  dom_root :: json
  dom_stack :: "frame list"

text \<open>\<open>None\<close> where a \<^verbatim>\<open>JSON_ASSERT\<close> of the class fails.\<close>

definition handle_value :: "json \<Rightarrow> dom \<Rightarrow> dom option" where
  "handle_value v d = (case dom_stack d of
      [] \<Rightarrow> Some (d\<lparr>dom_root := v\<rparr>)
    | FArr xs # fs \<Rightarrow> Some (d\<lparr>dom_stack := FArr (xs @ [v]) # fs\<rparr>)
    | FObj kvs (Some k) # fs \<Rightarrow> Some (d\<lparr>dom_stack := FObj (ins_key k v kvs) (Some k) # fs\<rparr>)
    | FObj kvs None # fs \<Rightarrow> None)"

fun awaits_value :: "frame list \<Rightarrow> bool" where
  "awaits_value (FObj kvs None # fs) = False"
| "awaits_value fs = True"

definition start_object :: "dom \<Rightarrow> dom option" where
  "start_object d = (if awaits_value (dom_stack d)
     then Some (d\<lparr>dom_stack := FObj [] None # dom_stack d\<rparr>) else None)"

definition start_array :: "dom \<Rightarrow> dom option" where
  "start_array d = (if awaits_value (dom_stack d)
     then Some (d\<lparr>dom_stack := FArr [] # dom_stack d\<rparr>) else None)"

definition dom_key :: "string \<Rightarrow> dom \<Rightarrow> dom option" where
  "dom_key k d = (case dom_stack d of
      FObj kvs e # fs \<Rightarrow>
        Some (d\<lparr>dom_stack := FObj (if map_of kvs k = None then ins_key k JNull kvs else kvs) (Some k) # fs\<rparr>)
    | _ \<Rightarrow> None)"

definition end_object :: "dom \<Rightarrow> dom option" where
  "end_object d = (case dom_stack d of
      FObj kvs e # fs \<Rightarrow> handle_value (JObj kvs) (d\<lparr>dom_stack := fs\<rparr>)
    | _ \<Rightarrow> None)"

definition end_array :: "dom \<Rightarrow> dom option" where
  "end_array d = (case dom_stack d of
      FArr xs # fs \<Rightarrow> handle_value (JArr xs) (d\<lparr>dom_stack := fs\<rparr>)
    | _ \<Rightarrow> None)"

section \<open>The loop over the tokens\<close>

text \<open>
  Why a text is refused: an unexpected token with what was expected in which context
  (\<^verbatim>\<open>parse_error.101\<close>), a number that is not finite (\<^verbatim>\<open>out_of_range.406\<close>). The
  last one is a failed assertion.
\<close>

datatype refusal = Unexpected token token_type string | Overflow | Assertion

text \<open>
  The places of the loop: before a value with its first token read, at the state evaluation
  after a value, and its two ends.
\<close>

datatype place = AtValue token string "bool list" dom | AfterValue string "bool list" dom
  | Finished string dom | Refused refusal

definition with_dom :: "dom option \<Rightarrow> (dom \<Rightarrow> place) \<Rightarrow> place" where
  "with_dom d f = (case d of None \<Rightarrow> Refused Assertion | Some d \<Rightarrow> f d)"

text \<open>A key, the separator behind it and the first token of its value.\<close>

definition read_key :: "(string \<Rightarrow> real option) \<Rightarrow> token \<Rightarrow> string \<Rightarrow> bool list \<Rightarrow> dom \<Rightarrow> place" where
  "read_key strtod t s st d = (case t of
      TString k \<Rightarrow> with_dom (dom_key k d) (\<lambda>d. case scan strtod s of
          (t2, s2) \<Rightarrow>
            if t2 = TColon then (case scan strtod s2 of (t3, s3) \<Rightarrow> AtValue t3 s3 st d)
            else Refused (Unexpected t2 Name_separator ''object separator''))
    | _ \<Rightarrow> Refused (Unexpected t Value_string ''object key''))"

definition open_object :: "(string \<Rightarrow> real option) \<Rightarrow> string \<Rightarrow> bool list \<Rightarrow> dom \<Rightarrow> place" where
  "open_object strtod s st d = with_dom (start_object d) (\<lambda>d. case scan strtod s of
      (t1, s1) \<Rightarrow>
        if t1 = TEndObject then with_dom (end_object d) (AfterValue s1 st)
        else read_key strtod t1 s1 (False # st) d)"

definition open_array :: "(string \<Rightarrow> real option) \<Rightarrow> string \<Rightarrow> bool list \<Rightarrow> dom \<Rightarrow> place" where
  "open_array strtod s st d = with_dom (start_array d) (\<lambda>d. case scan strtod s of
      (t1, s1) \<Rightarrow>
        if t1 = TEndArray then with_dom (end_array d) (AfterValue s1 st)
        else AtValue t1 s1 (True # st) d)"

text \<open>The switch on the first token of a value.\<close>

definition value_step :: "(string \<Rightarrow> real option) \<Rightarrow> token \<Rightarrow> string \<Rightarrow> bool list \<Rightarrow> dom \<Rightarrow> place" where
  "value_step strtod t s st d = (case t of
      TBeginObject \<Rightarrow> open_object strtod s st d
    | TBeginArray \<Rightarrow> open_array strtod s st d
    | TFloat None \<Rightarrow> Refused Overflow
    | TFloat (Some x) \<Rightarrow> with_dom (handle_value (JNum x) d) (AfterValue s st)
    | TFalse \<Rightarrow> with_dom (handle_value (JBool False) d) (AfterValue s st)
    | TNull \<Rightarrow> with_dom (handle_value JNull d) (AfterValue s st)
    | TTrue \<Rightarrow> with_dom (handle_value (JBool True) d) (AfterValue s st)
    | TInteger n \<Rightarrow> with_dom (handle_value (JInt n) d) (AfterValue s st)
    | TString v \<Rightarrow> with_dom (handle_value (JStr v) d) (AfterValue s st)
    | TUnsigned n \<Rightarrow> with_dom (handle_value (JInt n) d) (AfterValue s st)
    | TError m \<Rightarrow> Refused (Unexpected t Uninitialized ''value'')
    | _ \<Rightarrow> Refused (Unexpected t Literal_or_value ''value''))"

fun after_step :: "(string \<Rightarrow> real option) \<Rightarrow> string \<Rightarrow> bool list \<Rightarrow> dom \<Rightarrow> place" where
  "after_step strtod s [] d = Finished s d"
| "after_step strtod s (True # st) d = (case scan strtod s of
      (t, s1) \<Rightarrow>
        if t = TComma then (case scan strtod s1 of (t2, s2) \<Rightarrow> AtValue t2 s2 (True # st) d)
        else if t = TEndArray then with_dom (end_array d) (AfterValue s1 st)
        else Refused (Unexpected t End_array ''array''))"
| "after_step strtod s (False # st) d = (case scan strtod s of
      (t, s1) \<Rightarrow>
        if t = TComma then (case scan strtod s1 of (t2, s2) \<Rightarrow> read_key strtod t2 s2 (False # st) d)
        else if t = TEndObject then with_dom (end_object d) (AfterValue s1 st)
        else Refused (Unexpected t End_object ''object''))"

text \<open>What is left to do: the bytes not read, and whether a token is waiting.\<close>

fun work :: "place \<Rightarrow> nat" where
  "work (AtValue t s st d) = (if t = TEnd then 0 else 3 * length s + 2)"
| "work (AfterValue s st d) = 3 * length s + 1"
| "work _ = 0"

lemma work_with_dom: "(\<And>d. work (f d) < n) \<Longrightarrow> 0 < n \<Longrightarrow> work (with_dom x f) < n"
  by (simp add: with_dom_def split: option.split)

lemma work_scan: "scan strtod s = (t, r) \<Longrightarrow> work (AtValue t r st d) \<le> 3 * length s"
  by (drule scan_length) auto

lemma scan_shorter: "scan strtod s = (t, r) \<Longrightarrow> t \<noteq> TEnd \<Longrightarrow> length r < length s"
  by (drule scan_length) auto

lemma work_read_key: "work (read_key strtod t s st d) \<le> 3 * length s"
proof (cases "\<exists>k. t = TString k")
  case True
  then obtain k where k: "t = TString k" by blast
  obtain t2 s2 where 2: "scan strtod s = (t2, s2)" by fastforce
  obtain t3 s3 where 3: "scan strtod s2 = (t3, s3)" by fastforce
  have "work (AtValue t3 s3 st d') \<le> 3 * length s" if "t2 = TColon" for d'
    using work_scan [OF 3, of st d'] scan_shorter [OF 2] that by simp
  then show ?thesis by (simp add: read_key_def k 2 3 with_dom_def split: option.split)
next
  case False
  then show ?thesis by (simp add: read_key_def split: token.split)
qed

lemma work_value_step: "t \<noteq> TEnd \<Longrightarrow> work (value_step strtod t s st d) < work (AtValue t s st d)"
proof -
  assume t: "t \<noteq> TEnd"
  obtain t1 s1 where 1: "scan strtod s = (t1, s1)" by fastforce
  have after: "work (AfterValue s1 st d') < 3 * length s + 2" if "t1 \<noteq> TEnd" for d'
    using scan_shorter [OF 1 that] by simp
  have "work (read_key strtod t1 s1 st' d') < 3 * length s + 2" for st' d'
    using work_read_key [of strtod t1 s1 st' d'] scan_length [OF 1] by auto
  moreover have "work (AtValue t1 s1 st' d') < 3 * length s + 2" for st' d'
    using work_scan [OF 1, of st' d'] by linarith
  ultimately have "work (value_step strtod t s st d) < 3 * length s + 2"
    unfolding value_step_def open_object_def open_array_def 1 using after
    by (cases t) (auto simp del: work.simps(1,2) intro!: work_with_dom simp: work.simps(2) split: option.split)
  with t show ?thesis by simp
qed

lemma work_after_step: "work (after_step strtod s st d) < work (AfterValue s st d)"
proof (cases "(strtod, s, st, d)" rule: after_step.cases)
  case (1 _ s' d')
  then show ?thesis by simp
next
  case (2 _ s' st' d')
  obtain t1 s1 where 1: "scan strtod s = (t1, s1)" by fastforce
  obtain t2 s2 where 3: "scan strtod s1 = (t2, s2)" by fastforce
  have "work (AtValue t2 s2 st0 d0) < 3 * length s + 1" if "t1 = TComma" for st0 d0
    using work_scan [OF 3, of st0 d0] scan_shorter [OF 1] that by simp
  moreover have "work (AfterValue s1 st' d0) < 3 * length s + 1" if "t1 = TEndArray" for d0
    using scan_shorter [OF 1] that by simp
  ultimately show ?thesis
    using 2 1 3 by (auto simp del: work.simps(1,2) simp: work.simps(2) intro!: work_with_dom)
next
  case (3 _ s' st' d')
  obtain t1 s1 where 1: "scan strtod s = (t1, s1)" by fastforce
  obtain t2 s2 where 4: "scan strtod s1 = (t2, s2)" by fastforce
  have "work (read_key strtod t2 s2 st0 d0) < 3 * length s + 1" if "t1 = TComma" for st0 d0
    using work_read_key [of strtod t2 s2 st0 d0] scan_length [OF 4] scan_shorter [OF 1] that by auto
  moreover have "work (AfterValue s1 st' d0) < 3 * length s + 1" if "t1 = TEndObject" for d0
    using scan_shorter [OF 1] that by simp
  ultimately show ?thesis
    using 3 1 4 by (auto simp del: work.simps(1,2) simp: work.simps(2) intro!: work_with_dom)
qed

text \<open>\<^verbatim>\<open>sax_parse_internal\<close> from a place of its loop: it ends for every text.\<close>

function sax_run :: "(string \<Rightarrow> real option) \<Rightarrow> place \<Rightarrow> refusal + (string \<times> dom)" where
  "sax_run strtod (AtValue t s st d) =
     (if t = TEnd then Inl (Unexpected TEnd Literal_or_value ''value'')
      else sax_run strtod (value_step strtod t s st d))"
| "sax_run strtod (AfterValue s st d) = sax_run strtod (after_step strtod s st d)"
| "sax_run strtod (Finished s d) = Inr (s, d)"
| "sax_run strtod (Refused e) = Inl e"
  by pat_completeness auto
termination
  by (relation "measure (\<lambda>(strtod, p). work p)")
    (simp_all only: in_measure prod.case work_value_step work_after_step wf_measure not_False_eq_True)

declare sax_run.simps(1,2) [simp del]

lemma sax_run_value: "sax_run strtod (AtValue t s st d) = sax_run strtod (value_step strtod t s st d)"
  by (cases "t = TEnd") (simp_all add: sax_run.simps(1) value_step_def)

definition dom_empty :: dom where
  "dom_empty = \<lparr>dom_root = JNull, dom_stack = []\<rparr>"

text \<open>\<^verbatim>\<open>json::parse\<close>: strict, so that nothing but white space may follow the value.\<close>

definition json_parse :: "(string \<Rightarrow> real option) \<Rightarrow> string \<Rightarrow> refusal + json" where
  "json_parse strtod text = (case scan_first strtod text of
      (t, s) \<Rightarrow> (case sax_run strtod (AtValue t s [] dom_empty) of
          Inl e \<Rightarrow> Inl e
        | Inr (s', d) \<Rightarrow> (case scan strtod s' of
              (t', s2) \<Rightarrow> if t' = TEnd then Inr (dom_root d)
                else Inl (Unexpected t' End_of_input ''value''))))"

text \<open>The result the switch sees: every refusal is an exception.\<close>

definition parse_text :: "(string \<Rightarrow> real option) \<Rightarrow> string \<Rightarrow> json option" where
  "parse_text strtod text = (case json_parse strtod text of Inl e \<Rightarrow> None | Inr j \<Rightarrow> Some j)"

end
