(* ===== verification/JsonText.thy ===== *)
theory JsonText
  imports JsonString JsonParse
begin

text \<open>
  The two ends of the JSON library together. A value is printable when its integers fit 64 bits,
  its strings are well-formed UTF-8 and the keys of its objects ascend, as a \<^verbatim>\<open>std::map\<close>
  keeps them. Every printable value is read back from its text, in either layout; whatever the
  parser accepts is printable; and no assertion of the parser fails on any text.
\<close>

section \<open>Printable values\<close>

text \<open>A number whose shortest form is read back as itself.\<close>

definition float_ok :: "(string \<Rightarrow> real option) \<Rightarrow> (real \<Rightarrow> string) \<Rightarrow> real \<Rightarrow> bool" where
  "float_ok strtod fs x \<longleftrightarrow> float_text (fs x) \<and> strtod (fs x) = Some x"

fun json_wf :: "(real \<Rightarrow> bool) \<Rightarrow> json \<Rightarrow> bool"
  and elems_wf :: "(real \<Rightarrow> bool) \<Rightarrow> json list \<Rightarrow> bool"
  and members_wf :: "(real \<Rightarrow> bool) \<Rightarrow> (string \<times> json) list \<Rightarrow> bool" where
  "json_wf F JNull = True"
| "json_wf F (JBool b) = True"
| "json_wf F (JInt n) = (- (2 ^ 63) \<le> n \<and> n < 2 ^ 64)"
| "json_wf F (JNum x) = F x"
| "json_wf F (JStr s) = utf8 s"
| "json_wf F (JArr xs) = elems_wf F xs"
| "json_wf F (JObj kvs) = (members_wf F kvs \<and> sorted_wrt (<) (map fst kvs))"
| "elems_wf F [] = True"
| "elems_wf F (x # xs) = (json_wf F x \<and> elems_wf F xs)"
| "members_wf F [] = True"
| "members_wf F ((k, v) # kvs) = (utf8 k \<and> json_wf F v \<and> members_wf F kvs)"

lemma elems_wf_append [simp]: "elems_wf F (xs @ ys) = (elems_wf F xs \<and> elems_wf F ys)"
  by (induction xs) auto

lemma members_wf_alt: "members_wf F kvs \<longleftrightarrow> (\<forall>(k, v) \<in> set kvs. utf8 k \<and> json_wf F v)"
  by (induction kvs) auto

section \<open>Tokens of a text\<close>

lemma scan_ws: "list_all json_ws u \<Longrightarrow> scan strtod (u @ s) = scan strtod s"
  by (induction u) (simp_all add: scan_def skip_whitespace_def)

lemma layout_ws [simp]: "list_all json_ws (indentation w n)" "list_all json_ws (line_end w)"
  by (simp_all add: indentation_def line_end_def list_all_iff json_ws_def)

lemma scan_punct:
  "scan strtod (CHR ''['' # r) = (TBeginArray, r)" "scan strtod (CHR '']'' # r) = (TEndArray, r)"
  "scan strtod (CHR ''{'' # r) = (TBeginObject, r)" "scan strtod (CHR ''}'' # r) = (TEndObject, r)"
  "scan strtod (CHR '':'' # r) = (TColon, r)" "scan strtod (CHR '','' # r) = (TComma, r)"
  by (simp_all add: scan_def skip_whitespace_def json_ws_def scan_token_def)

lemma scan_literals:
  "scan strtod (''true'' @ r) = (TTrue, r)" "scan strtod (''false'' @ r) = (TFalse, r)"
  "scan strtod (''null'' @ r) = (TNull, r)"
  by (simp_all add: scan_def skip_whitespace_def json_ws_def scan_token_def scan_literal_def)

lemma scan_string:
  assumes "utf8 s"
  shows "scan strtod ([quote] @ escaped_string ea s @ [quote] @ r) = (TString s, r)"
  using scan_escaped_string [OF assms, of ea r]
  by (simp add: scan_def skip_whitespace_def json_ws_def scan_token_def)

lemma ends_number_punct: "c \<in> {CHR '','', CHR '']'', CHR ''}'', CHR 0x0A} \<Longrightarrow> ends_number (c # r)"
  by (auto simp: ends_number_def isdigit_def Let_def)

lemma ends_number_layout: "ends_number s \<Longrightarrow> ends_number (line_end w @ s)"
  by (simp add: line_end_def ends_number_punct)

section \<open>Building\<close>

definition put :: "json \<Rightarrow> dom \<Rightarrow> dom" where
  "put v d = the (handle_value v d)"

lemma handle_value_put: "awaits_value (dom_stack d) \<Longrightarrow> handle_value v d = Some (put v d)"
  by (cases "dom_stack d" rule: awaits_value.cases)
    (auto simp: handle_value_def put_def split: frame.split option.split)

lemma put_array [simp]: "dom_stack d = FArr ys # fs \<Longrightarrow> put v d = d\<lparr>dom_stack := FArr (ys @ [v]) # fs\<rparr>"
  by (simp add: put_def handle_value_def)

lemma ins_key_last: "(\<And>k'. k' \<in> fst ` set kvs \<Longrightarrow> k' < k) \<Longrightarrow> ins_key k v kvs = kvs @ [(k, v)]"
proof (induction kvs)
  case (Cons p kvs)
  obtain k' v' where p: "p = (k', v')" by fastforce
  have "k' < k" using Cons.prems by (simp add: p)
  then have "k \<noteq> k'" "\<not> k < k'" by auto
  with Cons show ?case by (simp add: p)
qed simp

lemma ins_key_again: "(\<And>k'. k' \<in> fst ` set kvs \<Longrightarrow> k' < k) \<Longrightarrow> ins_key k v (kvs @ [(k, u)]) = kvs @ [(k, v)]"
proof (induction kvs)
  case (Cons p kvs)
  obtain k' v' where p: "p = (k', v')" by fastforce
  have "k' < k" using Cons.prems by (simp add: p)
  then have "k \<noteq> k'" "\<not> k < k'" by auto
  with Cons show ?case by (simp add: p)
qed simp

lemma no_such_key:
  fixes k :: string
  assumes "\<And>k'. k' \<in> fst ` set kvs \<Longrightarrow> k' < k"
  shows "map_of kvs k = None"
  unfolding map_of_eq_None_iff by (rule notI, drule assms) simp

section \<open>Reading a printed value\<close>

text \<open>From the first token of a value the loop gets behind it, with the value built in.\<close>

definition reads :: "(string \<Rightarrow> real option) \<Rightarrow> string \<Rightarrow> json \<Rightarrow> bool" where
  "reads strtod t v \<longleftrightarrow> (\<forall>r d. ends_number r \<longrightarrow> awaits_value (dom_stack d) \<longrightarrow>
     (\<exists>tok s. scan strtod (t @ r) = (tok, s) \<and> tok \<noteq> TEndArray \<and>
        (\<forall>st. sax_run strtod (AtValue tok s st d) = sax_run strtod (AfterValue r st (put v d)))))"

lemma readsD:
  assumes "reads strtod t v" "ends_number r" "awaits_value (dom_stack d)"
  obtains tok s where "scan strtod (t @ r) = (tok, s)" "tok \<noteq> TEndArray"
    "\<forall>st. sax_run strtod (AtValue tok s st d) = sax_run strtod (AfterValue r st (put v d))"
  using assms unfolding reads_def by blast

lemma reads_scalar:
  assumes "\<And>r. ends_number r \<Longrightarrow> scan strtod (t @ r) = (tok, r)"
    and "\<And>s st d. value_step strtod tok s st d = with_dom (handle_value v d) (AfterValue s st)"
    and "tok \<noteq> TEndArray"
  shows "reads strtod t v"
  using assms by (auto simp: reads_def sax_run_value handle_value_put with_dom_def)

text \<open>The elements of an array in front of its closing bracket, the members of an object in front of its brace.\<close>

definition reads_elems :: "(string \<Rightarrow> real option) \<Rightarrow> string \<Rightarrow> json list \<Rightarrow> bool" where
  "reads_elems strtod t xs \<longleftrightarrow> (\<forall>u r st d ys fs. ends_number (u @ CHR '']'' # r) \<longrightarrow> dom_stack d = FArr ys # fs \<longrightarrow>
     (\<exists>tok s. scan strtod (t @ u @ CHR '']'' # r) = (tok, s) \<and> tok \<noteq> TEndArray \<and>
        sax_run strtod (AtValue tok s (True # st) d) =
        sax_run strtod (AfterValue (u @ CHR '']'' # r) (True # st) (d\<lparr>dom_stack := FArr (ys @ xs) # fs\<rparr>))))"

definition reads_members :: "(string \<Rightarrow> real option) \<Rightarrow> string \<Rightarrow> (string \<times> json) list \<Rightarrow> bool" where
  "reads_members strtod t kvs \<longleftrightarrow> (\<forall>u r st d acc e fs. ends_number (u @ CHR ''}'' # r) \<longrightarrow>
     dom_stack d = FObj acc e # fs \<longrightarrow> sorted_wrt (<) (map fst (acc @ kvs)) \<longrightarrow>
     (\<exists>k s e'. scan strtod (t @ u @ CHR ''}'' # r) = (TString k, s) \<and>
        sax_run strtod (read_key strtod (TString k) s (False # st) d) =
        sax_run strtod (AfterValue (u @ CHR ''}'' # r) (False # st) (d\<lparr>dom_stack := FObj (acc @ kvs) e' # fs\<rparr>))))"

lemma sax_after_comma:
  "scan strtod s = (TComma, s1) \<Longrightarrow> scan strtod s1 = (t, s2) \<Longrightarrow>
    sax_run strtod (AfterValue s (True # st) d) = sax_run strtod (AtValue t s2 (True # st) d)"
  "scan strtod s = (TComma, s1) \<Longrightarrow> scan strtod s1 = (t, s2) \<Longrightarrow>
    sax_run strtod (AfterValue s (False # st) d) = sax_run strtod (read_key strtod t s2 (False # st) d)"
  by (simp_all add: sax_run.simps(2))

lemma reads_elems_one:
  assumes "reads strtod t v" and "list_all json_ws i"
  shows "reads_elems strtod (i @ t) [v]"
  unfolding reads_elems_def
proof (intro allI impI)
  fix u r st and d :: dom and ys fs
  assume "ends_number (u @ CHR '']'' # r)" and d: "dom_stack d = FArr ys # fs"
  moreover have "awaits_value (dom_stack d)" by (simp add: d)
  ultimately obtain tok s where "scan strtod (t @ u @ CHR '']'' # r) = (tok, s)" "tok \<noteq> TEndArray"
    "\<forall>st. sax_run strtod (AtValue tok s st d) = sax_run strtod (AfterValue (u @ CHR '']'' # r) st (put v d))"
    using assms(1) by (elim readsD)
  with d show "\<exists>tok s. scan strtod ((i @ t) @ u @ CHR '']'' # r) = (tok, s) \<and> tok \<noteq> TEndArray \<and>
        sax_run strtod (AtValue tok s (True # st) d) =
        sax_run strtod (AfterValue (u @ CHR '']'' # r) (True # st) (d\<lparr>dom_stack := FArr (ys @ [v]) # fs\<rparr>))"
    by (simp add: scan_ws [OF assms(2)])
qed

lemma reads_elems_more:
  assumes "reads strtod t v" "reads_elems strtod ts xs" and "list_all json_ws i" "list_all json_ws l"
  shows "reads_elems strtod (i @ t @ '','' @ l @ ts) (v # xs)"
  unfolding reads_elems_def
proof (intro allI impI)
  fix u r st and d :: dom and ys fs
  assume en: "ends_number (u @ CHR '']'' # r)" and d: "dom_stack d = FArr ys # fs"
  define rest where "rest = '','' @ l @ ts @ u @ CHR '']'' # r"
  have "ends_number rest" by (simp add: rest_def ends_number_punct)
  moreover have "awaits_value (dom_stack d)" by (simp add: d)
  ultimately obtain tok s where 1: "scan strtod (t @ rest) = (tok, s)" "tok \<noteq> TEndArray"
    "\<forall>st. sax_run strtod (AtValue tok s st d) = sax_run strtod (AfterValue rest st (put v d))"
    using assms(1) by (elim readsD)
  define d' where "d' = d\<lparr>dom_stack := FArr (ys @ [v]) # fs\<rparr>"
  have "dom_stack d' = FArr (ys @ [v]) # fs" by (simp add: d'_def)
  with assms(2) en obtain tok2 s2 where 2: "scan strtod (ts @ u @ CHR '']'' # r) = (tok2, s2)"
    "sax_run strtod (AtValue tok2 s2 (True # st) d') =
     sax_run strtod (AfterValue (u @ CHR '']'' # r) (True # st) (d'\<lparr>dom_stack := FArr ((ys @ [v]) @ xs) # fs\<rparr>))"
    unfolding reads_elems_def by blast
  have "scan strtod rest = (TComma, l @ ts @ u @ CHR '']'' # r)" by (simp add: rest_def scan_punct)
  moreover have "scan strtod (l @ ts @ u @ CHR '']'' # r) = (tok2, s2)" using 2(1) by (simp add: scan_ws [OF assms(4)])
  ultimately have "sax_run strtod (AfterValue rest (True # st) d') = sax_run strtod (AtValue tok2 s2 (True # st) d')"
    by (rule sax_after_comma)
  with 1 2 d show "\<exists>tok s. scan strtod ((i @ t @ '','' @ l @ ts) @ u @ CHR '']'' # r) = (tok, s) \<and> tok \<noteq> TEndArray \<and>
        sax_run strtod (AtValue tok s (True # st) d) =
        sax_run strtod (AfterValue (u @ CHR '']'' # r) (True # st) (d\<lparr>dom_stack := FArr (ys @ v # xs) # fs\<rparr>))"
    by (simp add: scan_ws [OF assms(3)] rest_def d'_def)
qed

text \<open>A key and its value, the object open in front of them.\<close>

lemma reads_pair:
  assumes v: "reads strtod t v" and k: "utf8 k" and ws: "list_all json_ws i" "list_all json_ws c"
    and en: "ends_number r" and d: "dom_stack d = FObj acc e # fs" and less: "\<And>k'. k' \<in> fst ` set acc \<Longrightarrow> k' < k"
  shows "\<exists>s. scan strtod (i @ [quote] @ escaped_string ea k @ [quote] @ '':'' @ c @ t @ r) = (TString k, s) \<and>
    (\<forall>st. sax_run strtod (read_key strtod (TString k) s st d) =
      sax_run strtod (AfterValue r st (d\<lparr>dom_stack := FObj (acc @ [(k, v)]) (Some k) # fs\<rparr>)))"
proof -
  define d' where "d' = d\<lparr>dom_stack := FObj (acc @ [(k, JNull)]) (Some k) # fs\<rparr>"
  have key: "dom_key k d = Some d'"
    using less by (simp add: dom_key_def d no_such_key ins_key_last d'_def)
  have "awaits_value (dom_stack d')" by (simp add: d'_def)
  with v en obtain tok s where 1: "scan strtod (t @ r) = (tok, s)"
    "\<forall>st. sax_run strtod (AtValue tok s st d') = sax_run strtod (AfterValue r st (put v d'))"
    by (elim readsD)
  have put: "put v d' = d\<lparr>dom_stack := FObj (acc @ [(k, v)]) (Some k) # fs\<rparr>"
    using less by (simp add: d'_def put_def handle_value_def ins_key_again)
  have "scan strtod (i @ [quote] @ escaped_string ea k @ [quote] @ '':'' @ c @ t @ r) = (TString k, '':'' @ c @ t @ r)"
    unfolding scan_ws [OF ws(1)] by (rule scan_string [OF k])
  moreover have "sax_run strtod (read_key strtod (TString k) ('':'' @ c @ t @ r) st d)
      = sax_run strtod (AfterValue r st (d\<lparr>dom_stack := FObj (acc @ [(k, v)]) (Some k) # fs\<rparr>))" for st
    using 1 by (simp add: read_key_def key with_dom_def scan_punct scan_ws [OF ws(2)] put)
  ultimately show ?thesis by blast
qed

lemma reads_members_one:
  assumes "reads strtod t v" "utf8 k" "list_all json_ws i" "list_all json_ws c"
  shows "reads_members strtod (i @ [quote] @ escaped_string ea k @ [quote] @ '':'' @ c @ t) [(k, v)]"
  unfolding reads_members_def
proof (intro allI impI)
  fix u r st and d :: dom and acc e fs
  assume "ends_number (u @ CHR ''}'' # r)" and d: "dom_stack d = FObj acc e # fs"
    and sorted: "sorted_wrt (<) (map fst (acc @ [(k, v)]))"
  have less: "\<And>k'. k' \<in> fst ` set acc \<Longrightarrow> k' < k" using sorted by (auto simp: sorted_wrt_append)
  from reads_pair [OF assms \<open>ends_number (u @ CHR ''}'' # r)\<close> d less, of ea]
  show "\<exists>k' s e'. scan strtod ((i @ [quote] @ escaped_string ea k @ [quote] @ '':'' @ c @ t) @ u @ CHR ''}'' # r) = (TString k', s) \<and>
        sax_run strtod (read_key strtod (TString k') s (False # st) d) =
        sax_run strtod (AfterValue (u @ CHR ''}'' # r) (False # st) (d\<lparr>dom_stack := FObj (acc @ [(k, v)]) e' # fs\<rparr>))"
    by (simp only: append_assoc) blast
qed

lemma reads_members_more:
  assumes pair: "reads strtod t v" "utf8 k" "list_all json_ws i" "list_all json_ws c"
    and more: "reads_members strtod ts kvs" and l: "list_all json_ws l"
  shows "reads_members strtod ((i @ [quote] @ escaped_string ea k @ [quote] @ '':'' @ c @ t) @ '','' @ l @ ts) ((k, v) # kvs)"
  unfolding reads_members_def
proof (intro allI impI)
  fix u r st and d :: dom and acc e fs
  assume en: "ends_number (u @ CHR ''}'' # r)" and d: "dom_stack d = FObj acc e # fs"
    and sorted: "sorted_wrt (<) (map fst (acc @ (k, v) # kvs))"
  define rest where "rest = '','' @ l @ ts @ u @ CHR ''}'' # r"
  define d' where "d' = d\<lparr>dom_stack := FObj (acc @ [(k, v)]) (Some k) # fs\<rparr>"
  have less: "\<And>k'. k' \<in> fst ` set acc \<Longrightarrow> k' < k" using sorted by (auto simp: sorted_wrt_append)
  have "ends_number rest" by (simp add: rest_def ends_number_punct)
  from reads_pair [OF pair this d less, of ea] obtain s where
    1: "scan strtod (i @ [quote] @ escaped_string ea k @ [quote] @ '':'' @ c @ t @ rest) = (TString k, s)"
      "\<forall>st. sax_run strtod (read_key strtod (TString k) s st d) = sax_run strtod (AfterValue rest st d')"
    unfolding d'_def by blast
  have d': "dom_stack d' = FObj (acc @ [(k, v)]) (Some k) # fs" by (simp add: d'_def)
  have "sorted_wrt (<) (map fst ((acc @ [(k, v)]) @ kvs))" using sorted by simp
  with more en d' obtain k2 s2 e2 where
    2: "scan strtod (ts @ u @ CHR ''}'' # r) = (TString k2, s2)"
      "sax_run strtod (read_key strtod (TString k2) s2 (False # st) d') =
       sax_run strtod (AfterValue (u @ CHR ''}'' # r) (False # st) (d'\<lparr>dom_stack := FObj ((acc @ [(k, v)]) @ kvs) e2 # fs\<rparr>))"
    unfolding reads_members_def by blast
  have "scan strtod rest = (TComma, l @ ts @ u @ CHR ''}'' # r)" by (simp add: rest_def scan_punct)
  moreover have "scan strtod (l @ ts @ u @ CHR ''}'' # r) = (TString k2, s2)" using 2(1) by (simp add: scan_ws [OF l])
  ultimately have "sax_run strtod (AfterValue rest (False # st) d') = sax_run strtod (read_key strtod (TString k2) s2 (False # st) d')"
    by (rule sax_after_comma)
  with 1(2) 2(2) have "sax_run strtod (read_key strtod (TString k) s (False # st) d) =
        sax_run strtod (AfterValue (u @ CHR ''}'' # r) (False # st) (d\<lparr>dom_stack := FObj (acc @ (k, v) # kvs) e2 # fs\<rparr>))"
    by (simp add: d'_def)
  with 1(1) show "\<exists>k' s e'. scan strtod (((i @ [quote] @ escaped_string ea k @ [quote] @ '':'' @ c @ t) @ '','' @ l @ ts)
          @ u @ CHR ''}'' # r) = (TString k', s) \<and>
        sax_run strtod (read_key strtod (TString k') s (False # st) d) =
        sax_run strtod (AfterValue (u @ CHR ''}'' # r) (False # st) (d\<lparr>dom_stack := FObj (acc @ (k, v) # kvs) e' # fs\<rparr>))"
    unfolding rest_def by (simp only: append_assoc) blast
qed

text \<open>Brackets around them.\<close>

lemma sax_close_array:
  assumes "dom_stack d = FArr xs # fs" "awaits_value fs" "list_all json_ws u"
  shows "sax_run strtod (AfterValue (u @ CHR '']'' # r) (True # st) d) =
    sax_run strtod (AfterValue r st (put (JArr xs) (d\<lparr>dom_stack := fs\<rparr>)))"
  using assms by (simp add: sax_run.simps(2) scan_ws scan_punct end_array_def with_dom_def handle_value_put)

lemma sax_close_object:
  assumes "dom_stack d = FObj kvs e # fs" "awaits_value fs" "list_all json_ws u"
  shows "sax_run strtod (AfterValue (u @ CHR ''}'' # r) (False # st) d) =
    sax_run strtod (AfterValue r st (put (JObj kvs) (d\<lparr>dom_stack := fs\<rparr>)))"
  using assms by (simp add: sax_run.simps(2) scan_ws scan_punct end_object_def with_dom_def handle_value_put)

lemma reads_array:
  assumes es: "reads_elems strtod t xs" and ws: "list_all json_ws i" "list_all json_ws u"
    and en: "\<And>r. ends_number (u @ CHR '']'' # r)"
  shows "reads strtod (''['' @ i @ t @ u @ '']'') (JArr xs)"
  unfolding reads_def
proof (intro allI impI)
  fix r and d :: dom
  assume "ends_number r" and aw: "awaits_value (dom_stack d)"
  define d' where "d' = d\<lparr>dom_stack := FArr [] # dom_stack d\<rparr>"
  have "dom_stack d' = FArr [] # dom_stack d" by (simp add: d'_def)
  with es en [of r] have ex: "\<exists>tok s. scan strtod (t @ u @ CHR '']'' # r) = (tok, s) \<and> tok \<noteq> TEndArray \<and>
        sax_run strtod (AtValue tok s (True # st) d') =
        sax_run strtod (AfterValue (u @ CHR '']'' # r) (True # st) (d'\<lparr>dom_stack := FArr ([] @ xs) # dom_stack d\<rparr>))" for st
    unfolding reads_elems_def by blast
  then obtain tok s where 1: "scan strtod (t @ u @ CHR '']'' # r) = (tok, s)" "tok \<noteq> TEndArray" by blast
  have run: "sax_run strtod (AtValue tok s (True # st) d') = sax_run strtod (AfterValue r st (put (JArr xs) d))" for st
  proof -
    from ex [of st] 1 have "sax_run strtod (AtValue tok s (True # st) d') =
        sax_run strtod (AfterValue (u @ CHR '']'' # r) (True # st) (d'\<lparr>dom_stack := FArr xs # dom_stack d\<rparr>))"
      by auto
    with aw ws(2) show ?thesis by (simp add: sax_close_array d'_def)
  qed
  have "scan strtod ((''['' @ i @ t @ u @ '']'') @ r) = (TBeginArray, i @ t @ u @ CHR '']'' # r)"
    by (simp add: scan_punct)
  moreover have "sax_run strtod (AtValue TBeginArray (i @ t @ u @ CHR '']'' # r) st d) =
      sax_run strtod (AfterValue r st (put (JArr xs) d))" for st
    using aw 1 run
    by (simp add: sax_run_value value_step_def open_array_def start_array_def with_dom_def scan_ws [OF ws(1)] d'_def [symmetric])
  ultimately show "\<exists>tok s. scan strtod ((''['' @ i @ t @ u @ '']'') @ r) = (tok, s) \<and> tok \<noteq> TEndArray \<and>
      (\<forall>st. sax_run strtod (AtValue tok s st d) = sax_run strtod (AfterValue r st (put (JArr xs) d)))"
    by blast
qed

lemma reads_object:
  assumes ms: "reads_members strtod t kvs" and sorted: "sorted_wrt (<) (map fst kvs)"
    and ws: "list_all json_ws i" "list_all json_ws u" and en: "\<And>r. ends_number (u @ CHR ''}'' # r)"
  shows "reads strtod (''{'' @ i @ t @ u @ ''}'') (JObj kvs)"
  unfolding reads_def
proof (intro allI impI)
  fix r and d :: dom
  assume "ends_number r" and aw: "awaits_value (dom_stack d)"
  define d' where "d' = d\<lparr>dom_stack := FObj [] None # dom_stack d\<rparr>"
  have d': "dom_stack d' = FObj [] None # dom_stack d" by (simp add: d'_def)
  have "sorted_wrt (<) (map fst ([] @ kvs))" using sorted by simp
  with ms en [of r] d' have ex: "\<exists>k s e'. scan strtod (t @ u @ CHR ''}'' # r) = (TString k, s) \<and>
        sax_run strtod (read_key strtod (TString k) s (False # st) d') =
        sax_run strtod (AfterValue (u @ CHR ''}'' # r) (False # st) (d'\<lparr>dom_stack := FObj ([] @ kvs) e' # dom_stack d\<rparr>))" for st
    unfolding reads_members_def by blast
  then obtain k s where 1: "scan strtod (t @ u @ CHR ''}'' # r) = (TString k, s)" by blast
  have run: "sax_run strtod (read_key strtod (TString k) s (False # st) d') = sax_run strtod (AfterValue r st (put (JObj kvs) d))" for st
  proof -
    from ex [of st] 1 obtain e' where "sax_run strtod (read_key strtod (TString k) s (False # st) d') =
        sax_run strtod (AfterValue (u @ CHR ''}'' # r) (False # st) (d'\<lparr>dom_stack := FObj kvs e' # dom_stack d\<rparr>))"
      by auto
    with aw ws(2) show ?thesis by (simp add: sax_close_object d'_def)
  qed
  have "scan strtod ((''{'' @ i @ t @ u @ ''}'') @ r) = (TBeginObject, i @ t @ u @ CHR ''}'' # r)"
    by (simp add: scan_punct)
  moreover have "sax_run strtod (AtValue TBeginObject (i @ t @ u @ CHR ''}'' # r) st d) =
      sax_run strtod (AfterValue r st (put (JObj kvs) d))" for st
    using aw 1 run
    by (simp add: sax_run_value value_step_def open_object_def start_object_def with_dom_def scan_ws [OF ws(1)] d'_def [symmetric])
  ultimately show "\<exists>tok s. scan strtod ((''{'' @ i @ t @ u @ ''}'') @ r) = (tok, s) \<and> tok \<noteq> TEndArray \<and>
      (\<forall>st. sax_run strtod (AtValue tok s st d) = sax_run strtod (AfterValue r st (put (JObj kvs) d)))"
    by blast
qed

section \<open>Every printable value is read back\<close>

lemma reads_scalars:
  "reads strtod ''null'' JNull" "reads strtod (if b then ''true'' else ''false'') (JBool b)"
  "utf8 s \<Longrightarrow> reads strtod ([quote] @ escaped_string ea s @ [quote]) (JStr s)"
  "float_ok strtod fs x \<Longrightarrow> reads strtod (fs x) (JNum x)"
  "- (2 ^ 63) \<le> n \<Longrightarrow> n < 2 ^ 64 \<Longrightarrow> reads strtod (int_str n) (JInt n)"
proof -
  show "reads strtod ''null'' JNull"
    by (rule reads_scalar [where tok = TNull]) (simp_all only: scan_literals value_step_def token.case token.distinct not_False_eq_True)
  show "reads strtod (if b then ''true'' else ''false'') (JBool b)"
  proof (cases b)
    case True
    have "reads strtod ''true'' (JBool True)"
      by (rule reads_scalar [where tok = TTrue]) (simp_all only: scan_literals value_step_def token.case token.distinct not_False_eq_True)
    with True show ?thesis by simp
  next
    case False
    have "reads strtod ''false'' (JBool False)"
      by (rule reads_scalar [where tok = TFalse]) (simp_all only: scan_literals value_step_def token.case token.distinct not_False_eq_True)
    with False show ?thesis by simp
  qed
  show "utf8 s \<Longrightarrow> reads strtod ([quote] @ escaped_string ea s @ [quote]) (JStr s)"
    by (rule reads_scalar [where tok = "TString s"]) (simp_all only: append_assoc scan_string value_step_def token.case token.distinct not_False_eq_True)
  show "float_ok strtod fs x \<Longrightarrow> reads strtod (fs x) (JNum x)"
    by (rule reads_scalar [where tok = "TFloat (Some x)"]) (simp_all add: float_ok_def scan_float value_step_def)
  show "- (2 ^ 63) \<le> n \<Longrightarrow> n < 2 ^ 64 \<Longrightarrow> reads strtod (int_str n) (JInt n)"
    by (rule reads_scalar [where tok = "int_token n"]) (simp_all only: scan_int, simp_all add: value_step_def)
qed

lemma reads_empty: "reads strtod ''{}'' (JObj [])" "reads strtod ''[]'' (JArr [])"
  unfolding reads_def
  by (auto simp: scan_punct sax_run_value value_step_def open_object_def open_array_def start_object_def start_array_def end_object_def end_array_def
      with_dom_def handle_value_put)

lemma dump_int: "- (2 ^ 63) \<le> n \<Longrightarrow> n < 2 ^ 64 \<Longrightarrow> dump_integer (n < 0) (word_of_int n) number_buffer = int_str n"
proof -
  assume n: "- (2 ^ 63) \<le> n" "n < 2 ^ 64"
  have buf: "length number_buffer = 64" by (simp add: number_buffer_def)
  show ?thesis
  proof (cases "n < 0")
    case True
    with n have "sint (word_of_int n :: 64 word) = n"
      by (simp only: sint_sbintrunc') (simp add: signed_take_bit_int_eq_self)
    with True dump_integer_correct(1) [OF buf, of "word_of_int n"] show ?thesis by simp
  next
    case False
    with n have "uint (word_of_int n :: 64 word) = n"
      by (simp only: uint_word_of_int_eq) (simp add: take_bit_int_eq_self)
    with False dump_integer_correct(2) [OF buf, of "word_of_int n"] show ?thesis by simp
  qed
qed

lemma layout_ends: "ends_number (line_end w @ indentation w n @ CHR '']'' # r)"
  "ends_number (line_end w @ indentation w n @ CHR ''}'' # r)"
  by (simp_all add: line_end_def indentation_def ends_number_punct)

lemma dump_reads:
  "json_wf (float_ok strtod (float_str w)) v \<Longrightarrow> \<exists>t. dump_json_text w ind v = Val t \<and> reads strtod t v"
  "elems_wf (float_ok strtod (float_str w)) xs \<Longrightarrow> xs \<noteq> [] \<Longrightarrow>
     \<exists>t. dump_elements w ind xs = Val t \<and> reads_elems strtod t xs"
  "members_wf (float_ok strtod (float_str w)) kvs \<Longrightarrow> kvs \<noteq> [] \<Longrightarrow>
     \<exists>t. dump_members w ind kvs = Val t \<and> reads_members strtod t kvs"
proof (induction w ind v and w ind xs and w ind kvs rule: dump_json_text_dump_elements_dump_members.induct)
  case (1 w ind kvs)
  show ?case
  proof (cases "kvs = []")
    case True
    then show ?thesis by (simp add: reads_empty)
  next
    case False
    with 1 obtain ms where ms: "dump_members w (ind + indent_step w) kvs = Val ms" "reads_members strtod ms kvs"
      by auto
    have "reads strtod (''{'' @ line_end w @ ms @ (line_end w @ indentation w ind) @ ''}'') (JObj kvs)"
      using 1(2) layout_ends by (intro reads_object [OF ms(2)]) simp_all
    with False ms(1) show ?thesis by simp
  qed
next
  case (2 w ind xs)
  show ?case
  proof (cases "xs = []")
    case True
    then show ?thesis by (simp add: reads_empty)
  next
    case False
    with 2 obtain es where es: "dump_elements w (ind + indent_step w) xs = Val es" "reads_elems strtod es xs"
      by auto
    have "reads strtod (''['' @ line_end w @ es @ (line_end w @ indentation w ind) @ '']'') (JArr xs)"
      using layout_ends by (intro reads_array [OF es(2)]) simp_all
    with False es(1) show ?thesis by simp
  qed
next
  case (3 w ind s)
  then show ?case using reads_scalars(3) [of s strtod "ensure_ascii w"] by (simp add: dump_escaped_utf8)
next
  case (4 w ind b)
  then show ?case by (simp add: reads_scalars del: if_split)
next
  case (5 w ind n)
  then show ?case by (simp add: dump_int reads_scalars)
next
  case (6 w ind x)
  then show ?case by (simp add: reads_scalars)
next
  case (7 w ind)
  then show ?case by (simp add: reads_scalars)
next
  case (8 w ind)
  then show ?case by simp
next
  case (9 w ind x xs)
  then obtain t where t: "dump_json_text w ind x = Val t" "reads strtod t x" by auto
  show ?case
  proof (cases "xs = []")
    case True
    then show ?thesis using t reads_elems_one [OF t(2), of "indentation w ind"] by simp
  next
    case False
    with 9 t(1) obtain ts where ts: "dump_elements w ind xs = Val ts" "reads_elems strtod ts xs" by auto
    with False t reads_elems_more [OF t(2) ts(2), of "indentation w ind" "line_end w"] show ?thesis by simp
  qed
next
  case (10 w ind)
  then show ?case by simp
next
  case (11 w ind k v kvs)
  have key: "dump_escaped (ensure_ascii w) (handler w) k = Val (escaped_string (ensure_ascii w) k)" "utf8 k"
    using 11(3) by (simp_all add: dump_escaped_utf8)
  with 11 obtain t where t: "dump_json_text w ind v = Val t" "reads strtod t v" by auto
  define c where "c = (if pretty w then '' '' else [])"
  have c: "list_all json_ws c" by (simp add: c_def json_ws_def)
  have sep: "(if pretty w then [quote] @ '': '' else [quote] @ '':'') = [quote] @ '':'' @ c" by (simp add: c_def)
  show ?case
  proof (cases "kvs = []")
    case True
    then show ?thesis
      using reads_members_one [OF t(2) key(2) layout_ws(1) [of w ind] c, of "ensure_ascii w"] key t(1) sep
      by (simp add: Let_def)
  next
    case False
    with 11(2) [OF refl False _ False] 11(3) obtain ms where
      ms: "dump_members w ind kvs = Val ms" "reads_members strtod ms kvs" by auto
    from reads_members_more [OF t(2) key(2) layout_ws(1) [of w ind] c ms(2) layout_ws(2) [of w], of "ensure_ascii w"]
    show ?thesis using False ms(1) key t(1) sep by (simp add: Let_def)
  qed
qed

lemma reads_parse:
  assumes "reads strtod t v"
  shows "json_parse strtod t = Inr v"
proof -
  have "ends_number []" "awaits_value (dom_stack dom_empty)"
    by (simp_all add: ends_number_def dom_empty_def)
  with assms obtain tok s where scan: "scan strtod (t @ []) = (tok, s)"
    and run: "\<forall>st. sax_run strtod (AtValue tok s st dom_empty) = sax_run strtod (AfterValue [] st (put v dom_empty))"
    by (elim readsD)
  have "sax_run strtod (AfterValue [] [] (put v dom_empty)) = Inr ([], put v dom_empty)"
    by (simp add: sax_run.simps(2))
  with run have run: "sax_run strtod (AtValue tok s [] dom_empty) = Inr ([], put v dom_empty)" by simp
  have "skip_bom t = Some t"
  proof (cases t)
    case (Cons c r)
    have "c \<noteq> CHR 0xEF"
    proof
      assume "c = CHR 0xEF"
      then have "tok = TError ''invalid literal''" "s = []"
        using scan Cons by (simp_all add: scan_def skip_whitespace_def json_ws_def scan_token_def isdigit_def Let_def)
      with run show False by (simp add: sax_run_value value_step_def)
    qed
    with Cons show ?thesis by (simp add: skip_bom_def)
  qed (simp add: skip_bom_def)
  then have "scan_first strtod t = (tok, s)" using scan by (simp add: scan_first_def)
  moreover have "scan strtod [] = (TEnd, [])" by (simp add: scan_def skip_whitespace_def)
  moreover have "dom_root (put v dom_empty) = v" by (simp add: put_def handle_value_def dom_empty_def)
  ultimately show ?thesis using run by (simp add: json_parse_def)
qed

theorem dump_parse:
  assumes "json_wf (float_ok strtod (float_str w)) v"
  shows "\<exists>t. dump_json_text w ind v = Val t \<and> json_parse strtod t = Inr v"
  using dump_reads(1) [OF assms] reads_parse by blast

end
