(* ===== verification/JsonSound.thy ===== *)
theory JsonSound
  imports JsonText
begin

text \<open>
  What the parser gives back is printable, and none of the assertions of the class that builds the
  value can fail: the stack \<open>states\<close> of the loop and the open containers agree at every
  place, and a value is only handed over where one is awaited.
\<close>

section \<open>Tokens\<close>

fun token_wf :: "(real \<Rightarrow> bool) \<Rightarrow> token \<Rightarrow> bool" where
  "token_wf F (TString s) = utf8 s"
| "token_wf F (TUnsigned n) = (0 \<le> n \<and> n < 2 ^ 64)"
| "token_wf F (TInteger n) = (- (2 ^ 63) \<le> n \<and> n \<le> 0)"
| "token_wf F (TFloat (Some x)) = F x"
| "token_wf F _ = True"

lemma digits_value_nonneg: "list_all isdigit ds \<Longrightarrow> 0 \<le> digits_value ds"
proof (induction ds rule: rev_induct)
  case Nil
  then show ?case by (simp add: digits_value_def)
next
  case (snoc c ds)
  then have "48 \<le> byte_of c" by (simp add: isdigit_def Let_def)
  with snoc show ?case by (simp add: digits_value_snoc)
qed

lemma run_number_float: "run_number st NFloat s = Inr (ty, ds, r) \<Longrightarrow> st \<noteq> NMinus \<Longrightarrow> ty = NFloat"
proof (induction s arbitrary: st ds)
  case Nil
  then show ?case by (cases st) (auto split: num_move.splits)
next
  case (Cons c s)
  have enter: "num_enter st NFloat = NFloat" using Cons.prems(2) by (cases st) simp_all
  have stay: "num_next st (Some c) \<noteq> NGoto NMinus" by (cases st) simp_all
  show ?case
  proof (cases "num_next st (Some c)")
    case (NGoto st')
    with Cons.prems enter obtain ds' where "run_number st' NFloat s = Inr (ty, ds', r)"
      by (auto simp: add_digit_Inr)
    moreover have "st' \<noteq> NMinus" using stay NGoto by auto
    ultimately show ?thesis by (rule Cons.IH)
  qed (use Cons.prems enter in auto)
qed

lemma run_number_integer:
  "run_number st ty s = Inr (ty', ds, r) \<Longrightarrow> st = NZero \<or> st = NAny1 \<Longrightarrow> ty' \<noteq> NFloat \<Longrightarrow> ty' = ty \<and> list_all isdigit ds"
proof (induction s arbitrary: st ds)
  case Nil
  then show ?case by auto
next
  case (Cons c s)
  show ?case
  proof (cases "num_next st (Some c)")
    case (NGoto st')
    with Cons.prems obtain ds' where ds: "ds = c # ds'" and run: "run_number st' ty s = Inr (ty', ds', r)"
      by (auto simp: add_digit_Inr)
    have "st' \<noteq> NDecimal1 \<and> st' \<noteq> NExponent"
    proof (rule ccontr)
      assume "\<not> ?thesis"
      with run have "\<exists>c' s'. s = c' # s' \<and> (\<exists>st2 ds2. num_next st' (Some c') = NGoto st2 \<and>
          run_number st2 NFloat s' = Inr (ty', ds2, r))"
        by (cases s) (auto simp: add_digit_Inr split: num_move.splits if_splits)
      then obtain c' s' st2 ds2 where "num_next st' (Some c') = NGoto st2" "run_number st2 NFloat s' = Inr (ty', ds2, r)" by blast
      moreover have "st2 \<noteq> NMinus" using calculation(1) by (cases st') (auto split: if_splits)
      ultimately show False using run_number_float Cons.prems(3) by blast
    qed
    with NGoto Cons.prems(2) have "st' = NAny1" "isdigit c" by (auto split: if_splits)
    with Cons.IH [OF run] Cons.prems(3) ds show ?thesis by simp
  next
    case NDone
    with Cons.prems show ?thesis by auto
  next
    case (NFail m)
    with Cons.prems show ?thesis by auto
  qed
qed

lemma isdigit_zero: "isdigit (CHR ''0'')"
  by (simp add: isdigit_def Let_def)

text \<open>Every number \<^verbatim>\<open>strtod\<close> gives satisfies \<open>F\<close>.\<close>

definition strtod_within :: "(string \<Rightarrow> real option) \<Rightarrow> (real \<Rightarrow> bool) \<Rightarrow> bool" where
  "strtod_within strtod F \<longleftrightarrow> (\<forall>s x. strtod s = Some x \<longrightarrow> F x)"

lemma scan_number_wf:
  assumes F: "strtod_within strtod F" and c: "c = CHR ''-'' \<or> isdigit c"
  shows "token_wf F (fst (scan_number strtod c s))"
proof -
  define st where "st = (if c = CHR ''-'' then NMinus else if c = CHR ''0'' then NZero else NAny1)"
  have float: "token_wf F (TFloat (strtod t))" for t
    using F by (cases "strtod t") (simp_all add: strtod_within_def)
  show ?thesis
  proof (cases "run_number st NUnsigned s")
    case (Inl m)
    then show ?thesis by (simp add: scan_number_def Let_def st_def)
  next
    case (Inr p)
    obtain ty ds r where p: "p = (ty, ds, r)" by (cases p) auto
    have tok: "fst (scan_number strtod c s) = number_token strtod ty (c # ds)"
      using Inr p by (simp add: scan_number_def Let_def st_def)
    show ?thesis
    proof (cases "c = CHR ''-''")
      case False
      then have "st = NZero \<or> st = NAny1" by (simp add: st_def)
      with run_number_integer Inr p have "ty \<noteq> NFloat \<Longrightarrow> ty = NUnsigned \<and> list_all isdigit (c # ds)"
        using c False by fastforce
      with digits_value_nonneg [of "c # ds"] float show ?thesis
        unfolding tok by (cases ty) (simp_all add: number_token_def Let_def)
    next
      case True
      then have "run_number NMinus NUnsigned s = Inr (ty, ds, r)" using Inr p by (simp add: st_def)
      then have "\<exists>c' st' s' ds'. (st' = NZero \<or> st' = NAny1) \<and> isdigit c' \<and> ds = c' # ds' \<and>
          run_number st' NInteger s' = Inr (ty, ds', r)"
        by (cases s) (auto simp: add_digit_Inr intro: isdigit_zero split: if_splits)
      then have "ty \<noteq> NFloat \<Longrightarrow> ty = NInteger \<and> list_all isdigit ds"
        using run_number_integer by fastforce
      with digits_value_nonneg [of ds] float show ?thesis
        unfolding tok by (cases ty) (simp_all add: number_token_def Let_def)
    qed
  qed
qed

lemma scan_wf:
  assumes F: "strtod_within strtod F"
  shows "token_wf F (fst (scan strtod s))"
proof (cases "skip_whitespace s")
  case Nil
  then show ?thesis by (simp add: scan_def)
next
  case (Cons c r)
  have str: "token_wf F (fst (case scan_chars r of Inl m \<Rightarrow> (TError m, []) | Inr (t, r') \<Rightarrow> (TString t, r')))"
    by (auto split: sum.split dest: scan_chars_utf8)
  have num: "c = CHR ''-'' \<or> isdigit c \<Longrightarrow> token_wf F (fst (scan_number strtod c r))"
    using F by (rule scan_number_wf)
  have "token_wf F (fst (scan_token strtod c r))"
    using str num unfolding scan_token_def scan_literal_def by (simp split: if_split)
  with Cons show ?thesis by (simp add: scan_def)
qed

section \<open>The value under construction\<close>

fun frame_wf :: "(real \<Rightarrow> bool) \<Rightarrow> frame \<Rightarrow> bool" where
  "frame_wf F (FArr xs) = elems_wf F xs"
| "frame_wf F (FObj kvs e) = (members_wf F kvs \<and> sorted_wrt (<) (map fst kvs) \<and> (\<forall>k. e = Some k \<longrightarrow> utf8 k))"

fun frame_fits :: "bool \<Rightarrow> frame \<Rightarrow> bool" where
  "frame_fits b (FArr xs) = b"
| "frame_fits b (FObj kvs e) = (\<not> b \<and> e \<noteq> None)"

definition dom_wf :: "(real \<Rightarrow> bool) \<Rightarrow> bool list \<Rightarrow> dom \<Rightarrow> bool" where
  "dom_wf F st d \<longleftrightarrow> json_wf F (dom_root d) \<and> list_all (frame_wf F) (dom_stack d) \<and> list_all2 frame_fits st (dom_stack d)"

fun place_wf :: "(real \<Rightarrow> bool) \<Rightarrow> place \<Rightarrow> bool" where
  "place_wf F (AtValue t s st d) = (token_wf F t \<and> dom_wf F st d)"
| "place_wf F (AfterValue s st d) = dom_wf F st d"
| "place_wf F (Finished s d) = json_wf F (dom_root d)"
| "place_wf F (Refused e) = (e \<noteq> Assertion)"

lemma set_ins_key: "set (ins_key k v kvs) \<subseteq> insert (k, v) (set kvs)"
  by (induction kvs) (auto split: if_splits)

lemma keys_ins_key: "fst ` set (ins_key k v kvs) = insert k (fst ` set kvs)"
  by (simp add: dom_map_of_conv_image_fst [symmetric])

lemma sorted_ins_key: "sorted_wrt (<) (map fst kvs) \<Longrightarrow> sorted_wrt (<) (map fst (ins_key k v kvs))"
proof (induction kvs)
  case (Cons p kvs)
  obtain k' v' where p: "p = (k', v')" by fastforce
  have tail: "sorted_wrt (<) (map fst (ins_key k v kvs))" and less: "\<And>x. x \<in> fst ` set kvs \<Longrightarrow> k' < x"
    using Cons by (auto simp: p)
  consider "k = k'" | "k < k'" | "k' < k" by fastforce
  then show ?case
  proof cases
    case 3
    then have "k \<noteq> k'" "\<not> k < k'" by auto
    moreover have "k' < x" if "x \<in> fst ` set (ins_key k v kvs)" for x
      using that 3 less unfolding keys_ins_key by auto
    ultimately show ?thesis using tail by (simp add: p)
  qed (use Cons.prems in \<open>auto simp: p dest: order.strict_trans\<close>)
qed simp

lemma members_wf_ins_key: "members_wf F kvs \<Longrightarrow> utf8 k \<Longrightarrow> json_wf F v \<Longrightarrow> members_wf F (ins_key k v kvs)"
  using set_ins_key [of k v kvs] unfolding members_wf_alt by fastforce

lemma handle_value_wf:
  assumes "dom_wf F st d" "json_wf F v"
  shows "place_wf F (with_dom (handle_value v d) (AfterValue s st))"
proof (cases "dom_stack d")
  case Nil
  with assms show ?thesis by (simp add: handle_value_def with_dom_def dom_wf_def)
next
  case (Cons f fs)
  show ?thesis
  proof (cases f)
    case (FArr xs)
    with Cons assms show ?thesis
      by (cases st) (auto simp: handle_value_def with_dom_def dom_wf_def)
  next
    case (FObj kvs e)
    with Cons assms(1) obtain k where e: "e = Some k" by (cases st) (auto simp: dom_wf_def)
    with Cons FObj assms show ?thesis
      by (cases st) (auto simp: handle_value_def with_dom_def dom_wf_def sorted_ins_key members_wf_ins_key)
  qed
qed

lemma dom_wf_awaits: "dom_wf F st d \<Longrightarrow> awaits_value (dom_stack d)"
  by (cases "dom_stack d" rule: awaits_value.cases; cases st) (auto simp: dom_wf_def)

section \<open>The steps of the loop\<close>

text \<open>What holds while an object is open and its next key is due.\<close>

definition object_open :: "(real \<Rightarrow> bool) \<Rightarrow> bool list \<Rightarrow> dom \<Rightarrow> bool" where
  "object_open F st d \<longleftrightarrow> (\<exists>kvs e fs. dom_stack d = FObj kvs e # fs \<and> members_wf F kvs \<and>
     sorted_wrt (<) (map fst kvs) \<and> json_wf F (dom_root d) \<and> list_all (frame_wf F) fs \<and> list_all2 frame_fits st fs)"

lemma read_key_wf:
  assumes F: "strtod_within strtod F" and "token_wf F t" and "object_open F st d"
  shows "place_wf F (read_key strtod t s (False # st) d)"
proof (cases "\<exists>k. t = TString k")
  case False
  then show ?thesis by (simp add: read_key_def split: token.split)
next
  case True
  then obtain k where t: "t = TString k" by blast
  with assms(2) have k: "utf8 k" by simp
  from assms(3) obtain kvs e fs where d: "dom_stack d = FObj kvs e # fs" and wf: "members_wf F kvs"
    "sorted_wrt (<) (map fst kvs)" "json_wf F (dom_root d)" "list_all (frame_wf F) fs" "list_all2 frame_fits st fs"
    unfolding object_open_def by blast
  define kvs' where "kvs' = (if map_of kvs k = None then ins_key k JNull kvs else kvs)"
  define d' where "d' = d\<lparr>dom_stack := FObj kvs' (Some k) # fs\<rparr>"
  have key: "dom_key k d = Some d'" by (simp add: dom_key_def d d'_def kvs'_def)
  have "members_wf F kvs'" "sorted_wrt (<) (map fst kvs')"
    using wf(1,2) k by (simp_all add: kvs'_def members_wf_ins_key sorted_ins_key)
  then have dom: "dom_wf F (False # st) d'" using wf k by (simp add: dom_wf_def d'_def)
  obtain t2 s2 where 2: "scan strtod s = (t2, s2)" by fastforce
  obtain t3 s3 where 3: "scan strtod s2 = (t3, s3)" by fastforce
  have "token_wf F t3" using scan_wf [OF F, where s = s2] 3 by simp
  with dom show ?thesis by (simp add: read_key_def t key with_dom_def 2 3)
qed

lemma end_object_wf: "object_open F st d \<Longrightarrow> place_wf F (with_dom (end_object d) (AfterValue s st))"
  unfolding object_open_def
  by (auto simp: end_object_def dom_wf_def intro!: handle_value_wf)

lemma end_array_wf: "dom_wf F (True # st) d \<Longrightarrow> place_wf F (with_dom (end_array d) (AfterValue s st))"
proof -
  assume wf: "dom_wf F (True # st) d"
  then obtain xs fs where "dom_stack d = FArr xs # fs" "elems_wf F xs"
    by (cases "dom_stack d" rule: awaits_value.cases) (auto simp: dom_wf_def elim: frame_fits.elims)
  with wf show ?thesis
    by (auto simp: end_array_def dom_wf_def intro!: handle_value_wf)
qed

lemma value_step_wf:
  assumes F: "strtod_within strtod F" and t: "token_wf F t" and d: "dom_wf F st d"
  shows "place_wf F (value_step strtod t s st d)"
proof -
  obtain t1 s1 where 1: "scan strtod s = (t1, s1)" by fastforce
  have t1: "token_wf F t1" using scan_wf [OF F, where s = s] 1 by simp
  note aw = dom_wf_awaits [OF d]
  show ?thesis
  proof (cases t)
    case TBeginObject
    define d' where "d' = d\<lparr>dom_stack := FObj [] None # dom_stack d\<rparr>"
    have "object_open F st d'" using d by (simp add: object_open_def dom_wf_def d'_def)
    then show ?thesis
      using end_object_wf read_key_wf [OF F t1] aw
      by (simp add: value_step_def open_object_def TBeginObject start_object_def with_dom_def [of "Some _"] 1 d'_def [symmetric])
  next
    case TBeginArray
    define d' where "d' = d\<lparr>dom_stack := FArr [] # dom_stack d\<rparr>"
    have "dom_wf F (True # st) d'" using d by (simp add: dom_wf_def d'_def)
    then show ?thesis
      using end_array_wf t1 aw
      by (simp add: value_step_def open_array_def TBeginArray start_array_def with_dom_def [of "Some _"] 1 d'_def [symmetric])
  next
    case (TFloat x)
    with t d show ?thesis by (cases x) (simp_all add: value_step_def handle_value_wf)
  qed (use t d in \<open>auto simp: value_step_def intro!: handle_value_wf\<close>)
qed

lemma after_step_wf:
  assumes F: "strtod_within strtod F" and d: "dom_wf F st d"
  shows "place_wf F (after_step strtod s st d)"
proof (cases st)
  case Nil
  with d show ?thesis by (simp add: dom_wf_def)
next
  case (Cons b st')
  obtain t1 s1 where 1: "scan strtod s = (t1, s1)" by fastforce
  obtain t2 s2 where 2: "scan strtod s1 = (t2, s2)" by fastforce
  have t2: "token_wf F t2" using scan_wf [OF F, where s = s1] 2 by simp
  show ?thesis
  proof (cases b)
    case True
    with Cons d show ?thesis using t2 end_array_wf by (simp add: 1 2)
  next
    case False
    then have "object_open F st' d"
      using d Cons by (cases "dom_stack d" rule: awaits_value.cases) (auto simp: dom_wf_def object_open_def)
    with False Cons show ?thesis using end_object_wf read_key_wf [OF F t2] by (simp add: 1 2)
  qed
qed

lemma sax_run_wf:
  assumes "strtod_within strtod F" and "place_wf F p"
  shows "case sax_run strtod p of Inl e \<Rightarrow> e \<noteq> Assertion | Inr (s, d) \<Rightarrow> json_wf F (dom_root d)"
  using assms
proof (induction strtod p rule: sax_run.induct)
  case (1 strtod t s st d)
  show ?case
  proof (cases "t = TEnd")
    case True
    then show ?thesis by (simp add: sax_run.simps(1))
  next
    case False
    have "place_wf F (value_step strtod t s st d)" using 1(3) by (intro value_step_wf [OF 1(2)]) simp_all
    with 1(1) [OF False 1(2)] False show ?thesis by (simp add: sax_run.simps(1))
  qed
next
  case (2 strtod s st d)
  have "place_wf F (after_step strtod s st d)" using 2(3) by (intro after_step_wf [OF 2(2)]) simp
  with 2(1) [OF 2(2)] show ?case by (simp add: sax_run.simps(2))
qed simp_all

theorem json_parse_wf:
  assumes F: "strtod_within strtod F"
  shows "case json_parse strtod text of Inl e \<Rightarrow> e \<noteq> Assertion | Inr v \<Rightarrow> json_wf F v"
proof -
  obtain t s where 1: "scan_first strtod text = (t, s)" by fastforce
  have "token_wf F t"
  proof (cases "skip_bom text")
    case None
    with 1 show ?thesis by (auto simp: scan_first_def)
  next
    case (Some r)
    with 1 scan_wf [OF F, where s = r] show ?thesis by (simp add: scan_first_def)
  qed
  moreover have "dom_wf F [] dom_empty" by (simp add: dom_wf_def dom_empty_def)
  ultimately have "place_wf F (AtValue t s [] dom_empty)" by simp
  from sax_run_wf [OF F this] show ?thesis
    unfolding json_parse_def 1 by (auto split: sum.splits prod.splits)
qed

end
