(* ===== verification/JsonCodec.thy ===== *)
theory JsonCodec
  imports JsonSound Auth
begin

text \<open>
  What the switch gets of the JSON library: \<^verbatim>\<open>dump(indent)\<close> and \<^verbatim>\<open>parse\<close> put in
  the place of the two parameters of the handlers' environment, the properties of the two, and the
  tokens of the API with their content really printed and parsed.
\<close>

text \<open>\<^verbatim>\<open>dump(indent)\<close>: one line when the indentation is negative; errors are thrown.\<close>

definition json_dump :: "(real \<Rightarrow> string) \<Rightarrow> int \<Rightarrow> json \<Rightarrow> string outcome" where
  "json_dump fs indent j = dump_json_text
     \<lparr>pretty = 0 \<le> indent, ensure_ascii = False, handler = Strict, indent_step = nat indent, float_str = fs\<rparr> 0 j"

definition json_env :: "(string \<Rightarrow> real option) \<Rightarrow> (real \<Rightarrow> string) \<Rightarrow> env \<Rightarrow> env" where
  "json_env strtod fs e = e\<lparr>parse_json := parse_text strtod,
     dump_json := (\<lambda>j. case json_dump fs (-1) j of Val t \<Rightarrow> t | _ \<Rightarrow> [])\<rparr>"

section \<open>Laws\<close>

lemma json_dump_reads:
  "json_wf (float_ok strtod fs) j \<Longrightarrow> \<exists>t. json_dump fs indent j = Val t \<and> json_parse strtod t = Inr j"
  unfolding json_dump_def by (rule dump_parse) simp

lemma json_env_reads:
  assumes "json_wf (float_ok strtod fs) j"
  shows "parse_json (json_env strtod fs e) (dump_json (json_env strtod fs e) j) = Some j"
  using json_dump_reads [OF assms, of "-1"] by (auto simp: json_env_def parse_text_def)

text \<open>A text without control characters.\<close>

definition one_line :: "string \<Rightarrow> bool" where
  "one_line t \<longleftrightarrow> list_all (\<lambda>c. 0x1F < byte_of c) t"

lemma one_line_append [simp]: "one_line (s @ t) = (one_line s \<and> one_line t)"
  by (simp add: one_line_def)

lemma one_line_Cons [simp]: "one_line (c # t) = (0x1F < byte_of c \<and> one_line t)"
  by (simp add: one_line_def)

lemma one_line_Nil [simp]: "one_line []"
  by (simp add: one_line_def)

lemma one_line_hex4: "one_line (hex4 n)"
proof -
  have "\<forall>d\<in>set [0..<16]. 0x1F < byte_of (''0123456789abcdef'' ! d)" by code_simp
  then have "0x1F < byte_of (''0123456789abcdef'' ! (k mod 16))" for k by simp
  then show ?thesis by (simp add: hex4_def Let_def)
qed

lemma one_line_char:
  assumes "utf8_char ch"
  shows "one_line (piece ea ch)"
proof -
  obtain c bs where ch: "ch = c # bs" using assms by (cases ch) (simp_all add: utf8_char_def)
  have esc: "one_line (escaped ea (code_point ch) (last ch))" if "0x1F < code_point ch \<longrightarrow> 0x1F < byte_of (last ch)"
    using that one_line_hex4 by (auto simp: escaped_def)
  show ?thesis
  proof (cases "bs = []")
    case True
    with single_byte [of c] assms esc show ?thesis by (simp add: piece_def ch)
  next
    case False
    then obtain rs where lead: "lead_ranges (byte_of c) = Some rs" and nb: "next_byte_in_range rs bs = Some (bs, [])"
      using assms by (auto simp: ch utf8_char_def split: option.splits)
    with False have "rs \<noteq> []" by auto
    from first_byte [OF lead this] have c: "0x1F < byte_of c" and rs: "\<forall>(lo, hi) \<in> set rs. 0x1F < lo"
      by (elim disjE exE conjE; simp)+
    have "one_line bs"
      using nb rs
    proof (induction rs bs arbitrary: rule: next_byte_in_range.induct)
      case (3 lo hi ranges d s)
      then show ?case by (auto split: if_splits)
    qed (auto split: if_splits)
    with c False have "one_line ch" by (simp add: ch)
    moreover from this have "one_line (butlast ch)" "0x1F < byte_of (last ch)"
      using False by (auto simp: one_line_def list_all_iff ch dest: in_set_butlastD)
    ultimately show ?thesis using esc by (simp add: piece_def)
  qed
qed

lemma one_line_string: "utf8 s \<Longrightarrow> one_line (escaped_string ea s)"
  by (induction s rule: utf8_induct) (simp_all add: escaped_string_char one_line_char)

lemma one_line_escaped: "dump_escaped ea Strict s = Val t \<Longrightarrow> one_line t"
proof (cases "utf8 s")
  case True
  then show "dump_escaped ea Strict s = Val t \<Longrightarrow> one_line t"
    using one_line_string [OF True, of ea] by (simp add: dump_escaped_utf8)
next
  case False
  then show "dump_escaped ea Strict s = Val t \<Longrightarrow> one_line t"
    using dump_escaped_strict [OF False, of ea] by auto
qed

lemma one_line_digits: "one_line (nat_str n)"
proof -
  have "list_all isdigit (nat_str n)" using nat_str_value by blast
  then show ?thesis by (auto simp: one_line_def list_all_iff isdigit_def Let_def)
qed

lemma one_line_integer: "one_line (dump_integer b x number_buffer)"
proof -
  have "length number_buffer = 64" by (simp add: number_buffer_def)
  from dump_integer_correct [OF this, of x] show ?thesis
    by (cases b) (simp_all add: int_str_def one_line_digits)
qed

lemma obind_Val: "obind m f = Val y \<longleftrightarrow> (\<exists>x. m = Val x \<and> f x = Val y)"
  by (cases m) simp_all

lemma dump_one_line:
  "\<not> pretty w \<Longrightarrow> handler w = Strict \<Longrightarrow> (\<And>x. one_line (float_str w x)) \<Longrightarrow> dump_json_text w ind j = Val t \<Longrightarrow> one_line t"
  "\<not> pretty w \<Longrightarrow> handler w = Strict \<Longrightarrow> (\<And>x. one_line (float_str w x)) \<Longrightarrow> dump_elements w ind xs = Val t \<Longrightarrow> one_line t"
  "\<not> pretty w \<Longrightarrow> handler w = Strict \<Longrightarrow> (\<And>x. one_line (float_str w x)) \<Longrightarrow> dump_members w ind kvs = Val t \<Longrightarrow> one_line t"
proof (induction w ind j and w ind xs and w ind kvs arbitrary: t and t and t
    rule: dump_json_text_dump_elements_dump_members.induct)
  case (1 w ind kvs)
  then show ?case by (cases "kvs = []") (auto simp: obind_Val line_end_def indentation_def)
next
  case (2 w ind xs)
  then show ?case by (cases "xs = []") (auto simp: obind_Val line_end_def indentation_def)
next
  case (3 w ind s)
  then show ?case by (auto simp: obind_Val dest: one_line_escaped)
next
  case (4 w ind b)
  then show ?case by (cases b) auto
next
  case (9 w ind x xs)
  then show ?case by (cases "xs = []") (auto simp: obind_Val line_end_def indentation_def)
next
  case (11 w ind k v kvs)
  from 11(6) obtain key t1 where key: "dump_escaped (ensure_ascii w) (handler w) k = Val key"
    and t1: "dump_json_text w ind v = Val t1"
    and rest: "if kvs = [] then t = [CHR 0x22] @ key @ [CHR 0x22] @ '':'' @ t1
      else \<exists>ms. dump_members w ind kvs = Val ms \<and> t = ([CHR 0x22] @ key @ [CHR 0x22] @ '':'' @ t1) @ '','' @ ms"
    using 11(3) by (auto simp: obind_Val Let_def line_end_def indentation_def split: if_splits)
  have "one_line key" using key 11(4) by (auto dest: one_line_escaped)
  moreover have "one_line t1" using 11(1) [OF 11(3-5) t1] .
  moreover have "one_line ms" if "dump_members w ind kvs = Val ms" "kvs \<noteq> []" for ms
    using 11(2) [OF refl that(2) 11(3-5) that(1)] .
  ultimately show ?case using rest by (auto split: if_splits)
qed (auto simp: one_line_integer)

lemma jobj_wf:
  assumes "\<forall>(k, v) \<in> set kvs. utf8 k \<and> json_wf F v"
  shows "json_wf F (jobj kvs)"
proof -
  have "members_wf F (fold (\<lambda>(k, v) m. ins_key k v m) kvs acc) \<and>
      sorted_wrt (<) (map fst (fold (\<lambda>(k, v) m. ins_key k v m) kvs acc))"
    if "members_wf F acc" "sorted_wrt (<) (map fst acc)" for acc
    using assms that
  proof (induction kvs arbitrary: acc)
    case (Cons p kvs)
    obtain k v where "p = (k, v)" by fastforce
    with Cons show ?case by (simp add: members_wf_ins_key sorted_ins_key)
  qed simp
  then show ?thesis by (simp add: jobj_def)
qed

lemma utf8_texts: "utf8 ''alg''" "utf8 ''HS256''" "utf8 ''typ''" "utf8 ''JWT''" "utf8 ''sub''" "utf8 ''role''" "utf8 ''iat''"
  "utf8 ''exp''" "utf8 ''TERMINAL''" "utf8 ''T''"
  by code_simp+

lemma jwt_header_wf: "json_wf F jwt_header"
  unfolding jwt_header_def by (rule jobj_wf) (simp add: utf8_texts)

lemma jwt_payload_wf:
  assumes "utf8 (au_owner ctx)" "utf8 (au_role ctx)" "int (now e + JWT_TTL) < 2 ^ 63"
  shows "json_wf F (jwt_payload e ctx)"
  unfolding jwt_payload_def using assms by (intro jobj_wf) (simp add: utf8_texts)

lemma json_env_simps [simp]:
  "now (json_env strtod fs e) = now e" "b64_encode (json_env strtod fs e) = b64_encode e"
  "b64_decode (json_env strtod fs e) = b64_decode e" "jwt_payload (json_env strtod fs e) ctx = jwt_payload e ctx"
  "b64_ok (json_env strtod fs e) s = b64_ok e s"
  by (simp_all add: json_env_def jwt_payload_def b64_ok_def)

text \<open>A value nested to any depth.\<close>

fun nest :: "nat \<Rightarrow> json" where
  "nest 0 = JArr []"
| "nest (Suc n) = JArr [nest n]"

lemma dump_nest: "json_dump fs (-1) (nest n) = Val (replicate (Suc n) (CHR ''['') @ replicate (Suc n) (CHR '']''))"
proof -
  define w where "w = \<lparr>pretty = False, ensure_ascii = False, handler = Strict, indent_step = 0, float_str = fs\<rparr>"
  have "dump_json_text w ind (nest n) = Val (replicate (Suc n) (CHR ''['') @ replicate (Suc n) (CHR '']''))" for ind
  proof (induction n arbitrary: ind)
    case (Suc n)
    have "\<not> pretty w" by (simp add: w_def)
    with Suc show ?case
      by (simp add: line_end_def indentation_def replicate_append_same [symmetric] del: replicate.simps(2)) (simp add: replicate_append_same)
  qed simp
  then show ?thesis by (simp add: json_dump_def w_def)
qed

lemma parse_any_depth: "json_parse strtod (replicate (Suc n) (CHR ''['') @ replicate (Suc n) (CHR '']'')) = Inr (nest n)"
proof -
  have "json_wf F (nest n)" for F by (induction n) simp_all
  then show ?thesis using json_dump_reads [of strtod _ "nest n" "-1"] by (auto simp: dump_nest)
qed

section \<open>Properties\<close>

text \<open>C9: A value is read back from its text: for every value of the switch whose strings are well-formed,
  whose integers fit 64 bits and whose numbers are read back from their shortest form, \<^verbatim>\<open>dump\<close> in
  either layout does not throw, and \<^verbatim>\<open>parse\<close> of what it writes gives exactly the value.\<close>

theorem json_roundtrip:
  assumes "json_wf (float_ok strtod fs) j"
  shows "\<exists>t. json_dump fs indent j = Val t \<and> json_parse strtod t = Inr j"
  using assms by (rule json_dump_reads)

definition demo_strtod :: "string \<Rightarrow> real option" where
  "demo_strtod s = (if s = ''1.5'' then Some (3 / 2) else None)"

definition demo_float_str :: "real \<Rightarrow> string" where
  "demo_float_str x = ''1.5''"

definition demo_json :: json where
  "demo_json = JObj [(''amount'', JNum (3 / 2)),
     (''names'', JArr [JStr [CHR 0xC3, CHR 0xA9, CHR 0x0A], JInt (- 9223372036854775808), JNull])]"

lemma demo_float: "float_ok demo_strtod demo_float_str (3 / 2)"
proof -
  have "float_text ''1.5''" by code_simp
  then show ?thesis by (simp add: float_ok_def demo_strtod_def demo_float_str_def)
qed

lemma demo_json_wf: "json_wf (float_ok demo_strtod demo_float_str) demo_json"
proof -
  have "utf8 ''amount''" "utf8 ''names''" "utf8 [CHR 0xC3, CHR 0xA9, CHR 0x0A]" by code_simp+
  moreover have "''amount'' < ''names''" by code_simp
  ultimately show ?thesis by (simp add: demo_json_def demo_float)
qed

lemma json_roundtrip_witness:
  "\<exists>t. json_dump demo_float_str 4 demo_json = Val t \<and> json_parse demo_strtod t = Inr demo_json"
  by (rule json_roundtrip [OF demo_json_wf])

text \<open>C10: Whatever \<^verbatim>\<open>parse\<close> accepts can be stored as text and read again: no assertion of the parser fails
  on any text, and an accepted value is printed without an exception, to a text that is read as
  the same value.\<close>

theorem parsed_again:
  assumes "strtod_within strtod (float_ok strtod fs)"
  shows "case json_parse strtod body of
      Inl e \<Rightarrow> e \<noteq> Assertion
    | Inr j \<Rightarrow> \<exists>t. json_dump fs indent j = Val t \<and> json_parse strtod t = Inr j"
  using json_parse_wf [OF assms, of body] json_dump_reads by (auto split: sum.splits)

definition demo_text :: string where
  "demo_text = ''{'' @ [quote] @ ''b'' @ [quote] @ '': 1.5, '' @ [quote] @ ''a'' @ [quote] @ '':[true, ''
     @ [quote, CHR 0xC3, CHR 0xA9, quote] @ '']}''"

lemma parsed_again_witness:
  "json_parse demo_strtod demo_text = Inr (JObj [(''a'', JArr [JBool True, JStr [CHR 0xC3, CHR 0xA9]]), (''b'', JNum (3 / 2))]) \<and>
   (\<exists>t. json_dump demo_float_str (-1) (JObj [(''a'', JArr [JBool True, JStr [CHR 0xC3, CHR 0xA9]]), (''b'', JNum (3 / 2))]) = Val t \<and>
      json_parse demo_strtod t = Inr (JObj [(''a'', JArr [JBool True, JStr [CHR 0xC3, CHR 0xA9]]), (''b'', JNum (3 / 2))]))"
proof -
  have "strtod_within demo_strtod (float_ok demo_strtod demo_float_str)"
    unfolding strtod_within_def
  proof (intro allI impI)
    fix s x
    assume "demo_strtod s = Some x"
    then have "x = 3 / 2" by (simp add: demo_strtod_def split: if_splits)
    then show "float_ok demo_strtod demo_float_str x" using demo_float by (simp only:)
  qed
  from parsed_again [OF this, where body = demo_text and indent = "-1"]
  have law: "case json_parse demo_strtod demo_text of
      Inl e \<Rightarrow> e \<noteq> Assertion
    | Inr j \<Rightarrow> \<exists>t. json_dump demo_float_str (-1) j = Val t \<and> json_parse demo_strtod t = Inr j" .
  have "json_parse demo_strtod demo_text = Inr (JObj [(''a'', JArr [JBool True, JStr [CHR 0xC3, CHR 0xA9]]), (''b'', JNum (3 / 2))])"
    by code_simp
  with law show ?thesis by simp
qed

text \<open>C34: The two checks of UTF-8 in the JSON library agree: a string of bytes that need no escape is taken by
  the lexer, byte by byte against its ranges, exactly when the decoder of the serializer, which
  walks a table, accepts it.\<close>

theorem utf8_checks_agree:
  assumes "list_all plain_byte s"
  shows "scan_chars (s @ [quote] @ r) = Inr (s, r) \<longleftrightarrow> (\<exists>t. dump_escaped ea Strict s = Val t)"
proof (cases "utf8 s")
  case True
  with assms show ?thesis by (auto simp: scan_plain [simplified] dump_escaped_utf8)
next
  case False
  then have "scan_chars (s @ [quote] @ r) \<noteq> Inr (s, r)" using scan_chars_utf8 by blast
  moreover obtain x where "dump_escaped ea Strict s = Exn x" using dump_escaped_strict [OF False] by blast
  ultimately show ?thesis by simp
qed

lemma utf8_checks_agree_witness:
  "(scan_chars ([CHR 0xC3, CHR 0xA9] @ [quote] @ []) = Inr ([CHR 0xC3, CHR 0xA9], []))
     = (\<exists>t. dump_escaped False Strict [CHR 0xC3, CHR 0xA9] = Val t) \<and>
   (scan_chars ([CHR 0xC3, CHR 0x28] @ [quote] @ []) = Inr ([CHR 0xC3, CHR 0x28], []))
     = (\<exists>t. dump_escaped False Strict [CHR 0xC3, CHR 0x28] = Val t)"
proof -
  have 1: "list_all plain_byte [CHR 0xC3, CHR 0xA9]" and 2: "list_all plain_byte [CHR 0xC3, CHR 0x28]" by code_simp+
  show ?thesis using utf8_checks_agree [OF 1] utf8_checks_agree [OF 2] by blast
qed

text \<open>C1: \<^verbatim>\<open>dump_integer\<close> writes the decimal form of every 64-bit integer, the smallest negative one
  included, whatever the buffer held before, and its characters with the sign stay inside the buffer.\<close>

theorem integer_text:
  assumes "length buf = 64"
  shows "dump_integer True x buf = int_str (sint x) \<and> dump_integer False x buf = int_str (uint x) \<and>
    1 + count_digits x < 64 - 1"
  using dump_integer_correct [OF assms, of x] count_digits_bound [of x] by simp

lemma integer_text_witness:
  "dump_integer True 0x8000000000000000 (replicate 64 (CHR ''x'')) = int_str (- 9223372036854775808) \<and>
   1 + count_digits 0x8000000000000000 < 64 - 1"
proof -
  have len: "length (replicate 64 (CHR ''x'')) = 64" by simp
  have "sint (0x8000000000000000 :: 64 word) = - 9223372036854775808" by simp
  then show ?thesis using integer_text [OF len, of "0x8000000000000000"] by (simp only: simp_thms)
qed

text \<open>The one-line text of a value has no control character in it, so that what is logged or stored as one
  line is one line: a line break in a string of the request is written as its escape.\<close>

theorem json_text_one_line:
  assumes "\<forall>x. one_line (fs x)" and "json_dump fs (-1) j = Val t"
  shows "list_all (\<lambda>c. 0x1F < byte_of c) t"
proof -
  have "one_line t"
    using assms(2) unfolding json_dump_def by (rule dump_one_line(1) [rotated 3]) (simp_all add: assms(1))
  then show ?thesis by (simp add: one_line_def)
qed

lemma json_text_one_line_witness:
  "json_dump demo_float_str (-1) (JStr [CHR 0x0A]) = Val [quote, backslash, CHR ''n'', quote] \<and>
   list_all (\<lambda>c. 0x1F < byte_of c) [quote, backslash, CHR ''n'', quote]"
proof -
  have fs: "\<forall>x. one_line (demo_float_str x)" by (simp add: demo_float_str_def)
  have "json_dump demo_float_str (-1) (JStr [CHR 0x0A]) = Val [quote, backslash, CHR ''n'', quote]" by code_simp
  from json_text_one_line [OF fs this] this show ?thesis by blast
qed

text \<open>C27: A token that was issued for an API key, its header and payload printed by \<^verbatim>\<open>dump\<close> and read by
  \<^verbatim>\<open>parse\<close>, is accepted exactly until an hour after its issue, and gives back the role and the
  owner it was issued for, whatever well-formed UTF-8 they are.\<close>

theorem jwt_text_roundtrip:
  assumes "utf8 (au_owner ctx)" "utf8 (au_role ctx)" and "int (now e + JWT_TTL) < 2 ^ 63"
    and "\<forall>s. json_dump fs (-1) jwt_header = Val s \<or> json_dump fs (-1) (jwt_payload e ctx) = Val s \<longrightarrow> b64_ok e s"
  shows "validateJWT ((json_env strtod fs e)\<lparr>now := t\<rparr>) (generateJWT (json_env strtod fs e) ctx) =
    (if t \<le> now e + JWT_TTL then ctx\<lparr>au_valid := True\<rparr> else no_auth)"
proof -
  have wf: "json_wf (float_ok strtod fs) jwt_header" "json_wf (float_ok strtod fs) (jwt_payload e ctx)"
    using assms(1-3) by (simp_all add: jwt_header_wf jwt_payload_wf)
  have ok: "b64_ok e (dump_json (json_env strtod fs e) j)"
    if j: "json_wf (float_ok strtod fs) j" "j = jwt_header \<or> j = jwt_payload e ctx" for j
  proof -
    obtain s where "json_dump fs (-1) j = Val s" using json_dump_reads [OF j(1)] by blast
    with assms(4) j(2) show ?thesis by (auto simp: json_env_def)
  qed
  have "jwt_codec_ok (json_env strtod fs e) ctx"
    using ok [OF wf(1)] ok [OF wf(2)] json_env_reads [OF wf(2), of e] by (simp add: jwt_codec_ok_def Let_def)
  from jwt_roundtrip [OF this] assms(3) show ?thesis by simp
qed

text \<open>An environment whose base64 knows the two texts of one token.\<close>

definition codec_env :: env where
  "codec_env = demo_env\<lparr>
     b64_encode := (\<lambda>s. if Val s = json_dump demo_float_str (-1) jwt_header then ''aaaa'' else ''bbbb''),
     b64_decode := (\<lambda>c. case json_dump demo_float_str (-1) (if c = ''aaaa'' then jwt_header else jwt_payload demo_env demo_ctx) of
        Val s \<Rightarrow> Some s | _ \<Rightarrow> None)\<rparr>"

lemma codec_env_simps: "now codec_env = 8640000" "jwt_payload codec_env ctx = jwt_payload demo_env ctx"
  by (simp_all add: codec_env_def demo_env_def jwt_payload_def)

lemma codec_env_ok:
  "\<forall>s. json_dump demo_float_str (-1) jwt_header = Val s \<or>
     json_dump demo_float_str (-1) (jwt_payload codec_env demo_ctx) = Val s \<longrightarrow> b64_ok codec_env s"
proof (intro allI impI)
  fix s
  assume s: "json_dump demo_float_str (-1) jwt_header = Val s \<or>
     json_dump demo_float_str (-1) (jwt_payload codec_env demo_ctx) = Val s"
  have "strip_pad ''aaaa'' = ''aaaa''" "re_pad ''aaaa'' = ''aaaa''" "list_all b64_char ''aaaa''"
    "strip_pad ''bbbb'' = ''bbbb''" "re_pad ''bbbb'' = ''bbbb''" "list_all b64_char ''bbbb''" by code_simp+
  with s show "b64_ok codec_env s"
    by (cases "json_dump demo_float_str (-1) jwt_header = Val s")
      (auto simp: b64_ok_def Let_def codec_env_simps, simp_all add: codec_env_def)
qed

lemma jwt_text_roundtrip_witness:
  "validateJWT ((json_env demo_strtod demo_float_str codec_env)\<lparr>now := 8643600\<rparr>)
     (generateJWT (json_env demo_strtod demo_float_str codec_env) demo_ctx) = demo_ctx \<and>
   validateJWT ((json_env demo_strtod demo_float_str codec_env)\<lparr>now := 8643601\<rparr>)
     (generateJWT (json_env demo_strtod demo_float_str codec_env) demo_ctx) = no_auth"
proof -
  have ctx: "utf8 (au_owner demo_ctx)" "utf8 (au_role demo_ctx)"
    by (simp_all add: demo_ctx_def utf8_texts)
  have small: "int (now codec_env + JWT_TTL) < 2 ^ 63" by (simp add: codec_env_simps JWT_TTL_def)
  show ?thesis
    using jwt_text_roundtrip [OF ctx small codec_env_ok, where strtod = demo_strtod and t = 8643600]
      jwt_text_roundtrip [OF ctx small codec_env_ok, where strtod = demo_strtod and t = 8643601]
    by (simp add: codec_env_simps JWT_TTL_def demo_ctx_def)
qed

end
